(* ===== verification/Prelude.thy ===== *)
theory Prelude
  imports Main "HOL-Library.Word" "HOL-Library.List_Lexorder" "HOL-Library.Char_ord"
    "HOL-Library.Product_Lexorder"
begin

text \<open>
  Shared vocabulary of the Leani verification library: Rust's machine integers and their
  saturating and checked operations, byte strings and their big-endian encodings, results,
  ordered tables (the model of a \<^verbatim>\<open>BTreeMap\<close> and of an SQL table with a primary key), and the
  interfaces (locales) that more than one component implements.
\<close>

unbundle bit_operations_syntax

section \<open>Machine integers\<close>

text \<open>
  An unsigned Rust integer is a word of its width. Plain \<^verbatim>\<open>+\<close>, \<^verbatim>\<open>-\<close> and \<^verbatim>\<open>*\<close> wrap, as they do in
  the release profile of the workspace.
\<close>

type_synonym u8 = "8 word"
type_synonym u16 = "16 word"
type_synonym u32 = "32 word"
type_synonym u64 = "64 word"
type_synonym bytes = "u8 list"

named_theorems word_nat \<open>reads the order and the operations of words on natural numbers\<close>

definition word_max :: "'a::len word" where
  "word_max = - 1"

definition saturating_add :: "'a::len word \<Rightarrow> 'a word \<Rightarrow> 'a word" where
  "saturating_add a b = (if unat a + unat b < 2 ^ LENGTH('a) then a + b else word_max)"

definition saturating_sub :: "'a::len word \<Rightarrow> 'a word \<Rightarrow> 'a word" where
  "saturating_sub a b = (if b \<le> a then a - b else 0)"

definition saturating_mul :: "'a::len word \<Rightarrow> 'a word \<Rightarrow> 'a word" where
  "saturating_mul a b = (if unat a * unat b < 2 ^ LENGTH('a) then a * b else word_max)"

definition checked_add :: "'a::len word \<Rightarrow> 'a word \<Rightarrow> 'a word option" where
  "checked_add a b = (if unat a + unat b < 2 ^ LENGTH('a) then Some (a + b) else None)"

definition checked_sub :: "'a::len word \<Rightarrow> 'a word \<Rightarrow> 'a word option" where
  "checked_sub a b = (if b \<le> a then Some (a - b) else None)"

declare word_le_nat_alt [word_nat] word_less_nat_alt [word_nat]

lemma unat_word_max: "unat (word_max :: 'a::len word) = 2 ^ LENGTH('a) - 1"
  by (simp add: word_max_def unsigned_minus_1_eq_mask mask_eq_exp_minus_1)

lemma unat_less_power [simp]: "unat (a :: 'a::len word) < 2 ^ LENGTH('a)"
  by (rule unsigned_less)

lemma word_eq_nat [word_nat]: "a = b \<longleftrightarrow> unat a = unat (b :: 'a::len word)"
  by (auto intro: unsigned_word_eqI)

lemma unat_plus_no_overflow:
  "unat (a :: 'a::len word) + unat b < 2 ^ LENGTH('a) \<Longrightarrow> unat (a + b) = unat a + unat b"
  by (simp add: unat_word_ariths)

lemma unat_saturating_add [word_nat]:
  "unat (saturating_add a b :: 'a::len word) = min (unat a + unat b) (2 ^ LENGTH('a) - 1)"
  by (auto simp: saturating_add_def unat_word_ariths unat_word_max)

lemma unat_saturating_sub [word_nat]:
  "unat (saturating_sub a b :: 'a::len word) = unat a - unat b"
  by (auto simp: saturating_sub_def unat_sub word_le_nat_alt)

lemma unat_saturating_mul [word_nat]:
  "unat (saturating_mul a b :: 'a::len word) = min (unat a * unat b) (2 ^ LENGTH('a) - 1)"
  by (auto simp: saturating_mul_def unat_word_ariths unat_word_max)

lemma checked_add_Some [word_nat]:
  "checked_add a b = Some c \<longleftrightarrow> unat (c :: 'a::len word) = unat a + unat b"
proof (cases "unat a + unat b < 2 ^ LENGTH('a)")
  case True
  then show ?thesis by (auto simp: checked_add_def word_eq_nat unat_plus_no_overflow)
next
  case False
  moreover have "unat c \<noteq> unat a + unat b"
    using unat_less_power [of c] False by linarith
  ultimately show ?thesis by (simp add: checked_add_def)
qed

lemma checked_add_None [word_nat]:
  "checked_add a b = None \<longleftrightarrow> 2 ^ LENGTH('a) \<le> unat (a :: 'a::len word) + unat b"
  by (auto simp: checked_add_def)

lemma checked_sub_Some [word_nat]:
  "checked_sub a b = Some c \<longleftrightarrow> unat (b :: 'a::len word) \<le> unat a \<and> unat c = unat a - unat b"
  by (auto simp: checked_sub_def word_eq_nat word_le_nat_alt unat_sub)

lemma checked_sub_None [word_nat]:
  "checked_sub a b = None \<longleftrightarrow> unat (a :: 'a::len word) < unat b"
  by (auto simp: checked_sub_def word_le_nat_alt)

lemma unat_minus_le: "b \<le> a \<Longrightarrow> unat (a - b :: 'a::len word) = unat a - unat b"
  by (simp add: unat_sub word_le_nat_alt)

lemma and_eq_iff_bits: "a AND b = b \<longleftrightarrow> (\<forall>n. bit b n \<longrightarrow> bit (a :: 'a::len word) n)"
  by (auto simp: bit_eq_iff bit_and_iff dest: bit_imp_le_length)

text \<open>The u64 instances with the width evaluated.\<close>

lemma unat_u64_bound [simp]: "unat (a :: u64) \<le> 18446744073709551615"
  using unat_less_power [of a] by simp

lemma unat_word_max_u64 [simp]: "unat (word_max :: u64) = 18446744073709551615"
  by (simp add: unat_word_max)

text \<open>
  Saturation composes: a saturating sum of saturated terms is the saturation of the exact
  sum, so a computation in saturating steps is the exact value capped at \<^verbatim>\<open>u64::MAX\<close>.
\<close>

definition cap64 :: "nat \<Rightarrow> nat" where
  "cap64 n = min n (2 ^ 64 - 1)"

lemma cap64_add: "cap64 (cap64 a + cap64 b) = cap64 (a + b)"
  by (auto simp: cap64_def min_def)

lemma cap64_mult: "cap64 (cap64 a * cap64 b) = cap64 (a * b)"
proof (cases "a \<le> 2 ^ 64 - 1 \<and> b \<le> 2 ^ 64 - 1")
  case True
  then show ?thesis by (simp add: cap64_def)
next
  case False
  show ?thesis
  proof (cases "a = 0 \<or> b = 0")
    case True
    then show ?thesis by (auto simp: cap64_def)
  next
    case nz: False
    have "a \<le> a * b" "b \<le> a * b" using nz by simp_all
    then have "2 ^ 64 - 1 \<le> a * b" using False by linarith
    moreover have "2 ^ 64 - 1 \<le> cap64 a * cap64 b"
    proof -
      have "cap64 a \<noteq> 0" "cap64 b \<noteq> 0" using nz by (simp_all add: cap64_def)
      then have "cap64 a \<le> cap64 a * cap64 b" "cap64 b \<le> cap64 a * cap64 b" by simp_all
      moreover have "2 ^ 64 - 1 \<le> cap64 a \<or> 2 ^ 64 - 1 \<le> cap64 b"
        using False unfolding cap64_def by linarith
      ultimately show ?thesis by linarith
    qed
    ultimately show ?thesis by (simp add: cap64_def)
  qed
qed

lemma cap64_cap64:
  "cap64 (cap64 a + b) = cap64 (a + b)" "cap64 (b + cap64 a) = cap64 (b + a)"
  "cap64 (unat (w :: u64)) = unat w"
  by (simp_all add: cap64_def min_def)

lemma unat_sat64: "unat (saturating_add a b :: u64) = cap64 (unat a + unat b)"
  by (simp add: unat_saturating_add cap64_def)

lemma unat_add64:
  "unat a = cap64 m \<Longrightarrow> unat b = cap64 n \<Longrightarrow> unat (saturating_add a b :: u64) = cap64 (m + n)"
  by (simp add: unat_sat64 cap64_add)

lemma unat_mul64: "unat (saturating_mul a b :: u64) = cap64 (unat a * unat b)"
  by (simp add: unat_saturating_mul cap64_def)

section \<open>Big-endian bytes\<close>

text \<open>
  \<^verbatim>\<open>to_be_bytes\<close> and \<^verbatim>\<open>from_be_bytes\<close>, and the byte image of the fixed-size hash and address
  newtypes, which are modelled as words of 256 and 160 bits.
\<close>

primrec be_digits :: "nat \<Rightarrow> nat \<Rightarrow> bytes" where
  "be_digits 0 x = []"
| "be_digits (Suc n) x = be_digits n (x div 256) @ [of_nat (x mod 256)]"

definition be_value :: "bytes \<Rightarrow> nat" where
  "be_value bs = foldl (\<lambda>acc b. acc * 256 + unat b) 0 bs"

definition to_be_bytes :: "nat \<Rightarrow> 'a::len word \<Rightarrow> bytes" where
  "to_be_bytes n w = be_digits n (unat w)"

definition from_be_bytes :: "bytes \<Rightarrow> 'a::len word" where
  "from_be_bytes bs = of_nat (be_value bs)"

lemma length_be_digits [simp]: "length (be_digits n x) = n"
  by (induction n arbitrary: x) simp_all

lemma length_to_be_bytes [simp]: "length (to_be_bytes n w) = n"
  by (simp add: to_be_bytes_def)

lemma be_value_Nil [simp]: "be_value [] = 0"
  by (simp add: be_value_def)

lemma be_value_snoc [simp]: "be_value (bs @ [b]) = be_value bs * 256 + unat b"
  by (simp add: be_value_def)

lemma be_value_be_digits: "be_value (be_digits n x) = x mod 256 ^ n"
proof (induction n arbitrary: x)
  case 0
  then show ?case by simp
next
  case (Suc n)
  have "be_value (be_digits (Suc n) x) = (x div 256 mod 256 ^ n) * 256 + x mod 256"
    by (simp add: Suc.IH unat_of_nat)
  also have "\<dots> = x mod 256 ^ Suc n"
    by (simp add: mod_mult2_eq)
  finally show ?case .
qed

lemma be_value_bound: "be_value bs < 256 ^ length bs"
proof (induction bs rule: rev_induct)
  case Nil
  then show ?case by simp
next
  case (snoc b bs)
  have "unat b < 256" using unat_less_power [of b] by simp
  then have "be_value bs * 256 + unat b < (be_value bs + 1) * 256" by simp
  also have "\<dots> \<le> 256 ^ length bs * 256" using snoc by simp
  finally show ?case by (simp add: mult.commute)
qed

lemma be_digits_be_value: "be_digits (length bs) (be_value bs) = bs"
proof (induction bs rule: rev_induct)
  case Nil
  then show ?case by simp
next
  case (snoc b bs)
  have b: "unat b < 256" using unat_less_power [of b] by simp
  with snoc show ?case by (simp add: div_add1_eq)
qed

lemma from_to_be_bytes:
  "LENGTH('a) = 8 * n \<Longrightarrow> from_be_bytes (to_be_bytes n (w :: 'a::len word)) = w"
proof -
  assume n: "LENGTH('a) = 8 * n"
  have "(256 :: nat) ^ n = 2 ^ LENGTH('a)" by (simp add: n power_mult)
  then have "be_value (to_be_bytes n w) = unat w"
    by (simp add: to_be_bytes_def be_value_be_digits)
  then show ?thesis by (simp add: from_be_bytes_def)
qed

lemma to_from_be_bytes:
  "LENGTH('a) = 8 * n \<Longrightarrow> length bs = n \<Longrightarrow>
    to_be_bytes n (from_be_bytes bs :: 'a::len word) = bs"
proof -
  assume n: "LENGTH('a) = 8 * n" and l: "length bs = n"
  have "(256 :: nat) ^ n = 2 ^ LENGTH('a)" by (simp add: n power_mult)
  then have "unat (from_be_bytes bs :: 'a word) = be_value bs"
    using be_value_bound [of bs] l by (simp add: from_be_bytes_def unat_of_nat)
  then show ?thesis using be_digits_be_value [of bs] l by (simp add: to_be_bytes_def)
qed

lemma be_value_append: "be_value (xs @ ys) = be_value xs * 256 ^ length ys + be_value ys"
  by (induction ys rule: rev_induct) (simp_all add: append_assoc [symmetric] algebra_simps
    del: append_assoc)

lemma be_value_Cons: "be_value (x # xs) = unat x * 256 ^ length xs + be_value xs"
  using be_value_append [of "[x]" xs] by (simp add: be_value_def)

lemma be_value_less:
  "length xs = length ys \<Longrightarrow> xs < ys \<longleftrightarrow> be_value xs < be_value ys"
proof (induction xs ys rule: list_induct2)
  case Nil
  then show ?case by simp
next
  case (Cons x xs y ys)
  let ?B = "256 ^ length ys :: nat"
  have b: "be_value xs < ?B" "be_value ys < ?B"
    using be_value_bound [of xs] be_value_bound [of ys] Cons.hyps by simp_all
  have le: "unat u * ?B + a < unat v * ?B + c" if "unat u < unat v" "a < ?B" for u v :: u8 and a c
  proof -
    have "unat u * ?B + a < (unat u + 1) * ?B" using that(2) by simp
    also have "\<dots> \<le> unat v * ?B" using that(1) by (intro mult_right_mono) simp_all
    finally show ?thesis by simp
  qed
  consider "x < y" | "x = y" | "y < x" by (rule linorder_cases)
  then show ?case
  proof cases
    case 1
    with le [of x y "be_value xs" "be_value ys"] b Cons.hyps show ?thesis
      by (simp add: be_value_Cons word_less_nat_alt)
  next
    case 2
    with Cons show ?thesis by (simp add: be_value_Cons)
  next
    case 3
    then have "unat y < unat x" "x \<noteq> y" "\<not> x < y" by (auto simp: word_less_nat_alt)
    with le [of y x "be_value ys" "be_value xs"] b Cons.hyps show ?thesis
      by (simp add: be_value_Cons)
  qed
qed

lemma to_be_bytes_less:
  "LENGTH('a) = 8 * n \<Longrightarrow> to_be_bytes n v < to_be_bytes n w \<longleftrightarrow> v < (w :: 'a::len word)"
proof -
  assume n: "LENGTH('a) = 8 * n"
  have "(256 :: nat) ^ n = 2 ^ LENGTH('a)" by (simp add: n power_mult)
  then show ?thesis
    by (simp add: be_value_less to_be_bytes_def be_value_be_digits word_less_nat_alt)
qed

lemma to_be_bytes_inject:
  "LENGTH('a) = 8 * n \<Longrightarrow> to_be_bytes n v = to_be_bytes n w \<longleftrightarrow> v = (w :: 'a::len word)"
  by (metis from_to_be_bytes)

lemma append_less_append:
  "length a = length c \<Longrightarrow> a @ b < c @ d \<longleftrightarrow> a < c \<or> a = c \<and> b < (d :: 'a::order list)"
  by (induction a c rule: list_induct2) auto

section \<open>Results\<close>

text \<open>A \<^verbatim>\<open>Result<T, E>\<close> is a sum with the error on the left, and \<^verbatim>\<open>?\<close> is its bind.\<close>

type_synonym ('a, 'e) result = "'e + 'a"

abbreviation Ok :: "'a \<Rightarrow> ('a, 'e) result" where
  "Ok \<equiv> Inr"

abbreviation Err :: "'e \<Rightarrow> ('a, 'e) result" where
  "Err \<equiv> Inl"

definition and_then :: "('a, 'e) result \<Rightarrow> ('a \<Rightarrow> ('b, 'e) result) \<Rightarrow> ('b, 'e) result" where
  "and_then r f = (case r of Inl e \<Rightarrow> Inl e | Inr a \<Rightarrow> f a)"

definition map_err :: "('e \<Rightarrow> 'f) \<Rightarrow> ('a, 'e) result \<Rightarrow> ('a, 'f) result" where
  "map_err f r = (case r of Inl e \<Rightarrow> Inl (f e) | Inr a \<Rightarrow> Inr a)"

definition ensure :: "bool \<Rightarrow> 'e \<Rightarrow> (unit, 'e) result" where
  "ensure c e = (if c then Ok () else Err e)"

definition ok_or :: "'a option \<Rightarrow> 'e \<Rightarrow> ('a, 'e) result" where
  "ok_or x e = (case x of None \<Rightarrow> Err e | Some a \<Rightarrow> Ok a)"

lemma and_then_simps [simp]:
  "and_then (Err e) f = Err e"
  "and_then (Ok a) f = f a"
  by (simp_all add: and_then_def)

lemma and_then_Ok [simp]: "and_then r f = Ok b \<longleftrightarrow> (\<exists>a. r = Ok a \<and> f a = Ok b)"
  by (cases r) auto

lemma ensure_Ok [simp]: "ensure c e = Ok u \<longleftrightarrow> c"
  by (simp add: ensure_def)

lemma ensure_simps [simp]:
  "ensure True e = Ok ()"
  "ensure False e = Err e"
  by (simp_all add: ensure_def)

lemma ensure_Err [simp]: "ensure c e = Err e' \<longleftrightarrow> \<not> c \<and> e' = e"
  by (auto simp: ensure_def)

lemma if_Err_eq_Ok: "(if c then Err e else r) = Ok v \<longleftrightarrow> \<not> c \<and> r = Ok v"
  by simp

lemma if_Some_eq_None: "(if c then Some x else y) = None \<longleftrightarrow> \<not> c \<and> y = None"
  by simp

lemma map_err_Ok [simp]: "map_err f r = Ok a \<longleftrightarrow> r = Ok a"
  by (cases r) (auto simp: map_err_def)

lemma ok_or_Ok [simp]: "ok_or x e = Ok a \<longleftrightarrow> x = Some a"
  by (cases x) (auto simp: ok_or_def)

section \<open>Ordered tables\<close>

text \<open>
  A table keyed by an ordered key, kept in key order without duplicates: the model of a
  \<^verbatim>\<open>BTreeMap\<close> and of an SQL table read through its primary key. Lookup is \<open>map_of\<close>.
\<close>

type_synonym ('k, 'v) table = "('k \<times> 'v) list"

fun tput :: "'k::linorder \<Rightarrow> 'v \<Rightarrow> ('k, 'v) table \<Rightarrow> ('k, 'v) table" where
  "tput k v [] = [(k, v)]"
| "tput k v (e # es) =
     (if fst e < k then e # tput k v es
      else (k, v) # (if fst e = k then es else e # es))"

definition tdel :: "'k \<Rightarrow> ('k, 'v) table \<Rightarrow> ('k, 'v) table" where
  "tdel k t = filter (\<lambda>e. fst e \<noteq> k) t"

definition ordered :: "('k::linorder, 'v) table \<Rightarrow> bool" where
  "ordered t = sorted_wrt (<) (map fst t)"

lemma ordered_Nil [simp]: "ordered []"
  by (simp add: ordered_def)

lemma ordered_Cons [simp]: "ordered (e # es) \<longleftrightarrow> (\<forall>k \<in> fst ` set es. fst e < k) \<and> ordered es"
  by (auto simp: ordered_def)

lemma ordered_distinct: "ordered t \<Longrightarrow> distinct (map fst t)"
  by (simp add: ordered_def strict_sorted_iff)

lemma keys_tput [simp]: "fst ` set (tput k v t) = insert k (fst ` set t)"
  by (induction t) auto

lemma ordered_tput [simp]: "ordered t \<Longrightarrow> ordered (tput k v t)"
  by (induction t) (auto simp: not_less order.order_iff_strict)

lemma ordered_filter [simp]: "ordered t \<Longrightarrow> ordered (filter P t)"
  by (induction t) auto

lemma ordered_tdel [simp]: "ordered t \<Longrightarrow> ordered (tdel k t)"
  by (simp add: tdel_def)

lemma map_of_tput [simp]: "ordered t \<Longrightarrow> map_of (tput k v t) = (map_of t)(k \<mapsto> v)"
proof (induction t)
  case Nil
  then show ?case by simp
next
  case (Cons e es)
  have "k \<notin> fst ` set es" if "k < fst e" using Cons.prems that by auto
  with Cons show ?case by (cases e) (auto simp: fun_eq_iff)
qed

lemma map_of_tdel [simp]: "map_of (tdel k t) = (map_of t)(k := None)"
  by (induction t) (auto simp: tdel_def fun_eq_iff)

lemma map_of_filter_keys:
  "map_of (filter (\<lambda>e. P (fst e)) t) k = (if P k then map_of t k else None)"
  by (induction t) auto

lemma map_of_filter_ordered:
  "ordered t \<Longrightarrow> map_of (filter P t) k =
    (case map_of t k of None \<Rightarrow> None | Some v \<Rightarrow> if P (k, v) then Some v else None)"
proof (induction t)
  case Nil
  then show ?case by simp
next
  case (Cons e es)
  have "map_of es (fst e) = None" using Cons.prems by (auto simp: map_of_eq_None_iff)
  with Cons show ?case by (cases e) auto
qed

lemma ordered_map_of_eq:
  "ordered s \<Longrightarrow> ordered t \<Longrightarrow> map_of s = map_of t \<Longrightarrow> s = t"
proof -
  assume s: "ordered s" and t: "ordered t" and eq: "map_of s = map_of t"
  then have same: "set s = set t"
    by (simp add: map_of_inject_set ordered_distinct)
  moreover have "inj_on fst (set s)"
    using ordered_distinct [OF s] by (simp add: distinct_map)
  ultimately show ?thesis
    using s t by (intro map_sorted_distinct_set_unique [of fst])
      (simp_all add: ordered_def strict_sorted_iff)
qed

lemma map_of_map_snd: "map_of (map (\<lambda>(k, v). (k, f k v)) t) k = map_option (f k) (map_of t k)"
  by (induction t) auto

lemma ordered_map_snd [simp]: "ordered (map (\<lambda>(k, v). (k, f k v)) t) = ordered t"
  by (simp add: ordered_def o_def case_prod_unfold)

section \<open>Interfaces\<close>

text \<open>
  A set of flags behind a bit representation: what the clients of \<^verbatim>\<open>CapabilitySet\<close> and
  \<^verbatim>\<open>LogFieldSet\<close> rely on.
\<close>

locale flag_set =
  fixes none :: "'s"
    and with_flag :: "'s \<Rightarrow> 'f \<Rightarrow> 's"
    and contains :: "'s \<Rightarrow> 'f \<Rightarrow> bool"
    and union :: "'s \<Rightarrow> 's \<Rightarrow> 's"
    and contains_all :: "'s \<Rightarrow> 's \<Rightarrow> bool"
  assumes contains_none: "\<not> contains none f"
    and contains_with: "contains (with_flag s f) g \<longleftrightarrow> g = f \<or> contains s g"
    and contains_union: "contains (union s t) f \<longleftrightarrow> contains s f \<or> contains t f"
    and contains_all_elem: "contains_all s r \<Longrightarrow> contains r f \<Longrightarrow> contains s f"
    and contains_all_refl: "contains_all s s"
    and contains_all_union1: "contains_all s r \<Longrightarrow> contains_all (union s t) r"
    and contains_all_union2: "contains_all t r \<Longrightarrow> contains_all (union s t) r"
begin

lemma contains_collect: "contains (foldl with_flag s fs) g \<longleftrightarrow> g \<in> set fs \<or> contains s g"
  by (induction fs arbitrary: s) (auto simp: contains_with)

lemma contains_unions:
  "contains (foldl (\<lambda>all r. union all (sel r)) s rs) f \<longleftrightarrow>
    contains s f \<or> (\<exists>r \<in> set rs. contains (sel r) f)"
  by (induction rs arbitrary: s) (auto simp: contains_union)

lemma unions_keep:
  "contains_all s r \<Longrightarrow> contains_all (foldl (\<lambda>all r. union all (sel r)) s rs) r"
  by (induction rs arbitrary: s) (auto intro: contains_all_union1)

lemma unions_cover:
  "r \<in> set rs \<Longrightarrow> contains_all (foldl (\<lambda>all r. union all (sel r)) s rs) (sel r)"
proof (induction rs arbitrary: s)
  case Nil
  then show ?case by simp
next
  case (Cons x rs)
  then show ?case
    by (auto intro: unions_keep contains_all_union2 contains_all_refl)
qed

end

text \<open>
  A predicate that every step keeps holds along every run: the induction that the state
  machines of the runtime and of the store share.
\<close>

locale kept_invariant =
  fixes step :: "'s \<Rightarrow> 's \<Rightarrow> bool" and inv :: "'s \<Rightarrow> bool"
  assumes step_keeps: "inv s \<Longrightarrow> step s t \<Longrightarrow> inv t"
begin

lemma run_keeps: "step\<^sup>*\<^sup>* s t \<Longrightarrow> inv s \<Longrightarrow> inv t"
  by (induction rule: rtranclp_induct) (auto intro: step_keeps)

end

end
