(* ===== verification/Cadences.thy ===== *)
theory Cadences
  imports Prelude
begin

text \<open>
  When blocks are due: \<^verbatim>\<open>Cadence\<close> of \<^verbatim>\<open>crates/chain/src/lib.rs\<close> and the cadences that the beacon
  network (\<^verbatim>\<open>beacon.rs\<close>) and the OP-stack network (\<^verbatim>\<open>op_stack.rs\<close>) of the same crate derive from
  their configuration. A division by a slot time of zero panics; the panic is an error value.
\<close>

datatype panic = DivideByZero

definition word_div :: "u64 \<Rightarrow> u64 \<Rightarrow> (u64, panic) result" where
  "word_div a b = (if b = 0 then Err DivideByZero else Ok (a div b))"

definition word_rem :: "u64 \<Rightarrow> u64 \<Rightarrow> (u64, panic) result" where
  "word_rem a b = (if b = 0 then Err DivideByZero else Ok (a mod b))"

definition unwrap_or :: "'a \<Rightarrow> 'a option \<Rightarrow> 'a" where
  "unwrap_or d x = (case x of None \<Rightarrow> d | Some a \<Rightarrow> a)"

lemma unwrap_or_simps [simp]: "unwrap_or d None = d" "unwrap_or d (Some a) = a"
  by (simp_all add: unwrap_or_def)

record cadence =
  genesis_time :: u64
  seconds :: u64
  first_block :: "u64 option"
  fast_from :: "u64 option"

definition FAST_SLOT_MS :: u64 where
  "FAST_SLOT_MS = 200"

definition legacy_start_ms :: "cadence \<Rightarrow> u64 \<Rightarrow> u64" where
  "legacy_start_ms c slot =
     saturating_mul
       (saturating_add (genesis_time c)
         (saturating_mul (saturating_sub slot (unwrap_or 0 (first_block c))) (seconds c)))
       1000"

definition slot_start_ms :: "cadence \<Rightarrow> u64 \<Rightarrow> u64" where
  "slot_start_ms c slot =
     (case fast_from c of
        Some fast \<Rightarrow>
          (if slot > fast
           then saturating_add (legacy_start_ms c fast) (saturating_mul (slot - fast) FAST_SLOT_MS)
           else legacy_start_ms c slot)
      | None \<Rightarrow> legacy_start_ms c slot)"

definition slot_start :: "cadence \<Rightarrow> u64 \<Rightarrow> u64" where
  "slot_start c slot = slot_start_ms c slot div 1000"

definition slot_ms :: "cadence \<Rightarrow> u64 \<Rightarrow> u64" where
  "slot_ms c slot =
     (case fast_from c of
        Some fast \<Rightarrow> (if slot \<ge> fast then FAST_SLOT_MS else saturating_mul (seconds c) 1000)
      | None \<Rightarrow> saturating_mul (seconds c) 1000)"

definition slot_starting_at :: "cadence \<Rightarrow> u64 \<Rightarrow> (u64 option, panic) result" where
  "slot_starting_at c ts =
     (if (case fast_from c of None \<Rightarrow> False | Some fast \<Rightarrow> ts \<ge> slot_start c fast) then Ok None
      else case checked_sub ts (genesis_time c) of
        None \<Rightarrow> Ok None
      | Some since \<Rightarrow>
          and_then (word_rem since (seconds c)) (\<lambda>rest.
          if rest = 0
          then and_then (word_div since (seconds c)) (\<lambda>q.
                 Ok (Some (unwrap_or 0 (first_block c) + q)))
          else Ok None))"

definition legacy_slot_at :: "cadence \<Rightarrow> u64 \<Rightarrow> (u64, panic) result" where
  "legacy_slot_at c ts =
     and_then (word_div (saturating_sub ts (genesis_time c)) (seconds c)) (\<lambda>q.
     Ok (unwrap_or 0 (first_block c) + q))"

definition slot_at :: "cadence \<Rightarrow> u64 \<Rightarrow> (u64, panic) result" where
  "slot_at c ts =
     (case fast_from c of
        Some fast \<Rightarrow>
          (let start = slot_start_ms c fast; now = saturating_mul ts 1000
           in if now \<ge> start then Ok (fast + (now - start) div FAST_SLOT_MS)
              else legacy_slot_at c ts)
      | None \<Rightarrow> legacy_slot_at c ts)"

definition header_slot :: "cadence \<Rightarrow> u64 \<Rightarrow> u64 \<Rightarrow> (u64 option, panic) result" where
  "header_slot c n ts =
     (case first_block c of
        Some first \<Rightarrow> Ok (if n \<ge> first \<and> slot_start c n = ts then Some n else None)
      | None \<Rightarrow> slot_starting_at c ts)"

definition next_slot_start_ms :: "cadence \<Rightarrow> u64 \<Rightarrow> u64 \<Rightarrow> u64" where
  "next_slot_start_ms c n ts =
     (case first_block c of
        Some _ \<Rightarrow> slot_start_ms c (saturating_add n 1)
      | None \<Rightarrow> saturating_mul (saturating_add ts (seconds c)) 1000)"

section \<open>Networks\<close>

record beacon_network =
  bn_genesis_time :: u64
  bn_seconds_per_slot :: u64

definition beacon_cadence :: "beacon_network \<Rightarrow> cadence" where
  "beacon_cadence n = \<lparr>genesis_time = bn_genesis_time n, seconds = bn_seconds_per_slot n,
     first_block = None, fast_from = None\<rparr>"

record op_stack_network =
  op_block_time :: u64
  op_first_block :: u64
  op_first_block_time :: u64
  op_forks :: "(string \<times> u64) list"

definition activation :: "op_stack_network \<Rightarrow> string \<Rightarrow> u64 option" where
  "activation n fork = map_option snd (List.find (\<lambda>(name, _). name = fork) (op_forks n))"

text \<open>\<^verbatim>\<open>u64::div_ceil\<close> of the standard library.\<close>

definition div_ceil :: "u64 \<Rightarrow> u64 \<Rightarrow> (u64, panic) result" where
  "div_ceil a b = (if b = 0 then Err DivideByZero
     else Ok (if a mod b = 0 then a div b else a div b + 1))"

definition denim_block :: "op_stack_network \<Rightarrow> (u64 option, panic) result" where
  "denim_block n =
     (case activation n ''denim'' of
        None \<Rightarrow> Ok None
      | Some denim \<Rightarrow>
          and_then (div_ceil (saturating_sub denim (op_first_block_time n)) (op_block_time n)) (\<lambda>q.
          Ok (Some (op_first_block n + q))))"

definition op_cadence :: "op_stack_network \<Rightarrow> (cadence, panic) result" where
  "op_cadence n =
     and_then (denim_block n) (\<lambda>fast.
     Ok \<lparr>genesis_time = op_first_block_time n, seconds = op_block_time n,
         first_block = Some (op_first_block n), fast_from = fast\<rparr>)"

section \<open>Exact slot starts\<close>

definition legacy_ms :: "cadence \<Rightarrow> nat \<Rightarrow> nat" where
  "legacy_ms c s =
     (unat (genesis_time c) + (s - unat (unwrap_or 0 (first_block c))) * unat (seconds c)) * 1000"

definition start_ms :: "cadence \<Rightarrow> nat \<Rightarrow> nat" where
  "start_ms c s =
     (case fast_from c of
        Some fast \<Rightarrow> (if s > unat fast then legacy_ms c (unat fast) + (s - unat fast) * 200
                    else legacy_ms c s)
      | None \<Rightarrow> legacy_ms c s)"

lemma cap64_mult_left: "cap64 (cap64 a * b) = cap64 (a * b)"
proof -
  have "cap64 (cap64 a * b) = cap64 (cap64 (cap64 a) * cap64 b)" by (simp only: cap64_mult)
  also have "cap64 (cap64 a) = cap64 a" by (simp add: cap64_def)
  also have "cap64 (cap64 a * cap64 b) = cap64 (a * b)" by (rule cap64_mult)
  finally show ?thesis .
qed

lemma legacy_start_ms_exact: "unat (legacy_start_ms c s) = cap64 (legacy_ms c (unat s))"
  by (simp add: legacy_start_ms_def legacy_ms_def unat_mul64 unat_sat64 unat_saturating_sub
      cap64_cap64 cap64_mult_left)

lemma slot_start_ms_exact: "unat (slot_start_ms c s) = cap64 (start_ms c (unat s))"
proof (cases "fast_from c")
  case None
  then show ?thesis by (simp add: slot_start_ms_def start_ms_def legacy_start_ms_exact)
next
  case (Some fast)
  then show ?thesis
    by (simp add: slot_start_ms_def start_ms_def legacy_start_ms_exact unat_sat64 unat_mul64
        word_less_nat_alt unat_minus_le word_le_nat_alt cap64_cap64 FAST_SLOT_MS_def)
qed

lemma cap64_mono: "a \<le> b \<Longrightarrow> cap64 a \<le> cap64 b"
  by (simp add: cap64_def)

lemma legacy_ms_mono: "s \<le> t \<Longrightarrow> legacy_ms c s \<le> legacy_ms c t"
  by (simp add: legacy_ms_def mult_right_mono diff_le_mono)

lemma start_ms_mono: "s \<le> t \<Longrightarrow> start_ms c s \<le> start_ms c t"
proof (cases "fast_from c")
  case (Some fast)
  assume "s \<le> t"
  then show ?thesis
    using Some legacy_ms_mono [of s "unat fast" c] legacy_ms_mono [of s t c]
    by (auto simp: start_ms_def not_less intro: trans_le_add1)
qed (simp add: start_ms_def legacy_ms_mono)

lemma slot_start_ms_mono: "s \<le> t \<Longrightarrow> slot_start_ms c s \<le> slot_start_ms c t"
  by (simp add: word_le_nat_alt slot_start_ms_exact cap64_mono start_ms_mono)

section \<open>The slot in progress\<close>

text \<open>
  Times at which none of the saturating or wrapping operations of \<^verbatim>\<open>slot_at\<close> leaves the range
  of a \<^verbatim>\<open>u64\<close>, up to the start of the following slot.
\<close>

definition slot_fits :: "cadence \<Rightarrow> u64 \<Rightarrow> bool" where
  "slot_fits c ts =
     (seconds c \<noteq> 0 \<and> genesis_time c \<le> ts
      \<and> (unat ts + unat (seconds c)) * 1000 < 2 ^ 64
      \<and> unat (unwrap_or 0 (first_block c)) + unat ts + 1 < 2 ^ 64
      \<and> (case fast_from c of None \<Rightarrow> True | Some fast \<Rightarrow> unat fast + unat ts * 5 + 1 < 2 ^ 64))"

definition elapsed_slots :: "cadence \<Rightarrow> u64 \<Rightarrow> nat" where
  "elapsed_slots c ts = (unat ts - unat (genesis_time c)) div unat (seconds c)"

lemma legacy_slot_at_elapsed:
  assumes "slot_fits c ts"
  shows "\<exists>s. legacy_slot_at c ts = Ok s
    \<and> unat s = unat (unwrap_or 0 (first_block c)) + elapsed_slots c ts"
proof -
  let ?q = "(ts - genesis_time c) div seconds c"
  let ?f = "unwrap_or 0 (first_block c)"
  have q: "unat ?q = elapsed_slots c ts"
    using assms by (simp add: unat_div_distrib unat_minus_le slot_fits_def elapsed_slots_def)
  have "elapsed_slots c ts \<le> unat ts - unat (genesis_time c)"
    unfolding elapsed_slots_def by (rule div_le_dividend)
  with q assms have "unat ?f + unat ?q < 2 ^ 64" by (auto simp: slot_fits_def)
  then have "unat (?f + ?q) = unat ?f + elapsed_slots c ts"
    using q by (simp add: unat_plus_no_overflow)
  moreover have "legacy_slot_at c ts = Ok (?f + ?q)"
    using assms by (simp add: legacy_slot_at_def word_div_def saturating_sub_def slot_fits_def)
  ultimately show ?thesis by blast
qed

lemma legacy_ms_elapsed:
  "legacy_ms c (unat (unwrap_or 0 (first_block c)) + k) =
    (unat (genesis_time c) + k * unat (seconds c)) * 1000"
  by (simp add: legacy_ms_def)

lemma elapsed_bounds:
  assumes "slot_fits c ts"
  shows "unat (genesis_time c) + elapsed_slots c ts * unat (seconds c) \<le> unat ts"
    "unat ts < unat (genesis_time c) + (elapsed_slots c ts + 1) * unat (seconds c)"
    "elapsed_slots c ts \<le> unat ts"
proof -
  have n: "0 < unat (seconds c)" and g: "unat (genesis_time c) \<le> unat ts"
    using assms by (auto simp: slot_fits_def word_le_nat_alt unat_gt_0)
  have "elapsed_slots c ts * unat (seconds c) \<le> unat ts - unat (genesis_time c)"
    unfolding elapsed_slots_def by (rule div_times_less_eq_dividend)
  with g show "unat (genesis_time c) + elapsed_slots c ts * unat (seconds c) \<le> unat ts" by simp
  have "unat ts - unat (genesis_time c)
      < unat (seconds c) + elapsed_slots c ts * unat (seconds c)"
    unfolding elapsed_slots_def by (metis n add.commute dividend_less_div_times)
  with g show "unat ts < unat (genesis_time c) + (elapsed_slots c ts + 1) * unat (seconds c)"
    by simp
  show "elapsed_slots c ts \<le> unat ts"
    unfolding elapsed_slots_def by (rule order_trans [OF div_le_dividend]) simp
qed

lemma legacy_slot_at_exact:
  assumes "slot_fits c ts"
  shows "\<exists>s. legacy_slot_at c ts = Ok s \<and> unat s + 1 < 2 ^ 64
    \<and> legacy_ms c (unat s) \<le> unat ts * 1000 \<and> unat ts * 1000 < legacy_ms c (unat s + 1)
    \<and> legacy_ms c (unat s + 1) \<le> (unat ts + unat (seconds c)) * 1000"
proof -
  obtain s where s: "legacy_slot_at c ts = Ok s"
    "unat s = unat (unwrap_or 0 (first_block c)) + elapsed_slots c ts"
    using legacy_slot_at_elapsed [OF assms] by blast
  have "legacy_ms c (unat s) = (unat (genesis_time c) + elapsed_slots c ts * unat (seconds c)) * 1000"
    "legacy_ms c (unat s + 1) =
      (unat (genesis_time c) + (elapsed_slots c ts + 1) * unat (seconds c)) * 1000"
    using legacy_ms_elapsed [of c "elapsed_slots c ts"] legacy_ms_elapsed [of c "elapsed_slots c ts + 1"]
    by (simp_all add: s(2))
  moreover have "unat s + 1 < 2 ^ 64"
    using assms elapsed_bounds(3) [OF assms] by (simp add: s(2) slot_fits_def)
  ultimately show ?thesis
    using s(1) elapsed_bounds(1,2) [OF assms] by (intro exI [of _ s]) simp
qed

lemma div_bounds:
  fixes a b :: nat
  assumes "a \<le> b"
  shows "a + (b - a) div 200 * 200 \<le> b" "b < a + ((b - a) div 200 + 1) * 200"
    "(b - a) div 200 \<le> b div 200"
proof -
  have "(b - a) div 200 * 200 + (b - a) mod 200 = b - a" "(b - a) mod 200 < 200" by simp_all
  with assms show "a + (b - a) div 200 * 200 \<le> b" "b < a + ((b - a) div 200 + 1) * 200"
    unfolding add_mult_distrib by linarith+
  show "(b - a) div 200 \<le> b div 200" by (rule div_le_mono) simp
qed

lemma slot_at_brackets_exact:
  assumes fits: "slot_fits c ts"
  shows "\<exists>s. slot_at c ts = Ok s \<and> unat s + 1 < 2 ^ 64
    \<and> start_ms c (unat s) \<le> unat ts * 1000 \<and> unat ts * 1000 < start_ms c (unat s + 1)
    \<and> start_ms c (unat s + 1) < 2 ^ 64"
proof (cases "fast_from c")
  case None
  with legacy_slot_at_exact [OF fits] fits show ?thesis
    by (auto simp: slot_at_def start_ms_def slot_fits_def)
next
  case (Some fast)
  let ?t = "unat ts" and ?start = "legacy_ms c (unat fast)"
  have t: "unat (saturating_mul ts 1000 :: u64) = ?t * 1000"
    using fits by (simp add: unat_mul64 cap64_def slot_fits_def)
  have start: "unat (slot_start_ms c fast) = cap64 ?start"
    using Some by (simp add: slot_start_ms_exact start_ms_def)
  show ?thesis
  proof (cases "?start \<le> ?t * 1000")
    case True
    then have start': "unat (slot_start_ms c fast) = ?start"
      using start fits by (simp add: cap64_def slot_fits_def)
    let ?q = "(saturating_mul ts 1000 - slot_start_ms c fast) div FAST_SLOT_MS"
    define k where "k = (?t * 1000 - ?start) div 200"
    have q: "unat ?q = k"
      using True by (simp add: unat_div_distrib FAST_SLOT_MS_def unat_minus_le word_le_nat_alt t
          start' k_def)
    have k: "?start + k * 200 \<le> ?t * 1000" "?t * 1000 < ?start + (k + 1) * 200" "k \<le> ?t * 5"
      using div_bounds [OF True] unfolding k_def by simp_all
    have fits': "unat (seconds c) \<noteq> 0" "(?t + unat (seconds c)) * 1000 < 2 ^ 64"
        "unat fast + ?t * 5 + 1 < 2 ^ 64"
      using fits Some by (simp_all add: slot_fits_def unat_eq_zero)
    have s: "unat (fast + ?q) = unat fast + k"
      using k(3) fits'(3) q unat_plus_no_overflow [of fast ?q] by simp
    have "slot_at c ts = Ok (fast + ?q)"
      using True Some by (simp add: slot_at_def Let_def word_le_nat_alt t start')
    moreover have "?start + (k + 1) * 200 < 2 ^ 64"
      using k(1) fits'(1,2) unfolding add_mult_distrib by linarith
    moreover have "unat (fast + ?q) + 1 < 2 ^ 64" using s k(3) fits'(3) by linarith
    moreover have "start_ms c (unat (fast + ?q)) = ?start + k * 200"
      "start_ms c (unat (fast + ?q) + 1) = ?start + (k + 1) * 200"
      using Some by (simp_all add: s start_ms_def)
    ultimately show ?thesis using k by (intro exI [of _ "fast + ?q"]) simp
  next
    case False
    have "unat (seconds c) \<noteq> 0" "(?t + unat (seconds c)) * 1000 < 2 ^ 64"
      using fits by (simp_all add: slot_fits_def unat_eq_zero)
    then have "?t * 1000 < 2 ^ 64 - 1" unfolding add_mult_distrib by linarith
    with False have "\<not> cap64 ?start \<le> ?t * 1000" unfolding cap64_def by linarith
    then have "slot_at c ts = legacy_slot_at c ts"
      using Some by (simp add: slot_at_def Let_def word_le_nat_alt t start)
    moreover obtain s where s: "legacy_slot_at c ts = Ok s" "unat s + 1 < 2 ^ 64"
      "legacy_ms c (unat s) \<le> ?t * 1000" "?t * 1000 < legacy_ms c (unat s + 1)"
      "legacy_ms c (unat s + 1) \<le> (?t + unat (seconds c)) * 1000"
      using legacy_slot_at_exact [OF fits] by blast
    moreover have "unat s < unat fast"
      using False s(3) legacy_ms_mono [of "unat fast" "unat s" c] by linarith
    ultimately show ?thesis
      using Some fits by (auto simp: start_ms_def slot_fits_def)
  qed
qed

lemma slot_at_brackets:
  assumes fits: "slot_fits c ts"
  shows "\<exists>s. slot_at c ts = Ok s \<and> slot_start_ms c s \<le> ts * 1000 \<and> ts * 1000 < slot_start_ms c (s + 1)"
proof -
  obtain s where s: "slot_at c ts = Ok s" "unat s + 1 < 2 ^ 64"
    "start_ms c (unat s) \<le> unat ts * 1000" "unat ts * 1000 < start_ms c (unat s + 1)"
    "start_ms c (unat s + 1) < 2 ^ 64"
    using slot_at_brackets_exact [OF fits] by blast
  have "unat (ts * 1000) = unat ts * 1000"
    using s(4,5) by (simp add: unat_word_ariths)
  moreover have "unat (s + 1) = unat s + 1"
    using s(2) by (simp add: unat_word_ariths)
  ultimately show ?thesis
    using s by (auto simp: word_nat slot_start_ms_exact cap64_def)
qed

text \<open>The slot a timestamp starts is the slot in progress then, and it starts at that second.\<close>

lemma slot_starting_at_start:
  assumes fits: "slot_fits c ts" and at: "slot_starting_at c ts = Ok (Some s)"
  shows "slot_at c ts = Ok s \<and> slot_start c s = ts"
proof -
  have n: "seconds c \<noteq> 0" and g: "genesis_time c \<le> ts" using fits by (auto simp: slot_fits_def)
  from at have s: "s = unwrap_or 0 (first_block c) + (ts - genesis_time c) div seconds c"
    and rest: "(ts - genesis_time c) mod seconds c = 0"
    and slow: "\<And>fast. fast_from c = Some fast \<Longrightarrow> ts < slot_start c fast"
    using n g by (auto simp: slot_starting_at_def checked_sub_def word_rem_def word_div_def
        split: if_splits option.splits)
  have legacy: "legacy_slot_at c ts = Ok s"
    using n g by (simp add: legacy_slot_at_def word_div_def saturating_sub_def s)
  have exact: "legacy_ms c (unat s) = unat ts * 1000"
  proof -
    have "unat (ts - genesis_time c) mod unat (seconds c) = 0"
      using rest by (metis unat_0 unat_mod_distrib)
    then have "elapsed_slots c ts * unat (seconds c) = unat ts - unat (genesis_time c)"
      using g by (auto simp: elapsed_slots_def unat_minus_le)
    with legacy_slot_at_elapsed [OF fits] legacy g show ?thesis
      using legacy_ms_elapsed [of c "elapsed_slots c ts"] by (auto simp: word_le_nat_alt)
  qed
  have fit: "unat ts * 1000 < 2 ^ 64" using fits by (simp add: slot_fits_def)
  have before: "unat ts * 1000 < unat (slot_start_ms c fast)" if "fast_from c = Some fast" for fast
  proof -
    have "unat ts < unat (slot_start_ms c fast) div 1000"
      using slow [OF that] by (simp add: slot_start_def word_less_nat_alt unat_div_distrib)
    then show ?thesis by linarith
  qed
  have t: "unat (saturating_mul ts 1000 :: u64) = unat ts * 1000"
    using fit by (simp add: unat_mul64 cap64_def)
  have "slot_at c ts = Ok s"
  proof (cases "fast_from c")
    case (Some fast)
    with before [OF Some] t legacy show ?thesis by (simp add: slot_at_def Let_def word_le_nat_alt)
  qed (simp add: slot_at_def legacy)
  moreover have "start_ms c (unat s) = unat ts * 1000"
  proof (cases "fast_from c")
    case (Some fast)
    have "unat ts * 1000 < legacy_ms c (unat fast)"
      using before [OF Some] Some by (auto simp: slot_start_ms_exact start_ms_def cap64_def)
    then have "\<not> unat fast < unat s"
      using exact legacy_ms_mono [of "unat fast" "unat s" c] by auto
    with Some exact show ?thesis by (simp add: start_ms_def)
  qed (simp add: start_ms_def exact)
  then have "unat (slot_start_ms c s) = unat ts * 1000"
    using fit by (simp add: slot_start_ms_exact cap64_def)
  then have "slot_start c s = ts" by (simp add: slot_start_def word_eq_nat unat_div_distrib)
  ultimately show ?thesis by blast
qed

end
