(* ===== verification/Chain_Types.thy ===== *)
theory Chain_Types
  imports Prelude
begin

text \<open>
  Canonical chain identity and ordering, \<^verbatim>\<open>crates/primitives/src/chain.rs\<close>: inclusive block
  ranges, block references, the ordered binary key of a block, slots, and confidence levels.
  \<^verbatim>\<open>BlockNumber\<close> and \<^verbatim>\<open>ChainId\<close> are their \<^verbatim>\<open>u64\<close>; the fixed-size byte newtypes are words, whose
  order is the derived lexicographic order of the bytes.
\<close>

section \<open>Identities\<close>

type_synonym chain_id = u64
type_synonym block_number = u64
type_synonym block_hash = "256 word"
type_synonym transaction_hash = "256 word"
type_synonym address = "160 word"
type_synonym quantity = "256 word"

section \<open>Block ranges\<close>

record block_range =
  range_start :: block_number
  range_end :: block_number

record block_range_error =
  err_start :: block_number
  err_end :: block_number

text \<open>\<^verbatim>\<open>BlockRange::new\<close>; decoding goes through it too.\<close>

definition range_new :: "block_number \<Rightarrow> block_number \<Rightarrow> (block_range, block_range_error) result"
  where
  "range_new s e =
     (if s \<le> e then Ok \<lparr>range_start = s, range_end = e\<rparr>
      else Err \<lparr>err_start = s, err_end = e\<rparr>)"

definition range_single :: "block_number \<Rightarrow> block_range" where
  "range_single b = \<lparr>range_start = b, range_end = b\<rparr>"

definition range_contains :: "block_range \<Rightarrow> block_number \<Rightarrow> bool" where
  "range_contains r b = (b \<ge> range_start r \<and> b \<le> range_end r)"

definition range_len :: "block_range \<Rightarrow> u64" where
  "range_len r = saturating_add (range_end r - range_start r) 1"

definition range_checked_len :: "block_range \<Rightarrow> u64 option" where
  "range_checked_len r = checked_add (range_end r - range_start r) 1"

definition range_is_empty :: "block_range \<Rightarrow> bool" where
  "range_is_empty r = False"

text \<open>\<^verbatim>\<open>BlockRange::iter\<close>, the blocks of the interval in order.\<close>

definition range_iter :: "block_range \<Rightarrow> block_number list" where
  "range_iter r = map of_nat [unat (range_start r)..<Suc (unat (range_end r))]"

text \<open>The invariant that \<^verbatim>\<open>BlockRange::new\<close> establishes: the fields are private.\<close>

definition range_ok :: "block_range \<Rightarrow> bool" where
  "range_ok r = (range_start r \<le> range_end r)"

definition range_blocks :: "block_range \<Rightarrow> block_number set" where
  "range_blocks r = {range_start r..range_end r}"

lemma range_contains_iff [simp]: "range_contains r b \<longleftrightarrow> b \<in> range_blocks r"
  by (auto simp: range_contains_def range_blocks_def)

lemma range_new_Ok: "range_new s e = Ok r \<longleftrightarrow> s \<le> e \<and> r = \<lparr>range_start = s, range_end = e\<rparr>"
  by (auto simp: range_new_def)

lemma range_new_ok: "range_new s e = Ok r \<Longrightarrow> range_ok r \<and> range_blocks r = {s..e}"
  by (auto simp: range_new_Ok range_ok_def range_blocks_def)

lemma unat_card_blocks:
  assumes "range_ok r"
  shows "card (range_blocks r) = unat (range_end r) - unat (range_start r) + 1"
proof -
  have "inj_on unat (range_blocks r)" by (auto intro: inj_onI simp: word_eq_nat)
  moreover have "unat ` range_blocks r = {unat (range_start r)..unat (range_end r)}"
  proof (intro equalityI subsetI)
    fix n assume "n \<in> {unat (range_start r)..unat (range_end r)}"
    moreover from this have "n < 2 ^ 64"
      using unat_less_power [of "range_end r"] by simp
    ultimately have "unat (of_nat n :: u64) = n" by (simp add: unat_of_nat)
    with \<open>n \<in> _\<close> show "n \<in> unat ` range_blocks r"
      by (intro image_eqI [of _ _ "of_nat n"]) (simp_all add: range_blocks_def word_nat)
  qed (auto simp: range_blocks_def word_nat)
  ultimately have "card (range_blocks r) = card {unat (range_start r)..unat (range_end r)}"
    by (metis card_image)
  with assms show ?thesis by (simp add: range_ok_def word_nat)
qed

text \<open>
  The length saturates only for the one interval whose count does not fit in a \<^verbatim>\<open>u64\<close>, and the
  checked length is the exact count otherwise.
\<close>

lemma range_len_card:
  assumes "range_ok r"
  shows "unat (range_len r) = min (card (range_blocks r)) (2 ^ 64 - 1)"
  using assms unat_minus_le [of "range_start r" "range_end r"]
  by (simp add: range_len_def unat_card_blocks range_ok_def unat_saturating_add)

lemma range_checked_len_card:
  assumes "range_ok r"
  shows "range_checked_len r =
    (if card (range_blocks r) < 2 ^ 64 then Some (of_nat (card (range_blocks r))) else None)"
  using assms unat_minus_le [of "range_start r" "range_end r"]
  by (auto simp: range_checked_len_def unat_card_blocks range_ok_def checked_add_def word_eq_nat
      unat_of_nat unat_word_ariths)

lemma set_range_iter: "set (range_iter r) = range_blocks r"
proof (intro equalityI subsetI)
  fix b assume "b \<in> set (range_iter r)"
  then obtain n where n: "unat (range_start r) \<le> n" "n \<le> unat (range_end r)" "b = of_nat n"
    by (auto simp: range_iter_def)
  moreover from n have "unat (of_nat n :: u64) = n"
    using unat_less_power [of "range_end r"] by (simp add: unat_of_nat)
  ultimately show "b \<in> range_blocks r" by (simp add: range_blocks_def word_nat)
next
  fix b assume "b \<in> range_blocks r"
  then have "unat b \<in> {unat (range_start r)..<Suc (unat (range_end r))}"
    by (auto simp: range_blocks_def word_nat)
  then show "b \<in> set (range_iter r)"
    by (auto simp: range_iter_def less_Suc_eq word_eq_nat intro!: image_eqI [of _ _ "unat b"])
qed

text \<open>Successors and predecessors of block numbers, where they do not wrap.\<close>

lemma word_le_pred: "0 < s \<Longrightarrow> x \<le> s - 1 \<longleftrightarrow> x < (s :: u64)"
  using unat_minus_le [of 1 s] by (auto simp: word_nat)

lemma checked_succ_le: "checked_add e 1 = Some a \<Longrightarrow> a \<le> x \<longleftrightarrow> e < (x :: u64)"
  by (auto simp: word_nat)

lemma checked_succ_None: "checked_add e 1 = None \<Longrightarrow> x \<le> (e :: u64)"
  using unat_u64_bound [of x] order_trans by (fastforce simp: word_nat simp del: unat_u64_bound)

lemma less_word_pos: "a < s \<Longrightarrow> 0 < (s :: u64)"
  by (auto simp: word_nat)

section \<open>Block references and their ordered key\<close>

record block_ref =
  number :: block_number
  hash :: block_hash
  parent_hash :: block_hash
  timestamp :: u64

record canonical_key =
  key_chain_id :: chain_id
  key_number :: block_number
  key_hash :: block_hash

definition canonical_key_of :: "block_ref \<Rightarrow> chain_id \<Rightarrow> canonical_key" where
  "canonical_key_of b chain =
     \<lparr>key_chain_id = chain, key_number = number b, key_hash = hash b\<rparr>"

definition encoded_len :: nat where
  "encoded_len = 48"

text \<open>
  \<^verbatim>\<open>encode_ordered\<close> fills bytes 0 to 7, 8 to 15 and 16 to 47 of the output;
  \<^verbatim>\<open>decode_ordered\<close> reads the same slices of an input of exactly 48 bytes.
\<close>

definition encode_ordered :: "canonical_key \<Rightarrow> bytes" where
  "encode_ordered k =
     to_be_bytes 8 (key_chain_id k) @ to_be_bytes 8 (key_number k) @ to_be_bytes 32 (key_hash k)"

definition decode_ordered :: "bytes \<Rightarrow> (canonical_key, string) result" where
  "decode_ordered bs =
     (if length bs \<noteq> encoded_len then Err ''canonical key must be exactly 48 bytes''
      else Ok \<lparr>key_chain_id = from_be_bytes (take 8 bs),
               key_number = from_be_bytes (take 8 (drop 8 bs)),
               key_hash = from_be_bytes (drop 16 bs)\<rparr>)"

lemma decode_encode_ordered: "decode_ordered (encode_ordered k) = Ok k"
  by (simp add: decode_ordered_def encode_ordered_def encoded_len_def from_to_be_bytes)

lemma encode_decode_ordered: "decode_ordered bs = Ok k \<Longrightarrow> encode_ordered k = bs"
proof -
  assume "decode_ordered bs = Ok k"
  then have l: "length bs = 48" and k: "k = \<lparr>key_chain_id = from_be_bytes (take 8 bs),
      key_number = from_be_bytes (take 8 (drop 8 bs)), key_hash = from_be_bytes (drop 16 bs)\<rparr>"
    by (auto simp: decode_ordered_def encoded_len_def split: if_splits)
  have "encode_ordered k = take 8 bs @ take 8 (drop 8 bs) @ drop 16 bs"
    using l by (simp add: k encode_ordered_def to_from_be_bytes)
  also have "\<dots> = bs" using append_take_drop_id [of 8 "drop 8 bs"] by simp
  finally show ?thesis .
qed

text \<open>The encoding is an order embedding: chain first, then height, then hash.\<close>

lemma encode_ordered_less:
  "encode_ordered a < encode_ordered b \<longleftrightarrow>
    (key_chain_id a, key_number a, key_hash a) < (key_chain_id b, key_number b, key_hash b)"
  by (auto simp: encode_ordered_def append_less_append to_be_bytes_less to_be_bytes_inject)

section \<open>Slots\<close>

definition MAINNET_GENESIS_TIME :: u64 where
  "MAINNET_GENESIS_TIME = 1606824023"

definition SLOT_SECONDS :: u64 where
  "SLOT_SECONDS = 12"

definition mainnet_slot_starting_at :: "u64 \<Rightarrow> u64 option" where
  "mainnet_slot_starting_at ts =
     (case checked_sub ts MAINNET_GENESIS_TIME of
        Some since \<Rightarrow>
          (if since mod SLOT_SECONDS = 0 then Some (since div SLOT_SECONDS) else None)
      | None \<Rightarrow> None)"

definition mainnet_slot_at :: "u64 \<Rightarrow> u64" where
  "mainnet_slot_at ts = saturating_sub ts MAINNET_GENESIS_TIME div SLOT_SECONDS"

lemma mainnet_slot_starting_at_slot_at:
  "mainnet_slot_starting_at ts = Some s \<Longrightarrow> mainnet_slot_at ts = s"
  by (auto simp: mainnet_slot_starting_at_def mainnet_slot_at_def checked_sub_def
      saturating_sub_def split: if_splits option.splits)

section \<open>Finality levels\<close>

datatype finality = Unattested | Attested | Finalized

fun finality_rank :: "finality \<Rightarrow> nat" where
  "finality_rank Unattested = 0"
| "finality_rank Attested = 1"
| "finality_rank Finalized = 2"

text \<open>The derived order of the enum, by its discriminants.\<close>

instantiation finality :: linorder
begin

definition less_eq_finality :: "finality \<Rightarrow> finality \<Rightarrow> bool" where
  "less_eq_finality a b = (finality_rank a \<le> finality_rank b)"

definition less_finality :: "finality \<Rightarrow> finality \<Rightarrow> bool" where
  "less_finality a b = (finality_rank a < finality_rank b)"

instance
proof
  fix a b :: finality
  show "a \<le> b \<Longrightarrow> b \<le> a \<Longrightarrow> a = b"
    by (cases a; cases b) (simp_all add: less_eq_finality_def)
qed (auto simp: less_eq_finality_def less_finality_def)

end

definition satisfies :: "finality \<Rightarrow> finality \<Rightarrow> bool" where
  "satisfies level required = (finality_rank level \<ge> finality_rank required)"

definition finality_name :: "finality \<Rightarrow> string" where
  "finality_name f =
     (case f of Unattested \<Rightarrow> ''unattested'' | Attested \<Rightarrow> ''attested'' | Finalized \<Rightarrow> ''finalized'')"

lemma satisfies_iff [simp]: "satisfies level required \<longleftrightarrow> required \<le> level"
  by (simp add: satisfies_def less_eq_finality_def)

lemma finality_le_Finalized [simp]: "f \<le> Finalized" "f < Finalized \<longleftrightarrow> f \<noteq> Finalized"
  "Finalized \<le> f \<longleftrightarrow> f = Finalized"
  by (cases f; simp add: less_eq_finality_def less_finality_def)+

lemma Unattested_le [simp]: "Unattested \<le> f" "f \<le> Unattested \<longleftrightarrow> f = Unattested"
  "Unattested < f \<longleftrightarrow> f \<noteq> Unattested"
  by (cases f; simp add: less_eq_finality_def less_finality_def)+

lemma finality_less_Attested [simp]: "f < Attested \<longleftrightarrow> f = Unattested"
  "Attested \<le> f \<longleftrightarrow> f \<noteq> Unattested"
  by (cases f; simp add: less_eq_finality_def less_finality_def)+

lemma max_Finalized [simp]: "max f Finalized = Finalized" "max Finalized f = Finalized"
  by (simp_all add: max_def)

end
