(* ===== verification/Capabilities.thy ===== *)
theory Capabilities
  imports Chain_Types
begin

text \<open>
  The capability vocabulary, \<^verbatim>\<open>crates/primitives/src/capability.rs\<close>, and the log identity fields
  of \<^verbatim>\<open>crates/primitives/src/frame.rs\<close>. Both are bit sets, and both implement the interface
  \<open>flag_set\<close>.
\<close>

section \<open>Capabilities\<close>

datatype capability =
  Header | Body | Transactions | Calldata | Receipts | Logs | Withdrawals | BlobSidecars
| Traces | StateDiffs | ConsensusFinality | Mempool | Senders | BlobFields | ReceiptOutcome
| BlockSize

fun capability_index :: "capability \<Rightarrow> nat" where
  "capability_index Header = 0"
| "capability_index Body = 1"
| "capability_index Transactions = 2"
| "capability_index Calldata = 3"
| "capability_index Receipts = 4"
| "capability_index Logs = 5"
| "capability_index Withdrawals = 6"
| "capability_index BlobSidecars = 7"
| "capability_index Traces = 8"
| "capability_index StateDiffs = 9"
| "capability_index ConsensusFinality = 10"
| "capability_index Mempool = 11"
| "capability_index Senders = 12"
| "capability_index BlobFields = 13"
| "capability_index ReceiptOutcome = 14"
| "capability_index BlockSize = 15"

definition capability_bit :: "capability \<Rightarrow> u16" where
  "capability_bit c = push_bit (capability_index c) 1"

type_synonym capability_set = u16

definition cap_none :: capability_set where
  "cap_none = 0"

definition cap_all :: capability_set where
  "cap_all = word_max"

definition cap_of :: "capability \<Rightarrow> capability_set" where
  "cap_of c = capability_bit c"

definition cap_with :: "capability_set \<Rightarrow> capability \<Rightarrow> capability_set" where
  "cap_with s c = s OR capability_bit c"

definition cap_without :: "capability_set \<Rightarrow> capability \<Rightarrow> capability_set" where
  "cap_without s c = s AND NOT (capability_bit c)"

definition cap_contains :: "capability_set \<Rightarrow> capability \<Rightarrow> bool" where
  "cap_contains s c = (s AND capability_bit c \<noteq> 0)"

definition cap_contains_all :: "capability_set \<Rightarrow> capability_set \<Rightarrow> bool" where
  "cap_contains_all s required = (s AND required = required)"

definition cap_union :: "capability_set \<Rightarrow> capability_set \<Rightarrow> capability_set" where
  "cap_union s t = s OR t"

definition cap_intersection :: "capability_set \<Rightarrow> capability_set \<Rightarrow> capability_set" where
  "cap_intersection s t = s AND t"

text \<open>\<^verbatim>\<open>with_derivable\<close>: the field groups each bundle stands for.\<close>

definition with_derivable :: "capability_set \<Rightarrow> capability_set" where
  "with_derivable s =
     (let b0 = s;
          b1 = (if cap_contains s Transactions
                then b0 OR (capability_bit Body OR capability_bit Calldata
                  OR capability_bit Senders OR capability_bit BlobFields
                  OR capability_bit BlockSize)
                else b0)
      in if cap_contains s Receipts
         then b1 OR (capability_bit Logs OR capability_bit ReceiptOutcome)
         else b1)"

definition cap_from_bits :: "u16 \<Rightarrow> capability_set option" where
  "cap_from_bits b = Some b"

definition cap_values :: "capability list" where
  "cap_values = [Header, Body, Transactions, Calldata, Receipts, Logs, Withdrawals, BlobSidecars,
     Traces, StateDiffs, ConsensusFinality, Mempool, Senders, BlobFields, ReceiptOutcome,
     BlockSize]"

definition cap_iter :: "capability_set \<Rightarrow> capability list" where
  "cap_iter s = filter (cap_contains s) cap_values"

definition cap_from_iter :: "capability list \<Rightarrow> capability_set" where
  "cap_from_iter cs = foldl cap_with cap_none cs"

subsection \<open>The bit representation\<close>

lemma capability_index_less [simp]: "capability_index c < 16"
  by (cases c) simp_all

lemma capability_index_inject [simp]: "capability_index c = capability_index d \<longleftrightarrow> c = d"
  by (cases c; cases d) simp_all

lemma bit_capability_bit [simp]: "bit (capability_bit c) n \<longleftrightarrow> n = capability_index c"
  using capability_index_less [of c] by (auto simp: capability_bit_def bit_simps)

lemma cap_contains_bit: "cap_contains s c \<longleftrightarrow> bit s (capability_index c)"
proof -
  have "capability_bit c = 2 ^ capability_index c"
    by (simp add: capability_bit_def push_bit_eq_mult)
  then show ?thesis by (simp add: cap_contains_def and_exp_eq_0_iff_not_bit)
qed

lemma set_cap_values: "c \<in> set cap_values"
  by (cases c) (simp_all add: cap_values_def)

lemma every_bit_names_a_capability: "n < 16 \<Longrightarrow> \<exists>c. capability_index c = n"
proof -
  assume "n < 16"
  then have "n \<in> set [0..<16]" by simp
  also have "[0..<16] = map capability_index cap_values" by code_simp
  finally show ?thesis by auto
qed

lemma cap_eqI: "(\<And>c. cap_contains s c \<longleftrightarrow> cap_contains t c) \<Longrightarrow> s = t"
proof (rule bit_eqI)
  fix n assume same: "\<And>c. cap_contains s c \<longleftrightarrow> cap_contains t c" and "possible_bit TYPE(u16) n"
  then have "n < 16" by simp
  then obtain c where "capability_index c = n" using every_bit_names_a_capability by blast
  with same [of c] show "bit s n = bit t n" by (simp add: cap_contains_bit)
qed

lemma cap_contains_simps [simp]:
  "\<not> cap_contains cap_none c"
  "cap_contains cap_all c"
  "cap_contains (cap_of d) c \<longleftrightarrow> c = d"
  "cap_contains (cap_with s d) c \<longleftrightarrow> c = d \<or> cap_contains s c"
  "cap_contains (cap_without s d) c \<longleftrightarrow> c \<noteq> d \<and> cap_contains s c"
  "cap_contains (cap_union s t) c \<longleftrightarrow> cap_contains s c \<or> cap_contains t c"
  "cap_contains (cap_intersection s t) c \<longleftrightarrow> cap_contains s c \<and> cap_contains t c"
  by (auto simp: cap_contains_bit cap_none_def cap_all_def word_max_def cap_of_def cap_with_def
      cap_without_def cap_union_def cap_intersection_def bit_simps)

lemma cap_contains_all_iff:
  "cap_contains_all s r \<longleftrightarrow> (\<forall>c. cap_contains r c \<longrightarrow> cap_contains s c)"
proof -
  have "cap_intersection s r = r \<longleftrightarrow> (\<forall>c. cap_contains (cap_intersection s r) c = cap_contains r c)"
    using cap_eqI [of "cap_intersection s r" r] by metis
  then show ?thesis
    by (auto simp: cap_contains_all_def simp flip: cap_intersection_def)
qed

interpretation caps: flag_set cap_none cap_with cap_contains cap_union cap_contains_all
  by unfold_locales (auto simp: cap_contains_all_iff)

subsection \<open>Derivation\<close>

lemma with_derivable_contains:
  "cap_contains (with_derivable s) c \<longleftrightarrow>
    cap_contains s c
    \<or> cap_contains s Transactions \<and> c \<in> {Body, Calldata, Senders, BlobFields, BlockSize}
    \<or> cap_contains s Receipts \<and> c \<in> {Logs, ReceiptOutcome}"
  by (auto simp: with_derivable_def Let_def cap_contains_bit bit_simps
      simp flip: capability_index_inject)

lemma with_derivable_idem: "with_derivable (with_derivable s) = with_derivable s"
  by (rule cap_eqI) (auto simp: with_derivable_contains)

lemma with_derivable_mono:
  "cap_contains_all s r \<Longrightarrow> cap_contains_all (with_derivable s) (with_derivable r)"
  by (auto simp: cap_contains_all_iff with_derivable_contains)

lemma cap_from_iter_iter: "cap_from_iter (cap_iter s) = s"
  by (rule cap_eqI)
    (auto simp: cap_from_iter_def caps.contains_collect cap_iter_def set_cap_values)

section \<open>Capability reports\<close>

record frame_capability_report =
  present :: capability_set
  complete :: capability_set

definition report_satisfies :: "frame_capability_report \<Rightarrow> capability_set \<Rightarrow> bool \<Rightarrow> bool" where
  "report_satisfies r required allow_filtered =
     (let components = (if allow_filtered then present r else complete r);
          supplied = with_derivable components;
          supplied' = (if cap_contains components Header then cap_with supplied BlockSize
                       else supplied)
      in cap_contains_all supplied' required)"

lemma report_satisfies_iff:
  "report_satisfies r required allow_filtered \<longleftrightarrow>
    (\<forall>c. cap_contains required c \<longrightarrow>
      cap_contains (with_derivable (if allow_filtered then present r else complete r)) c
      \<or> c = BlockSize \<and> cap_contains (if allow_filtered then present r else complete r) Header)"
  by (auto simp: report_satisfies_def Let_def cap_contains_all_iff)

section \<open>Log identity fields\<close>

datatype log_field = TransactionHash

definition log_field_bit :: "log_field \<Rightarrow> u8" where
  "log_field_bit f = push_bit (case f of TransactionHash \<Rightarrow> 0) 1"

type_synonym log_field_set = u8

definition lf_none :: log_field_set where
  "lf_none = 0"

definition lf_all :: log_field_set where
  "lf_all = log_field_bit TransactionHash"

definition lf_of :: "log_field \<Rightarrow> log_field_set" where
  "lf_of f = log_field_bit f"

definition lf_with :: "log_field_set \<Rightarrow> log_field \<Rightarrow> log_field_set" where
  "lf_with s f = s OR log_field_bit f"

definition lf_contains :: "log_field_set \<Rightarrow> log_field \<Rightarrow> bool" where
  "lf_contains s f = (s AND log_field_bit f \<noteq> 0)"

definition lf_contains_all :: "log_field_set \<Rightarrow> log_field_set \<Rightarrow> bool" where
  "lf_contains_all s required = (s AND required = required)"

definition lf_union :: "log_field_set \<Rightarrow> log_field_set \<Rightarrow> log_field_set" where
  "lf_union s t = s OR t"

text \<open>The decoder of the newtype refuses bits that name no field.\<close>

definition lf_deserialize :: "u8 \<Rightarrow> (log_field_set, u8) result" where
  "lf_deserialize b = (if b AND NOT lf_all = 0 then Ok b else Err (b AND NOT lf_all))"

lemma lf_contains_bit: "lf_contains s f \<longleftrightarrow> bit s 0"
  by (cases f) (simp add: lf_contains_def log_field_bit_def and_one_eq odd_iff_mod_2_eq_one
      bit_0 flip: odd_iff_mod_2_eq_one)

interpretation lfs: flag_set lf_none lf_with lf_contains lf_union lf_contains_all
proof unfold_locales
  fix s t r :: log_field_set and f g
  show "\<not> lf_contains lf_none f" by (simp add: lf_contains_bit lf_none_def)
  show "lf_contains (lf_with s f) g \<longleftrightarrow> g = f \<or> lf_contains s g"
    by (cases f; cases g) (simp add: lf_contains_bit lf_with_def log_field_bit_def bit_or_iff)
  show "lf_contains (lf_union s t) f \<longleftrightarrow> lf_contains s f \<or> lf_contains t f"
    by (simp add: lf_contains_bit lf_union_def bit_or_iff)
  show "lf_contains_all s r \<Longrightarrow> lf_contains r f \<Longrightarrow> lf_contains s f"
    by (metis bit_and_iff lf_contains_all_def lf_contains_bit)
  show "lf_contains_all s s" by (simp add: lf_contains_all_def)
  show "lf_contains_all s r \<Longrightarrow> lf_contains_all (lf_union s t) r"
    and "lf_contains_all t r \<Longrightarrow> lf_contains_all (lf_union s t) r"
    by (auto simp: lf_contains_all_def lf_union_def and_eq_iff_bits bit_or_iff)
qed

end
