(* ===== verification/Materials.thy ===== *)
theory Materials
  imports Chain_Types
begin

text \<open>
  Material presence and filter predicates, \<^verbatim>\<open>crates/primitives/src/material.rs\<close>: the predicate a
  source applied, when material complete for one predicate is complete for another
  (\<^verbatim>\<open>covers\<close>, \<^verbatim>\<open>covers_at\<close>), and the three states of a frame component.
\<close>

section \<open>Filter scopes\<close>

type_synonym topic = "256 word"

record topic_filter =
  position :: u8
  alternatives :: "topic list"

record filter_scope =
  scope_block_range :: "block_range option"
  scope_addresses :: "address list"
  scope_topics :: "topic_filter list"
  scope_transaction_hashes :: "transaction_hash list"
  scope_transaction_types :: "u8 list"
  scope_senders :: "address list"
  scope_recipients :: "address list"

definition default_scope :: filter_scope where
  "default_scope = \<lparr>scope_block_range = None, scope_addresses = [], scope_topics = [],
     scope_transaction_hashes = [], scope_transaction_types = [], scope_senders = [],
     scope_recipients = []\<rparr>"

subsection \<open>Lists of values\<close>

text \<open>
  \<^verbatim>\<open>contains_all\<close> scans short lists and indexes long ones in a \<^verbatim>\<open>BTreeSet\<close>, here a table with
  unit values.
\<close>

definition linear_scan_limit :: nat where
  "linear_scan_limit = 16"

definition contains_all :: "'a::linorder list \<Rightarrow> 'a list \<Rightarrow> bool" where
  "contains_all values required =
     (if length values \<le> linear_scan_limit
      then list_all (\<lambda>v. v \<in> set values) required
      else (let index = foldl (\<lambda>t v. tput v () t) [] values
            in list_all (\<lambda>v. map_of index v \<noteq> None) required))"

definition list_matches :: "'a list \<Rightarrow> 'a option \<Rightarrow> bool" where
  "list_matches xs v = (xs = [] \<or> (case v of None \<Rightarrow> False | Some x \<Rightarrow> x \<in> set xs))"

definition list_covers :: "'a::linorder list \<Rightarrow> 'a list \<Rightarrow> bool" where
  "list_covers scope wanted = (scope = [] \<or> (wanted \<noteq> [] \<and> contains_all scope wanted))"

lemma ordered_index: "ordered t \<Longrightarrow> ordered (foldl (\<lambda>t v. tput v () t) t xs)"
  by (induction xs arbitrary: t) simp_all

lemma map_of_index:
  "ordered t \<Longrightarrow>
    map_of (foldl (\<lambda>t v. tput v () t) t xs) v \<noteq> None \<longleftrightarrow> v \<in> set xs \<or> map_of t v \<noteq> None"
  by (induction xs arbitrary: t) auto

text \<open>The indexed search decides the same inclusion as the scan.\<close>

lemma contains_all_iff [simp]: "contains_all xs ys \<longleftrightarrow> set ys \<subseteq> set xs"
  using map_of_index [of "[]" xs]
  by (auto simp: contains_all_def Let_def list_all_iff)

text \<open>Coverage of a value list is exactly inclusion of what the two lists match.\<close>

lemma list_covers_exact:
  "list_covers scope wanted \<longleftrightarrow> (\<forall>v. list_matches wanted v \<longrightarrow> list_matches scope v)"
proof
  assume "list_covers scope wanted"
  then show "\<forall>v. list_matches wanted v \<longrightarrow> list_matches scope v"
    by (auto simp: list_covers_def list_matches_def split: option.splits)
next
  assume all: "\<forall>v. list_matches wanted v \<longrightarrow> list_matches scope v"
  have "scope = [] \<or> wanted \<noteq> []" using all by (auto simp: list_matches_def dest: spec [of _ None])
  moreover have "scope = [] \<or> set wanted \<subseteq> set scope"
    using all by (auto simp: list_matches_def split: option.splits)
  ultimately show "list_covers scope wanted" by (auto simp: list_covers_def)
qed

subsection \<open>Topics\<close>

definition topics_cover :: "topic_filter list \<Rightarrow> topic_filter list \<Rightarrow> bool" where
  "topics_cover scope wanted =
     list_all (\<lambda>required.
       case filter (\<lambda>t. position t = position required) wanted of
         [] \<Rightarrow> False
       | first # constraints \<Rightarrow>
           (let matchable = filter
                  (\<lambda>v. list_all (\<lambda>t. v \<in> set (alternatives t)) constraints) (alternatives first)
            in contains_all (alternatives required) matchable)) scope"

lemma topics_cover_iff:
  "topics_cover scope wanted \<longleftrightarrow>
    (\<forall>r \<in> set scope. (\<exists>t \<in> set wanted. position t = position r) \<and>
      (\<forall>v. (\<forall>t \<in> set wanted. position t = position r \<longrightarrow> v \<in> set (alternatives t))
        \<longrightarrow> v \<in> set (alternatives r)))"
proof -
  have key: "(case fs of [] \<Rightarrow> False | first # constraints \<Rightarrow>
      (let matchable = filter (\<lambda>v. list_all (\<lambda>t. v \<in> set (alternatives t)) constraints)
             (alternatives first)
       in contains_all (alternatives r) matchable))
    \<longleftrightarrow> fs \<noteq> [] \<and> (\<forall>v. (\<forall>t \<in> set fs. v \<in> set (alternatives t)) \<longrightarrow> v \<in> set (alternatives r))"
    for fs and r :: topic_filter
    by (cases fs) (auto simp: list_all_iff)
  show ?thesis
    unfolding topics_cover_def key by (auto simp: list_all_iff filter_empty_conv)
qed

subsection \<open>Coverage\<close>

definition covers_values :: "filter_scope \<Rightarrow> filter_scope \<Rightarrow> bool" where
  "covers_values s f =
     (list_covers (scope_addresses s) (scope_addresses f)
      \<and> topics_cover (scope_topics s) (scope_topics f)
      \<and> list_covers (scope_transaction_hashes s) (scope_transaction_hashes f)
      \<and> list_covers (scope_transaction_types s) (scope_transaction_types f)
      \<and> list_covers (scope_senders s) (scope_senders f)
      \<and> list_covers (scope_recipients s) (scope_recipients f))"

definition covers :: "filter_scope \<Rightarrow> filter_scope \<Rightarrow> bool" where
  "covers s f =
     ((case (scope_block_range s, scope_block_range f) of
         (None, _) \<Rightarrow> True
       | (Some _, None) \<Rightarrow> False
       | (Some scope, Some wanted) \<Rightarrow>
           range_start scope \<le> range_start wanted \<and> range_end wanted \<le> range_end scope)
      \<and> covers_values s f)"

definition covers_at :: "filter_scope \<Rightarrow> filter_scope \<Rightarrow> block_number \<Rightarrow> bool" where
  "covers_at s f b =
     (if (case scope_block_range f of None \<Rightarrow> False | Some r \<Rightarrow> \<not> range_contains r b) then True
      else (case scope_block_range s of None \<Rightarrow> True | Some r \<Rightarrow> range_contains r b)
        \<and> covers_values s f)"

subsection \<open>Matching\<close>

definition matches_block :: "filter_scope \<Rightarrow> block_number \<Rightarrow> bool" where
  "matches_block s b =
     (case scope_block_range s of None \<Rightarrow> True | Some r \<Rightarrow> range_contains r b)"

definition matches_transaction_hash :: "filter_scope \<Rightarrow> transaction_hash \<Rightarrow> bool" where
  "matches_transaction_hash s h = list_matches (scope_transaction_hashes s) (Some h)"

definition matches_transaction ::
  "filter_scope \<Rightarrow> u8 \<Rightarrow> address option \<Rightarrow> transaction_hash \<Rightarrow> bool" where
  "matches_transaction s ty recipient h =
     (list_matches (scope_transaction_types s) (Some ty)
      \<and> list_matches (scope_recipients s) recipient
      \<and> (scope_transaction_hashes s = [] \<or> matches_transaction_hash s h))"

definition matches_sender :: "filter_scope \<Rightarrow> address option \<Rightarrow> bool" where
  "matches_sender s sender = list_matches (scope_senders s) sender"

definition matches_log_address :: "filter_scope \<Rightarrow> address \<Rightarrow> bool" where
  "matches_log_address s a = list_matches (scope_addresses s) (Some a)"

definition matches_log :: "filter_scope \<Rightarrow> address \<Rightarrow> bytes list \<Rightarrow> bool" where
  "matches_log s a topics =
     (matches_log_address s a
      \<and> list_all (\<lambda>f.
          (if unat (position f) < length topics
           then list_ex (\<lambda>alt. to_be_bytes 32 alt = topics ! unat (position f)) (alternatives f)
           else False)) (scope_topics s))"

definition constrains_transactions :: "filter_scope \<Rightarrow> bool" where
  "constrains_transactions s =
     (scope_transaction_types s \<noteq> [] \<or> scope_transaction_hashes s \<noteq> []
      \<or> scope_senders s \<noteq> [] \<or> scope_recipients s \<noteq> [])"

definition constrains_logs :: "filter_scope \<Rightarrow> bool" where
  "constrains_logs s = (scope_addresses s \<noteq> [] \<or> scope_topics s \<noteq> [])"

lemma list_covers_matches:
  "list_covers s f \<Longrightarrow> list_matches f v \<Longrightarrow> list_matches s v"
  by (simp add: list_covers_exact)

lemma topics_cover_matches:
  assumes cover: "topics_cover s f"
    and f: "\<forall>t \<in> set f. unat (position t) < length topics \<and>
      (\<exists>alt \<in> set (alternatives t). to_be_bytes 32 alt = topics ! unat (position t))"
    and r: "r \<in> set s"
  shows "unat (position r) < length topics \<and>
    (\<exists>alt \<in> set (alternatives r). to_be_bytes 32 alt = topics ! unat (position r))"
proof -
  let ?p = "position r"
  from cover r obtain t where t: "t \<in> set f" "position t = ?p"
    by (auto simp: topics_cover_iff)
  with bspec [OF f t(1)] obtain alt :: topic where alt: "to_be_bytes 32 alt = topics ! unat ?p"
    and p: "unat ?p < length topics" by auto
  have "alt \<in> set (alternatives t')" if "t' \<in> set f" "position t' = ?p" for t'
  proof -
    obtain alt' where "alt' \<in> set (alternatives t')" "to_be_bytes 32 alt' = topics ! unat ?p"
      using bspec [OF f \<open>t' \<in> set f\<close>] \<open>position t' = ?p\<close> by auto
    with alt to_be_bytes_inject [of 32 alt alt'] show ?thesis by simp
  qed
  then have "alt \<in> set (alternatives r)" using cover r by (auto simp: topics_cover_iff)
  with alt p show ?thesis by blast
qed

lemma matches_log_iff:
  "matches_log s a topics \<longleftrightarrow> list_matches (scope_addresses s) (Some a) \<and>
    (\<forall>f \<in> set (scope_topics s). unat (position f) < length topics \<and>
      (\<exists>alt \<in> set (alternatives f). to_be_bytes 32 alt = topics ! unat (position f)))"
  by (auto simp: matches_log_def matches_log_address_def list_all_iff list_ex_iff)

lemma matches_transaction_iff:
  "matches_transaction s ty recipient h \<longleftrightarrow>
    list_matches (scope_transaction_types s) (Some ty) \<and> list_matches (scope_recipients s) recipient
    \<and> list_matches (scope_transaction_hashes s) (Some h)"
  by (auto simp: matches_transaction_def matches_transaction_hash_def list_matches_def)

text \<open>Coverage of the value predicates lifts every match of the filter to the scope.\<close>

lemma covers_values_matches:
  assumes "covers_values s f"
  shows "matches_transaction f ty recipient h \<Longrightarrow> matches_transaction s ty recipient h"
    and "matches_sender f sender \<Longrightarrow> matches_sender s sender"
    and "matches_log f a topics \<Longrightarrow> matches_log s a topics"
proof -
  show "matches_transaction f ty recipient h \<Longrightarrow> matches_transaction s ty recipient h"
    using assms by (auto simp: matches_transaction_iff covers_values_def intro: list_covers_matches)
  show "matches_sender f sender \<Longrightarrow> matches_sender s sender"
    using assms by (auto simp: matches_sender_def covers_values_def intro: list_covers_matches)
  show "matches_log f a topics \<Longrightarrow> matches_log s a topics"
    using assms topics_cover_matches [of "scope_topics s" "scope_topics f" topics]
    by (auto simp: matches_log_iff covers_values_def intro: list_covers_matches)
qed

lemma covers_values_refl: "covers_values s s"
  by (auto simp: covers_values_def list_covers_exact topics_cover_iff)

lemma list_covers_trans: "list_covers a b \<Longrightarrow> list_covers b c \<Longrightarrow> list_covers a c"
  by (simp add: list_covers_exact)

lemma topics_cover_trans:
  assumes ab: "topics_cover a b" and bc: "topics_cover b c"
  shows "topics_cover a c"
proof -
  have "(\<exists>t \<in> set c. position t = position r) \<and>
      (\<forall>v. (\<forall>t \<in> set c. position t = position r \<longrightarrow> v \<in> set (alternatives t))
        \<longrightarrow> v \<in> set (alternatives r))" if r: "r \<in> set a" for r
  proof -
    from ab r obtain t where t: "t \<in> set b" "position t = position r"
      by (auto simp: topics_cover_iff)
    with bc have "\<exists>t \<in> set c. position t = position r" unfolding topics_cover_iff by metis
    moreover have "v \<in> set (alternatives r)"
      if v: "\<forall>t \<in> set c. position t = position r \<longrightarrow> v \<in> set (alternatives t)" for v
    proof -
      have "v \<in> set (alternatives t)" if "t \<in> set b" "position t = position r" for t
        using bc v that unfolding topics_cover_iff by metis
      with ab r show ?thesis by (auto simp: topics_cover_iff)
    qed
    ultimately show ?thesis by blast
  qed
  then show ?thesis by (simp add: topics_cover_iff)
qed

lemma covers_values_trans: "covers_values a b \<Longrightarrow> covers_values b c \<Longrightarrow> covers_values a c"
  unfolding covers_values_def by (blast intro: list_covers_trans topics_cover_trans)

lemma covers_refl: "covers s s"
  by (auto simp: covers_def covers_values_refl split: option.splits)

lemma covers_trans: "covers a b \<Longrightarrow> covers b c \<Longrightarrow> covers a c"
  by (auto simp: covers_def split: option.splits intro: covers_values_trans)

lemma covers_imp_covers_at: "covers s f \<Longrightarrow> covers_at s f b"
  by (auto simp: covers_def covers_at_def range_blocks_def split: option.splits)

lemma covers_at_matches_block: "covers_at s f b \<Longrightarrow> matches_block f b \<Longrightarrow> matches_block s b"
  by (auto simp: covers_at_def matches_block_def split: option.splits if_splits)

lemma covers_at_values: "covers_at s f b \<Longrightarrow> matches_block f b \<Longrightarrow> covers_values s f"
  by (auto simp: covers_at_def matches_block_def split: option.splits if_splits)

section \<open>Material\<close>

datatype completeness = VerifiedPredicate | DatasetDeclared | Partial

datatype missing_reason =
  NotRequested | Unsupported | NotAvailable | TemporarilyUnavailable | Pruned

datatype material_kind = KindComplete | KindFiltered | KindMissing

datatype 'a material =
  Complete 'a
| Filtered 'a filter_scope completeness
| Missing missing_reason

fun material_kind_of :: "'a material \<Rightarrow> material_kind" where
  "material_kind_of (Complete _) = KindComplete"
| "material_kind_of (Filtered _ _ _) = KindFiltered"
| "material_kind_of (Missing _) = KindMissing"

fun is_present :: "'a material \<Rightarrow> bool" where
  "is_present (Missing _) = False"
| "is_present _ = True"

fun is_complete :: "'a material \<Rightarrow> bool" where
  "is_complete (Complete _) = True"
| "is_complete _ = False"

fun as_complete :: "'a material \<Rightarrow> 'a option" where
  "as_complete (Complete v) = Some v"
| "as_complete (Filtered _ _ _) = None"
| "as_complete (Missing _) = None"

fun as_present :: "'a material \<Rightarrow> 'a option" where
  "as_present (Complete v) = Some v"
| "as_present (Filtered v _ _) = Some v"
| "as_present (Missing _) = None"

fun material_map :: "('a \<Rightarrow> 'b) \<Rightarrow> 'a material \<Rightarrow> 'b material" where
  "material_map f (Complete v) = Complete (f v)"
| "material_map f (Filtered v s c) = Filtered (f v) s c"
| "material_map f (Missing r) = Missing r"

lemma is_present_as_present: "is_present m \<longleftrightarrow> (\<exists>v. as_present m = Some v)"
  by (cases m) simp_all

lemma is_complete_as_complete: "is_complete m \<longleftrightarrow> (\<exists>v. as_complete m = Some v)"
  by (cases m) simp_all

lemma complete_is_present: "is_complete m \<Longrightarrow> is_present m"
  by (cases m) simp_all

lemma material_map_states:
  "material_kind_of (material_map f m) = material_kind_of m"
  "as_present (material_map f m) = map_option f (as_present m)"
  "as_complete (material_map f m) = map_option f (as_complete m)"
  by (cases m; simp)+

end
