(* ===== verification/Provenances.thy ===== *)
theory Provenances
  imports Chain_Types
begin

text \<open>
  Source identity, trust declarations and verification evidence,
  \<^verbatim>\<open>crates/primitives/src/provenance.rs\<close>.
\<close>

section \<open>Portable identifiers\<close>

text \<open>A Rust string is its UTF-8 bytes, and a HOL character is a byte.\<close>

definition is_ascii_alphanumeric :: "char \<Rightarrow> bool" where
  "is_ascii_alphanumeric c =
     (CHR ''0'' \<le> c \<and> c \<le> CHR ''9'' \<or> CHR ''A'' \<le> c \<and> c \<le> CHR ''Z''
      \<or> CHR ''a'' \<le> c \<and> c \<le> CHR ''z'')"

definition portable_byte :: "char \<Rightarrow> bool" where
  "portable_byte c = (is_ascii_alphanumeric c \<or> c \<in> {CHR ''-'', CHR ''_'', CHR ''.''})"

type_synonym source_id = string

definition source_id_new :: "string \<Rightarrow> (source_id, string) result" where
  "source_id_new value =
     (if value = [] \<or> length value > 64 then Err value
      else if \<not> list_all portable_byte value then Err value
      else Ok value)"

section \<open>Kinds, trust and evidence\<close>

datatype source_kind =
  PublicDataset | HistoryArchive | RetainedHistory | ExecutionP2p | ConsensusP2p | BeaconApi
| Synthetic | JsonRpc | SequencerGossip | L1Anchor

datatype trust_model = Untrusted | TrustedManifest | TrustedDataset | ProtocolVerified

fun trust_rank :: "trust_model \<Rightarrow> nat" where
  "trust_rank Untrusted = 0"
| "trust_rank TrustedManifest = 1"
| "trust_rank TrustedDataset = 2"
| "trust_rank ProtocolVerified = 3"

instantiation trust_model :: linorder
begin

definition less_eq_trust_model :: "trust_model \<Rightarrow> trust_model \<Rightarrow> bool" where
  "less_eq_trust_model a b = (trust_rank a \<le> trust_rank b)"

definition less_trust_model :: "trust_model \<Rightarrow> trust_model \<Rightarrow> bool" where
  "less_trust_model a b = (trust_rank a < trust_rank b)"

instance
proof
  fix a b :: trust_model
  show "a \<le> b \<Longrightarrow> b \<le> a \<Longrightarrow> a = b"
    by (cases a; cases b) (simp_all add: less_eq_trust_model_def)
qed (auto simp: less_eq_trust_model_def less_trust_model_def)

end

lemma trust_bounds [simp]: "Untrusted \<le> t" "t \<le> ProtocolVerified"
  "ProtocolVerified \<le> t \<longleftrightarrow> t = ProtocolVerified"
  by (cases t; simp add: less_eq_trust_model_def)+

record object_identity =
  obj_locator :: string
  obj_version :: "string option"
  obj_checksum :: "256 word option"
  obj_schema :: "string option"

record provenance =
  pv_source_id :: source_id
  pv_source_kind :: source_kind
  pv_trust :: trust_model
  pv_range :: "block_range option"
  pv_object :: "object_identity option"
  pv_observed_at_unix_ms :: u64
  pv_projection :: "string list"

datatype check_status = Verified | Failed | NotChecked | Unavailable

record verification_check =
  status :: check_status
  detail :: "string option"

definition check_verified :: verification_check where
  "check_verified = \<lparr>status = Verified, detail = None\<rparr>"

definition check_not_checked :: verification_check where
  "check_not_checked = \<lparr>status = NotChecked, detail = None\<rparr>"

definition check_unavailable :: verification_check where
  "check_unavailable = \<lparr>status = Unavailable, detail = None\<rparr>"

definition check_failed :: "verification_check \<Rightarrow> bool" where
  "check_failed c = (status c = Failed)"

record consensus_anchor =
  ca_finality :: finality
  ca_execution_block_hash :: block_hash
  ca_beacon_slot :: u64
  ca_beacon_block_root :: "256 word"

record verification_report =
  vr_header_hash :: verification_check
  vr_parent_continuity :: verification_check
  vr_transactions_root :: verification_check
  vr_receipts_root :: verification_check
  vr_withdrawals_root :: verification_check
  vr_dataset_checksum :: verification_check
  vr_consensus_anchor :: "consensus_anchor option"

definition default_report :: verification_report where
  "default_report = \<lparr>vr_header_hash = check_not_checked, vr_parent_continuity = check_not_checked,
     vr_transactions_root = check_not_checked, vr_receipts_root = check_not_checked,
     vr_withdrawals_root = check_not_checked, vr_dataset_checksum = check_not_checked,
     vr_consensus_anchor = None\<rparr>"

definition report_checks :: "verification_report \<Rightarrow> verification_check list" where
  "report_checks r = [vr_header_hash r, vr_parent_continuity r, vr_transactions_root r,
     vr_receipts_root r, vr_withdrawals_root r, vr_dataset_checksum r]"

definition has_failures :: "verification_report \<Rightarrow> bool" where
  "has_failures r = list_ex check_failed (report_checks r)"

definition checked_count :: "verification_report \<Rightarrow> nat" where
  "checked_count r = length (filter (\<lambda>c. status c \<in> {Verified, Failed}) (report_checks r))"

lemma source_id_new_Ok:
  "source_id_new v = Ok i \<longleftrightarrow>
    i = v \<and> 1 \<le> length v \<and> length v \<le> 64 \<and> (\<forall>c \<in> set v. portable_byte c)"
  by (cases v) (auto simp: source_id_new_def list_all_iff)

lemma has_failures_default [simp]: "\<not> has_failures default_report"
  by (simp add: has_failures_def report_checks_def default_report_def check_not_checked_def
      check_failed_def)

lemma checked_count_le: "checked_count r \<le> 6"
  using length_filter_le [of "\<lambda>c. status c \<in> {Verified, Failed}" "report_checks r"]
  by (simp add: checked_count_def report_checks_def)

text \<open>A report with a failed check counts at least one completed check.\<close>

lemma failures_are_counted: "has_failures r \<Longrightarrow> 0 < checked_count r"
  unfolding has_failures_def checked_count_def
  by (auto simp: list_ex_iff check_failed_def filter_empty_conv)

end
