(* ===== verification/Frames.thy ===== *)
theory Frames
  imports Capabilities Materials Provenances
begin

text \<open>
  The normalized block frame, \<^verbatim>\<open>crates/primitives/src/frame.rs\<close>: the envelopes of a block's
  components, the capability report of a frame, the fields a capability group promises, the
  structural validation and the heap estimate. The sizes that \<^verbatim>\<open>std::mem::size_of\<close> gives for
  the element types are parameters of the estimate.
\<close>

section \<open>Envelopes\<close>

record header_envelope =
  hd_rlp :: "bytes option"
  hd_transactions_root :: "block_hash option"
  hd_receipts_root :: "block_hash option"
  hd_withdrawals_root :: "block_hash option"
  hd_gas_limit :: "u64 option"
  hd_gas_used :: "u64 option"
  hd_base_fee_per_gas :: "quantity option"
  hd_blob_gas_used :: "u64 option"
  hd_excess_blob_gas :: "u64 option"
  hd_size_bytes :: "u64 option"
  hd_transaction_count :: "u32 option"
  hd_consensus_size_bytes :: "u64 option"

record transaction_envelope =
  tx_hash :: transaction_hash
  tx_type :: u8
  tx_index :: u32
  tx_encoded :: "bytes option"
  tx_from :: "address option"
  tx_to :: "address option"
  tx_nonce :: "u64 option"
  tx_gas_limit :: "u64 option"
  tx_value :: "quantity option"
  tx_input :: "bytes option"
  tx_max_fee_per_gas :: "quantity option"
  tx_max_priority_fee_per_gas :: "quantity option"
  tx_max_fee_per_blob_gas :: "quantity option"
  tx_blob_versioned_hashes :: "block_hash list"
  tx_size_bytes :: "u32 option"

record log =
  log_address :: address
  log_topics :: "topic list"
  log_data :: bytes
  log_transaction_hash :: "transaction_hash option"
  log_transaction_index :: u32
  log_index :: u32

record receipt_envelope =
  rc_transaction_hash :: transaction_hash
  rc_transaction_type :: u8
  rc_transaction_index :: u32
  rc_encoded :: "bytes option"
  rc_success :: "bool option"
  rc_gas_used :: "u64 option"
  rc_effective_gas_price :: "quantity option"
  rc_blob_gas_used :: "u64 option"
  rc_blob_gas_price :: "quantity option"
  rc_logs :: "log list"

record withdrawal =
  wd_index :: u64
  wd_validator_index :: u64
  wd_address :: address
  wd_amount_gwei :: u64

record blob_sidecar =
  bs_transaction_hash :: transaction_hash
  bs_index :: u32
  bs_versioned_hash :: block_hash
  bs_blob :: bytes
  bs_commitment :: bytes
  bs_proof :: bytes

record trace =
  tr_transaction_hash :: transaction_hash
  tr_schema :: string
  tr_encoded :: bytes

record state_diff =
  sd_address :: address
  sd_schema :: string
  sd_encoded :: bytes

record block_frame =
  fr_chain_id :: chain_id
  fr_block :: block_ref
  fr_finality :: finality
  fr_header :: "header_envelope material"
  fr_transactions :: "transaction_envelope list material"
  fr_receipts :: "receipt_envelope list material"
  fr_logs :: "log list material"
  fr_withdrawals :: "withdrawal list material"
  fr_blob_sidecars :: "blob_sidecar list material"
  fr_traces :: "trace list material"
  fr_state_diffs :: "state_diff list material"
  fr_provenance :: "provenance list"
  fr_verification :: verification_report

section \<open>Capability report\<close>

text \<open>\<^verbatim>\<open>add_material\<close> updates the two accumulators; the model threads them as a pair.\<close>

definition add_material ::
  "'a material \<Rightarrow> capability \<Rightarrow> capability_set \<times> capability_set \<Rightarrow> capability_set \<times> capability_set"
  where
  "add_material m c = (\<lambda>(present, complete).
     ((if is_present m then cap_with present c else present),
      (if is_complete m then cap_with complete c else complete)))"

definition capabilities :: "block_frame \<Rightarrow> frame_capability_report" where
  "capabilities f =
     (let acc0 = (cap_none, cap_none);
          acc1 = add_material (fr_header f) Header acc0;
          acc2 = add_material (fr_transactions f) Transactions acc1;
          acc3 = add_material (fr_receipts f) Receipts acc2;
          acc4 = add_material (fr_logs f) Logs acc3;
          acc5 = add_material (fr_withdrawals f) Withdrawals acc4;
          acc6 = add_material (fr_blob_sidecars f) BlobSidecars acc5;
          acc7 = add_material (fr_traces f) Traces acc6;
          acc8 = add_material (fr_state_diffs f) StateDiffs acc7;
          acc9 = (if vr_consensus_anchor (fr_verification f) \<noteq> None
                  then (cap_with (fst acc8) ConsensusFinality, cap_with (snd acc8) ConsensusFinality)
                  else acc8)
      in \<lparr>present = fst acc9, complete = snd acc9\<rparr>)"

text \<open>Which components a frame holds, read off the fields.\<close>

definition component_present :: "block_frame \<Rightarrow> capability \<Rightarrow> bool" where
  "component_present f c = (case c of
     Header \<Rightarrow> is_present (fr_header f)
   | Transactions \<Rightarrow> is_present (fr_transactions f)
   | Receipts \<Rightarrow> is_present (fr_receipts f)
   | Logs \<Rightarrow> is_present (fr_logs f)
   | Withdrawals \<Rightarrow> is_present (fr_withdrawals f)
   | BlobSidecars \<Rightarrow> is_present (fr_blob_sidecars f)
   | Traces \<Rightarrow> is_present (fr_traces f)
   | StateDiffs \<Rightarrow> is_present (fr_state_diffs f)
   | ConsensusFinality \<Rightarrow> vr_consensus_anchor (fr_verification f) \<noteq> None
   | _ \<Rightarrow> False)"

definition component_complete :: "block_frame \<Rightarrow> capability \<Rightarrow> bool" where
  "component_complete f c = (case c of
     Header \<Rightarrow> is_complete (fr_header f)
   | Transactions \<Rightarrow> is_complete (fr_transactions f)
   | Receipts \<Rightarrow> is_complete (fr_receipts f)
   | Logs \<Rightarrow> is_complete (fr_logs f)
   | Withdrawals \<Rightarrow> is_complete (fr_withdrawals f)
   | BlobSidecars \<Rightarrow> is_complete (fr_blob_sidecars f)
   | Traces \<Rightarrow> is_complete (fr_traces f)
   | StateDiffs \<Rightarrow> is_complete (fr_state_diffs f)
   | ConsensusFinality \<Rightarrow> vr_consensus_anchor (fr_verification f) \<noteq> None
   | _ \<Rightarrow> False)"

lemma add_material_contains:
  "cap_contains (fst (add_material m d acc)) c \<longleftrightarrow> c = d \<and> is_present m \<or> cap_contains (fst acc) c"
  "cap_contains (snd (add_material m d acc)) c \<longleftrightarrow> c = d \<and> is_complete m \<or> cap_contains (snd acc) c"
  by (auto simp: add_material_def split: prod.splits)

lemma capabilities_contains:
  "cap_contains (present (capabilities f)) c \<longleftrightarrow> component_present f c"
  "cap_contains (complete (capabilities f)) c \<longleftrightarrow> component_complete f c"
  by (cases c; simp add: capabilities_def Let_def add_material_contains component_present_def
      component_complete_def)+

section \<open>Field groups\<close>

definition receipts_match :: "transaction_envelope list \<Rightarrow> receipt_envelope list \<Rightarrow> bool" where
  "receipts_match txs rcs =
     (length txs = length rcs
      \<and> list_all (\<lambda>(tx, rc). rc_transaction_hash rc = tx_hash tx
          \<and> rc_transaction_index rc = tx_index tx
          \<and> rc_transaction_type rc = tx_type tx) (zip txs rcs))"

text \<open>\<^verbatim>\<open>Option::is_some_and\<close>, \<^verbatim>\<open>Option::is_none_or\<close> and \<^verbatim>\<open>Option::map_or\<close>.\<close>

definition is_some_and :: "'a option \<Rightarrow> ('a \<Rightarrow> bool) \<Rightarrow> bool" where
  "is_some_and x P = (case x of None \<Rightarrow> False | Some a \<Rightarrow> P a)"

definition is_none_or :: "'a option \<Rightarrow> ('a \<Rightarrow> bool) \<Rightarrow> bool" where
  "is_none_or x P = (case x of None \<Rightarrow> True | Some a \<Rightarrow> P a)"

definition map_or :: "'b \<Rightarrow> ('a \<Rightarrow> 'b) \<Rightarrow> 'a option \<Rightarrow> 'b" where
  "map_or d f x = (case x of None \<Rightarrow> d | Some a \<Rightarrow> f a)"

lemma option_tests [simp]:
  "\<not> is_some_and None P" "is_some_and (Some a) P = P a"
  "is_none_or None P" "is_none_or (Some a) P = P a"
  "map_or d f None = d" "map_or d f (Some a) = f a"
  by (simp_all add: is_some_and_def is_none_or_def map_or_def)

definition group_violation :: "block_frame \<Rightarrow> capability_set \<Rightarrow> string option" where
  "group_violation f groups =
     (let header = as_present (fr_header f);
          txs = map_or [] id (as_present (fr_transactions f));
          receipts = as_present (fr_receipts f)
      in
      if cap_contains groups Header
        \<and> is_some_and header (\<lambda>h. hd_gas_limit h = None \<or> hd_gas_used h = None)
      then Some ''header lacks gas limit or gas used''
      else if cap_contains groups Body
        \<and> list_ex (\<lambda>t. tx_nonce t = None \<or> tx_gas_limit t = None \<or> tx_value t = None) txs
      then Some ''transactions lack body fields''
      else if cap_contains groups Body \<and> is_some_and header (\<lambda>h. hd_transaction_count h = None)
      then Some ''header lacks the transaction count''
      else if cap_contains groups Calldata \<and> list_ex (\<lambda>t. tx_input t = None) txs
      then Some ''transactions lack calldata''
      else if cap_contains groups Senders \<and> list_ex (\<lambda>t. tx_from t = None) txs
      then Some ''transactions lack senders''
      else if cap_contains groups BlobFields
        \<and> list_ex (\<lambda>t. tx_type t = 3
            \<and> (tx_blob_versioned_hashes t = [] \<or> tx_max_fee_per_blob_gas t = None)) txs
      then Some ''blob transactions lack blob fields''
      else if cap_contains groups BlobFields
        \<and> is_some_and receipts (list_ex (\<lambda>r. rc_transaction_type r = 3 \<and> rc_blob_gas_used r = None))
      then Some ''blob receipts lack blob gas used''
      else if cap_contains groups ReceiptOutcome
        \<and> is_some_and receipts (list_ex (\<lambda>r. rc_success r = None \<or> rc_gas_used r = None
            \<or> rc_effective_gas_price r = None))
      then Some ''receipts lack outcome fields''
      else if cap_contains groups ReceiptOutcome
        \<and> is_some_and receipts (\<lambda>rs. is_present (fr_transactions f) \<and> \<not> receipts_match txs rs)
      then Some ''receipts do not match the transactions one to one''
      else if cap_contains groups BlockSize \<and> is_some_and header (\<lambda>h. hd_size_bytes h = None)
      then Some ''header lacks the block size''
      else if cap_contains groups BlockSize \<and> is_some_and header (\<lambda>h. hd_transaction_count h = None)
      then Some ''header lacks the transaction count''
      else None)"

text \<open>What each group promises about a frame's present material.\<close>

definition group_filled :: "block_frame \<Rightarrow> capability \<Rightarrow> bool" where
  "group_filled f c = (case c of
     Header \<Rightarrow> (\<forall>h. as_present (fr_header f) = Some h \<longrightarrow>
       hd_gas_limit h \<noteq> None \<and> hd_gas_used h \<noteq> None)
   | Body \<Rightarrow>
       (\<forall>txs. as_present (fr_transactions f) = Some txs \<longrightarrow> (\<forall>t \<in> set txs.
          tx_nonce t \<noteq> None \<and> tx_gas_limit t \<noteq> None \<and> tx_value t \<noteq> None))
       \<and> (\<forall>h. as_present (fr_header f) = Some h \<longrightarrow> hd_transaction_count h \<noteq> None)
   | Calldata \<Rightarrow> (\<forall>txs. as_present (fr_transactions f) = Some txs \<longrightarrow>
       (\<forall>t \<in> set txs. tx_input t \<noteq> None))
   | Senders \<Rightarrow> (\<forall>txs. as_present (fr_transactions f) = Some txs \<longrightarrow>
       (\<forall>t \<in> set txs. tx_from t \<noteq> None))
   | BlobFields \<Rightarrow>
       (\<forall>txs. as_present (fr_transactions f) = Some txs \<longrightarrow> (\<forall>t \<in> set txs. tx_type t = 3 \<longrightarrow>
          tx_blob_versioned_hashes t \<noteq> [] \<and> tx_max_fee_per_blob_gas t \<noteq> None))
       \<and> (\<forall>rs. as_present (fr_receipts f) = Some rs \<longrightarrow> (\<forall>r \<in> set rs.
          rc_transaction_type r = 3 \<longrightarrow> rc_blob_gas_used r \<noteq> None))
   | ReceiptOutcome \<Rightarrow> (\<forall>rs. as_present (fr_receipts f) = Some rs \<longrightarrow>
       (\<forall>r \<in> set rs. rc_success r \<noteq> None \<and> rc_gas_used r \<noteq> None
          \<and> rc_effective_gas_price r \<noteq> None)
       \<and> (\<forall>txs. as_present (fr_transactions f) = Some txs \<longrightarrow> receipts_match txs rs))
   | BlockSize \<Rightarrow> (\<forall>h. as_present (fr_header f) = Some h \<longrightarrow>
       hd_size_bytes h \<noteq> None \<and> hd_transaction_count h \<noteq> None)
   | _ \<Rightarrow> True)"

lemma all_capability:
  "(\<forall>c. P c) \<longleftrightarrow> P Header \<and> P Body \<and> P Transactions \<and> P Calldata \<and> P Receipts \<and> P Logs
    \<and> P Withdrawals \<and> P BlobSidecars \<and> P Traces \<and> P StateDiffs \<and> P ConsensusFinality \<and> P Mempool
    \<and> P Senders \<and> P BlobFields \<and> P ReceiptOutcome \<and> P BlockSize"
proof
  assume "P Header \<and> P Body \<and> P Transactions \<and> P Calldata \<and> P Receipts \<and> P Logs
    \<and> P Withdrawals \<and> P BlobSidecars \<and> P Traces \<and> P StateDiffs \<and> P ConsensusFinality \<and> P Mempool
    \<and> P Senders \<and> P BlobFields \<and> P ReceiptOutcome \<and> P BlockSize"
  then have "P c" for c by (cases c) simp_all
  then show "\<forall>c. P c" ..
qed simp

lemma not_list_ex: "\<not> list_ex P xs \<longleftrightarrow> (\<forall>x \<in> set xs. \<not> P x)"
  by (simp add: list_ex_iff)

lemma as_present_cases:
  "is_some_and (as_present m) P \<longleftrightarrow> \<not> (\<forall>v. as_present m = Some v \<longrightarrow> \<not> P v)"
  "list_ex Q (map_or [] id (as_present m')) \<longleftrightarrow>
    \<not> (\<forall>v. as_present m' = Some v \<longrightarrow> (\<forall>x \<in> set v. \<not> Q x))"
proof -
  show "is_some_and (as_present m) P \<longleftrightarrow> \<not> (\<forall>v. as_present m = Some v \<longrightarrow> \<not> P v)"
    by (cases "as_present m") simp_all
  show "list_ex Q (map_or [] id (as_present m')) \<longleftrightarrow>
      \<not> (\<forall>v. as_present m' = Some v \<longrightarrow> (\<forall>x \<in> set v. \<not> Q x))"
    by (cases "as_present m'") (simp_all add: list_ex_iff)
qed

lemma receipts_mismatch:
  "is_some_and (as_present (fr_receipts f))
      (\<lambda>rs. is_present (fr_transactions f)
        \<and> \<not> receipts_match (map_or [] id (as_present (fr_transactions f))) rs) \<longleftrightarrow>
    \<not> (\<forall>rs. as_present (fr_receipts f) = Some rs \<longrightarrow>
      (\<forall>txs. as_present (fr_transactions f) = Some txs \<longrightarrow> receipts_match txs rs))"
  by (cases "as_present (fr_receipts f)"; cases "as_present (fr_transactions f)")
    (simp_all add: is_present_as_present)

text \<open>Each group is filled exactly when the tests made for it find nothing.\<close>

lemma group_filled_tests:
  "group_filled f Header \<longleftrightarrow> \<not> is_some_and (as_present (fr_header f))
     (\<lambda>h. hd_gas_limit h = None \<or> hd_gas_used h = None)"
  "group_filled f Body \<longleftrightarrow>
     \<not> list_ex (\<lambda>t. tx_nonce t = None \<or> tx_gas_limit t = None \<or> tx_value t = None)
       (map_or [] id (as_present (fr_transactions f)))
     \<and> \<not> is_some_and (as_present (fr_header f)) (\<lambda>h. hd_transaction_count h = None)"
  "group_filled f Calldata \<longleftrightarrow>
     \<not> list_ex (\<lambda>t. tx_input t = None) (map_or [] id (as_present (fr_transactions f)))"
  "group_filled f Senders \<longleftrightarrow>
     \<not> list_ex (\<lambda>t. tx_from t = None) (map_or [] id (as_present (fr_transactions f)))"
  "group_filled f BlobFields \<longleftrightarrow>
     \<not> list_ex (\<lambda>t. tx_type t = 3
         \<and> (tx_blob_versioned_hashes t = [] \<or> tx_max_fee_per_blob_gas t = None))
       (map_or [] id (as_present (fr_transactions f)))
     \<and> \<not> is_some_and (as_present (fr_receipts f))
         (list_ex (\<lambda>r. rc_transaction_type r = 3 \<and> rc_blob_gas_used r = None))"
  "group_filled f BlockSize \<longleftrightarrow>
     \<not> is_some_and (as_present (fr_header f)) (\<lambda>h. hd_size_bytes h = None)
     \<and> \<not> is_some_and (as_present (fr_header f)) (\<lambda>h. hd_transaction_count h = None)"
  unfolding as_present_cases by (simp_all add: group_filled_def list_ex_iff) blast

lemma group_filled_outcome:
  "group_filled f ReceiptOutcome \<longleftrightarrow>
     \<not> is_some_and (as_present (fr_receipts f))
         (list_ex (\<lambda>r. rc_success r = None \<or> rc_gas_used r = None \<or> rc_effective_gas_price r = None))
     \<and> \<not> is_some_and (as_present (fr_receipts f))
         (\<lambda>rs. is_present (fr_transactions f)
           \<and> \<not> receipts_match (map_or [] id (as_present (fr_transactions f))) rs)"
  unfolding receipts_mismatch unfolding as_present_cases
  by (simp add: group_filled_def list_ex_iff) blast

lemma group_filled_other:
  "c \<notin> {Header, Body, Calldata, Senders, BlobFields, ReceiptOutcome, BlockSize} \<Longrightarrow> group_filled f c"
  by (cases c) (simp_all add: group_filled_def)

lemma group_violation_None:
  "group_violation f groups = None \<longleftrightarrow> (\<forall>c. cap_contains groups c \<longrightarrow> group_filled f c)"
proof -
  have "(\<forall>c. cap_contains groups c \<longrightarrow> group_filled f c) \<longleftrightarrow>
    (cap_contains groups Header \<longrightarrow> group_filled f Header)
    \<and> (cap_contains groups Body \<longrightarrow> group_filled f Body)
    \<and> (cap_contains groups Calldata \<longrightarrow> group_filled f Calldata)
    \<and> (cap_contains groups Senders \<longrightarrow> group_filled f Senders)
    \<and> (cap_contains groups BlobFields \<longrightarrow> group_filled f BlobFields)
    \<and> (cap_contains groups ReceiptOutcome \<longrightarrow> group_filled f ReceiptOutcome)
    \<and> (cap_contains groups BlockSize \<longrightarrow> group_filled f BlockSize)"
    unfolding all_capability by (simp add: group_filled_other)
  then show ?thesis
    unfolding group_violation_def Let_def if_Some_eq_None group_filled_tests group_filled_outcome
    by argo
qed

section \<open>Structural validation\<close>

definition validate_shape :: "block_frame \<Rightarrow> (unit, string) result" where
  "validate_shape f =
     (if fr_chain_id f = 0 then Err ''chain ID must be greater than zero''
      else if (case (as_complete (fr_transactions f), as_complete (fr_receipts f)) of
                 (Some txs, Some receipts) \<Rightarrow> length txs \<noteq> length receipts
               | _ \<Rightarrow> False)
      then Err ''complete transaction and receipt counts differ''
      else if has_failures (fr_verification f)
      then Err ''verification report contains a failed check''
      else if is_some_and (vr_consensus_anchor (fr_verification f))
                (\<lambda>anchor. ca_execution_block_hash anchor \<noteq> hash (fr_block f))
      then Err ''consensus anchor refers to another execution block''
      else Ok ())"

lemma validate_shape_Ok:
  "validate_shape f = Ok () \<longleftrightarrow>
    fr_chain_id f \<noteq> 0
    \<and> (\<forall>txs rcs. as_complete (fr_transactions f) = Some txs \<longrightarrow> as_complete (fr_receipts f) = Some rcs
        \<longrightarrow> length txs = length rcs)
    \<and> \<not> has_failures (fr_verification f)
    \<and> (\<forall>a. vr_consensus_anchor (fr_verification f) = Some a \<longrightarrow>
        ca_execution_block_hash a = hash (fr_block f))"
  by (cases "as_complete (fr_transactions f)"; cases "as_complete (fr_receipts f)";
      cases "vr_consensus_anchor (fr_verification f)") (simp_all add: validate_shape_def)

section \<open>Heap estimate\<close>

text \<open>The sizes of the element types, which the compiler chooses.\<close>

record layout =
  size_transaction :: nat
  size_receipt :: nat
  size_log :: nat
  size_withdrawal :: nat
  size_sidecar :: nat
  size_trace :: nat
  size_state_diff :: nat

definition dynamic_bytes :: "nat \<Rightarrow> u64" where
  "dynamic_bytes n = (if n < 2 ^ 64 then of_nat n else word_max)"

definition vector_elements :: "nat \<Rightarrow> nat \<Rightarrow> u64" where
  "vector_elements sz n = saturating_mul (dynamic_bytes n) (dynamic_bytes sz)"

definition logs_heap_bytes :: "layout \<Rightarrow> log list \<Rightarrow> u64" where
  "logs_heap_bytes l logs =
     saturating_add (vector_elements (size_log l) (length logs))
       (foldl (\<lambda>total g. saturating_add
            (saturating_add total (vector_elements 32 (length (log_topics g))))
            (dynamic_bytes (length (log_data g)))) 0 logs)"

definition optional_bytes :: "bytes option \<Rightarrow> u64" where
  "optional_bytes x = map_or 0 (\<lambda>v. dynamic_bytes (length v)) x"

definition estimated_heap_bytes :: "layout \<Rightarrow> block_frame \<Rightarrow> u64" where
  "estimated_heap_bytes l f =
     (let header = optional_bytes (Option.bind (as_present (fr_header f)) hd_rlp);
          transactions = map_or 0 (\<lambda>vs.
            saturating_add (vector_elements (size_transaction l) (length vs))
              (foldl (\<lambda>total t. saturating_add
                  (saturating_add (saturating_add total (optional_bytes (tx_encoded t)))
                    (optional_bytes (tx_input t)))
                  (vector_elements 32 (length (tx_blob_versioned_hashes t)))) 0 vs))
            (as_present (fr_transactions f));
          receipts = map_or 0 (\<lambda>vs.
            saturating_add (vector_elements (size_receipt l) (length vs))
              (foldl (\<lambda>total r. saturating_add
                  (saturating_add total (optional_bytes (rc_encoded r)))
                  (logs_heap_bytes l (rc_logs r))) 0 vs))
            (as_present (fr_receipts f));
          logs = map_or 0 (logs_heap_bytes l) (as_present (fr_logs f));
          withdrawals = map_or 0 (\<lambda>vs. vector_elements (size_withdrawal l) (length vs))
            (as_present (fr_withdrawals f));
          sidecars = map_or 0 (\<lambda>vs.
            saturating_add (vector_elements (size_sidecar l) (length vs))
              (foldl (\<lambda>total s. saturating_add (saturating_add (saturating_add total
                  (dynamic_bytes (length (bs_blob s)))) (dynamic_bytes (length (bs_commitment s))))
                  (dynamic_bytes (length (bs_proof s)))) 0 vs))
            (as_present (fr_blob_sidecars f));
          traces = map_or 0 (\<lambda>vs.
            saturating_add (vector_elements (size_trace l) (length vs))
              (foldl (\<lambda>total t. saturating_add (saturating_add total
                  (dynamic_bytes (length (tr_schema t)))) (dynamic_bytes (length (tr_encoded t))))
                0 vs))
            (as_present (fr_traces f));
          state_diffs = map_or 0 (\<lambda>vs.
            saturating_add (vector_elements (size_state_diff l) (length vs))
              (foldl (\<lambda>total d. saturating_add (saturating_add total
                  (dynamic_bytes (length (sd_schema d)))) (dynamic_bytes (length (sd_encoded d))))
                0 vs))
            (as_present (fr_state_diffs f))
      in saturating_add (saturating_add (saturating_add (saturating_add (saturating_add
           (saturating_add (saturating_add header transactions) receipts) logs) withdrawals)
           sidecars) traces) state_diffs)"

text \<open>The estimate is the exact byte count, capped at \<^verbatim>\<open>u64::MAX\<close>.\<close>

lemma unat_dynamic_bytes: "unat (dynamic_bytes n) = cap64 n"
  by (simp add: dynamic_bytes_def cap64_def unat_of_nat unat_word_max)

lemma unat_vector_elements: "unat (vector_elements sz n) = cap64 (n * sz)"
  by (simp add: vector_elements_def unat_mul64 unat_dynamic_bytes cap64_mult)

lemma unat_fold64:
  assumes "\<And>total n x. x \<in> set xs \<Longrightarrow> unat total = cap64 n \<Longrightarrow> cap64 (n + w x) = unat (step total x :: u64)"
  shows "unat (foldl step 0 xs) = cap64 (sum_list (map w xs))"
proof -
  have "unat (foldl step total xs) = cap64 (n + sum_list (map w xs))" if "unat total = cap64 n" for total n
    using that assms
  proof (induction xs arbitrary: total n)
    case Nil
    then show ?case by simp
  next
    case (Cons x xs)
    from Cons.prems(2) [of x] Cons.prems(1) have "unat (step total x) = cap64 (n + w x)"
      by simp
    from Cons.IH [OF this] Cons.prems(2) show ?case by (simp add: add.assoc)
  qed
  from this [of 0 0] show ?thesis by (simp add: cap64_def)
qed

definition log_bytes :: "layout \<Rightarrow> log list \<Rightarrow> nat" where
  "log_bytes l gs = length gs * size_log l
     + (\<Sum>g\<leftarrow>gs. length (log_topics g) * 32 + length (log_data g))"

definition option_bytes :: "bytes option \<Rightarrow> nat" where
  "option_bytes x = map_or 0 length x"

definition transaction_bytes :: "layout \<Rightarrow> transaction_envelope list \<Rightarrow> nat" where
  "transaction_bytes l ts = length ts * size_transaction l
     + (\<Sum>t\<leftarrow>ts. option_bytes (tx_encoded t) + option_bytes (tx_input t)
          + length (tx_blob_versioned_hashes t) * 32)"

definition receipt_bytes :: "layout \<Rightarrow> receipt_envelope list \<Rightarrow> nat" where
  "receipt_bytes l rs = length rs * size_receipt l
     + (\<Sum>r\<leftarrow>rs. option_bytes (rc_encoded r) + log_bytes l (rc_logs r))"

definition sidecar_bytes :: "layout \<Rightarrow> blob_sidecar list \<Rightarrow> nat" where
  "sidecar_bytes l ss = length ss * size_sidecar l
     + (\<Sum>s\<leftarrow>ss. length (bs_blob s) + length (bs_commitment s) + length (bs_proof s))"

definition frame_bytes :: "layout \<Rightarrow> block_frame \<Rightarrow> nat" where
  "frame_bytes l f =
     option_bytes (Option.bind (as_present (fr_header f)) hd_rlp)
     + map_or 0 (transaction_bytes l) (as_present (fr_transactions f))
     + map_or 0 (receipt_bytes l) (as_present (fr_receipts f))
     + map_or 0 (log_bytes l) (as_present (fr_logs f))
     + map_or 0 (\<lambda>ws. length ws * size_withdrawal l) (as_present (fr_withdrawals f))
     + map_or 0 (sidecar_bytes l) (as_present (fr_blob_sidecars f))
     + map_or 0 (\<lambda>ts. length ts * size_trace l
         + (\<Sum>t\<leftarrow>ts. length (tr_schema t) + length (tr_encoded t))) (as_present (fr_traces f))
     + map_or 0 (\<lambda>ds. length ds * size_state_diff l
         + (\<Sum>d\<leftarrow>ds. length (sd_schema d) + length (sd_encoded d))) (as_present (fr_state_diffs f))"

lemma unat_map_or64:
  "(\<And>v. unat (g v :: u64) = cap64 (w v)) \<Longrightarrow> unat (map_or 0 g x) = cap64 (map_or 0 w x)"
  by (cases x) (simp_all add: cap64_def)

lemma unat_optional_bytes: "unat (optional_bytes x) = cap64 (option_bytes x)"
  unfolding optional_bytes_def option_bytes_def by (rule unat_map_or64) (rule unat_dynamic_bytes)

lemma unat_logs_heap_bytes: "unat (logs_heap_bytes l gs) = cap64 (log_bytes l gs)"
  unfolding logs_heap_bytes_def log_bytes_def
  by (intro unat_add64 unat_fold64 unat_vector_elements)
    (simp_all add: unat_sat64 unat_vector_elements unat_dynamic_bytes cap64_cap64
      add.assoc [symmetric])

lemmas heap_sums = unat_add64 unat_fold64 unat_map_or64 unat_vector_elements unat_dynamic_bytes
  unat_optional_bytes unat_logs_heap_bytes

lemma estimated_heap_bytes_exact:
  "unat (estimated_heap_bytes l f) = cap64 (frame_bytes l f)"
  unfolding estimated_heap_bytes_def frame_bytes_def Let_def transaction_bytes_def
    receipt_bytes_def sidecar_bytes_def
  by (intro heap_sums)
    (simp_all add: unat_sat64 unat_vector_elements unat_dynamic_bytes unat_optional_bytes
      unat_logs_heap_bytes cap64_cap64 add.assoc [symmetric])

end
