(* ===== verification/Descriptors.thy ===== *)
theory Descriptors
  imports Frames
begin

text \<open>
  Static processor contracts, \<^verbatim>\<open>crates/processor-api/src/descriptor.rs\<close>: identifiers, lifecycle
  policies and their validation, what a requirement accepts of a frame, and the validation of
  a descriptor.
\<close>

section \<open>Identifiers\<close>

type_synonym processor_id = string
type_synonym processor_instance_id = string

definition processor_id_new :: "string \<Rightarrow> (processor_id, string) result" where
  "processor_id_new v =
     (if v = [] \<or> length v > 64 \<or> \<not> list_all portable_byte v then Err v else Ok v)"

definition processor_instance_id_new :: "string \<Rightarrow> (processor_instance_id, string) result" where
  "processor_instance_id_new v =
     (if v = [] \<or> length v > 192
        \<or> (case v of c # _ \<Rightarrow> c = CHR '':'' | [] \<Rightarrow> False)
        \<or> v \<in> {''.'', ''..''}
        \<or> \<not> list_all (\<lambda>c. portable_byte c \<or> c \<in> {CHR ''@'', CHR '':''}) v
      then Err v else Ok v)"

text \<open>\<^verbatim>\<open>ProcessorInstanceId::legacy\<close>, given the texts of the version and of the hash.\<close>

definition processor_instance_id_legacy ::
  "processor_id \<Rightarrow> string \<Rightarrow> string \<Rightarrow> (processor_instance_id, string) result" where
  "processor_instance_id_legacy i version config_hex =
     processor_instance_id_new (i @ ''@'' @ version @ '':'' @ config_hex)"

datatype start_point = Genesis | StartBlock block_number | ProcessorCheckpoint string

datatype reduction_mode = BlockLocal | OrderedState

datatype publication_policy =
  PublishUnattested | PublishAttested | PublishFinalized | PublishJobResult

fun first_level :: "publication_policy \<Rightarrow> finality" where
  "first_level PublishUnattested = Unattested"
| "first_level PublishAttested = Attested"
| "first_level PublishFinalized = Finalized"
| "first_level PublishJobResult = Finalized"

definition publishes_unfinalized :: "publication_policy \<Rightarrow> bool" where
  "publishes_unfinalized p = (p = PublishUnattested \<or> p = PublishAttested)"

lemma publishes_unfinalized_iff: "publishes_unfinalized p \<longleftrightarrow> first_level p < Finalized"
  by (cases p) (simp_all add: publishes_unfinalized_def)

section \<open>Lifecycle policies\<close>

datatype retention_policy = FullOutputHistory | LatestState | FinalizedHistory

datatype state_policy_mode = StateEphemeral | StateDurable | StateCheckpointed

datatype output_policy_mode = OutputNone | OutputLatest | OutputWindowed | OutputFull

record output_window =
  ow_max_blocks :: "u64 option"
  ow_max_age_seconds :: "u64 option"
  ow_max_rows :: "u64 option"
  ow_max_bytes :: "u64 option"

text \<open>The limits an option list declares.\<close>

definition declared :: "u64 option list \<Rightarrow> u64 list" where
  "declared vs = List.map_filter id vs"

definition output_window_validate :: "output_window \<Rightarrow> (unit, string) result" where
  "output_window_validate w =
     (let vs = [ow_max_blocks w, ow_max_age_seconds w, ow_max_rows w, ow_max_bytes w]
      in if list_ex (\<lambda>v. v = 0) (declared vs)
         then Err ''output window limits must be greater than zero''
         else if length (declared vs) \<noteq> 1
         then Err ''output window must declare exactly one block, age, row, or byte limit''
         else Ok ())"

record output_policy =
  op_mode :: output_policy_mode
  op_window :: "output_window option"
  op_finalized_only :: bool

definition default_output :: output_policy where
  "default_output = \<lparr>op_mode = OutputFull, op_window = None, op_finalized_only = False\<rparr>"

datatype artifact_policy_mode = ArtifactNone | ArtifactWindowed | ArtifactFull

record artifact_window =
  aw_max_blocks :: "u64 option"
  aw_max_age_seconds :: "u64 option"
  aw_max_bytes :: "u64 option"

definition artifact_window_validate :: "artifact_window \<Rightarrow> (unit, string) result" where
  "artifact_window_validate w =
     (let vs = [aw_max_blocks w, aw_max_age_seconds w, aw_max_bytes w]
      in if list_ex (\<lambda>v. v = 0) (declared vs)
         then Err ''artifact window limits must be greater than zero''
         else if length (declared vs) \<noteq> 1
         then Err ''artifact window must declare exactly one block, age, or byte limit''
         else Ok ())"

record artifact_policy =
  ap_mode :: artifact_policy_mode
  ap_window :: "artifact_window option"

datatype delivery_policy_mode =
  DeliveryNone | DeliveryBestEffort | DeliveryWindow | DeliveryUntilAcknowledged

datatype delivery_limit_action = LimitPause | LimitFail | LimitExpireAndReset

datatype delivery_ordering = OrderCanonical | OrderBlockVersionedIdempotent

record durable_consumer_policy =
  dc_id :: string
  dc_required :: bool
  dc_lease_ttl_seconds :: u64

record delivery_pruning_policy =
  pr_interval_seconds :: u64
  pr_minimum_batch_blocks :: u64
  pr_minimum_batch_changes :: u64
  pr_maximum_delete_changes :: u64
  pr_retain_finalized_blocks :: u64
  pr_retain_acknowledged_seconds :: u64

definition default_pruning :: delivery_pruning_policy where
  "default_pruning = \<lparr>pr_interval_seconds = 30, pr_minimum_batch_blocks = 64,
     pr_minimum_batch_changes = 10000, pr_maximum_delete_changes = 10000,
     pr_retain_finalized_blocks = 256, pr_retain_acknowledged_seconds = 60 * 60\<rparr>"

record delivery_policy =
  dp_mode :: delivery_policy_mode
  dp_max_bytes :: u64
  dp_max_age_seconds :: u64
  dp_on_limit :: delivery_limit_action
  dp_pruning :: delivery_pruning_policy
  dp_consumers :: "durable_consumer_policy list"

definition default_delivery :: delivery_policy where
  "default_delivery = \<lparr>dp_mode = DeliveryWindow, dp_max_bytes = push_bit 30 1,
     dp_max_age_seconds = 24 * 60 * 60, dp_on_limit = LimitPause, dp_pruning = default_pruning,
     dp_consumers = []\<rparr>"

datatype checkpoint_policy_mode = CheckpointNone | CheckpointAutomatic

record checkpoint_policy =
  cp_mode :: checkpoint_policy_mode
  cp_keep :: u32

definition default_checkpoint :: checkpoint_policy where
  "default_checkpoint = \<lparr>cp_mode = CheckpointAutomatic, cp_keep = 3\<rparr>"

datatype undo_policy_mode = UndoNone | UndoUnfinalized

record undo_policy =
  up_mode :: undo_policy_mode
  up_safety_blocks :: u64

definition default_undo :: undo_policy where
  "default_undo = \<lparr>up_mode = UndoUnfinalized, up_safety_blocks = 256\<rparr>"

record lifecycle_policies =
  lc_state :: state_policy_mode
  lc_artifacts :: artifact_policy
  lc_output :: output_policy
  lc_delivery :: delivery_policy
  lc_checkpoint :: checkpoint_policy
  lc_undo :: undo_policy

definition default_lifecycle :: lifecycle_policies where
  "default_lifecycle = \<lparr>lc_state = StateDurable,
     lc_artifacts = \<lparr>ap_mode = ArtifactNone, ap_window = None\<rparr>, lc_output = default_output,
     lc_delivery = default_delivery, lc_checkpoint = default_checkpoint, lc_undo = default_undo\<rparr>"

definition lifecycle_from_legacy :: "retention_policy \<Rightarrow> lifecycle_policies" where
  "lifecycle_from_legacy r =
     default_lifecycle\<lparr>lc_output :=
       (case r of
          FullOutputHistory \<Rightarrow> default_output
        | LatestState \<Rightarrow> \<lparr>op_mode = OutputLatest, op_window = None, op_finalized_only = False\<rparr>
        | FinalizedHistory \<Rightarrow> default_output\<lparr>op_finalized_only := True\<rparr>)\<rparr>"

text \<open>100 years in seconds, \<^verbatim>\<open>Duration::from_hours(100 * 365 * 24)\<close>.\<close>

definition MAXIMUM_CONSUMER_LEASE_TTL :: u64 where
  "MAXIMUM_CONSUMER_LEASE_TTL = 100 * 365 * 24 * 3600"

definition portable_consumer_id :: "string \<Rightarrow> bool" where
  "portable_consumer_id i = (i \<noteq> [] \<and> length i \<le> 128 \<and> list_all portable_byte i)"

text \<open>The loop over the consumers, with the set of the identifiers already seen.\<close>

fun validate_consumers ::
  "delivery_policy_mode \<Rightarrow> string set \<Rightarrow> durable_consumer_policy list \<Rightarrow> (unit, string) result" where
  "validate_consumers mode seen [] = Ok ()"
| "validate_consumers mode seen (c # cs) =
     (if \<not> portable_consumer_id (dc_id c) \<or> dc_id c \<in> seen
      then Err ''delivery consumers need unique portable IDs''
      else if dc_lease_ttl_seconds c = 0 \<or> dc_lease_ttl_seconds c > MAXIMUM_CONSUMER_LEASE_TTL
      then Err ''delivery consumer lease TTLs must be non-zero and at most 100 years''
      else if dc_required c \<and> mode \<noteq> DeliveryUntilAcknowledged
      then Err ''required consumers need until_acknowledged delivery''
      else validate_consumers mode (insert (dc_id c) seen) cs)"

definition validate_artifacts :: "artifact_policy \<Rightarrow> (unit, string) result" where
  "validate_artifacts p =
     (case (ap_mode p, ap_window p) of
        (ArtifactWindowed, Some w) \<Rightarrow> artifact_window_validate w
      | (ArtifactWindowed, None) \<Rightarrow> Err ''windowed artifacts require an artifact window''
      | (_, Some _) \<Rightarrow> Err ''an artifact window is valid only in window mode''
      | _ \<Rightarrow> Ok ())"

definition validate_output :: "output_policy \<Rightarrow> (unit, string) result" where
  "validate_output p =
     (case (op_mode p, op_window p) of
        (OutputWindowed, Some w) \<Rightarrow> output_window_validate w
      | (OutputWindowed, None) \<Rightarrow> Err ''windowed output requires an output window''
      | (_, Some _) \<Rightarrow> Err ''an output window is valid only in window mode''
      | _ \<Rightarrow> Ok ())"

definition validate_delivery :: "delivery_policy \<Rightarrow> (unit, string) result" where
  "validate_delivery d =
     (let enabled = (dp_mode d \<noteq> DeliveryNone); pruning = dp_pruning d
      in if enabled \<and> (dp_max_bytes d = 0 \<or> dp_max_age_seconds d = 0)
         then Err ''delivery byte and age limits must be greater than zero''
         else if enabled \<and> (pr_interval_seconds pruning = 0 \<or> pr_minimum_batch_blocks pruning = 0
           \<or> pr_minimum_batch_changes pruning = 0 \<or> pr_maximum_delete_changes pruning = 0)
         then Err ''delivery pruning batch limits and interval must be greater than zero''
         else if \<not> enabled \<and> dp_consumers d \<noteq> []
         then Err ''delivery consumers require delivery to be enabled''
         else and_then (validate_consumers (dp_mode d) {} (dp_consumers d)) (\<lambda>_.
           if dp_mode d = DeliveryUntilAcknowledged \<and> \<not> list_ex dc_required (dp_consumers d)
           then Err ''until_acknowledged delivery requires a required durable consumer''
           else Ok ()))"

definition lifecycle_validate ::
  "lifecycle_policies \<Rightarrow> publication_policy \<Rightarrow> (unit, string) result" where
  "lifecycle_validate l publication =
     and_then (validate_artifacts (lc_artifacts l)) (\<lambda>_.
     and_then (validate_output (lc_output l)) (\<lambda>_.
     and_then (validate_delivery (lc_delivery l)) (\<lambda>_.
     if publishes_unfinalized publication \<and> up_mode (lc_undo l) = UndoNone
     then Err ''unattested and attested publication require an unfinalized undo policy''
     else if cp_mode (lc_checkpoint l) = CheckpointAutomatic \<and> cp_keep (lc_checkpoint l) = 0
     then Err ''automatic checkpoints must retain at least one checkpoint''
     else if lc_state l = StateEphemeral
     then Err ''ephemeral processor state is not implemented; use durable or checkpointed state''
     else if lc_state l = StateCheckpointed \<and> cp_mode (lc_checkpoint l) \<noteq> CheckpointAutomatic
     then Err ''checkpointed processor state requires automatic checkpoints''
     else Ok ())))"

subsection \<open>What validation accepts\<close>

text \<open>Exactly one limit is declared and it is not zero.\<close>

definition one_limit :: "u64 option list \<Rightarrow> bool" where
  "one_limit vs = (\<exists>v. v \<noteq> 0 \<and> declared vs = [v])"

definition consumers_ok :: "delivery_policy_mode \<Rightarrow> durable_consumer_policy list \<Rightarrow> bool" where
  "consumers_ok mode cs =
     (distinct (map dc_id cs)
      \<and> (\<forall>c \<in> set cs. portable_consumer_id (dc_id c) \<and> 0 < dc_lease_ttl_seconds c
          \<and> dc_lease_ttl_seconds c \<le> MAXIMUM_CONSUMER_LEASE_TTL
          \<and> (dc_required c \<longrightarrow> mode = DeliveryUntilAcknowledged)))"

definition lifecycle_ok :: "lifecycle_policies \<Rightarrow> publication_policy \<Rightarrow> bool" where
  "lifecycle_ok l publication =
     ((case ap_window (lc_artifacts l) of
         None \<Rightarrow> ap_mode (lc_artifacts l) \<noteq> ArtifactWindowed
       | Some w \<Rightarrow> ap_mode (lc_artifacts l) = ArtifactWindowed
           \<and> one_limit [aw_max_blocks w, aw_max_age_seconds w, aw_max_bytes w])
      \<and> (case op_window (lc_output l) of
         None \<Rightarrow> op_mode (lc_output l) \<noteq> OutputWindowed
       | Some w \<Rightarrow> op_mode (lc_output l) = OutputWindowed
           \<and> one_limit [ow_max_blocks w, ow_max_age_seconds w, ow_max_rows w, ow_max_bytes w])
      \<and> (let d = lc_delivery l; p = dp_pruning d in
          (if dp_mode d = DeliveryNone then dp_consumers d = []
           else 0 \<notin> {dp_max_bytes d, dp_max_age_seconds d, pr_interval_seconds p,
                  pr_minimum_batch_blocks p, pr_minimum_batch_changes p, pr_maximum_delete_changes p})
          \<and> consumers_ok (dp_mode d) (dp_consumers d)
          \<and> (dp_mode d = DeliveryUntilAcknowledged \<longrightarrow> (\<exists>c \<in> set (dp_consumers d). dc_required c)))
      \<and> (first_level publication < Finalized \<longrightarrow> up_mode (lc_undo l) = UndoUnfinalized)
      \<and> (cp_mode (lc_checkpoint l) = CheckpointAutomatic \<longrightarrow> 0 < cp_keep (lc_checkpoint l))
      \<and> lc_state l \<noteq> StateEphemeral
      \<and> (lc_state l = StateCheckpointed \<longrightarrow> cp_mode (lc_checkpoint l) = CheckpointAutomatic))"

lemma one_limit_iff:
  "one_limit vs \<longleftrightarrow> \<not> list_ex (\<lambda>v. v = 0) (declared vs) \<and> length (declared vs) = 1"
  by (auto simp: one_limit_def length_Suc_conv)

lemma unit_Ok: "(r = Ok ()) = (\<exists>u. r = Ok u)"
  by auto

lemma window_validate_Ok:
  "artifact_window_validate w = Ok u \<longleftrightarrow>
    one_limit [aw_max_blocks w, aw_max_age_seconds w, aw_max_bytes w]"
  "output_window_validate ow = Ok u \<longleftrightarrow>
    one_limit [ow_max_blocks ow, ow_max_age_seconds ow, ow_max_rows ow, ow_max_bytes ow]"
  by (simp_all add: artifact_window_validate_def output_window_validate_def Let_def one_limit_iff)

lemma validate_artifacts_Ok:
  "validate_artifacts p = Ok u \<longleftrightarrow>
    (case ap_window p of None \<Rightarrow> ap_mode p \<noteq> ArtifactWindowed
     | Some w \<Rightarrow> ap_mode p = ArtifactWindowed
         \<and> one_limit [aw_max_blocks w, aw_max_age_seconds w, aw_max_bytes w])"
  by (cases "ap_mode p"; cases "ap_window p") (simp_all add: validate_artifacts_def window_validate_Ok)

lemma validate_output_Ok:
  "validate_output p = Ok u \<longleftrightarrow>
    (case op_window p of None \<Rightarrow> op_mode p \<noteq> OutputWindowed
     | Some w \<Rightarrow> op_mode p = OutputWindowed
         \<and> one_limit [ow_max_blocks w, ow_max_age_seconds w, ow_max_rows w, ow_max_bytes w])"
  by (cases "op_mode p"; cases "op_window p") (simp_all add: validate_output_def window_validate_Ok)

lemma validate_consumers_Ok:
  "validate_consumers mode seen cs = Ok u \<longleftrightarrow>
    consumers_ok mode cs \<and> dc_id ` set cs \<inter> seen = {}"
  by (induction cs arbitrary: seen) (auto simp: consumers_ok_def word_gt_0 not_less)

lemma validate_delivery_Ok:
  "validate_delivery d = Ok u \<longleftrightarrow>
    (if dp_mode d = DeliveryNone then dp_consumers d = []
     else 0 \<notin> {dp_max_bytes d, dp_max_age_seconds d, pr_interval_seconds (dp_pruning d),
            pr_minimum_batch_blocks (dp_pruning d), pr_minimum_batch_changes (dp_pruning d),
            pr_maximum_delete_changes (dp_pruning d)})
    \<and> consumers_ok (dp_mode d) (dp_consumers d)
    \<and> (dp_mode d = DeliveryUntilAcknowledged \<longrightarrow> (\<exists>c \<in> set (dp_consumers d). dc_required c))"
  by (cases "dp_mode d = DeliveryNone")
    (auto simp: validate_delivery_def Let_def if_Err_eq_Ok validate_consumers_Ok list_ex_iff)

lemma lifecycle_validate_Ok:
  "lifecycle_validate l publication = Ok () \<longleftrightarrow> lifecycle_ok l publication"
proof -
  have undo: "up_mode (lc_undo l) = UndoUnfinalized \<longleftrightarrow> up_mode (lc_undo l) \<noteq> UndoNone"
    by (cases "up_mode (lc_undo l)") simp_all
  have keep: "0 < cp_keep (lc_checkpoint l) \<longleftrightarrow> cp_keep (lc_checkpoint l) \<noteq> 0"
    by (auto simp: word_gt_0)
  show ?thesis
    unfolding lifecycle_ok_def lifecycle_validate_def Let_def
    by (simp only: and_then_Ok validate_artifacts_Ok validate_output_Ok validate_delivery_Ok
        if_Err_eq_Ok publishes_unfinalized_iff undo keep simp_thms ex_simps) argo
qed

lemma default_lifecycle_ok: "lifecycle_ok (lifecycle_from_legacy r) publication"
  by (cases r) (simp_all add: lifecycle_ok_def lifecycle_from_legacy_def default_lifecycle_def
      default_output_def default_delivery_def default_pruning_def default_checkpoint_def
      default_undo_def consumers_ok_def)

section \<open>Data requirements\<close>

record data_requirement =
  dr_capabilities :: capability_set
  dr_log_fields :: log_field_set
  dr_allow_filtered :: bool
  dr_filter :: filter_scope
  dr_minimum_finality :: finality

fun filter_claim :: "'a material \<Rightarrow> (filter_scope \<times> completeness) option" where
  "filter_claim (Filtered _ scope completeness) = Some (scope, completeness)"
| "filter_claim (Complete _) = None"
| "filter_claim (Missing _) = None"

definition filter_claims :: "block_frame \<Rightarrow> (capability \<times> (filter_scope \<times> completeness) option) list"
  where
  "filter_claims f =
     [(Header, filter_claim (fr_header f)),
      (Transactions, filter_claim (fr_transactions f)),
      (Receipts, filter_claim (fr_receipts f)),
      (Logs, filter_claim (fr_logs f)),
      (Withdrawals, filter_claim (fr_withdrawals f)),
      (BlobSidecars, filter_claim (fr_blob_sidecars f)),
      (Traces, filter_claim (fr_traces f)),
      (StateDiffs, filter_claim (fr_state_diffs f))]"

fun validate_claims ::
  "data_requirement \<Rightarrow> block_number \<Rightarrow> (capability \<times> (filter_scope \<times> completeness) option) list
    \<Rightarrow> (unit, string) result" where
  "validate_claims r b [] = Ok ()"
| "validate_claims r b ((c, None) # rest) = validate_claims r b rest"
| "validate_claims r b ((c, Some (scope, completeness)) # rest) =
     (if cap_intersection (with_derivable (cap_of c)) (dr_capabilities r) = cap_none
      then validate_claims r b rest
      else if completeness = Partial
      then Err ''filtered frame material is only a partial projection''
      else if \<not> covers_at scope (dr_filter r) b
      then Err ''filtered frame material does not cover the requirement filter''
      else validate_claims r b rest)"

definition validate_filtered_material :: "data_requirement \<Rightarrow> block_frame \<Rightarrow> (unit, string) result" where
  "validate_filtered_material r f = validate_claims r (number (fr_block f)) (filter_claims f)"

definition log_hash_missing :: "block_frame \<Rightarrow> bool" where
  "log_hash_missing f =
     (is_some_and (as_present (fr_logs f)) (list_ex (\<lambda>g. log_transaction_hash g = None))
      \<or> is_some_and (as_present (fr_receipts f))
          (list_ex (\<lambda>rc. list_ex (\<lambda>g. log_transaction_hash g = None) (rc_logs rc))))"

definition validate_frame :: "data_requirement \<Rightarrow> block_frame \<Rightarrow> (unit, string) result" where
  "validate_frame r f =
     (if \<not> satisfies (fr_finality f) (dr_minimum_finality r)
      then Err ''frame does not meet minimum finality''
      else if \<not> report_satisfies (capabilities f) (dr_capabilities r) (dr_allow_filtered r)
      then Err ''frame does not meet capability completeness''
      else and_then (if dr_allow_filtered r then validate_filtered_material r f else Ok ()) (\<lambda>_.
        if has_failures (fr_verification f) then Err ''frame contains failed verification''
        else if lf_contains (dr_log_fields r) TransactionHash \<and> log_hash_missing f
        then Err ''frame logs omit a required transaction hash''
        else case group_violation f (with_derivable (dr_capabilities r)) of
               Some reason \<Rightarrow> Err reason
             | None \<Rightarrow> Ok ()))"

text \<open>
  A claim is inspected when the requirement names a capability the component supplies,
  directly or by derivation.
\<close>

definition supplies :: "capability \<Rightarrow> capability_set \<Rightarrow> bool" where
  "supplies c required =
     (\<exists>d. cap_contains (with_derivable (cap_of c)) d \<and> cap_contains required d)"

lemma cap_eq_none: "s = cap_none \<longleftrightarrow> (\<forall>c. \<not> cap_contains s c)"
  using cap_eqI [of s cap_none] by auto

lemma supplies_iff:
  "cap_intersection (with_derivable (cap_of c)) required \<noteq> cap_none \<longleftrightarrow> supplies c required"
  by (simp add: supplies_def cap_eq_none)

lemma validate_claims_Ok:
  "validate_claims r b cs = Ok u \<longleftrightarrow>
    (\<forall>(c, claim) \<in> set cs. \<forall>scope completeness. claim = Some (scope, completeness) \<longrightarrow>
      supplies c (dr_capabilities r) \<longrightarrow>
      completeness \<noteq> Partial \<and> covers_at scope (dr_filter r) b)"
proof (induction r b cs rule: validate_claims.induct)
  case (3 r b c scope completeness rest)
  then show ?case
    by (cases "supplies c (dr_capabilities r)") (auto simp: supplies_iff [symmetric])
qed simp_all

lemma validate_frame_Ok:
  "validate_frame r f = Ok () \<longleftrightarrow>
    dr_minimum_finality r \<le> fr_finality f
    \<and> report_satisfies (capabilities f) (dr_capabilities r) (dr_allow_filtered r)
    \<and> (dr_allow_filtered r \<longrightarrow> validate_filtered_material r f = Ok ())
    \<and> \<not> has_failures (fr_verification f)
    \<and> (lf_contains (dr_log_fields r) TransactionHash \<longrightarrow> \<not> log_hash_missing f)
    \<and> (\<forall>c. cap_contains (with_derivable (dr_capabilities r)) c \<longrightarrow> group_filled f c)"
proof -
  have "(case group_violation f g of Some reason \<Rightarrow> Err reason | None \<Rightarrow> Ok ()) = Ok () \<longleftrightarrow>
      (\<forall>c. cap_contains g c \<longrightarrow> group_filled f c)" for g
    using group_violation_None [of f g] by (cases "group_violation f g") auto
  then show ?thesis
    unfolding validate_frame_def
    by (cases "dr_allow_filtered r") (auto simp: if_Err_eq_Ok)
qed

text \<open>What the material of an accepted frame says about the requirement's predicate.\<close>

definition material_serves :: "'a material \<Rightarrow> filter_scope \<Rightarrow> block_number \<Rightarrow> bool" where
  "material_serves m wanted b =
     (case m of
        Missing _ \<Rightarrow> False
      | Complete _ \<Rightarrow> True
      | Filtered _ scope completeness \<Rightarrow> completeness \<noteq> Partial \<and> covers_at scope wanted b)"

lemma filter_claim_serves:
  "is_present m \<Longrightarrow>
    (\<forall>scope completeness. filter_claim m = Some (scope, completeness) \<longrightarrow>
      completeness \<noteq> Partial \<and> covers_at scope wanted b) \<Longrightarrow> material_serves m wanted b"
  by (cases m) (auto simp: material_serves_def)

lemma complete_serves: "is_complete m \<Longrightarrow> material_serves m wanted b"
  by (cases m) (simp_all add: material_serves_def)

lemma supplies_self: "cap_contains required c \<Longrightarrow> supplies c required"
  by (auto simp: supplies_def with_derivable_contains intro: exI [of _ c])

text \<open>The components a requirement names are served by an accepted frame.\<close>

lemma validate_frame_serves_logs:
  assumes ok: "validate_frame r f = Ok ()" and logs: "cap_contains (dr_capabilities r) Logs"
  shows "material_serves (fr_logs f) (dr_filter r) (number (fr_block f))
    \<or> material_serves (fr_receipts f) (dr_filter r) (number (fr_block f))"
proof -
  let ?serves = "\<lambda>m. material_serves m (dr_filter r) (number (fr_block f))"
  have sup: "supplies Logs (dr_capabilities r)" "supplies Receipts (dr_capabilities r)"
    using logs by (auto simp: supplies_def with_derivable_contains)
  show ?thesis
  proof (cases "dr_allow_filtered r")
    case True
    with ok have claims: "validate_claims r (number (fr_block f)) (filter_claims f) = Ok ()"
      by (simp add: validate_frame_Ok validate_filtered_material_def)
    have "is_present (fr_logs f) \<or> is_present (fr_receipts f)"
      using ok logs True by (auto simp: validate_frame_Ok report_satisfies_iff
          with_derivable_contains capabilities_contains component_present_def dest!: spec [of _ Logs])
    moreover have "is_present (fr_logs f) \<Longrightarrow> ?serves (fr_logs f)"
      using claims sup by (intro filter_claim_serves) (auto simp: validate_claims_Ok filter_claims_def)
    moreover have "is_present (fr_receipts f) \<Longrightarrow> ?serves (fr_receipts f)"
      using claims sup by (intro filter_claim_serves) (auto simp: validate_claims_Ok filter_claims_def)
    ultimately show ?thesis by blast
  next
    case False
    with ok logs have "is_complete (fr_logs f) \<or> is_complete (fr_receipts f)"
      by (auto simp: validate_frame_Ok report_satisfies_iff with_derivable_contains
          capabilities_contains component_complete_def dest!: spec [of _ Logs])
    then show ?thesis by (auto intro: complete_serves)
  qed
qed

text \<open>
  A header supplies the block-size group to the capability report, but not to the inspection
  of filtered material: a requirement for the block size alone accepts a filtered, partial
  header.
\<close>

lemma validate_claims_block_size:
  assumes "dr_capabilities r = cap_of BlockSize"
    and "filter_claim (fr_transactions f) = None"
  shows "validate_filtered_material r f = Ok ()"
  using assms
  by (auto simp: validate_filtered_material_def validate_claims_Ok filter_claims_def supplies_def
      with_derivable_contains)

section \<open>Processor descriptors\<close>

record processor_schemas =
  ps_delta_version :: u16
  ps_entity_schema :: string
  ps_change_schema :: string

text \<open>The semantic version is kept as the text that \<^verbatim>\<open>semver\<close> parses and prints.\<close>

record processor_descriptor =
  pd_id :: processor_id
  pd_instance :: processor_instance_id
  pd_version :: string
  pd_code_hash :: block_hash
  pd_config_hash :: block_hash
  pd_start :: start_point
  pd_requirements :: "data_requirement list"
  pd_mode :: reduction_mode
  pd_delivery_ordering :: delivery_ordering
  pd_publication :: publication_policy
  pd_lifecycle :: lifecycle_policies
  pd_schemas :: processor_schemas

definition descriptor_validate :: "processor_descriptor \<Rightarrow> (unit, string) result" where
  "descriptor_validate d =
     (if pd_requirements d = [] then Err ''processor must declare at least one data requirement''
      else if ps_delta_version (pd_schemas d) = 0
      then Err ''delta schema version must be greater than zero''
      else if ps_entity_schema (pd_schemas d) = [] \<or> ps_change_schema (pd_schemas d) = []
      then Err ''processor entity and change schemas must not be empty''
      else if list_ex (\<lambda>r. dr_log_fields r \<noteq> lf_none
          \<and> \<not> cap_contains (with_derivable (dr_capabilities r)) Logs) (pd_requirements d)
      then Err ''optional log fields require logs or receipt material''
      else if pd_delivery_ordering d = OrderBlockVersionedIdempotent \<and> pd_mode d \<noteq> BlockLocal
      then Err ''block-versioned delivery requires a block-local processor''
      else lifecycle_validate (pd_lifecycle d) (pd_publication d))"

text \<open>The wire form of a descriptor, and the defaults that decoding fills in.\<close>

record descriptor_wire =
  dw_id :: processor_id
  dw_instance :: "processor_instance_id option"
  dw_version :: string
  dw_code_hash :: block_hash
  dw_config_hash :: block_hash
  dw_start :: start_point
  dw_requirements :: "data_requirement list"
  dw_mode :: reduction_mode
  dw_delivery_ordering :: delivery_ordering
  dw_publication :: publication_policy
  dw_lifecycle :: "lifecycle_policies option"
  dw_retention :: "retention_policy option"
  dw_schemas :: processor_schemas

definition descriptor_from_wire ::
  "(block_hash \<Rightarrow> string) \<Rightarrow> descriptor_wire \<Rightarrow> (processor_descriptor, string) result" where
  "descriptor_from_wire hex w =
     and_then (case dw_instance w of
         Some i \<Rightarrow> Ok i
       | None \<Rightarrow> processor_instance_id_legacy (dw_id w) (dw_version w) (hex (dw_config_hash w)))
       (\<lambda>instance_id.
     Ok \<lparr>pd_id = dw_id w, pd_instance = instance_id, pd_version = dw_version w,
         pd_code_hash = dw_code_hash w, pd_config_hash = dw_config_hash w, pd_start = dw_start w,
         pd_requirements = dw_requirements w, pd_mode = dw_mode w,
         pd_delivery_ordering = dw_delivery_ordering w, pd_publication = dw_publication w,
         pd_lifecycle =
           (case dw_lifecycle w of
              Some l \<Rightarrow> l
            | None \<Rightarrow> lifecycle_from_legacy (map_or FullOutputHistory id (dw_retention w))),
         pd_schemas = dw_schemas w\<rparr>)"

lemma descriptor_validate_Ok:
  "descriptor_validate d = Ok () \<longleftrightarrow>
    pd_requirements d \<noteq> [] \<and> ps_delta_version (pd_schemas d) \<noteq> 0
    \<and> ps_entity_schema (pd_schemas d) \<noteq> [] \<and> ps_change_schema (pd_schemas d) \<noteq> []
    \<and> (\<forall>r \<in> set (pd_requirements d). dr_log_fields r \<noteq> lf_none \<longrightarrow>
        cap_contains (dr_capabilities r) Logs \<or> cap_contains (dr_capabilities r) Receipts)
    \<and> (pd_delivery_ordering d = OrderBlockVersionedIdempotent \<longrightarrow> pd_mode d = BlockLocal)
    \<and> lifecycle_ok (pd_lifecycle d) (pd_publication d)"
  unfolding descriptor_validate_def if_Err_eq_Ok lifecycle_validate_Ok
  by (auto simp: list_ex_iff with_derivable_contains)

lemma processor_instance_id_legacy_Ok:
  assumes i: "processor_id_new i = Ok i" and v: "list_all portable_byte v"
    and h: "length h = 64" "list_all portable_byte h" and fit: "length i + length v \<le> 126"
  shows "processor_instance_id_legacy i v h = Ok (i @ ''@'' @ v @ '':'' @ h)"
proof -
  have "list_all portable_byte i" "i \<noteq> []"
    using i by (auto simp: processor_id_new_def split: if_splits)
  moreover from this obtain c cs where "i = c # cs" "portable_byte c" by (cases i) auto
  moreover have "\<not> portable_byte (CHR '':'')"
    by (simp add: portable_byte_def is_ascii_alphanumeric_def)
  ultimately show ?thesis
    using v h fit by (auto simp: processor_instance_id_legacy_def processor_instance_id_new_def
        list_all_iff)
qed

end
