(* ===== verification/Durables.thy ===== *)
theory Durables
  imports Provenances
begin

text \<open>
  The checksummed durable envelope, \<^verbatim>\<open>crates/primitives/src/durable.rs\<close>, and the opaque cursors
  built on it, \<^verbatim>\<open>crates/primitives/src/cursor.rs\<close>. BLAKE3, postcard and the hexadecimal text
  codec are third-party packages: they are the fields of the parameter \<open>codec\<close>, and
  \<open>codec_ok\<close> names what the code relies on.
\<close>

section \<open>Envelope\<close>

record ('a, 'pe, 'he) codec =
  blake3 :: "bytes \<Rightarrow> bytes"
  to_allocvec :: "'a \<Rightarrow> (bytes, 'pe) result"
  from_bytes :: "bytes \<Rightarrow> ('a, 'pe) result"
  hex_encode :: "bytes \<Rightarrow> string"
  hex_decode :: "string \<Rightarrow> (bytes, 'he) result"

text \<open>
  BLAKE3 hashes have 32 bytes, postcard decodes what it encoded, and hexadecimal text decodes
  to the bytes it was made from.
\<close>

definition codec_ok :: "('a, 'pe, 'he) codec \<Rightarrow> bool" where
  "codec_ok c =
     ((\<forall>bs. length (blake3 c bs) = 32)
      \<and> (\<forall>v p. to_allocvec c v = Ok p \<longrightarrow> from_bytes c p = Ok v)
      \<and> (\<forall>bs. hex_decode c (hex_encode c bs) = Ok bs))"

datatype durable_kind =
  DurableBlockRef | DurableBlockFrame | DurableProcessorCursor | DurableChangeCursor
| DurableSourceCursor | DurableProcessorDelta | DurableProcessorArtifactExport

fun kind_tag :: "durable_kind \<Rightarrow> u16" where
  "kind_tag DurableBlockRef = 1"
| "kind_tag DurableBlockFrame = 2"
| "kind_tag DurableProcessorCursor = 10"
| "kind_tag DurableChangeCursor = 11"
| "kind_tag DurableSourceCursor = 12"
| "kind_tag DurableProcessorDelta = 20"
| "kind_tag DurableProcessorArtifactExport = 21"

datatype 'pe durable_error =
  Truncated
| Magic
| EnvelopeVersion u16
| KindMismatch u16 u16
| SchemaVersion u16 u16
| Reserved
| LengthMismatch nat nat
| Checksum
| Oversized
| EncodeError 'pe
| DecodeError 'pe

definition MAGIC :: bytes where
  "MAGIC = [0x49, 0x44, 0x58, 0x4E]"

definition ENVELOPE_VERSION :: u16 where
  "ENVELOPE_VERSION = 1"

definition HEADER_LEN :: nat where
  "HEADER_LEN = 16"

definition CHECKSUM_LEN :: nat where
  "CHECKSUM_LEN = 32"

definition BLOCK_FRAME_SCHEMA_VERSION :: u16 where
  "BLOCK_FRAME_SCHEMA_VERSION = 1"

text \<open>The bytes that the checksum covers.\<close>

definition envelope_body :: "durable_kind \<Rightarrow> u16 \<Rightarrow> u32 \<Rightarrow> bytes \<Rightarrow> bytes" where
  "envelope_body kind version len payload =
     MAGIC @ to_be_bytes 2 ENVELOPE_VERSION @ to_be_bytes 2 (kind_tag kind)
       @ to_be_bytes 2 version @ to_be_bytes 2 (0 :: u16) @ to_be_bytes 4 len @ payload"

definition durable_encode ::
  "('a, 'pe, 'he) codec \<Rightarrow> durable_kind \<Rightarrow> u16 \<Rightarrow> 'a \<Rightarrow> (bytes, 'pe durable_error) result" where
  "durable_encode c kind version v =
     and_then (map_err EncodeError (to_allocvec c v)) (\<lambda>payload.
     if length payload < 2 ^ 32
     then let output = envelope_body kind version (of_nat (length payload)) payload
          in Ok (output @ blake3 c output)
     else Err Oversized)"

text \<open>\<^verbatim>\<open>usize\<close> has 64 bits on the supported targets.\<close>

definition checked_add_usize :: "nat \<Rightarrow> nat \<Rightarrow> nat option" where
  "checked_add_usize a b = (if a + b < 2 ^ 64 then Some (a + b) else None)"

definition durable_decode ::
  "('a, 'pe, 'he) codec \<Rightarrow> durable_kind \<Rightarrow> u16 \<Rightarrow> bytes \<Rightarrow> ('a, 'pe durable_error) result" where
  "durable_decode c kind version bs =
     (if length bs < HEADER_LEN + CHECKSUM_LEN then Err Truncated
      else if take 4 bs \<noteq> MAGIC then Err Magic
      else
        let envelope_version = from_be_bytes (take 2 (drop 4 bs)) :: u16;
            actual_kind = from_be_bytes (take 2 (drop 6 bs)) :: u16;
            schema_version = from_be_bytes (take 2 (drop 8 bs)) :: u16
        in
        if envelope_version \<noteq> ENVELOPE_VERSION then Err (EnvelopeVersion envelope_version)
        else if actual_kind \<noteq> kind_tag kind then Err (KindMismatch (kind_tag kind) actual_kind)
        else if schema_version \<noteq> version then Err (SchemaVersion version schema_version)
        else if take 2 (drop 10 bs) \<noteq> [0, 0] then Err Reserved
        else
          let payload_len = unat (from_be_bytes (take 4 (drop 12 bs)) :: u32)
          in case Option.bind (checked_add_usize HEADER_LEN payload_len)
                    (\<lambda>len. checked_add_usize len CHECKSUM_LEN) of
               None \<Rightarrow> Err Oversized
             | Some expected_len \<Rightarrow>
                 if length bs \<noteq> expected_len
                 then Err (LengthMismatch payload_len (length bs - (HEADER_LEN + CHECKSUM_LEN)))
                 else
                   let checksum_start = HEADER_LEN + payload_len
                   in if drop checksum_start bs \<noteq> blake3 c (take checksum_start bs)
                      then Err Checksum
                      else map_err DecodeError
                             (from_bytes c (take payload_len (drop HEADER_LEN bs))))"

lemmas envelope_defs = HEADER_LEN_def CHECKSUM_LEN_def MAGIC_def checked_add_usize_def

lemma kind_tag_inject [simp]: "kind_tag a = kind_tag b \<longleftrightarrow> a = b"
  by (cases a; cases b) simp_all

lemma length_envelope_body [simp]: "length (envelope_body k v n p) = HEADER_LEN + length p"
  by (simp add: envelope_body_def envelope_defs)

lemma drop_envelope_header: "drop 16 (envelope_body k v n p) = p"
  by (simp add: envelope_body_def MAGIC_def)

lemma reserved_bytes: "to_be_bytes 2 (0 :: u16) = [0, 0]"
  by (simp add: to_be_bytes_def numeral_2_eq_2)

text \<open>The length check cannot overflow: the declared length has 32 bits.\<close>

lemma expected_len:
  "Option.bind (checked_add_usize HEADER_LEN (unat (n :: u32)))
     (\<lambda>len. checked_add_usize len CHECKSUM_LEN) = Some (48 + unat n)"
  using unat_less_power [of n] by (simp add: envelope_defs)

lemma envelope_fields:
  "take 4 (envelope_body k v n p @ s) = MAGIC"
  "from_be_bytes (take 2 (drop 4 (envelope_body k v n p @ s))) = ENVELOPE_VERSION"
  "from_be_bytes (take 2 (drop 6 (envelope_body k v n p @ s))) = kind_tag k"
  "from_be_bytes (take 2 (drop 8 (envelope_body k v n p @ s))) = v"
  "take 2 (drop 10 (envelope_body k v n p @ s)) = [0, 0]"
  "from_be_bytes (take 4 (drop 12 (envelope_body k v n p @ s))) = n"
  by (simp_all add: envelope_body_def MAGIC_def from_to_be_bytes reserved_bytes)

lemma durable_decode_encode:
  assumes "codec_ok c" and "durable_encode c kind version v = Ok bs"
  shows "durable_decode c kind version bs = Ok v"
proof -
  from assms(2) obtain p where p: "to_allocvec c v = Ok p" "length p < 2 ^ 32"
    and bs: "bs = envelope_body kind version (of_nat (length p)) p
      @ blake3 c (envelope_body kind version (of_nat (length p)) p)"
    by (auto simp: durable_encode_def Let_def split: if_splits)
  have len: "unat (of_nat (length p) :: u32) = length p" using p(2) by (simp add: unat_of_nat)
  have "length (blake3 c xs) = 32" for xs using assms(1) by (simp add: codec_ok_def)
  moreover have "from_bytes c p = Ok v" using assms(1) p(1) by (simp add: codec_ok_def)
  ultimately show ?thesis
    using p(2) unfolding durable_decode_def Let_def bs envelope_fields
    by (simp add: len envelope_defs drop_envelope_header)
qed

text \<open>
  Whatever decodes is a canonical envelope of the expected kind and version around a payload
  that decodes to the value: no other byte string is accepted.
\<close>

lemma split_header:
  fixes bs :: bytes
  assumes "16 + n \<le> length bs"
  shows "bs = take 4 bs @ take 2 (drop 4 bs) @ take 2 (drop 6 bs) @ take 2 (drop 8 bs)
    @ take 2 (drop 10 bs) @ take 4 (drop 12 bs) @ take n (drop 16 bs) @ drop (16 + n) bs"
proof -
  have step: "drop i bs = take k (drop i bs) @ drop (i + k) bs" for i k
    using append_take_drop_id [of k "drop i bs"] by (simp add: add.commute)
  have "bs = take 4 bs @ drop 4 bs" by simp
  then show ?thesis
    using step [of 4 2] step [of 6 2] step [of 8 2] step [of 10 2] step [of 12 4] step [of 16 n]
    by simp
qed

lemma durable_decode_Ok:
  assumes "durable_decode c kind version bs = Ok v"
  obtains p where "length p < 2 ^ 32" "from_bytes c p = Ok v"
    "bs = envelope_body kind version (of_nat (length p)) p
      @ blake3 c (envelope_body kind version (of_nat (length p)) p)"
proof -
  define n where "n = unat (from_be_bytes (take 4 (drop 12 bs)) :: u32)"
  define p where "p = take n (drop 16 bs)"
  note d = assms [unfolded durable_decode_def Let_def expected_len option.case if_Err_eq_Ok
    map_err_Ok, unfolded HEADER_LEN_def CHECKSUM_LEN_def not_not, folded n_def, folded p_def]
  have f: "take 4 bs = MAGIC" "from_be_bytes (take 2 (drop 4 bs)) = ENVELOPE_VERSION"
      "from_be_bytes (take 2 (drop 6 bs)) = kind_tag kind"
      "from_be_bytes (take 2 (drop 8 bs)) = version" "take 2 (drop 10 bs) = [0, 0]"
    using d by blast+
  have l: "length bs = 48 + n" and sum: "drop (16 + n) bs = blake3 c (take (16 + n) bs)"
    and v: "from_bytes c p = Ok v"
    using d by blast+
  have two: "to_be_bytes 2 (from_be_bytes (take 2 (drop i bs)) :: u16) = take 2 (drop i bs)"
    if "i + 2 \<le> length bs" for i using that by (intro to_from_be_bytes) simp_all
  have n: "length p = n" using l by (simp add: p_def)
  have lt: "n < 2 ^ 32"
    using unat_less_power [of "from_be_bytes (take 4 (drop 12 bs)) :: u32"] by (simp add: n_def)
  have "to_be_bytes 4 (from_be_bytes (take 4 (drop 12 bs)) :: u32) = take 4 (drop 12 bs)"
    using l by (intro to_from_be_bytes) simp_all
  then have four: "to_be_bytes 4 (of_nat n :: u32) = take 4 (drop 12 bs)" by (simp add: n_def)
  have body: "envelope_body kind version (of_nat n) p = take (16 + n) bs" (is "?b = _")
  proof -
    have "?b = take 4 bs @ take 2 (drop 4 bs) @ take 2 (drop 6 bs) @ take 2 (drop 8 bs)
        @ take 2 (drop 10 bs) @ take 4 (drop 12 bs) @ p"
      using two [of 4] two [of 6] two [of 8] f l four reserved_bytes
      by (simp add: envelope_body_def)
    then have "bs = ?b @ drop (16 + n) bs" using split_header [of n bs] l by (simp add: p_def)
    moreover have "length ?b = 16 + n" using n by (simp add: HEADER_LEN_def)
    ultimately show ?thesis by (metis append_eq_conv_conj)
  qed
  moreover have "bs = take (16 + n) bs @ blake3 c (take (16 + n) bs)"
    using sum append_take_drop_id [of "16 + n" bs] by simp
  ultimately show ?thesis using that [of p] v lt n by simp
qed

section \<open>Opaque cursors\<close>

datatype cursor_kind = ProcessorCursor | ChangeCursor | SourceCursor

fun cursor_durable :: "cursor_kind \<Rightarrow> durable_kind" where
  "cursor_durable ProcessorCursor = DurableProcessorCursor"
| "cursor_durable ChangeCursor = DurableChangeCursor"
| "cursor_durable SourceCursor = DurableSourceCursor"

definition CURSOR_SCHEMA_VERSION :: u16 where
  "CURSOR_SCHEMA_VERSION = 1"

record processor_cursor =
  pc_processor_id :: string
  pc_processor_version :: string
  pc_chain_id :: chain_id
  pc_block_number :: block_number
  pc_block_hash :: block_hash
  pc_finality :: finality
  pc_sequence :: u64

record change_cursor =
  cc_chain_id :: chain_id
  cc_processor_id :: string
  cc_sequence :: u64

record source_cursor =
  sc_source_id :: source_id
  sc_chain_id :: chain_id
  sc_block_number :: block_number
  sc_block_hash :: block_hash
  sc_source_position :: bytes

datatype opaque_cursor = OpaqueCursor (expose: string)

datatype ('pe, 'he) cursor_error = CursorText 'he | CursorDurable "'pe durable_error"

definition cursor_encode ::
  "('a, 'pe, 'he) codec \<Rightarrow> cursor_kind \<Rightarrow> 'a \<Rightarrow> (opaque_cursor, ('pe, 'he) cursor_error) result" where
  "cursor_encode c kind v =
     and_then (map_err CursorDurable
       (durable_encode c (cursor_durable kind) CURSOR_SCHEMA_VERSION v)) (\<lambda>bs.
     Ok (OpaqueCursor (hex_encode c bs)))"

definition cursor_decode ::
  "('a, 'pe, 'he) codec \<Rightarrow> opaque_cursor \<Rightarrow> cursor_kind \<Rightarrow> ('a, ('pe, 'he) cursor_error) result" where
  "cursor_decode c cur kind =
     and_then (map_err CursorText (hex_decode c (expose cur))) (\<lambda>bs.
     map_err CursorDurable (durable_decode c (cursor_durable kind) CURSOR_SCHEMA_VERSION bs))"

definition cursor_parse ::
  "('a, 'pe, 'he) codec \<Rightarrow> string \<Rightarrow> (opaque_cursor, ('pe, 'he) cursor_error) result" where
  "cursor_parse c text =
     and_then (map_err CursorText (hex_decode c text)) (\<lambda>_. Ok (OpaqueCursor text))"

lemma cursor_durable_inject [simp]: "cursor_durable a = cursor_durable b \<longleftrightarrow> a = b"
  by (cases a; cases b) simp_all

lemma durable_decode_other_kind:
  assumes "codec_ok c" and "durable_encode c kind version v = Ok bs" and "other \<noteq> kind"
  shows "durable_decode c other version' bs = Err (KindMismatch (kind_tag other) (kind_tag kind))"
proof -
  from assms(2) obtain p where bs: "bs = envelope_body kind version (of_nat (length p)) p
      @ blake3 c (envelope_body kind version (of_nat (length p)) p)"
    by (auto simp: durable_encode_def Let_def split: if_splits)
  have "length (blake3 c xs) = 32" for xs using assms(1) by (simp add: codec_ok_def)
  with assms(3) show ?thesis
    unfolding durable_decode_def Let_def bs envelope_fields by (simp add: envelope_defs)
qed

text \<open>A cursor of one endpoint comes back from its text and never decodes at another.\<close>

lemma cursor_decode_encode:
  assumes "codec_ok c" and "cursor_encode c kind v = Ok cur"
  shows "cursor_parse c (expose cur) = Ok cur" "cursor_decode c cur kind = Ok v"
    "other \<noteq> kind \<Longrightarrow> cursor_decode c cur other =
      Err (CursorDurable (KindMismatch (kind_tag (cursor_durable other))
        (kind_tag (cursor_durable kind))))"
proof -
  from assms(2) obtain bs
    where bs: "durable_encode c (cursor_durable kind) CURSOR_SCHEMA_VERSION v = Ok bs"
      and cur: "cur = OpaqueCursor (hex_encode c bs)"
    by (auto simp: cursor_encode_def)
  have hex: "hex_decode c (hex_encode c bs) = Ok bs" using assms(1) by (simp add: codec_ok_def)
  show "cursor_parse c (expose cur) = Ok cur"
    by (simp add: cursor_parse_def cur hex map_err_def)
  show "cursor_decode c cur kind = Ok v"
    using durable_decode_encode [OF assms(1) bs]
    by (simp add: cursor_decode_def cur hex map_err_def)
  show "cursor_decode c cur other = Err (CursorDurable (KindMismatch
      (kind_tag (cursor_durable other)) (kind_tag (cursor_durable kind))))" if "other \<noteq> kind"
    using durable_decode_other_kind [OF assms(1) bs, of "cursor_durable other"] that
    by (simp add: cursor_decode_def cur hex map_err_def)
qed

end
