(* ===== verification/Deltas.thy ===== *)
theory Deltas
  imports Descriptors Durables
begin

text \<open>
  Map outputs and public changes, \<^verbatim>\<open>crates/processor-api/src/contract.rs\<close>: the encoded delta with
  the checksum that ties it to its processor contract and block, its durable form, and the
  domain changes a reducer emits.
\<close>

section \<open>Encoded deltas\<close>

record encoded_delta =
  ed_processor_id :: processor_id
  ed_processor_version :: string
  ed_config_hash :: block_hash
  ed_schema_version :: u16
  ed_chain_id :: chain_id
  ed_block :: block_ref
  ed_payload :: bytes
  ed_checksum :: block_hash

datatype processor_error =
  InputError string
| DeltaContract
| DeltaChecksum
| DeltaPayload string
| DurableFailure string
| CursorMismatch
| StateError string
| InvariantError string

text \<open>The bytes of a string.\<close>

definition as_bytes :: "string \<Rightarrow> bytes" where
  "as_bytes s = map (\<lambda>c. of_nat (of_char c)) s"

text \<open>
  The hasher absorbs its updates one after the other; the model collects what it absorbs, and
  \<^verbatim>\<open>finalize\<close> hashes it.
\<close>

definition hash_bytes :: "bytes \<Rightarrow> bytes" where
  "hash_bytes bs =
     to_be_bytes 8 (if length bs < 2 ^ 64 then of_nat (length bs) else word_max :: u64) @ bs"

definition checksum_input :: "encoded_delta \<Rightarrow> bytes" where
  "checksum_input d =
     hash_bytes (as_bytes (ed_processor_id d))
     @ hash_bytes (as_bytes (ed_processor_version d))
     @ to_be_bytes 32 (ed_config_hash d)
     @ to_be_bytes 2 (ed_schema_version d)
     @ to_be_bytes 8 (ed_chain_id d)
     @ to_be_bytes 8 (number (ed_block d))
     @ to_be_bytes 32 (hash (ed_block d))
     @ to_be_bytes 32 (parent_hash (ed_block d))
     @ to_be_bytes 8 (timestamp (ed_block d))
     @ hash_bytes (ed_payload d)"

definition calculate_checksum :: "(encoded_delta, 'pe, 'he) codec \<Rightarrow> encoded_delta \<Rightarrow> block_hash" where
  "calculate_checksum c d = from_be_bytes (blake3 c (checksum_input d))"

definition delta_new ::
  "(encoded_delta, 'pe, 'he) codec \<Rightarrow> processor_descriptor \<Rightarrow> chain_id \<Rightarrow> block_ref \<Rightarrow> bytes \<Rightarrow> encoded_delta"
  where
  "delta_new c desc chain block payload =
     (let delta = \<lparr>ed_processor_id = pd_id desc, ed_processor_version = pd_version desc,
            ed_config_hash = pd_config_hash desc,
            ed_schema_version = ps_delta_version (pd_schemas desc),
            ed_chain_id = chain, ed_block = block, ed_payload = payload, ed_checksum = 0\<rparr>
      in delta\<lparr>ed_checksum := calculate_checksum c delta\<rparr>)"

definition delta_validate ::
  "(encoded_delta, 'pe, 'he) codec \<Rightarrow> encoded_delta \<Rightarrow> processor_descriptor \<Rightarrow> (unit, processor_error) result"
  where
  "delta_validate c d desc =
     (if ed_processor_id d \<noteq> pd_id desc \<or> ed_processor_version d \<noteq> pd_version desc
         \<or> ed_config_hash d \<noteq> pd_config_hash desc
         \<or> ed_schema_version d \<noteq> ps_delta_version (pd_schemas desc)
      then Err DeltaContract
      else if ed_checksum d \<noteq> calculate_checksum c d then Err DeltaChecksum
      else Ok ())"

text \<open>The text of an error is the parameter \<open>show_error\<close>.\<close>

definition delta_encode_durable ::
  "(encoded_delta, 'pe, 'he) codec \<Rightarrow> ('pe durable_error \<Rightarrow> string) \<Rightarrow> encoded_delta
    \<Rightarrow> (bytes, processor_error) result" where
  "delta_encode_durable c show_error d =
     map_err (\<lambda>e. DurableFailure (show_error e))
       (durable_encode c DurableProcessorDelta (ed_schema_version d) d)"

definition delta_decode_durable ::
  "(encoded_delta, 'pe, 'he) codec \<Rightarrow> ('pe durable_error \<Rightarrow> string) \<Rightarrow> processor_descriptor \<Rightarrow> bytes
    \<Rightarrow> (encoded_delta, processor_error) result" where
  "delta_decode_durable c show_error desc bs =
     and_then (map_err (\<lambda>e. DurableFailure (show_error e))
       (durable_decode c DurableProcessorDelta (ps_delta_version (pd_schemas desc)) bs)) (\<lambda>d.
     and_then (delta_validate c d desc) (\<lambda>_. Ok d))"

text \<open>The default of \<^verbatim>\<open>Processor::finality_variant_checksums\<close>.\<close>

definition default_variant_checksums ::
  "(encoded_delta, 'pe, 'he) codec \<Rightarrow> processor_descriptor \<Rightarrow> encoded_delta
    \<Rightarrow> (block_hash list, processor_error) result" where
  "default_variant_checksums c desc d =
     and_then (delta_validate c d desc) (\<lambda>_. Ok [ed_checksum d])"

lemma delta_validate_Ok:
  "delta_validate c d desc = Ok () \<longleftrightarrow>
    ed_processor_id d = pd_id desc \<and> ed_processor_version d = pd_version desc
    \<and> ed_config_hash d = pd_config_hash desc
    \<and> ed_schema_version d = ps_delta_version (pd_schemas desc)
    \<and> ed_checksum d = calculate_checksum c d"
  by (auto simp: delta_validate_def)

lemma checksum_ignores_checksum [simp]:
  "calculate_checksum c (d\<lparr>ed_checksum := h\<rparr>) = calculate_checksum c d"
  by (simp add: calculate_checksum_def checksum_input_def)

lemma delta_new_valid: "delta_validate c (delta_new c desc chain block payload) desc = Ok ()"
  unfolding delta_validate_Ok delta_new_def Let_def
  by (simp add: calculate_checksum_def checksum_input_def)

lemma delta_decode_encode:
  assumes c: "codec_ok c" and v: "delta_validate c d desc = Ok ()"
    and e: "delta_encode_durable c show_error d = Ok bs"
  shows "delta_decode_durable c show_error desc bs = Ok d"
proof -
  have "durable_decode c DurableProcessorDelta (ed_schema_version d) bs = Ok d"
    using e durable_decode_encode [OF c] by (simp add: delta_encode_durable_def)
  with v show ?thesis
    by (simp add: delta_decode_durable_def delta_validate_Ok map_err_def)
qed

subsection \<open>The checksum input determines the delta\<close>

lemma as_bytes_inject [simp]: "as_bytes s = as_bytes t \<longleftrightarrow> s = t"
proof -
  have "inj (\<lambda>c. of_nat (of_char c) :: u8)"
  proof (rule injI)
    fix a b :: char assume "(of_nat (of_char a) :: u8) = of_nat (of_char b)"
    then have "(of_char a :: nat) mod 256 = of_char b mod 256"
      by (simp add: unat_of_nat word_eq_nat)
    moreover have "(of_char a :: nat) < 256" "(of_char b :: nat) < 256" by simp_all
    ultimately have "(of_char a :: nat) = of_char b" by simp
    then show "a = b" by simp
  qed
  then show ?thesis by (simp add: as_bytes_def inj_map_eq_map)
qed

lemma length_hash_bytes: "length (hash_bytes bs) = 8 + length bs"
  by (simp add: hash_bytes_def)

text \<open>A length-prefixed string is self-delimiting.\<close>

lemma hash_bytes_prefix_free:
  assumes "length a < 2 ^ 64" "length b < 2 ^ 64" and eq: "hash_bytes a @ x = hash_bytes b @ y"
  shows "a = b \<and> x = y"
proof -
  have "to_be_bytes 8 (of_nat (length a) :: u64) = to_be_bytes 8 (of_nat (length b) :: u64)"
    and rest: "a @ x = b @ y"
    using assms by (auto simp: hash_bytes_def append_eq_append_conv)
  then have "(of_nat (length a) :: u64) = of_nat (length b)"
    using to_be_bytes_inject [where 'a = 64, of 8] by simp
  then have "unat (of_nat (length a) :: u64) = unat (of_nat (length b) :: u64)" by simp
  then have "length a = length b" using assms(1,2) by (simp add: unat_of_nat)
  with rest show ?thesis by simp
qed

definition delta_sized :: "encoded_delta \<Rightarrow> bool" where
  "delta_sized d = (length (ed_processor_id d) < 2 ^ 64 \<and> length (ed_processor_version d) < 2 ^ 64
     \<and> length (ed_payload d) < 2 ^ 64)"

lemma checksum_input_inject:
  assumes "delta_sized a" "delta_sized b" and eq: "checksum_input a = checksum_input b"
  shows "b = a\<lparr>ed_checksum := ed_checksum b\<rparr>"
proof -
  note sized = assms(1,2) [unfolded delta_sized_def]
  have len: "length (as_bytes s) = length s" for s by (simp add: as_bytes_def)
  have i: "ed_processor_id a = ed_processor_id b"
    using hash_bytes_prefix_free [OF _ _ eq [unfolded checksum_input_def]] sized by (simp add: len)
  with eq have "hash_bytes (as_bytes (ed_processor_version a)) @ to_be_bytes 32 (ed_config_hash a)
      @ to_be_bytes 2 (ed_schema_version a) @ to_be_bytes 8 (ed_chain_id a)
      @ to_be_bytes 8 (number (ed_block a)) @ to_be_bytes 32 (hash (ed_block a))
      @ to_be_bytes 32 (parent_hash (ed_block a)) @ to_be_bytes 8 (timestamp (ed_block a))
      @ hash_bytes (ed_payload a) =
    hash_bytes (as_bytes (ed_processor_version b)) @ to_be_bytes 32 (ed_config_hash b)
      @ to_be_bytes 2 (ed_schema_version b) @ to_be_bytes 8 (ed_chain_id b)
      @ to_be_bytes 8 (number (ed_block b)) @ to_be_bytes 32 (hash (ed_block b))
      @ to_be_bytes 32 (parent_hash (ed_block b)) @ to_be_bytes 8 (timestamp (ed_block b))
      @ hash_bytes (ed_payload b)"
    by (simp add: checksum_input_def)
  from hash_bytes_prefix_free [OF _ _ this] sized
  have v: "ed_processor_version a = ed_processor_version b"
    and rest: "to_be_bytes 32 (ed_config_hash a)
      @ to_be_bytes 2 (ed_schema_version a) @ to_be_bytes 8 (ed_chain_id a)
      @ to_be_bytes 8 (number (ed_block a)) @ to_be_bytes 32 (hash (ed_block a))
      @ to_be_bytes 32 (parent_hash (ed_block a)) @ to_be_bytes 8 (timestamp (ed_block a))
      @ hash_bytes (ed_payload a) =
    to_be_bytes 32 (ed_config_hash b)
      @ to_be_bytes 2 (ed_schema_version b) @ to_be_bytes 8 (ed_chain_id b)
      @ to_be_bytes 8 (number (ed_block b)) @ to_be_bytes 32 (hash (ed_block b))
      @ to_be_bytes 32 (parent_hash (ed_block b)) @ to_be_bytes 8 (timestamp (ed_block b))
      @ hash_bytes (ed_payload b)"
    by (simp_all add: len)
  from rest have fields: "ed_config_hash a = ed_config_hash b" "ed_schema_version a = ed_schema_version b"
    "ed_chain_id a = ed_chain_id b" "number (ed_block a) = number (ed_block b)"
    "hash (ed_block a) = hash (ed_block b)" "parent_hash (ed_block a) = parent_hash (ed_block b)"
    "timestamp (ed_block a) = timestamp (ed_block b)"
    and p: "hash_bytes (ed_payload a) = hash_bytes (ed_payload b)"
    by (simp_all add: append_eq_append_conv to_be_bytes_inject)
  from hash_bytes_prefix_free [of "ed_payload a" "ed_payload b" "[]" "[]"] p sized
  have "ed_payload a = ed_payload b" by simp
  with i v fields show ?thesis by simp
qed

section \<open>Domain changes\<close>

datatype change_operation = Upsert | Delete

record domain_change =
  ch_kind :: string
  ch_key :: bytes
  ch_operation :: change_operation
  ch_payload :: bytes

end
