(* ===== verification/Sources.thy ===== *)
theory Sources
  imports Capabilities Materials Provenances
begin

text \<open>
  Source requests, plans and selection, \<^verbatim>\<open>crates/source-api/src/contract.rs\<close> and
  \<^verbatim>\<open>crates/source-api/src/planner.rs\<close>. Durations are kept in nanoseconds.
\<close>

section \<open>Requests\<close>

type_synonym duration = nat

record field_projection =
  fp_header_fields :: "string list"
  fp_transaction_fields :: "string list"
  fp_receipt_fields :: "string list"
  fp_log_fields :: "string list"

record filter_set =
  fs_scope :: filter_scope
  fs_senders :: "address list"
  fs_recipients :: "address list"

definition effective_scope :: "filter_set \<Rightarrow> filter_scope" where
  "effective_scope f =
     (let s0 = fs_scope f;
          s1 = (if scope_senders s0 = [] then s0\<lparr>scope_senders := fs_senders f\<rparr> else s0)
      in if scope_recipients s1 = [] then s1\<lparr>scope_recipients := fs_recipients f\<rparr> else s1)"

datatype verification_policy = CompleteCryptographic | TrustedDatasetPolicy | BestEffort

record data_request =
  rq_chain_id :: chain_id
  rq_range :: block_range
  rq_required :: capability_set
  rq_log_fields :: log_field_set
  rq_allow_filtered :: bool
  rq_projection :: field_projection
  rq_filters :: filter_set
  rq_minimum_finality :: finality
  rq_verification_policy :: verification_policy

definition request_filter_scope :: "data_request \<Rightarrow> filter_scope option" where
  "request_filter_scope r =
     (if rq_allow_filtered r \<and> effective_scope (rq_filters r) \<noteq> default_scope
      then Some (effective_scope (rq_filters r)) else None)"

datatype finality_model = ModelNone | ModelAttested | ModelFinalized

fun supports :: "finality_model \<Rightarrow> finality \<Rightarrow> bool" where
  "supports ModelNone required = False"
| "supports ModelAttested required = (required \<noteq> Finalized)"
| "supports ModelFinalized required = True"

datatype partitioning = PartitionNone | FixedBlockSpan u64 | DatasetObjects | SourceDefined string

record source_descriptor =
  so_id :: source_id
  so_kind :: source_kind
  so_chain_id :: chain_id
  so_range :: "block_range option"
  so_capabilities :: capability_set
  so_complete_capabilities :: capability_set
  so_trust :: trust_model
  so_finality :: finality_model
  so_partitioning :: partitioning
  so_expected_lag :: duration
  so_schema_version :: string
  so_priority :: u16

definition minimum_efficient_blocks :: "source_descriptor \<Rightarrow> u64 option" where
  "minimum_efficient_blocks d =
     (case so_partitioning d of
        FixedBlockSpan blocks \<Rightarrow> (if blocks \<noteq> 0 then Some blocks else None)
      | _ \<Rightarrow> None)"

section \<open>Plans\<close>

record source_chunk =
  ck_source_id :: source_id
  ck_range :: block_range
  ck_partition :: bytes
  ck_schema_version :: string
  ck_expected_parent :: "block_hash option"
  ck_estimated_bytes :: "u64 option"

record source_plan =
  pl_source_id :: source_id
  pl_request :: data_request
  pl_chunks :: "source_chunk list"
  pl_estimated_bytes :: "u64 option"
  pl_estimated_lag :: duration
  pl_supplied :: capability_set
  pl_complete :: capability_set
  pl_trust :: trust_model
  pl_schema_version :: string

datatype source_error =
  SourceCancelled
| MissingRange block_range
| IncompleteRange block_range string
| MissingMaterial "block_range list" capability_set capability_set
| SchemaDrift string string
| CorruptFrame string
| BudgetExceeded string u64 u64
| InvalidBudget
| InvalidPlan string
| SourceDisconnected string
| SourceUnavailable string
| SourceProtocol string

text \<open>The loop of \<^verbatim>\<open>SourcePlan::validate\<close>; it returns the last value of \<^verbatim>\<open>next\<close>.\<close>

fun validate_chunks ::
  "source_plan \<Rightarrow> block_number \<Rightarrow> source_chunk list \<Rightarrow> (block_number, source_error) result" where
  "validate_chunks p next_block [] = Ok next_block"
| "validate_chunks p next_block (ck # cks) =
     (if ck_source_id ck \<noteq> pl_source_id p
      then Err (InvalidPlan ''chunk belongs to a different source'')
      else if ck_schema_version ck \<noteq> pl_schema_version p
      then Err (SchemaDrift (pl_schema_version p) (ck_schema_version ck))
      else if range_start (ck_range ck) \<noteq> next_block
        \<or> range_end (ck_range ck) > range_end (rq_range (pl_request p))
      then Err (InvalidPlan ''chunks are not an exact ordered cover'')
      else validate_chunks p (saturating_add (range_end (ck_range ck)) 1) cks)"

definition plan_validate :: "source_plan \<Rightarrow> (unit, source_error) result" where
  "plan_validate p =
     (if pl_chunks p = [] then Err (InvalidPlan ''plan contains no chunks'')
      else and_then (validate_chunks p (range_start (rq_range (pl_request p))) (pl_chunks p))
        (\<lambda>next_block.
          if next_block \<noteq> saturating_add (range_end (rq_range (pl_request p))) 1
          then Err (InvalidPlan ''chunks do not cover the complete request'')
          else Ok ()))"

definition slice_chunk :: "source_chunk \<Rightarrow> block_range \<Rightarrow> (source_chunk, source_error) result" where
  "slice_chunk ck r =
     (if range_start r < range_start (ck_range ck) \<or> range_end r > range_end (ck_range ck)
      then Err (InvalidPlan ''coalesced subrange exceeds its planned source chunk'')
      else let sliced = (if range_start r \<noteq> range_start (ck_range ck)
                         then ck\<lparr>ck_expected_parent := None\<rparr> else ck)
           in Ok (sliced\<lparr>ck_range := r, ck_estimated_bytes := None\<rparr>))"

record source_budget =
  sb_max_input_bytes :: u64
  sb_max_frame_bytes :: u64
  sb_max_frames :: u64
  sb_max_buffered_frames :: nat
  sb_max_in_flight_requests :: nat
  sb_temporary_disk_bytes :: u64
  sb_max_resident_bytes :: u64

definition budget_validate :: "source_budget \<Rightarrow> (source_budget, source_error) result" where
  "budget_validate b =
     (if sb_max_input_bytes b = 0 \<or> sb_max_frame_bytes b = 0 \<or> sb_max_frames b = 0
         \<or> sb_max_buffered_frames b = 0 \<or> sb_max_in_flight_requests b = 0
         \<or> sb_max_resident_bytes b = 0
      then Err InvalidBudget else Ok b)"

section \<open>The attested head\<close>

record attested_head =
  ah_beacon_slot :: u64
  ah_beacon_block_root :: "256 word"
  ah_block_number :: block_number
  ah_block_hash :: block_hash

text \<open>The watch channel keeps one value; \<^verbatim>\<open>publish\<close> reports whether it replaced it.\<close>

definition publish :: "attested_head option \<Rightarrow> attested_head \<Rightarrow> attested_head option \<times> bool" where
  "publish latest head =
     (if (case latest of None \<Rightarrow> False | Some l \<Rightarrow> ah_beacon_slot l \<ge> ah_beacon_slot head)
      then (latest, False) else (Some head, True))"

section \<open>Selection\<close>

datatype ordering = Less | Equal | Greater

definition cmp :: "'a::linorder \<Rightarrow> 'a \<Rightarrow> ordering" where
  "cmp a b = (if a < b then Less else if a = b then Equal else Greater)"

definition then_with :: "ordering \<Rightarrow> ordering \<Rightarrow> ordering" where
  "then_with a b = (case a of Equal \<Rightarrow> b | _ \<Rightarrow> a)"

text \<open>\<^verbatim>\<open>sort_by\<close> of the standard library, a stable sort.\<close>

fun insert_by :: "('a \<Rightarrow> 'a \<Rightarrow> ordering) \<Rightarrow> 'a \<Rightarrow> 'a list \<Rightarrow> 'a list" where
  "insert_by c x [] = [x]"
| "insert_by c x (y # ys) = (if c x y = Greater then y # insert_by c x ys else x # y # ys)"

definition sort_by :: "('a \<Rightarrow> 'a \<Rightarrow> ordering) \<Rightarrow> 'a list \<Rightarrow> 'a list" where
  "sort_by c xs = foldr (insert_by c) xs []"

record selection_policy =
  minimum_trust :: trust_model
  prefer_complete :: bool

definition default_selection :: selection_policy where
  "default_selection = \<lparr>minimum_trust = TrustedDataset, prefer_complete = True\<rparr>"

datatype rejection =
  WrongChain
| RangeNotCovered
| MissingCapabilities capability_set
| FinalityUnavailable
| TrustNotMet

definition required_trust :: "verification_policy \<Rightarrow> trust_model" where
  "required_trust p =
     (case p of CompleteCryptographic \<Rightarrow> ProtocolVerified
      | TrustedDatasetPolicy \<Rightarrow> TrustedDataset
      | BestEffort \<Rightarrow> Untrusted)"

definition rejection_reason ::
  "source_descriptor \<Rightarrow> data_request \<Rightarrow> selection_policy \<Rightarrow> rejection option" where
  "rejection_reason s r p =
     (let supplied = with_derivable
            (if rq_allow_filtered r then so_capabilities s else so_complete_capabilities s)
      in if so_chain_id s \<noteq> rq_chain_id r then Some WrongChain
         else if (case so_range s of None \<Rightarrow> False
              | Some held \<Rightarrow> range_start held > range_start (rq_range r)
                  \<or> range_end held < range_end (rq_range r))
         then Some RangeNotCovered
         else if \<not> cap_contains_all supplied (rq_required r)
         then Some (MissingCapabilities (rq_required r AND NOT supplied))
         else if \<not> supports (so_finality s) (rq_minimum_finality r) then Some FinalityUnavailable
         else if so_trust s < required_trust (rq_verification_policy r)
           \<or> so_trust s < minimum_trust p
         then Some TrustNotMet
         else None)"

definition declares_complete :: "source_descriptor \<Rightarrow> data_request \<Rightarrow> bool" where
  "declares_complete s r =
     cap_contains_all (with_derivable (so_complete_capabilities s)) (rq_required r)"

definition compare_sources ::
  "source_descriptor \<Rightarrow> source_descriptor \<Rightarrow> data_request \<Rightarrow> selection_policy \<Rightarrow> ordering" where
  "compare_sources left right r p =
     then_with
       (if prefer_complete p then cmp (declares_complete right r) (declares_complete left r)
        else Equal)
       (then_with (cmp (so_priority left) (so_priority right))
         (then_with (cmp (so_expected_lag left) (so_expected_lag right))
           (cmp (so_id left) (so_id right))))"

datatype plan_error = NoViableSource "(source_id \<times> rejection) list"

definition select_source ::
  "source_descriptor list \<Rightarrow> data_request \<Rightarrow> selection_policy
    \<Rightarrow> (source_descriptor, plan_error) result" where
  "select_source sources r p =
     (let viable = filter (\<lambda>s. rejection_reason s r p = None) sources;
          rejected = List.map_filter (\<lambda>s. map_option (\<lambda>reason. (so_id s, reason))
            (rejection_reason s r p)) sources
      in case sort_by (\<lambda>a b. compare_sources a b r p) viable of
           s # _ \<Rightarrow> Ok s
         | [] \<Rightarrow> Err (NoViableSource rejected))"

section \<open>Coverage gaps\<close>

text \<open>A gap, which \<^verbatim>\<open>BlockRange::new\<close> may refuse.\<close>

definition gap_between :: "block_number \<Rightarrow> block_number \<Rightarrow> block_range list" where
  "gap_between a b = (case range_new a b of Inr g \<Rightarrow> [g] | Inl _ \<Rightarrow> [])"

fun gaps_loop :: "block_range \<Rightarrow> block_number \<Rightarrow> block_range list \<Rightarrow> block_range list" where
  "gaps_loop req next_block [] =
     (if next_block \<le> range_end req then gap_between next_block (range_end req) else [])"
| "gaps_loop req next_block (r # rs) =
     (let start = max (range_start r) (range_start req);
          stop = min (range_end r) (range_end req);
          gap = (if start > next_block then gap_between next_block (start - 1) else [])
      in case checked_add stop 1 of
           None \<Rightarrow> gap
         | Some after \<Rightarrow>
             (let next' = max next_block after
              in gap @ (if next' > range_end req then gaps_loop req next' []
                        else gaps_loop req next' rs)))"

definition coverage_gaps :: "block_range \<Rightarrow> block_range list \<Rightarrow> block_range list" where
  "coverage_gaps requested covered =
     gaps_loop requested (range_start requested)
       (sort_key range_start
         (filter (\<lambda>r. range_end r \<ge> range_start requested \<and> range_start r \<le> range_end requested)
           covered))"

section \<open>Facts about plans\<close>

lemma unat_saturating_succ: "e < word_max \<Longrightarrow> unat (saturating_add e 1 :: u64) = Suc (unat e)"
  by (auto simp: unat_saturating_add word_less_nat_alt)

text \<open>The chunks that pass concatenate to the blocks between the two values of \<^verbatim>\<open>next\<close>.\<close>

lemma validate_chunks_blocks:
  assumes "validate_chunks p n cks = Ok n'" "\<forall>ck \<in> set cks. range_ok (ck_range ck)"
    "range_end (rq_range (pl_request p)) < word_max"
  shows "unat n \<le> unat n' \<and>
    concat (map (\<lambda>ck. range_iter (ck_range ck)) cks) = map of_nat [unat n..<unat n']
    \<and> (\<forall>ck \<in> set cks. ck_source_id ck = pl_source_id p \<and> ck_schema_version ck = pl_schema_version p)"
  using assms
proof (induction cks arbitrary: n)
  case Nil
  then show ?case by simp
next
  case (Cons ck cks)
  let ?e = "range_end (ck_range ck)"
  from Cons.prems have ck: "ck_source_id ck = pl_source_id p"
    "ck_schema_version ck = pl_schema_version p" "range_start (ck_range ck) = n"
    "?e \<le> range_end (rq_range (pl_request p))"
    and rest: "validate_chunks p (saturating_add ?e 1) cks = Ok n'"
    by (auto simp: if_Err_eq_Ok not_less)
  have succ: "unat (saturating_add ?e 1) = Suc (unat ?e)"
    using ck(4) Cons.prems(3) by (intro unat_saturating_succ) (rule le_less_trans)
  have oks: "\<forall>ck \<in> set cks. range_ok (ck_range ck)" using Cons.prems(2) by simp
  from Cons.IH [OF rest oks Cons.prems(3)] have IH: "Suc (unat ?e) \<le> unat n'"
    "concat (map (\<lambda>ck. range_iter (ck_range ck)) cks) = map of_nat [Suc (unat ?e)..<unat n']"
    "\<forall>ck \<in> set cks. ck_source_id ck = pl_source_id p \<and> ck_schema_version ck = pl_schema_version p"
    by (simp_all add: succ)
  have le: "unat n \<le> Suc (unat ?e)"
    using Cons.prems(2) ck(3) by (auto simp: range_ok_def word_le_nat_alt)
  have "map of_nat [unat n..<unat n'] =
      map of_nat [unat n..<Suc (unat ?e)] @ (map of_nat [Suc (unat ?e)..<unat n'] :: u64 list)"
    using upt_add_eq_append [OF le, of "unat n' - Suc (unat ?e)"] IH(1) by (simp del: upt_Suc)
  with IH le ck show ?case by (simp add: range_iter_def del: upt_Suc)
qed

lemma plan_validate_blocks:
  assumes ok: "plan_validate p = Ok ()" and ranges: "\<forall>ck \<in> set (pl_chunks p). range_ok (ck_range ck)"
    and fits: "range_end (rq_range (pl_request p)) < word_max"
  shows "concat (map (\<lambda>ck. range_iter (ck_range ck)) (pl_chunks p)) =
      range_iter (rq_range (pl_request p))
    \<and> (\<forall>ck \<in> set (pl_chunks p). ck_source_id ck = pl_source_id p
        \<and> ck_schema_version ck = pl_schema_version p)"
proof -
  from ok have "validate_chunks p (range_start (rq_range (pl_request p))) (pl_chunks p) =
      Ok (saturating_add (range_end (rq_range (pl_request p))) 1)"
    by (auto simp: plan_validate_def if_Err_eq_Ok)
  from validate_chunks_blocks [OF this ranges fits] show ?thesis
    by (simp add: unat_saturating_succ [OF fits] range_iter_def del: upt_Suc)
qed

lemma slice_chunk_Ok:
  "slice_chunk ck r = Ok ck' \<Longrightarrow> range_ok r \<Longrightarrow>
    ck_range ck' = r \<and> range_blocks r \<subseteq> range_blocks (ck_range ck)
    \<and> ck_source_id ck' = ck_source_id ck \<and> ck_schema_version ck' = ck_schema_version ck
    \<and> (ck_expected_parent ck' \<noteq> None \<longrightarrow> range_start r = range_start (ck_range ck))"
  by (auto simp: slice_chunk_def Let_def range_blocks_def split: if_splits)

section \<open>Facts about the attested head\<close>

definition publish_all :: "attested_head option \<Rightarrow> attested_head list \<Rightarrow> attested_head option" where
  "publish_all latest hs = foldl (\<lambda>l h. fst (publish l h)) latest hs"

text \<open>The channel holds a head whose slot no published head exceeds.\<close>

lemma publish_all_latest:
  "publish_all latest hs = None \<longleftrightarrow> latest = None \<and> hs = []"
  "publish_all latest hs = Some l \<Longrightarrow>
    (l \<in> set hs \<or> latest = Some l)
    \<and> (\<forall>h. h \<in> set hs \<or> latest = Some h \<longrightarrow> ah_beacon_slot h \<le> ah_beacon_slot l)"
proof -
  have step: "fst (publish latest h) \<noteq> None" for latest h
    by (auto simp: publish_def split: option.splits)
  show "publish_all latest hs = None \<longleftrightarrow> latest = None \<and> hs = []"
    using step by (induction hs rule: rev_induct) (auto simp: publish_all_def)
  show "publish_all latest hs = Some l \<Longrightarrow>
    (l \<in> set hs \<or> latest = Some l)
    \<and> (\<forall>h. h \<in> set hs \<or> latest = Some h \<longrightarrow> ah_beacon_slot h \<le> ah_beacon_slot l)"
  proof (induction hs arbitrary: l rule: rev_induct)
    case Nil
    then show ?case by (auto simp: publish_all_def)
  next
    case (snoc h hs)
    have eq: "publish_all latest (hs @ [h]) = fst (publish (publish_all latest hs) h)"
      by (simp add: publish_all_def)
    show ?case
    proof (cases "publish_all latest hs")
      case None
      then have "latest = None" "hs = []"
        using step by (induction hs rule: rev_induct) (auto simp: publish_all_def)
      with snoc.prems show ?thesis by (auto simp: publish_all_def publish_def)
    next
      case (Some m)
      from snoc.IH [OF Some] snoc.prems [unfolded eq Some] show ?thesis
        by (auto simp: publish_def split: if_splits intro: order_trans less_imp_le)
    qed
  qed
qed

section \<open>Facts about selection\<close>

lemma sort_by_sort_key:
  assumes "\<And>x y. c x y = Greater \<longleftrightarrow> key y < key x"
  shows "sort_by c xs = sort_key key xs"
proof -
  have "insert_by c x ys = insort_key key x ys" for x ys
    by (induction ys) (auto simp: assms not_less [symmetric])
  then have "insert_by c = insort_key key" by (intro ext)
  then show ?thesis by (simp add: sort_by_def sort_key_def)
qed

definition source_key ::
  "data_request \<Rightarrow> selection_policy \<Rightarrow> source_descriptor \<Rightarrow> bool \<times> u16 \<times> duration \<times> source_id" where
  "source_key r p s =
     (prefer_complete p \<and> \<not> declares_complete s r, so_priority s, so_expected_lag s, so_id s)"

lemma ordering_Greater:
  "cmp a b = Greater \<longleftrightarrow> b < a" "cmp a b = Equal \<longleftrightarrow> a = b"
  "then_with x y = Greater \<longleftrightarrow> x = Greater \<or> x = Equal \<and> y = Greater"
  by (auto simp: cmp_def then_with_def split: ordering.splits)

lemma compare_sources_key:
  "compare_sources a b r p = Greater \<longleftrightarrow> source_key r p b < source_key r p a"
  by (cases "prefer_complete p"; cases "declares_complete a r"; cases "declares_complete b r")
    (auto simp: compare_sources_def source_key_def ordering_Greater)

lemma select_source_sorted:
  "select_source sources r p =
    (case sort_key (source_key r p) (filter (\<lambda>s. rejection_reason s r p = None) sources) of
       s # _ \<Rightarrow> Ok s
     | [] \<Rightarrow> Err (NoViableSource (List.map_filter (\<lambda>s. map_option (\<lambda>reason. (so_id s, reason))
            (rejection_reason s r p)) sources)))"
  by (simp add: select_source_def Let_def sort_by_sort_key [OF compare_sources_key])

lemma select_source_Ok:
  assumes "select_source sources r p = Ok s"
  shows "s \<in> set sources \<and> rejection_reason s r p = None
    \<and> (\<forall>t \<in> set sources. rejection_reason t r p = None \<longrightarrow> source_key r p s \<le> source_key r p t)"
proof -
  let ?viable = "filter (\<lambda>s. rejection_reason s r p = None) sources"
  from assms obtain rest where s: "sort_key (source_key r p) ?viable = s # rest"
    by (auto simp: select_source_sorted split: list.splits)
  have mem: "set (s # rest) = set ?viable" unfolding s [symmetric] by simp
  have "sorted (map (source_key r p) (s # rest))" unfolding s [symmetric] by simp
  then have "\<forall>t \<in> set (s # rest). source_key r p s \<le> source_key r p t" by auto
  with mem show ?thesis by auto
qed

lemma select_source_Err:
  "select_source sources r p = Err e \<longleftrightarrow>
    (\<forall>s \<in> set sources. rejection_reason s r p \<noteq> None)
    \<and> e = NoViableSource (map (\<lambda>s. (so_id s, the (rejection_reason s r p))) sources)"
proof (cases "filter (\<lambda>s. rejection_reason s r p = None) sources = []")
  case True
  then have "List.map_filter (\<lambda>s. map_option (\<lambda>reason. (so_id s, reason)) (rejection_reason s r p)) sources
      = map (\<lambda>s. (so_id s, the (rejection_reason s r p))) sources"
    by (induction sources) (auto simp: map_filter_simps split: if_splits)
  with True show ?thesis by (auto simp: select_source_sorted filter_empty_conv)
next
  case False
  then have "sort_key (source_key r p) (filter (\<lambda>s. rejection_reason s r p = None) sources) \<noteq> []"
    by (metis length_0_conv length_sort)
  with False show ?thesis
    by (auto simp: select_source_sorted filter_empty_conv split: list.splits)
qed

lemma rejection_reason_None:
  "rejection_reason s r p = None \<longleftrightarrow>
    so_chain_id s = rq_chain_id r
    \<and> (\<forall>held. so_range s = Some held \<longrightarrow> range_start held \<le> range_start (rq_range r)
        \<and> range_end (rq_range r) \<le> range_end held)
    \<and> cap_contains_all (with_derivable
        (if rq_allow_filtered r then so_capabilities s else so_complete_capabilities s)) (rq_required r)
    \<and> supports (so_finality s) (rq_minimum_finality r)
    \<and> required_trust (rq_verification_policy r) \<le> so_trust s \<and> minimum_trust p \<le> so_trust s"
  unfolding rejection_reason_def Let_def if_Some_eq_None
  by (cases "so_range s") (auto simp: not_less)

section \<open>Facts about coverage gaps\<close>

definition blocks_of :: "block_range list \<Rightarrow> block_number set" where
  "blocks_of rs = (\<Union>r \<in> set rs. range_blocks r)"

lemma blocks_of_simps [simp]:
  "blocks_of [] = {}" "blocks_of (r # rs) = range_blocks r \<union> blocks_of rs"
  "blocks_of (rs @ ss) = blocks_of rs \<union> blocks_of ss"
  by (auto simp: blocks_of_def)

lemma blocks_of_gap_between [simp]: "blocks_of (gap_between a b) = {a..b}"
  by (auto simp: gap_between_def range_new_def range_blocks_def)

lemma blocks_of_leading_gap:
  "blocks_of (if s > n then gap_between n (s - 1) else []) = {n..<s}"
proof (cases "n < s")
  case True
  then have "{n..s - 1} = {n..<s}"
    by (simp add: set_eq_iff word_le_pred [OF less_word_pos [OF True]])
  with True show ?thesis by simp
qed auto

lemma gaps_loop_blocks:
  assumes "sorted (map range_start rs)" "\<forall>r \<in> set rs. range_start r \<le> range_end req"
    "range_start req \<le> n" "range_ok req"
  shows "blocks_of (gaps_loop req n rs) = {n..range_end req} - blocks_of rs"
  using assms
proof (induction rs arbitrary: n)
  case Nil
  then show ?case by auto
next
  case (Cons r rs)
  let ?start = "max (range_start r) (range_start req)" and ?stop = "min (range_end r) (range_end req)"
  let ?gap = "if ?start > n then gap_between n (?start - 1) else []"
  have later: "range_start r \<le> range_start t" if "t \<in> set rs" for t
    using Cons.prems(1) that by auto
  note gap = blocks_of_leading_gap [of n ?start]
  have start: "?start \<le> range_end req"
    using Cons.prems(2,4) by (auto simp: range_ok_def)
  show ?case
  proof (cases "checked_add ?stop 1")
    case None
    from checked_succ_None [OF this] have "x \<le> ?stop" for x .
    then have "x \<le> range_end r" "x \<le> range_end req" for x by auto
    then have "range_blocks r = {range_start r..}" "{n..range_end req} = {n..}"
      by (auto simp: range_blocks_def)
    moreover have "{range_start r..} \<union> blocks_of rs = {range_start r..}"
      using later by (fastforce simp: blocks_of_def range_blocks_def)
    moreover have "{n..<?start} = {n..<range_start r}"
      using Cons.prems(3) by (auto simp: less_max_iff_disj)
    ultimately show ?thesis
      unfolding gaps_loop.simps Let_def None option.case gap blocks_of_simps by auto
  next
    case (Some after)
    note after = checked_succ_le [OF Some]
    let ?next = "max n after"
    have tail: "blocks_of (if ?next > range_end req then gaps_loop req ?next []
        else gaps_loop req ?next rs) = {?next..range_end req} - blocks_of rs"
      using Cons.IH [of ?next] Cons.prems by (auto simp: le_max_iff_disj)
    have disj: "x \<notin> blocks_of rs" if "x \<in> {n..<?start}" for x
    proof
      assume "x \<in> blocks_of rs"
      then obtain t where "t \<in> set rs" "range_start t \<le> x"
        by (auto simp: blocks_of_def range_blocks_def)
      with later [of t] have "range_start r \<le> x" by (blast intro: order_trans)
      moreover have "range_start req \<le> x" using that Cons.prems(3) by auto
      ultimately show False using that by (auto simp: less_max_iff_disj dest: leD)
    qed
    have elem: "x \<in> {n..range_end req} - range_blocks r \<longleftrightarrow>
        x \<in> {n..<?start} \<union> {?next..range_end req}" for x
    proof (cases "n \<le> x \<and> x \<le> range_end req")
      case True
      then have "x < ?start \<longleftrightarrow> x < range_start r" "after \<le> x \<longleftrightarrow> range_end r < x"
        using Cons.prems(3) by (auto simp: after less_max_iff_disj min_less_iff_disj)
      with True show ?thesis by (auto simp: range_blocks_def not_le)
    next
      case False
      moreover have "x \<le> range_end req" if "x < ?start"
        using that start by (meson less_imp_le order_trans)
      ultimately show ?thesis by auto
    qed
    have "{n..range_end req} - blocks_of (r # rs) = ({n..range_end req} - range_blocks r) - blocks_of rs"
      unfolding blocks_of_simps by (rule Diff_Un [THEN trans]) blast
    also have "{n..range_end req} - range_blocks r = {n..<?start} \<union> {?next..range_end req}"
      by (rule set_eqI) (rule elem)
    also have "\<dots> - blocks_of rs = {n..<?start} \<union> ({?next..range_end req} - blocks_of rs)"
      using disj by blast
    finally show ?thesis
      unfolding gaps_loop.simps(2) Let_def Some option.case blocks_of_simps(3) gap tail
      by (rule sym)
  qed
qed

lemma coverage_gaps_blocks:
  assumes "range_ok requested"
  shows "blocks_of (coverage_gaps requested covered) = range_blocks requested - blocks_of covered"
proof -
  let ?touch = "filter (\<lambda>r. range_end r \<ge> range_start requested \<and> range_start r \<le> range_end requested) covered"
  have "blocks_of (coverage_gaps requested covered) =
      {range_start requested..range_end requested} - blocks_of (sort_key range_start ?touch)"
    unfolding coverage_gaps_def using assms by (intro gaps_loop_blocks) auto
  also have "blocks_of (sort_key range_start ?touch) = blocks_of ?touch"
    by (simp add: blocks_of_def)
  also have "{range_start requested..range_end requested} - blocks_of ?touch =
      range_blocks requested - blocks_of covered"
    by (fastforce simp: blocks_of_def range_blocks_def)
  finally show ?thesis .
qed

text \<open>The gaps come in order, and a covered block lies between any two of them.\<close>

definition gaps_apart :: "block_range \<Rightarrow> block_range \<Rightarrow> bool" where
  "gaps_apart a b = (unat (range_end a) + 1 < unat (range_start b))"

lemma gap_between_elem: "g \<in> set (gap_between a b) \<Longrightarrow> range_ok g \<and> range_start g = a \<and> range_end g = b"
  by (auto simp: gap_between_def range_new_def range_ok_def split: if_splits)

lemma gaps_loop_past: "range_end req < m \<Longrightarrow> gaps_loop req m [] = []"
  by (auto dest: leD)

lemma gaps_loop_apart:
  "sorted (map range_start rs) \<Longrightarrow> \<forall>r \<in> set rs. range_ok r \<and> range_start r \<le> range_end req
      \<and> range_start req \<le> range_end r \<Longrightarrow> range_ok req \<Longrightarrow>
    (\<forall>g \<in> set (gaps_loop req n rs). range_ok g \<and> n \<le> range_start g)
    \<and> sorted_wrt gaps_apart (gaps_loop req n rs)"
proof (induction rs arbitrary: n)
  case Nil
  then show ?case
    by (auto dest: gap_between_elem simp: gap_between_def range_new_def range_ok_def split: sum.splits)
next
  case (Cons r rs)
  let ?start = "max (range_start r) (range_start req)" and ?stop = "min (range_end r) (range_end req)"
  let ?gap = "if ?start > n then gap_between n (?start - 1) else []"
  have gap: "g \<in> set ?gap \<Longrightarrow> range_ok g \<and> range_start g = n \<and> range_end g = ?start - 1 \<and> n < ?start" for g
    by (auto dest: gap_between_elem split: if_splits)
  have single: "sorted_wrt gaps_apart ?gap"
    by (simp add: gap_between_def split: sum.split)
  have lower: "\<forall>g \<in> set ?gap. range_ok g \<and> n \<le> range_start g" using gap by (metis order_refl)
  have le: "?start \<le> ?stop"
    using Cons.prems(2,3) by (auto simp: range_ok_def)
  show ?case
  proof (cases "checked_add ?stop 1")
    case None
    show ?thesis
      unfolding gaps_loop.simps Let_def None option.case using lower single by (rule conjI)
  next
    case (Some after)
    let ?next = "max n after"
    let ?rest = "if ?next > range_end req then gaps_loop req ?next [] else gaps_loop req ?next rs"
    have rest: "(\<forall>g \<in> set ?rest. range_ok g \<and> ?next \<le> range_start g) \<and> sorted_wrt gaps_apart ?rest"
    proof (cases "?next > range_end req")
      case True
      then show ?thesis by (simp add: gaps_loop_past del: gaps_loop.simps max.bounded_iff)
    next
      case False
      then show ?thesis using Cons.IH [of ?next] Cons.prems by simp
    qed
    have apart: "gaps_apart g h" if g: "g \<in> set ?gap" and h: "h \<in> set ?rest" for g h
    proof -
      have pos: "0 < ?start" using gap [OF g] less_word_pos by blast
      have "unat (range_end g) = unat ?start - 1"
        using gap [OF g] pos unat_minus_le [of 1 ?start] by (simp add: word_nat)
      moreover have "unat ?start \<le> unat ?stop" using le by (simp add: word_le_nat_alt)
      moreover have "unat after = unat ?stop + 1" using Some by (simp add: word_nat)
      moreover have "after \<le> range_start h" using rest h by auto
      ultimately show ?thesis using pos by (simp add: gaps_apart_def word_nat)
    qed
    have "n \<le> range_start g" if "g \<in> set ?rest" for g using rest that by auto
    with lower rest have "\<forall>g \<in> set (?gap @ ?rest). range_ok g \<and> n \<le> range_start g" by auto
    moreover have "sorted_wrt gaps_apart (?gap @ ?rest)"
      unfolding sorted_wrt_append using single rest apart by blast
    ultimately show ?thesis
      unfolding gaps_loop.simps(2) Let_def Some option.case by (rule conjI)
  qed
qed

lemma coverage_gaps_apart:
  assumes "range_ok requested" "\<forall>r \<in> set covered. range_ok r"
  shows "(\<forall>g \<in> set (coverage_gaps requested covered). range_ok g)
    \<and> sorted_wrt gaps_apart (coverage_gaps requested covered)"
proof -
  have "(\<forall>g \<in> set (coverage_gaps requested covered). range_ok g \<and> range_start requested \<le> range_start g)
    \<and> sorted_wrt gaps_apart (coverage_gaps requested covered)"
    unfolding coverage_gaps_def using assms by (intro gaps_loop_apart) auto
  then show ?thesis by blast
qed

end
