(* ===== verification/Conformance.thy ===== *)
theory Conformance
  imports Frames Durables Sources
begin

text \<open>
  Checks of source output, \<^verbatim>\<open>crates/source-api/src/stored.rs\<close> and
  \<^verbatim>\<open>crates/source-api/src/conformance.rs\<close>: a stored stream ends at the first frame that lacks a
  promised field, and two sources are compared through a fingerprint of the selected material.
\<close>

section \<open>Stored streams\<close>

text \<open>
  A stream is the list of its items; \<^verbatim>\<open>scan\<close> carries the flag \<^verbatim>\<open>ended\<close> and stops once it is
  set.
\<close>

fun stop_scan ::
  "capability_set \<Rightarrow> capability_set \<Rightarrow> block_range \<Rightarrow> capability_set \<Rightarrow> bool
    \<Rightarrow> (block_frame, source_error) result list \<Rightarrow> (block_frame, source_error) result list" where
  "stop_scan groups required r available ended [] = []"
| "stop_scan groups required r available ended (item # items) =
     (if ended then []
      else case item of
        Inl e \<Rightarrow> Err e # stop_scan groups required r available False items
      | Inr f \<Rightarrow>
          (if group_violation f groups = None
           then Ok f # stop_scan groups required r available False items
           else Err (MissingMaterial
                  [case range_new (number (fr_block f)) (range_end r) of Inr g \<Rightarrow> g | Inl _ \<Rightarrow> r]
                  required available)
                # stop_scan groups required r available True items))"

definition stop_at_unfilled_groups ::
  "(block_frame, source_error) result list \<Rightarrow> capability_set \<Rightarrow> block_range \<Rightarrow> capability_set
    \<Rightarrow> (block_frame, source_error) result list" where
  "stop_at_unfilled_groups frames required r available =
     stop_scan (with_derivable required) required r available False frames"

lemma stop_scan_ended [simp]: "stop_scan groups required r available True items = []"
  by (cases items) simp_all

text \<open>A frame of the output fills every promised group, and the good prefix is passed on.\<close>

lemma stop_scan_frames:
  "Ok f \<in> set (stop_scan groups required r available ended items) \<Longrightarrow>
    Ok f \<in> set items \<and> group_violation f groups = None"
proof (induction items arbitrary: ended)
  case (Cons item items)
  then show ?case by (cases item) (auto split: if_splits)
qed simp

lemma stop_scan_prefix:
  "\<exists>k. take k items = takeWhile (\<lambda>i. case i of Inl _ \<Rightarrow> True | Inr f \<Rightarrow> group_violation f groups = None) items
    \<and> (if k = length items then stop_scan groups required r available False items = items
       else \<exists>f. items ! k = Ok f \<and> stop_scan groups required r available False items =
         take k items @ [Err (MissingMaterial
           [case range_new (number (fr_block f)) (range_end r) of Inr g \<Rightarrow> g | Inl _ \<Rightarrow> r]
           required available)])"
proof (induction items)
  case Nil
  then show ?case by simp
next
  case (Cons item items)
  let ?good = "case item of Inl _ \<Rightarrow> True | Inr f \<Rightarrow> group_violation f groups = None"
  show ?case
  proof (cases ?good)
    case True
    from Cons obtain k where k: "take k items = takeWhile
        (\<lambda>i. case i of Inl _ \<Rightarrow> True | Inr f \<Rightarrow> group_violation f groups = None) items"
      "if k = length items then stop_scan groups required r available False items = items
       else \<exists>f. items ! k = Ok f \<and> stop_scan groups required r available False items =
         take k items @ [Err (MissingMaterial
           [case range_new (number (fr_block f)) (range_end r) of Inr g \<Rightarrow> g | Inl _ \<Rightarrow> r]
           required available)]" by blast
    from True have step: "stop_scan groups required r available False (item # items) =
        item # stop_scan groups required r available False items"
      by (auto split: sum.splits)
    show ?thesis
      using True k step by (intro exI [of _ "Suc k"]) (auto split: if_splits)
  next
    case False
    then show ?thesis by (intro exI [of _ 0]) (auto split: sum.splits)
  qed
qed

section \<open>Fingerprints\<close>

datatype conformance_error =
  InvalidFrame string
| IncompleteMaterial block_number capability
| UnsupportedMempool
| EncodingFailure

text \<open>The loop over the selected capabilities.\<close>

fun check_selected ::
  "block_frame \<Rightarrow> capability list \<Rightarrow> (unit, conformance_error) result" where
  "check_selected f [] = Ok ()"
| "check_selected f (c # cs) =
     (if c = ConsensusFinality
      then (if vr_consensus_anchor (fr_verification f) = None
            then Err (IncompleteMaterial (number (fr_block f)) c) else check_selected f cs)
      else if \<not> report_satisfies (capabilities f) (cap_of c) False
             \<or> group_violation f (with_derivable (cap_of c)) \<noteq> None
      then Err (IncompleteMaterial (number (fr_block f)) c)
      else check_selected f cs)"

definition selects :: "capability_set \<Rightarrow> capability list \<Rightarrow> bool" where
  "selects caps cs = list_ex (cap_contains caps) cs"

definition not_requested :: "bool \<Rightarrow> 'a material \<Rightarrow> 'a material" where
  "not_requested keep m = (if keep then m else Missing NotRequested)"

definition comparison_frame ::
  "block_frame \<Rightarrow> capability_set \<Rightarrow> (block_frame, conformance_error) result" where
  "comparison_frame f caps =
     and_then (map_err InvalidFrame (validate_shape f)) (\<lambda>_.
     if cap_contains caps Mempool then Err UnsupportedMempool
     else and_then (check_selected f (cap_iter caps)) (\<lambda>_.
       let normalized = f\<lparr>
         fr_header := not_requested (selects caps [Header, BlockSize]) (fr_header f),
         fr_transactions := not_requested
           (selects caps [Transactions, Body, Calldata, Senders, BlobFields]) (fr_transactions f),
         fr_receipts := not_requested (selects caps [Receipts, ReceiptOutcome]) (fr_receipts f),
         fr_logs := not_requested (cap_contains caps Logs) (fr_logs f),
         fr_withdrawals := not_requested (cap_contains caps Withdrawals) (fr_withdrawals f),
         fr_blob_sidecars := not_requested (cap_contains caps BlobSidecars) (fr_blob_sidecars f),
         fr_traces := not_requested (cap_contains caps Traces) (fr_traces f),
         fr_state_diffs := not_requested (cap_contains caps StateDiffs) (fr_state_diffs f),
         fr_provenance := []\<rparr>
       in Ok (if cap_contains caps ConsensusFinality
              then normalized\<lparr>fr_verification := default_report\<lparr>vr_consensus_anchor :=
                     vr_consensus_anchor (fr_verification normalized)\<rparr>\<rparr>
              else normalized\<lparr>fr_finality := Attested, fr_verification := default_report\<rparr>)))"

record frame_fingerprint_record =
  ff_block_number :: block_number
  ff_digest :: bytes

definition frame_fingerprint ::
  "(block_frame, 'pe, 'he) codec \<Rightarrow> block_frame \<Rightarrow> capability_set
    \<Rightarrow> (frame_fingerprint_record, conformance_error) result" where
  "frame_fingerprint c f caps =
     and_then (comparison_frame f caps) (\<lambda>normalized.
     and_then (map_err (\<lambda>_. EncodingFailure) (to_allocvec c normalized)) (\<lambda>bs.
     Ok \<lparr>ff_block_number = number (fr_block f), ff_digest = blake3 c bs\<rparr>))"

datatype frame_difference =
  FrameCount nat nat
| InvalidFrameAt string nat conformance_error
| BlockIdentity nat block_ref block_ref
| MaterialDiffers block_number bytes bytes

record cross_source_report =
  cr_left_source :: string
  cr_right_source :: string
  cr_capabilities :: capability_set
  cr_compared_frames :: nat
  cr_differences :: "frame_difference list"

definition is_equivalent :: "cross_source_report \<Rightarrow> bool" where
  "is_equivalent r = (cr_differences r = [])"

text \<open>One turn of the loop: the differences it pushes and whether it compared the frames.\<close>

definition compare_pair ::
  "(block_frame, 'pe, 'he) codec \<Rightarrow> string \<Rightarrow> string \<Rightarrow> capability_set \<Rightarrow> nat
    \<Rightarrow> block_frame \<Rightarrow> block_frame \<Rightarrow> frame_difference list \<times> nat" where
  "compare_pair c left_source right_source caps i a b =
     (if fr_block a \<noteq> fr_block b then ([BlockIdentity i (fr_block a) (fr_block b)], 0)
      else case frame_fingerprint c a caps of
        Inl e \<Rightarrow> ([InvalidFrameAt left_source i e], 0)
      | Inr fa \<Rightarrow>
          (case frame_fingerprint c b caps of
             Inl e \<Rightarrow> ([InvalidFrameAt right_source i e], 0)
           | Inr fb \<Rightarrow>
               (if ff_digest fa \<noteq> ff_digest fb
                then [MaterialDiffers (number (fr_block a)) (ff_digest fa) (ff_digest fb)]
                else [], 1)))"

fun compare_loop ::
  "(block_frame, 'pe, 'he) codec \<Rightarrow> string \<Rightarrow> string \<Rightarrow> capability_set \<Rightarrow> nat
    \<Rightarrow> (block_frame \<times> block_frame) list \<Rightarrow> frame_difference list \<times> nat" where
  "compare_loop c ls rs caps i [] = ([], 0)"
| "compare_loop c ls rs caps i ((a, b) # rest) =
     (case compare_pair c ls rs caps i a b of (ds, n) \<Rightarrow>
        case compare_loop c ls rs caps (Suc i) rest of (ds', n') \<Rightarrow> (ds @ ds', n + n'))"

definition compare_frame_sequences ::
  "(block_frame, 'pe, 'he) codec \<Rightarrow> string \<Rightarrow> block_frame list \<Rightarrow> string \<Rightarrow> block_frame list
    \<Rightarrow> capability_set \<Rightarrow> cross_source_report" where
  "compare_frame_sequences c ls left rs right caps =
     (let count = (if length left \<noteq> length right then [FrameCount (length left) (length right)] else []);
          (ds, n) = compare_loop c ls rs caps 0 (zip left right)
      in \<lparr>cr_left_source = ls, cr_right_source = rs, cr_capabilities = caps,
          cr_compared_frames = n, cr_differences = count @ ds\<rparr>)"

text \<open>
  Equivalence is exactly: the same number of frames, and pairwise the same block and
  fingerprint, all of them fingerprintable.
\<close>

definition same_fingerprint ::
  "(block_frame, 'pe, 'he) codec \<Rightarrow> capability_set \<Rightarrow> block_frame \<Rightarrow> block_frame \<Rightarrow> bool" where
  "same_fingerprint c caps a b =
     (fr_block a = fr_block b
      \<and> (\<exists>fp. frame_fingerprint c a caps = Ok fp \<and> frame_fingerprint c b caps = Ok fp))"

lemma frame_fingerprint_number:
  "frame_fingerprint c f caps = Ok fp \<Longrightarrow> ff_block_number fp = number (fr_block f)"
  by (auto simp: frame_fingerprint_def)

lemma fingerprint_eqI:
  "ff_block_number x = ff_block_number y \<Longrightarrow> ff_digest x = ff_digest y \<Longrightarrow> x = (y :: frame_fingerprint_record)"
  by simp

lemma compare_pair_equivalent:
  "fst (compare_pair c ls rs caps i a b) = [] \<longleftrightarrow> same_fingerprint c caps a b"
  "fst (compare_pair c ls rs caps i a b) = [] \<Longrightarrow> snd (compare_pair c ls rs caps i a b) = 1"
  by (auto simp: compare_pair_def same_fingerprint_def frame_fingerprint_number
      split: sum.splits if_splits intro!: fingerprint_eqI)

lemma compare_loop_equivalent:
  "fst (compare_loop c ls rs caps i ps) = [] \<longleftrightarrow> (\<forall>(a, b) \<in> set ps. same_fingerprint c caps a b)"
proof (induction ps arbitrary: i)
  case (Cons p ps)
  obtain a b where "p = (a, b)" by force
  with Cons [of "Suc i"] compare_pair_equivalent(1) [of c ls rs caps i a b] show ?case
    by (auto split: prod.splits)
qed simp

lemma compare_frame_sequences_equivalent:
  "is_equivalent (compare_frame_sequences c ls left rs right caps) \<longleftrightarrow>
    list_all2 (same_fingerprint c caps) left right"
  using compare_loop_equivalent [of c ls rs caps 0 "zip left right"]
  by (auto simp: is_equivalent_def compare_frame_sequences_def Let_def list_all2_iff
      split: prod.splits)

text \<open>
  A selection of logs alone drops the receipts of both frames, also where the receipts are
  what supplies the logs: frames that differ only in receipts then have one fingerprint.
\<close>

lemma logs_from_receipts_dropped:
  assumes "comparison_frame a (cap_of Logs) = Ok na" and "comparison_frame b (cap_of Logs) = Ok nb"
    and "b = a\<lparr>fr_receipts := fr_receipts b\<rparr>"
  shows "na = nb"
proof -
  have "fr_receipts na = Missing NotRequested" "fr_receipts nb = Missing NotRequested"
    using assms(1,2) by (auto simp: comparison_frame_def Let_def selects_def not_requested_def
        split: if_splits)
  then show ?thesis using assms
    by (cases a; cases b)
      (auto simp: comparison_frame_def Let_def selects_def not_requested_def split: if_splits)
qed

end
