(* ===== verification/Ranges.thy ===== *)
theory Ranges
  imports Sources
begin

text \<open>
  Normal forms of block-range sets: \<^verbatim>\<open>normalize_backfill_ranges\<close> of
  \<^verbatim>\<open>crates/runtime/src/lib.rs\<close>, and \<^verbatim>\<open>normalize_ranges\<close> and \<^verbatim>\<open>merge_block_numbers\<close> of
  \<^verbatim>\<open>crates/store-sqlite/src/lib.rs\<close>. The vector under construction is kept newest first, so
  that \<^verbatim>\<open>last_mut\<close> is the head.
\<close>

section \<open>Successors\<close>

lemma saturating_succ_less: "saturating_add e 1 < (x :: u64) \<longleftrightarrow> unat e + 1 < unat x"
proof -
  have "unat (saturating_add e 1) = min (unat e + 1) 18446744073709551615"
    by (simp add: unat_saturating_add)
  with unat_u64_bound [of x] show ?thesis unfolding word_less_nat_alt by linarith
qed

lemma saturating_succ_eq: "x = saturating_add e 1 \<Longrightarrow> x \<noteq> e \<Longrightarrow> unat x = unat (e :: u64) + 1"
proof -
  assume x: "x = saturating_add e 1" "x \<noteq> e"
  have "unat (saturating_add e 1) = min (unat e + 1) 18446744073709551615"
    by (simp add: unat_saturating_add)
  with x unat_u64_bound [of e] show ?thesis unfolding word_eq_nat by linarith
qed

section \<open>Merging ranges\<close>

fun merge_push :: "block_range list \<Rightarrow> block_range \<Rightarrow> (block_range list, block_range_error) result" where
  "merge_push [] r = Ok [r]"
| "merge_push (p # ps) r =
     (if range_start r \<le> saturating_add (range_end p) 1
      then and_then (range_new (range_start p) (max (range_end p) (range_end r))) (\<lambda>q. Ok (q # ps))
      else Ok (r # p # ps))"

fun merge_loop :: "block_range list \<Rightarrow> block_range list \<Rightarrow> (block_range list, block_range_error) result"
  where
  "merge_loop acc [] = Ok acc"
| "merge_loop acc (r # rs) = and_then (merge_push acc r) (\<lambda>acc'. merge_loop acc' rs)"

definition normalize_ranges :: "block_range list \<Rightarrow> (block_range list, block_range_error) result" where
  "normalize_ranges rs =
     and_then (merge_loop [] (sort_key (\<lambda>r. (range_start r, range_end r)) rs)) (\<lambda>acc. Ok (rev acc))"

text \<open>A set of ranges in normal form: valid, in order, and no two of them touch.\<close>

definition ranges_normal :: "block_range list \<Rightarrow> bool" where
  "ranges_normal rs = ((\<forall>r \<in> set rs. range_ok r) \<and> sorted_wrt gaps_apart rs)"

lemma merge_range_blocks:
  assumes "range_ok p" "range_ok r" "range_start p \<le> range_start r"
    "range_start r \<le> saturating_add (range_end p) 1"
  shows "{range_start p..max (range_end p) (range_end r)} = range_blocks p \<union> range_blocks r"
proof (rule set_eqI)
  fix x
  have "x \<le> range_end p \<or> range_start r \<le> x"
    using assms(4) by (auto simp: word_nat)
  then show "x \<in> {range_start p..max (range_end p) (range_end r)} \<longleftrightarrow>
      x \<in> range_blocks p \<union> range_blocks r"
    using assms(1-3) by (auto simp: range_blocks_def range_ok_def le_max_iff_disj intro: order_trans)
qed

text \<open>
  Pushing the next range of a sorted list keeps the vector in normal form, and the head
  never starts after it.
\<close>

definition merging :: "block_range list \<Rightarrow> block_number set \<Rightarrow> block_number \<Rightarrow> bool" where
  "merging acc blocks start =
     (ranges_normal (rev acc) \<and> blocks_of acc = blocks
      \<and> (case acc of [] \<Rightarrow> True | p # _ \<Rightarrow> range_start p \<le> start))"

lemma ranges_normal_snoc:
  "ranges_normal (rs @ [r]) \<longleftrightarrow> ranges_normal rs \<and> range_ok r \<and> (\<forall>p \<in> set rs. gaps_apart p r)"
  by (auto simp: ranges_normal_def sorted_wrt_append)

lemma gaps_apart_trans: "gaps_apart a b \<Longrightarrow> range_ok b \<Longrightarrow> gaps_apart b c \<Longrightarrow> gaps_apart a c"
  by (auto simp: gaps_apart_def range_ok_def word_nat)

lemma merge_push_merging:
  assumes m: "merging acc blocks (range_start r)" and r: "range_ok r"
  shows "\<exists>acc'. merge_push acc r = Ok acc' \<and> merging acc' (blocks \<union> range_blocks r) (range_start r)"
proof (cases acc)
  case Nil
  with m r show ?thesis by (auto simp: merging_def ranges_normal_def)
next
  case (Cons p ps)
  from m Cons have p: "range_ok p" "range_start p \<le> range_start r" "ranges_normal (rev ps)"
    "\<forall>q \<in> set ps. gaps_apart q p" "blocks = range_blocks p \<union> blocks_of ps"
    by (auto simp: merging_def ranges_normal_snoc)
  show ?thesis
  proof (cases "range_start r \<le> saturating_add (range_end p) 1")
    case True
    let ?q = "\<lparr>range_start = range_start p, range_end = max (range_end p) (range_end r)\<rparr>"
    have le: "range_start p \<le> max (range_end p) (range_end r)"
      using p(1) by (simp add: range_ok_def le_max_iff_disj)
    then have q: "range_ok ?q" by (simp add: range_ok_def)
    have "merge_push acc r = Ok (?q # ps)"
      using Cons True le by (simp add: range_new_def del: max.bounded_iff)
    moreover have "\<forall>x \<in> set ps. gaps_apart x ?q" using p(4) by (simp add: gaps_apart_def)
    moreover have "range_blocks ?q = range_blocks p \<union> range_blocks r"
      using merge_range_blocks [OF p(1) r p(2) True] by (simp add: range_blocks_def)
    ultimately show ?thesis
      using p(2,3,5) q by (auto simp: merging_def ranges_normal_snoc)
  next
    case False
    then have "gaps_apart p r" by (simp add: gaps_apart_def saturating_succ_less not_le)
    moreover from this have "gaps_apart q r" if "q \<in> set ps" for q
      using p(1,4) that gaps_apart_trans by blast
    ultimately show ?thesis
      using Cons False p r by (auto simp: merging_def ranges_normal_def sorted_wrt_append)
  qed
qed

lemma merge_loop_merging:
  assumes "merging acc blocks start" "sorted (map range_start rs)" "\<forall>r \<in> set rs. range_ok r \<and> start \<le> range_start r"
  shows "\<exists>acc'. merge_loop acc rs = Ok acc' \<and> ranges_normal (rev acc') \<and> blocks_of acc' = blocks \<union> blocks_of rs"
  using assms
proof (induction rs arbitrary: acc blocks start)
  case Nil
  then show ?case by (auto simp: merging_def)
next
  case (Cons r rs)
  have "merging acc blocks (range_start r)"
    using Cons.prems by (auto simp: merging_def split: list.splits intro: order_trans)
  from merge_push_merging [OF this] Cons.prems(3) obtain acc'
    where push: "merge_push acc r = Ok acc'" "merging acc' (blocks \<union> range_blocks r) (range_start r)"
    by auto
  have "\<forall>t \<in> set rs. range_ok t \<and> range_start r \<le> range_start t" using Cons.prems by simp
  from Cons.IH [OF push(2) _ this] Cons.prems(2) push(1) show ?case by (auto simp: Un_assoc)
qed

lemma sorted_by_start: "sorted (map range_start (sort_key (\<lambda>r. (range_start r, range_end r)) rs))"
proof -
  let ?key = "\<lambda>r. (range_start r, range_end r)"
  have "sorted (map ?key (sort_key ?key rs))" by (rule sorted_sort_key)
  then have "sorted_wrt (\<lambda>a b. ?key a \<le> ?key b) (sort_key ?key rs)" by (simp add: sorted_map)
  then have "sorted_wrt (\<lambda>a b. range_start a \<le> range_start b) (sort_key ?key rs)"
    by (rule sorted_wrt_mono_rel [rotated]) auto
  then show ?thesis by (simp add: sorted_map)
qed

text \<open>Normalization keeps the blocks, and its result is in normal form.\<close>

lemma normalize_ranges_Ok:
  assumes "\<forall>r \<in> set rs. range_ok r"
  shows "\<exists>ns. normalize_ranges rs = Ok ns \<and> ranges_normal ns \<and> blocks_of ns = blocks_of rs"
proof -
  let ?sorted = "sort_key (\<lambda>r. (range_start r, range_end r)) rs"
  have "merging [] {} 0" by (simp add: merging_def ranges_normal_def)
  from merge_loop_merging [OF this sorted_by_start] assms
  obtain acc where "merge_loop [] ?sorted = Ok acc" "ranges_normal (rev acc)"
    "blocks_of acc = blocks_of ?sorted" by force
  moreover have "blocks_of (rev acc) = blocks_of acc" "blocks_of ?sorted = blocks_of rs"
    by (simp_all add: blocks_of_def)
  ultimately show ?thesis by (auto simp: normalize_ranges_def)
qed

lemma merge_loop_normal:
  "ranges_normal (rev acc @ rs) \<Longrightarrow> merge_loop acc rs = Ok (rev rs @ acc)"
proof (induction rs arbitrary: acc)
  case (Cons r rs)
  then have normal: "ranges_normal (rev (r # acc) @ rs)" by simp
  have "merge_push acc r = Ok (r # acc)"
  proof (cases acc)
    case (Cons p ps)
    with Cons.prems have "gaps_apart p r" by (auto simp: ranges_normal_def sorted_wrt_append)
    then have "\<not> range_start r \<le> saturating_add (range_end p) 1"
      by (simp add: gaps_apart_def saturating_succ_less not_le)
    with Cons show ?thesis by simp
  qed simp
  with Cons.IH [OF normal] show ?case by simp
qed simp

lemma normal_is_sorted:
  assumes "ranges_normal rs"
  shows "sort_key (\<lambda>r. (range_start r, range_end r)) rs = rs"
proof -
  have "(range_start a, range_end a) \<le> (range_start b, range_end b)" if "gaps_apart a b" "range_ok a" for a b
    using that by (auto simp: gaps_apart_def range_ok_def word_nat)
  with assms have "sorted_wrt (\<lambda>a b. (range_start a, range_end a) \<le> (range_start b, range_end b)) rs"
    unfolding ranges_normal_def by (auto intro: sorted_wrt_mono_rel)
  then show ?thesis by (intro sort_key_id_if_sorted) (simp add: sorted_map)
qed

text \<open>A set in normal form is a fixed point.\<close>

lemma normalize_ranges_normal: "ranges_normal rs \<Longrightarrow> normalize_ranges rs = Ok rs"
  using merge_loop_normal [of "[]" rs] by (simp add: normalize_ranges_def normal_is_sorted)

section \<open>Merging block numbers\<close>

fun merge_numbers_loop ::
  "block_number \<Rightarrow> block_number \<Rightarrow> u64 list \<Rightarrow> (block_range list, block_range_error) result" where
  "merge_numbers_loop start stop [] = and_then (range_new start stop) (\<lambda>r. Ok [r])"
| "merge_numbers_loop start stop (n # ns) =
     (if n = stop then merge_numbers_loop start stop ns
      else if n = saturating_add stop 1 then merge_numbers_loop start n ns
      else and_then (range_new start stop) (\<lambda>r.
           and_then (merge_numbers_loop n n ns) (\<lambda>rs. Ok (r # rs))))"

definition merge_block_numbers :: "u64 list \<Rightarrow> (block_range list, block_range_error) result" where
  "merge_block_numbers ns = (case ns of [] \<Rightarrow> Ok [] | n # rest \<Rightarrow> merge_numbers_loop n n rest)"

lemma succ_interval:
  assumes "start \<le> stop" "n = saturating_add stop 1" "n \<noteq> stop"
  shows "{start..n} = insert n {start..(stop :: u64)}"
proof (rule set_eqI)
  fix x
  have "unat n = unat stop + 1" using assms(2,3) by (rule saturating_succ_eq)
  then show "x \<in> {start..n} \<longleftrightarrow> x \<in> insert n {start..stop}"
    using assms(1) by (auto simp: word_nat)
qed

lemma merge_numbers_loop_Ok:
  assumes "sorted (stop # ns)" "start \<le> stop"
  shows "\<exists>rs. merge_numbers_loop start stop ns = Ok rs \<and> ranges_normal rs
    \<and> blocks_of rs = {start..stop} \<union> set ns \<and> (\<forall>r \<in> set rs. start \<le> range_start r)"
  using assms
proof (induction start stop ns rule: merge_numbers_loop.induct)
  case (1 start stop)
  then show ?case
    by (auto simp: range_new_def ranges_normal_def range_ok_def range_blocks_def)
next
  case (2 start stop n ns)
  have sorted: "sorted (n # ns)" and le: "stop \<le> n" using "2.prems"(1) by simp_all
  consider (same) "n = stop" | (succ) "n \<noteq> stop" "n = saturating_add stop 1"
    | (apart) "n \<noteq> stop" "n \<noteq> saturating_add stop 1" by blast
  then show ?case
  proof cases
    case same
    with "2.IH"(1) [OF same] sorted "2.prems"(2) show ?thesis by auto
  next
    case succ
    from "2.IH"(2) [OF succ sorted] le "2.prems"(2) obtain rs
      where "merge_numbers_loop start n ns = Ok rs" "ranges_normal rs"
        "blocks_of rs = {start..n} \<union> set ns" "\<forall>r \<in> set rs. start \<le> range_start r"
      by (meson order_trans)
    with succ succ_interval [OF "2.prems"(2) succ(2,1)] show ?thesis by auto
  next
    case apart
    let ?r = "\<lparr>range_start = start, range_end = stop\<rparr>"
    have r: "range_new start stop = Ok ?r" "range_ok ?r" "range_blocks ?r = {start..stop}"
      using "2.prems"(2) by (simp_all add: range_new_def range_ok_def range_blocks_def)
    from "2.IH"(3) [OF apart sorted] obtain rs
      where rs: "merge_numbers_loop n n ns = Ok rs" "ranges_normal rs"
        "blocks_of rs = {n..n} \<union> set ns" "\<forall>r \<in> set rs. n \<le> range_start r"
      by auto
    have "unat stop + 1 < unat n"
    proof -
      have "unat stop < unat n" using apart(1) le by (simp add: word_nat)
      moreover have "unat (saturating_add stop 1) = min (unat stop + 1) 18446744073709551615"
        by (simp add: unat_saturating_add)
      ultimately show ?thesis
        using apart(2) unat_u64_bound [of n] unfolding word_eq_nat by linarith
    qed
    then have "\<forall>s \<in> set rs. gaps_apart ?r s" using rs(4) by (auto simp: gaps_apart_def word_nat)
    with rs r apart le "2.prems"(2) show ?thesis
      by (auto simp: ranges_normal_def intro: order_trans)
  qed
qed

lemma merge_block_numbers_Ok:
  assumes "sorted ns"
  shows "\<exists>rs. merge_block_numbers ns = Ok rs \<and> ranges_normal rs \<and> blocks_of rs = set ns"
proof (cases ns)
  case Nil
  then show ?thesis by (simp add: merge_block_numbers_def ranges_normal_def)
next
  case (Cons n rest)
  with merge_numbers_loop_Ok [of n rest n] assms show ?thesis
    by (auto simp: merge_block_numbers_def)
qed

end
