(* ===== verification/Backfill.thy ===== *)
theory Backfill
  imports Descriptors Deltas Ranges
begin

text \<open>
  Requests the runtime compiles from processor requirements, \<^verbatim>\<open>crates/runtime/src/lib.rs\<close>:
  the scope that covers several filters, the backfill job of a processor and the live request,
  and the adaptive bound on the blocks of one commit.
\<close>

section \<open>Covering scopes\<close>

fun extend_unique :: "'a list \<Rightarrow> 'a list \<Rightarrow> 'a list" where
  "extend_unique retained [] = retained"
| "extend_unique retained (v # vs) =
     extend_unique (if v \<in> set retained then retained else retained @ [v]) vs"

definition union_values :: "'a list \<Rightarrow> 'a list \<Rightarrow> 'a list" where
  "union_values retained incoming =
     (if incoming = [] then []
      else if retained \<noteq> [] then extend_unique retained incoming
      else retained)"

definition union_topic :: "topic_filter list \<Rightarrow> topic_filter \<Rightarrow> topic_filter" where
  "union_topic incoming t =
     foldl (\<lambda>t other. t\<lparr>alternatives := extend_unique (alternatives t) (alternatives other)\<rparr>) t
       (filter (\<lambda>other. position other = position t) incoming)"

definition union_filter_scope :: "filter_scope \<Rightarrow> filter_scope \<Rightarrow> filter_scope" where
  "union_filter_scope retained incoming =
     \<lparr>scope_block_range =
        (case (scope_block_range retained, scope_block_range incoming) of
           (Some a, Some b) \<Rightarrow>
             (case range_new (min (range_start a) (range_start b)) (max (range_end a) (range_end b)) of
                Inr r \<Rightarrow> Some r | Inl _ \<Rightarrow> None)
         | _ \<Rightarrow> None),
      scope_addresses = union_values (scope_addresses retained) (scope_addresses incoming),
      scope_topics = map (union_topic (scope_topics incoming))
        (filter (\<lambda>t. list_ex (\<lambda>other. position other = position t) (scope_topics incoming))
          (scope_topics retained)),
      scope_transaction_hashes =
        union_values (scope_transaction_hashes retained) (scope_transaction_hashes incoming),
      scope_transaction_types =
        union_values (scope_transaction_types retained) (scope_transaction_types incoming),
      scope_senders = union_values (scope_senders retained) (scope_senders incoming),
      scope_recipients = union_values (scope_recipients retained) (scope_recipients incoming)\<rparr>"

definition covering_filter_scope :: "filter_scope list \<Rightarrow> filter_scope" where
  "covering_filter_scope filters =
     (case filters of
        [] \<Rightarrow> default_scope
      | first # rest \<Rightarrow> foldl union_filter_scope first rest)"

lemma set_extend_unique [simp]: "set (extend_unique a b) = set a \<union> set b"
  by (induction a b rule: extend_unique.induct) auto

lemma union_values_covers: "list_covers (union_values a b) a" "list_covers (union_values a b) b"
  by (auto simp: union_values_def list_covers_def)

lemma union_topic_facts:
  "position (union_topic incoming t) = position t"
  "set (alternatives (union_topic incoming t)) =
    set (alternatives t) \<union> (\<Union>o' \<in> {o' \<in> set incoming. position o' = position t}. set (alternatives o'))"
proof -
  have "position (foldl (\<lambda>t other. t\<lparr>alternatives := extend_unique (alternatives t) (alternatives other)\<rparr>) t os)
      = position t \<and>
    set (alternatives (foldl (\<lambda>t other. t\<lparr>alternatives := extend_unique (alternatives t)
      (alternatives other)\<rparr>) t os)) = set (alternatives t) \<union> (\<Union>o' \<in> set os. set (alternatives o'))"
    for os :: "topic_filter list"
    by (induction os arbitrary: t) auto
  then show "position (union_topic incoming t) = position t"
    "set (alternatives (union_topic incoming t)) =
      set (alternatives t) \<union> (\<Union>o' \<in> {o' \<in> set incoming. position o' = position t}. set (alternatives o'))"
    by (simp_all add: union_topic_def)
qed

lemma union_filter_scope_values:
  "covers_values (union_filter_scope a b) a" "covers_values (union_filter_scope a b) b"
proof -
  have "topics_cover (scope_topics (union_filter_scope a b)) (scope_topics a)"
    unfolding topics_cover_iff union_filter_scope_def
    by (auto simp: union_topic_facts list_ex_iff)
  moreover have "topics_cover (scope_topics (union_filter_scope a b)) (scope_topics b)"
    unfolding topics_cover_iff union_filter_scope_def
    by (auto simp: union_topic_facts list_ex_iff)
  ultimately show "covers_values (union_filter_scope a b) a" "covers_values (union_filter_scope a b) b"
    by (simp_all add: covers_values_def union_values_covers union_filter_scope_def)
qed

lemma union_filter_scope_covers:
  "covers (union_filter_scope a b) a" "covers (union_filter_scope a b) b"
proof -
  have hull: "case scope_block_range (union_filter_scope a b) of None \<Rightarrow> True
    | Some r \<Rightarrow> (\<exists>x y. scope_block_range a = Some x \<and> scope_block_range b = Some y
        \<and> range_start r = min (range_start x) (range_start y)
        \<and> range_end r = max (range_end x) (range_end y))"
    by (auto simp: union_filter_scope_def range_new_def split: option.splits if_splits)
  show "covers (union_filter_scope a b) a" "covers (union_filter_scope a b) b"
    using hull union_filter_scope_values [of a b]
    by (auto simp: covers_def split: option.splits)
qed

lemma fold_union_covers:
  "covers (foldl union_filter_scope s fs) s"
  "f \<in> set fs \<Longrightarrow> covers (foldl union_filter_scope s fs) f"
proof -
  show first: "covers (foldl union_filter_scope s fs) s" for s fs
    by (induction fs arbitrary: s) (auto intro: covers_refl covers_trans union_filter_scope_covers)
  show "f \<in> set fs \<Longrightarrow> covers (foldl union_filter_scope s fs) f"
    by (induction fs arbitrary: s) (auto intro: covers_trans first union_filter_scope_covers)
qed

lemma covering_filter_scope_covers: "f \<in> set fs \<Longrightarrow> covers (covering_filter_scope fs) f"
  by (cases fs) (auto simp: covering_filter_scope_def intro: fold_union_covers)

section \<open>Compiled requests\<close>

datatype runtime_error =
  InvalidConfig string
| RuntimeCancelled
| RuntimeRange block_range_error

datatype historical_job_owner = OwnerMaterialization | OwnerSubscription

datatype backfill_mode = FillMissing | Recompute

record backfill_job =
  bj_id :: string
  bj_owner :: historical_job_owner
  bj_processor_instance :: string
  bj_mode :: backfill_mode
  bj_delivery_stream_id :: "string option"
  bj_ranges :: "block_range list"
  bj_request :: data_request
  bj_sink_ids :: "string list"

text \<open>\<open>RuntimeRange\<close> stands for \<^verbatim>\<open>InvalidConfig\<close> with the text of the range error.\<close>

definition normalize_backfill_ranges :: "block_range list \<Rightarrow> (block_range list, runtime_error) result" where
  "normalize_backfill_ranges rs =
     (if rs = [] then Err (InvalidConfig ''backfill range set must not be empty'')
      else map_err RuntimeRange (normalize_ranges rs))"

definition default_projection :: field_projection where
  "default_projection = \<lparr>fp_header_fields = [], fp_transaction_fields = [], fp_receipt_fields = [],
     fp_log_fields = []\<rparr>"

definition requirement_filters :: "data_requirement list \<Rightarrow> filter_set" where
  "requirement_filters reqs =
     (if list_all dr_allow_filtered reqs
      then let scope = covering_filter_scope (map dr_filter reqs)
           in \<lparr>fs_scope = scope, fs_senders = scope_senders scope, fs_recipients = scope_recipients scope\<rparr>
      else \<lparr>fs_scope = default_scope, fs_senders = [], fs_recipients = []\<rparr>)"

text \<open>The part that backfill jobs and live requests share: the fold over the requirements.\<close>

definition compile_request ::
  "data_requirement list \<Rightarrow> chain_id \<Rightarrow> block_range \<Rightarrow> verification_policy \<Rightarrow> data_request" where
  "compile_request reqs chain r policy =
     \<lparr>rq_chain_id = chain, rq_range = r,
      rq_required = foldl (\<lambda>all q. cap_union all (dr_capabilities q)) cap_none reqs,
      rq_log_fields = foldl (\<lambda>all q. lf_union all (dr_log_fields q)) lf_none reqs,
      rq_allow_filtered = list_all dr_allow_filtered reqs,
      rq_projection = default_projection,
      rq_filters = requirement_filters reqs,
      rq_minimum_finality = foldl (\<lambda>all q. max all (dr_minimum_finality q)) Unattested reqs,
      rq_verification_policy = policy\<rparr>"

definition for_processor_ranges ::
  "string \<Rightarrow> processor_descriptor \<Rightarrow> chain_id \<Rightarrow> block_range list \<Rightarrow> verification_policy
    \<Rightarrow> (backfill_job, runtime_error) result" where
  "for_processor_ranges job_id desc chain rs policy =
     and_then (normalize_backfill_ranges rs) (\<lambda>ranges.
     if ranges = [] then Err (InvalidConfig ''backfill range set must not be empty'')
     else and_then (map_err RuntimeRange
            (range_new (range_start (hd ranges)) (range_end (last ranges)))) (\<lambda>bounding.
       if pd_requirements desc = [] then Err (InvalidConfig ''processor has no data requirements'')
       else Ok \<lparr>bj_id = job_id, bj_owner = OwnerMaterialization,
              bj_processor_instance = pd_instance desc, bj_mode = FillMissing,
              bj_delivery_stream_id = None, bj_ranges = ranges,
              bj_request = compile_request (pd_requirements desc) chain bounding policy,
              bj_sink_ids = []\<rparr>))"

definition requested_ranges :: "backfill_job \<Rightarrow> (block_range list, runtime_error) result" where
  "requested_ranges job =
     and_then (normalize_backfill_ranges (bj_ranges job)) (\<lambda>normalized.
     if normalized \<noteq> bj_ranges job
     then Err (InvalidConfig ''durable backfill ranges are not normalized'')
     else if normalized = []
     then Err (InvalidConfig ''durable backfill range set must not be empty'')
     else and_then (map_err RuntimeRange
            (range_new (range_start (hd normalized)) (range_end (last normalized)))) (\<lambda>bounding.
       if bounding \<noteq> rq_range (bj_request job)
       then Err (InvalidConfig ''durable backfill bounding range does not match its range set'')
       else Ok normalized))"

datatype live_start =
  StartHead
| StartAt block_ref
| AnchoredOverlap block_ref u64
| RetainedCanonical "block_ref list"
| StartCursor source_cursor

definition live_range :: "live_start \<Rightarrow> (block_range, runtime_error) result" where
  "live_range start =
     (case start of
        StartHead \<Rightarrow> Ok (range_single 0)
      | StartAt b \<Rightarrow> Ok (range_single (number b))
      | AnchoredOverlap anchor overlap \<Rightarrow>
          map_err RuntimeRange
            (range_new (saturating_sub (number anchor) (saturating_sub overlap 1)) (number anchor))
      | RetainedCanonical canonical \<Rightarrow>
          (if canonical = []
           then Err (InvalidConfig ''retained live start requires a non-empty canonical suffix'')
           else map_err RuntimeRange (range_new (number (hd canonical)) (number (last canonical))))
      | StartCursor cursor \<Rightarrow> Ok (range_single (sc_block_number cursor)))"

definition compile_live_request ::
  "processor_descriptor list \<Rightarrow> chain_id \<Rightarrow> live_start \<Rightarrow> (data_request, runtime_error) result" where
  "compile_live_request processors chain start =
     and_then (live_range start) (\<lambda>r.
     let reqs = concat (map pd_requirements processors)
     in if reqs = []
        then Err (InvalidConfig ''live processors require at least one data requirement'')
        else Ok (compile_request reqs chain r CompleteCryptographic))"

subsection \<open>What a compiled request covers\<close>

lemma fold_max_finality:
  "s \<le> foldl (\<lambda>all q. max all (dr_minimum_finality q)) s reqs"
  "q \<in> set reqs \<Longrightarrow> dr_minimum_finality q \<le> foldl (\<lambda>all q. max all (dr_minimum_finality q)) s reqs"
proof -
  show keep: "s \<le> foldl (\<lambda>all q. max all (dr_minimum_finality q)) s reqs" for s reqs
    by (induction reqs arbitrary: s) (auto intro: order_trans [of _ "max _ _"] max.cobounded1)
  show "q \<in> set reqs \<Longrightarrow> dr_minimum_finality q \<le> foldl (\<lambda>all q. max all (dr_minimum_finality q)) s reqs"
    by (induction reqs arbitrary: s)
      (auto intro: order_trans [OF max.cobounded2 keep])
qed

lemma effective_requirement_scope:
  assumes "list_all dr_allow_filtered reqs"
  shows "effective_scope (requirement_filters reqs) = covering_filter_scope (map dr_filter reqs)"
  using assms by (simp add: requirement_filters_def effective_scope_def Let_def)

lemma covers_default: "covers default_scope f"
  by (simp add: covers_def covers_values_def default_scope_def list_covers_def topics_cover_def)

text \<open>
  Every requirement's capabilities, log fields and finality are part of the request, and
  material filtered by the request's scope covers every requirement's filter.
\<close>

lemma compile_request_covers:
  assumes "q \<in> set reqs"
  shows "cap_contains_all (rq_required (compile_request reqs chain r policy)) (dr_capabilities q)"
    "lf_contains_all (rq_log_fields (compile_request reqs chain r policy)) (dr_log_fields q)"
    "dr_minimum_finality q \<le> rq_minimum_finality (compile_request reqs chain r policy)"
    "rq_allow_filtered (compile_request reqs chain r policy) \<Longrightarrow> dr_allow_filtered q"
    "rq_allow_filtered (compile_request reqs chain r policy) \<Longrightarrow>
      covers (effective_scope (rq_filters (compile_request reqs chain r policy))) (dr_filter q)"
    "request_filter_scope (compile_request reqs chain r policy) = Some scope \<Longrightarrow>
      covers scope (dr_filter q)"
proof -
  show "cap_contains_all (rq_required (compile_request reqs chain r policy)) (dr_capabilities q)"
    using assms by (simp add: compile_request_def caps.unions_cover)
  show "lf_contains_all (rq_log_fields (compile_request reqs chain r policy)) (dr_log_fields q)"
    using assms by (simp add: compile_request_def lfs.unions_cover)
  show "dr_minimum_finality q \<le> rq_minimum_finality (compile_request reqs chain r policy)"
    using assms by (simp add: compile_request_def fold_max_finality)
  show filtered: "rq_allow_filtered (compile_request reqs chain r policy) \<Longrightarrow> dr_allow_filtered q"
    using assms by (simp add: compile_request_def list_all_iff)
  show scope: "rq_allow_filtered (compile_request reqs chain r policy) \<Longrightarrow>
      covers (effective_scope (rq_filters (compile_request reqs chain r policy))) (dr_filter q)"
    using assms by (simp add: compile_request_def effective_requirement_scope
        covering_filter_scope_covers)
  show "request_filter_scope (compile_request reqs chain r policy) = Some scope \<Longrightarrow>
      covers scope (dr_filter q)"
    using scope by (auto simp: request_filter_scope_def split: if_splits)
qed

lemma normal_hd_last:
  assumes "ranges_normal rs" "rs \<noteq> []" "r \<in> set rs"
  shows "range_start (hd rs) \<le> range_start r" "range_end r \<le> range_end (last rs)"
proof -
  from assms obtain f fs where "rs = f # fs" by (cases rs) auto
  with assms show "range_start (hd rs) \<le> range_start r"
    by (auto simp: ranges_normal_def gaps_apart_def range_ok_def word_nat)
  from assms obtain l ls where "rs = ls @ [l]" by (cases rs rule: rev_cases) auto
  with assms show "range_end r \<le> range_end (last rs)"
    by (auto simp: ranges_normal_def gaps_apart_def range_ok_def word_nat sorted_wrt_append)
qed

lemma normalize_backfill_ranges_Ok:
  assumes "rs \<noteq> []" "\<forall>r \<in> set rs. range_ok r"
  shows "\<exists>ns. normalize_backfill_ranges rs = Ok ns \<and> ns \<noteq> [] \<and> ranges_normal ns
    \<and> blocks_of ns = blocks_of rs"
proof -
  from normalize_ranges_Ok [OF assms(2)] obtain ns
    where ns: "normalize_ranges rs = Ok ns" "ranges_normal ns" "blocks_of ns = blocks_of rs" by blast
  obtain r where "r \<in> set rs" using assms(1) by (cases rs) auto
  moreover from this have "range_start r \<in> range_blocks r"
    using assms(2) by (auto simp: range_ok_def range_blocks_def)
  ultimately have "blocks_of rs \<noteq> {}" by (auto simp: blocks_of_def)
  with ns assms(1) show ?thesis by (auto simp: normalize_backfill_ranges_def map_err_def)
qed

text \<open>A job built for a processor passes the check its durable form goes through.\<close>

lemma for_processor_ranges_requested:
  assumes rs: "rs \<noteq> []" "\<forall>r \<in> set rs. range_ok r" and req: "pd_requirements desc \<noteq> []"
  shows "\<exists>job. for_processor_ranges job_id desc chain rs policy = Ok job
    \<and> requested_ranges job = Ok (bj_ranges job)
    \<and> blocks_of (bj_ranges job) = blocks_of rs
    \<and> ranges_normal (bj_ranges job)
    \<and> blocks_of rs \<subseteq> range_blocks (rq_range (bj_request job))
    \<and> bj_request job = compile_request (pd_requirements desc) chain (rq_range (bj_request job)) policy"
proof -
  from normalize_backfill_ranges_Ok [OF rs] obtain ns
    where ns: "normalize_backfill_ranges rs = Ok ns" "ns \<noteq> []" "ranges_normal ns"
      "blocks_of ns = blocks_of rs" by blast
  let ?b = "\<lparr>range_start = range_start (hd ns), range_end = range_end (last ns)\<rparr>"
  have "hd ns \<in> set ns" "range_ok (hd ns)" using ns(2,3) by (auto simp: ranges_normal_def)
  with normal_hd_last(2) [OF ns(3,2)] have "range_start (hd ns) \<le> range_end (last ns)"
    by (auto simp: range_ok_def intro: order_trans)
  then have b: "range_new (range_start (hd ns)) (range_end (last ns)) = Ok ?b"
    by (simp add: range_new_def)
  have fixed: "normalize_backfill_ranges ns = Ok ns"
    using ns(2,3) by (simp add: normalize_backfill_ranges_def normalize_ranges_normal map_err_def)
  have "blocks_of ns \<subseteq> range_blocks ?b"
    using normal_hd_last [OF ns(3,2)] by (fastforce simp: blocks_of_def range_blocks_def)
  with ns b fixed req show ?thesis
    by (simp add: for_processor_ranges_def requested_ranges_def map_err_def compile_request_def)
qed

section \<open>Adaptive commits\<close>

definition ADAPTIVE_COMMIT_SAMPLE_WINDOW :: nat where
  "ADAPTIVE_COMMIT_SAMPLE_WINDOW = 20"

record adaptive_commit_state =
  ac_maximum_blocks :: nat
  ac_writer_hold_micros :: "u64 list"

definition adaptive_new :: "nat \<Rightarrow> adaptive_commit_state" where
  "adaptive_new maximum = \<lparr>ac_maximum_blocks = maximum, ac_writer_hold_micros = []\<rparr>"

definition maximum_blocks :: "adaptive_commit_state \<Rightarrow> nat" where
  "maximum_blocks s = max (ac_maximum_blocks s) 1"

text \<open>
  The counts are \<^verbatim>\<open>usize\<close> values below \<^verbatim>\<open>2 ^ 64\<close>; doubling saturates there.
\<close>

definition observe :: "adaptive_commit_state \<Rightarrow> u64 \<Rightarrow> nat \<Rightarrow> u64 \<Rightarrow> adaptive_commit_state" where
  "observe s hold configured_maximum target_micros =
     (let kept = (if length (ac_writer_hold_micros s) = ADAPTIVE_COMMIT_SAMPLE_WINDOW
                  then tl (ac_writer_hold_micros s) else ac_writer_hold_micros s);
          holds = kept @ [hold];
          samples = sort holds;
          p95_index = (length samples * 95 + 99) div 100 - 1;
          p95 = samples ! p95_index;
          m = ac_maximum_blocks s
      in if p95 > target_micros \<and> m > 1
         then \<lparr>ac_maximum_blocks = max (m div 2) 1, ac_writer_hold_micros = []\<rparr>
         else if length samples = ADAPTIVE_COMMIT_SAMPLE_WINDOW \<and> p95 < target_micros div 2
           \<and> m < configured_maximum
         then \<lparr>ac_maximum_blocks = max (min (cap64 (m * 2)) configured_maximum) 1,
               ac_writer_hold_micros = []\<rparr>
         else s\<lparr>ac_writer_hold_micros := holds\<rparr>)"

definition adaptive_ok :: "nat \<Rightarrow> adaptive_commit_state \<Rightarrow> bool" where
  "adaptive_ok configured s =
     (1 \<le> ac_maximum_blocks s \<and> ac_maximum_blocks s \<le> configured
      \<and> length (ac_writer_hold_micros s) \<le> ADAPTIVE_COMMIT_SAMPLE_WINDOW)"

text \<open>The percentile index is always inside the sample list, so the access cannot panic.\<close>

lemma p95_index_in_range: "0 < n \<Longrightarrow> (n * 95 + 99) div 100 - 1 < (n :: nat)"
  by linarith

lemma observe_ok:
  "adaptive_ok configured s \<Longrightarrow> adaptive_ok configured (observe s hold configured target)"
  by (auto simp: adaptive_ok_def observe_def Let_def ADAPTIVE_COMMIT_SAMPLE_WINDOW_def cap64_def)

definition adaptive_step :: "nat \<Rightarrow> adaptive_commit_state \<Rightarrow> adaptive_commit_state \<Rightarrow> bool" where
  "adaptive_step configured s t = (\<exists>hold target. t = observe s hold configured target)"

interpretation adaptive: kept_invariant "adaptive_step configured" "adaptive_ok configured"
  for configured
  by unfold_locales (auto simp: adaptive_step_def observe_ok)

end
