(* ===== verification/Fair_Commits.thy ===== *)
theory Fair_Commits
  imports Backfill
begin

text \<open>
  The fair commit scheduler of the historical runtime, \<^verbatim>\<open>crates/runtime/src/lib.rs\<close>: jobs wait
  in a queue for the one commit turn, and a deficit in bytes decides whose turn it is. The
  state behind the mutex is a record, each locked section is one operation, and the runs of
  the scheduler are the runs of a step relation over that state and the outstanding permits.
  Waking the waiters only makes them take the lock again, which any of them may do at any time
  in the step relation.
\<close>

section \<open>State\<close>

record fair_job =
  fj_deficit_bytes :: int
  fj_registered :: bool
  fj_waiting :: bool

record fair_state =
  fc_active :: bool
  fc_selected :: "string option"
  fc_order :: "string list"
  fc_jobs :: "(string, fair_job) table"

definition default_job :: fair_job where
  "default_job = \<lparr>fj_deficit_bytes = 0, fj_registered = False, fj_waiting = False\<rparr>"

definition fair_new :: fair_state where
  "fair_new = \<lparr>fc_active = False, fc_selected = None, fc_order = [], fc_jobs = []\<rparr>"

definition HISTORICAL_FAIR_COMMIT_QUANTUM_BYTES :: u64 where
  "HISTORICAL_FAIR_COMMIT_QUANTUM_BYTES = 1024 * 1024"

text \<open>Saturation at the bounds of an \<^verbatim>\<open>i128\<close>.\<close>

definition sat128 :: "int \<Rightarrow> int" where
  "sat128 x = max (- (2 ^ 127)) (min (2 ^ 127 - 1) x)"

section \<open>Operations\<close>

definition register_job :: "fair_state \<Rightarrow> string \<Rightarrow> (fair_state, runtime_error) result" where
  "register_job s j =
     (let job = (case map_of (fc_jobs s) j of Some job \<Rightarrow> job | None \<Rightarrow> default_job)
      in if fj_registered job
         then Err (InvalidConfig ''historical job is already registered with the fair scheduler'')
         else Ok (s\<lparr>fc_jobs := tput j (job\<lparr>fj_registered := True\<rparr>) (fc_jobs s)\<rparr>))"

text \<open>The first locked section of \<^verbatim>\<open>acquire\<close>.\<close>

definition acquire_enqueue :: "fair_state \<Rightarrow> string \<Rightarrow> (fair_state, runtime_error) result" where
  "acquire_enqueue s j =
     (case map_of (fc_jobs s) j of
        None \<Rightarrow> Err (InvalidConfig ''historical job has no fair scheduler registration'')
      | Some job \<Rightarrow>
          if \<not> fj_registered job
          then Err (InvalidConfig ''historical job has an inactive fair scheduler registration'')
          else if fj_waiting job
          then Err (InvalidConfig ''historical job requested concurrent fair commit turns'')
          else Ok (s\<lparr>fc_jobs := tput j (job\<lparr>fj_waiting := True\<rparr>) (fc_jobs s),
                     fc_order := fc_order s @ [j]\<rparr>))"

datatype round_result = Found string | Exhausted | NextRound

text \<open>The inner \<^verbatim>\<open>for\<close> loop of \<^verbatim>\<open>select_fair_commit_job\<close>.\<close>

fun select_round :: "u64 \<Rightarrow> nat \<Rightarrow> fair_state \<Rightarrow> round_result \<times> fair_state" where
  "select_round q 0 s = (NextRound, s)"
| "select_round q (Suc n) s =
     (case fc_order s of
        [] \<Rightarrow> (Exhausted, s)
      | j # rest \<Rightarrow>
          (let s1 = s\<lparr>fc_order := rest\<rparr>
           in case map_of (fc_jobs s1) j of
                None \<Rightarrow> select_round q n s1
              | Some job \<Rightarrow>
                  if \<not> fj_waiting job then select_round q n s1
                  else
                    (let d = sat128 (fj_deficit_bytes job + uint q);
                         s2 = s1\<lparr>fc_jobs := tput j (job\<lparr>fj_deficit_bytes := d\<rparr>) (fc_jobs s1)\<rparr>
                     in if d > 0 then (Found j, s2)
                        else select_round q n (s2\<lparr>fc_order := rest @ [j]\<rparr>))))"

text \<open>The outer loop, which need not end: the value is then \<open>None\<close>.\<close>

partial_function (option) select_fair_commit_job ::
  "u64 \<Rightarrow> fair_state \<Rightarrow> (string option \<times> fair_state) option" where
  "select_fair_commit_job q s =
     (if fc_order s = [] then Some (None, s)
      else case select_round q (length (fc_order s)) s of
        (Found j, s') \<Rightarrow> Some (Some j, s')
      | (Exhausted, s') \<Rightarrow> Some (None, s')
      | (NextRound, s') \<Rightarrow> select_fair_commit_job q s')"

text \<open>The locked section of one turn of the loop of \<^verbatim>\<open>acquire\<close>; \<open>True\<close> is the permit.\<close>

definition acquire_poll :: "u64 \<Rightarrow> fair_state \<Rightarrow> string \<Rightarrow> (bool \<times> fair_state) option" where
  "acquire_poll q s j =
     map_option (\<lambda>s1.
       if \<not> fc_active s1 \<and> fc_selected s1 = Some j
       then (True, s1\<lparr>fc_active := True, fc_selected := None,
               fc_jobs := (case map_of (fc_jobs s1) j of
                  Some job \<Rightarrow> tput j (job\<lparr>fj_waiting := False\<rparr>) (fc_jobs s1)
                | None \<Rightarrow> fc_jobs s1)\<rparr>)
       else (False, s1))
     (if \<not> fc_active s \<and> fc_selected s = None
      then map_option (\<lambda>(sel, s'). s'\<lparr>fc_selected := sel\<rparr>) (select_fair_commit_job q s)
      else Some s)"

definition clear_selected :: "string \<Rightarrow> fair_state \<Rightarrow> fair_state" where
  "clear_selected j s = (if fc_selected s = Some j then s\<lparr>fc_selected := None\<rparr> else s)"

definition cancel_waiter :: "fair_state \<Rightarrow> string \<Rightarrow> fair_state" where
  "cancel_waiter s j =
     (let s1 = clear_selected j s
      in s1\<lparr>fc_order := filter (\<lambda>queued. queued \<noteq> j) (fc_order s1),
            fc_jobs := (case map_of (fc_jobs s1) j of
               Some job \<Rightarrow> tput j (job\<lparr>fj_waiting := False\<rparr>) (fc_jobs s1)
             | None \<Rightarrow> fc_jobs s1)\<rparr>)"

definition release :: "fair_state \<Rightarrow> string \<Rightarrow> u64 \<Rightarrow> fair_state" where
  "release s j charged =
     s\<lparr>fc_active := False,
       fc_jobs := (case map_of (fc_jobs s) j of
          Some job \<Rightarrow> tput j (job\<lparr>fj_deficit_bytes := sat128 (fj_deficit_bytes job - uint charged)\<rparr>)
                       (fc_jobs s)
        | None \<Rightarrow> fc_jobs s)\<rparr>"

text \<open>\<^verbatim>\<open>Drop\<close> of the registration, and the two ways a permit ends.\<close>

definition drop_registration :: "fair_state \<Rightarrow> string \<Rightarrow> fair_state" where
  "drop_registration s j =
     (let s1 = clear_selected j s
      in s1\<lparr>fc_order := filter (\<lambda>queued. queued \<noteq> j) (fc_order s1), fc_jobs := tdel j (fc_jobs s1)\<rparr>)"

definition permit_complete :: "fair_state \<Rightarrow> string \<Rightarrow> u64 \<Rightarrow> fair_state" where
  "permit_complete s j charged = release s j (max charged 1)"

definition permit_drop :: "fair_state \<Rightarrow> string \<Rightarrow> fair_state" where
  "permit_drop s j = release s j 0"

section \<open>Runs\<close>

definition waits :: "fair_state \<Rightarrow> string \<Rightarrow> bool" where
  "waits s j = (case map_of (fc_jobs s) j of None \<Rightarrow> False | Some job \<Rightarrow> fj_waiting job)"

inductive fair_step ::
  "u64 \<Rightarrow> fair_state \<times> string list \<Rightarrow> fair_state \<times> string list \<Rightarrow> bool" for q where
  register: "register_job s j = Ok s' \<Longrightarrow> fair_step q (s, ps) (s', ps)"
| enqueue: "acquire_enqueue s j = Ok s' \<Longrightarrow> fair_step q (s, ps) (s', ps)"
| poll_wait: "waits s j \<Longrightarrow> acquire_poll q s j = Some (False, s') \<Longrightarrow> fair_step q (s, ps) (s', ps)"
| poll_permit: "waits s j \<Longrightarrow> acquire_poll q s j = Some (True, s') \<Longrightarrow>
    fair_step q (s, ps) (s', j # ps)"
| cancelled: "waits s j \<Longrightarrow> fair_step q (s, ps) (cancel_waiter s j, ps)"
| completed: "j \<in> set ps \<Longrightarrow> fair_step q (s, ps) (permit_complete s j charged, remove1 j ps)"
| dropped: "j \<in> set ps \<Longrightarrow> fair_step q (s, ps) (permit_drop s j, remove1 j ps)"
| deregistered: "fair_step q (s, ps) (drop_registration s j, ps)"

inductive_cases fair_stepE: "fair_step q x y"

definition fair_inv :: "fair_state \<Rightarrow> bool" where
  "fair_inv s =
     (ordered (fc_jobs s) \<and> distinct (fc_order s)
      \<and> (\<forall>j. waits s j \<longleftrightarrow> j \<in> set (fc_order s) \<or> fc_selected s = Some j)
      \<and> (\<forall>j. fc_selected s = Some j \<longrightarrow> j \<notin> set (fc_order s)))"

definition system_inv :: "fair_state \<times> string list \<Rightarrow> bool" where
  "system_inv x = (fair_inv (fst x) \<and> length (snd x) = (if fc_active (fst x) then 1 else 0))"

section \<open>Selecting a job\<close>

definition deficit :: "fair_state \<Rightarrow> string \<Rightarrow> int" where
  "deficit s j = (case map_of (fc_jobs s) j of None \<Rightarrow> 0 | Some job \<Rightarrow> fj_deficit_bytes job)"

text \<open>How far the queued jobs are from a positive deficit.\<close>

definition debt :: "fair_state \<Rightarrow> nat" where
  "debt s = (\<Sum>j\<leftarrow>fc_order s. nat (1 - deficit s j))"

definition queue_ok :: "fair_state \<Rightarrow> bool" where
  "queue_ok s = (ordered (fc_jobs s) \<and> distinct (fc_order s) \<and> (\<forall>j \<in> set (fc_order s). waits s j))"

lemma waits_job: "waits s j \<longleftrightarrow> (\<exists>job. map_of (fc_jobs s) j = Some job \<and> fj_waiting job)"
  by (auto simp: waits_def split: option.splits)

lemma waits_update [simp]:
  "waits (s\<lparr>fc_order := os\<rparr>) j = waits s j" "waits (s\<lparr>fc_selected := sel\<rparr>) j = waits s j"
  "waits (s\<lparr>fc_active := a\<rparr>) j = waits s j"
  "ordered (fc_jobs s) \<Longrightarrow> waits (s\<lparr>fc_jobs := tput k job (fc_jobs s)\<rparr>) j =
    (if j = k then fj_waiting job else waits s j)"
  by (auto simp: waits_def)

definition charge :: "u64 \<Rightarrow> string \<Rightarrow> fair_job \<Rightarrow> fair_state \<Rightarrow> fair_state" where
  "charge q j job s = s\<lparr>fc_order := tl (fc_order s), fc_jobs :=
     tput j (job\<lparr>fj_deficit_bytes := sat128 (fj_deficit_bytes job + uint q)\<rparr>) (fc_jobs s)\<rparr>"

lemma select_round_queued:
  assumes "fc_order s = j # rest" "map_of (fc_jobs s) j = Some job" "fj_waiting job"
  shows "select_round q (Suc n) s =
    (if sat128 (fj_deficit_bytes job + uint q) > 0 then (Found j, charge q j job s)
     else select_round q n ((charge q j job s)\<lparr>fc_order := rest @ [j]\<rparr>))"
  using assms by (simp add: Let_def charge_def)

lemma charge_waits:
  assumes "ordered (fc_jobs s)" "map_of (fc_jobs s) j = Some job" "fj_waiting job"
  shows "waits (charge q j job s) k = waits s k" "ordered (fc_jobs (charge q j job s))"
    "fc_active (charge q j job s) = fc_active s" "fc_selected (charge q j job s) = fc_selected s"
  using assms by (auto simp: charge_def waits_def)

lemma charge_debt:
  assumes ok: "queue_ok s" and o: "fc_order s = j # rest" and job: "map_of (fc_jobs s) j = Some job"
    and q: "0 < q" and d: "\<not> sat128 (fj_deficit_bytes job + uint q) > 0"
  shows "debt ((charge q j job s)\<lparr>fc_order := rest @ [j]\<rparr>) + 1 \<le> debt s"
proof -
  let ?s = "(charge q j job s)\<lparr>fc_order := rest @ [j]\<rparr>"
  have ordered: "ordered (fc_jobs s)" and j: "j \<notin> set rest" using ok o by (auto simp: queue_ok_def)
  have d': "deficit ?s k = (if k = j then sat128 (fj_deficit_bytes job + uint q) else deficit s k)" for k
    using ordered by (simp add: deficit_def charge_def)
  have dj: "deficit s j = fj_deficit_bytes job" using job by (simp add: deficit_def)
  have "0 < uint q" using q by (simp add: word_less_def)
  then have more: "fj_deficit_bytes job + 1 \<le> sat128 (fj_deficit_bytes job + uint q)
      \<or> sat128 (fj_deficit_bytes job + uint q) > 0"
    unfolding sat128_def by (auto simp: min_def max_def)
  have "(\<Sum>k\<leftarrow>rest. nat (1 - deficit ?s k)) = (\<Sum>k\<leftarrow>rest. nat (1 - deficit s k))"
    using j by (intro arg_cong [of _ _ sum_list] map_cong) (auto simp: d')
  moreover have "nat (1 - deficit ?s j) + 1 \<le> nat (1 - deficit s j)"
    using more d dj by (simp add: d')
  ultimately show ?thesis by (simp add: debt_def o)
qed

lemma select_round_spec:
  assumes "queue_ok s" "n \<le> length (fc_order s)" "0 < q" "select_round q n s = (out, s')"
  shows "queue_ok s' \<and> (\<forall>j. waits s' j = waits s j) \<and> fc_active s' = fc_active s
    \<and> fc_selected s' = fc_selected s
    \<and> (case out of
         Exhausted \<Rightarrow> False
       | NextRound \<Rightarrow> debt s' + n \<le> debt s \<and> set (fc_order s') = set (fc_order s)
       | Found j \<Rightarrow> j \<in> set (fc_order s) \<and> set (fc_order s') = set (fc_order s) - {j})"
  using assms
proof (induction n arbitrary: s)
  case 0
  then show ?case by auto
next
  case (Suc n)
  then obtain j rest where o: "fc_order s = j # rest" by (cases "fc_order s") auto
  with Suc.prems(1) obtain job where job: "map_of (fc_jobs s) j = Some job" "fj_waiting job"
    by (auto simp: queue_ok_def waits_job)
  have ordered: "ordered (fc_jobs s)" and rest: "j \<notin> set rest" "distinct rest"
    "\<forall>k \<in> set rest. waits s k"
    using Suc.prems(1) o by (auto simp: queue_ok_def)
  note c = charge_waits [OF ordered job, of q]
  let ?s = "(charge q j job s)\<lparr>fc_order := rest @ [j]\<rparr>"
  show ?case
  proof (cases "sat128 (fj_deficit_bytes job + uint q) > 0")
    case True
    with Suc.prems(4) select_round_queued [OF o job, of q n]
    have "out = Found j" "s' = charge q j job s" by auto
    moreover have "fc_order (charge q j job s) = rest" by (simp add: charge_def o)
    ultimately show ?thesis using c rest o by (auto simp: queue_ok_def)
  next
    case False
    with Suc.prems(4) select_round_queued [OF o job, of q n]
    have round: "select_round q n ?s = (out, s')" by simp
    have ok: "queue_ok ?s"
      using c rest job by (auto simp: queue_ok_def waits_job)
    have len: "n \<le> length (fc_order ?s)" using Suc.prems(2) o by simp
    have "debt ?s + 1 \<le> debt s" by (rule charge_debt [OF Suc.prems(1) o job(1) Suc.prems(3) False])
    with Suc.IH [OF ok len Suc.prems(3) round] c o show ?thesis
      by (auto split: round_result.splits)
  qed
qed

text \<open>
  With a positive quantum the outer loop ends: every round lowers the debt of the queue. It
  returns nothing only for an empty queue.
\<close>

lemma select_fair_commit_job_spec:
  assumes "queue_ok s" "0 < q"
  shows "\<exists>sel s'. select_fair_commit_job q s = Some (sel, s') \<and> queue_ok s'
    \<and> (\<forall>j. waits s' j = waits s j) \<and> fc_active s' = fc_active s \<and> fc_selected s' = fc_selected s
    \<and> (case sel of
         None \<Rightarrow> fc_order s = [] \<and> fc_order s' = []
       | Some j \<Rightarrow> j \<in> set (fc_order s) \<and> set (fc_order s') = set (fc_order s) - {j})"
  using assms
proof (induction s rule: measure_induct_rule [where f = debt])
  case (less s)
  show ?case
  proof (cases "fc_order s = []")
    case True
    with less.prems show ?thesis by (auto simp: select_fair_commit_job.simps)
  next
    case False
    obtain out s' where round: "select_round q (length (fc_order s)) s = (out, s')" by force
    note spec = select_round_spec [OF less.prems(1) order_refl less.prems(2) round]
    have eq: "select_fair_commit_job q s =
        (case out of Found j \<Rightarrow> Some (Some j, s') | Exhausted \<Rightarrow> Some (None, s')
         | NextRound \<Rightarrow> select_fair_commit_job q s')"
      using False round by (subst select_fair_commit_job.simps) simp
    show ?thesis
    proof (cases out)
      case (Found j)
      with spec eq show ?thesis by auto
    next
      case Exhausted
      with spec show ?thesis by simp
    next
      case NextRound
      with spec False have "debt s' < debt s" "queue_ok s'" "set (fc_order s') = set (fc_order s)"
        by (cases "fc_order s"; auto)+
      with less.IH [of s'] less.prems(2) obtain sel s'' where
        "select_fair_commit_job q s' = Some (sel, s'')" "queue_ok s''"
        "\<forall>j. waits s'' j = waits s' j" "fc_active s'' = fc_active s'" "fc_selected s'' = fc_selected s'"
        "case sel of None \<Rightarrow> fc_order s' = [] \<and> fc_order s'' = []
         | Some j \<Rightarrow> j \<in> set (fc_order s') \<and> set (fc_order s'') = set (fc_order s') - {j}"
        by blast
      with spec NextRound eq False \<open>set (fc_order s') = set (fc_order s)\<close> show ?thesis
        by (cases sel) auto
    qed
  qed
qed

section \<open>The invariant\<close>

lemma fair_inv_queue: "fair_inv s \<Longrightarrow> queue_ok s"
  by (auto simp: fair_inv_def queue_ok_def)

lemma waits_set_waiting:
  assumes "ordered (fc_jobs s)"
  shows "waits (s\<lparr>fc_jobs := (case map_of (fc_jobs s) j of
       Some job \<Rightarrow> tput j (job\<lparr>fj_waiting := False\<rparr>) (fc_jobs s) | None \<Rightarrow> fc_jobs s)\<rparr>) k \<longleftrightarrow>
    k \<noteq> j \<and> waits s k"
  using assms by (auto simp: waits_def split: option.splits)

lemma register_job_inv:
  assumes ok: "register_job s j = Ok s'" and inv: "fair_inv s"
  shows "fair_inv s' \<and> fc_active s' = fc_active s"
proof -
  from ok obtain job where s': "s' = s\<lparr>fc_jobs := tput j job (fc_jobs s)\<rparr>"
    and w: "fj_waiting job = waits s j"
    by (auto simp: register_job_def Let_def default_job_def waits_def if_Err_eq_Ok split: option.splits)
  have "waits s' k = waits s k" for k
    using inv w by (auto simp: s' fair_inv_def)
  with inv show ?thesis by (simp add: s' fair_inv_def)
qed

lemma acquire_enqueue_inv: "acquire_enqueue s j = Ok s' \<Longrightarrow> fair_inv s \<Longrightarrow> fair_inv s' \<and> fc_active s' = fc_active s"
proof -
  assume ok: "acquire_enqueue s j = Ok s'" and inv: "fair_inv s"
  from ok obtain job where job: "map_of (fc_jobs s) j = Some job" "\<not> fj_waiting job"
    and s': "s' = s\<lparr>fc_jobs := tput j (job\<lparr>fj_waiting := True\<rparr>) (fc_jobs s), fc_order := fc_order s @ [j]\<rparr>"
    by (auto simp: acquire_enqueue_def if_Err_eq_Ok split: option.splits)
  have "\<not> waits s j" using job by (simp add: waits_def)
  with inv show ?thesis unfolding s' by (auto simp: fair_inv_def)
qed

lemma acquire_poll_spec:
  assumes inv: "fair_inv s" and q: "0 < q"
  shows "\<exists>b s'. acquire_poll q s j = Some (b, s') \<and> fair_inv s'
    \<and> (b \<longrightarrow> \<not> fc_active s \<and> fc_active s') \<and> (\<not> b \<longrightarrow> fc_active s' = fc_active s)
    \<and> (\<not> fc_active s \<and> fc_selected s = Some j \<longrightarrow> b)
    \<and> (\<not> fc_active s \<and> fc_selected s = None \<and> fc_order s \<noteq> [] \<and> \<not> b \<longrightarrow>
        (\<exists>k. fc_selected s' = Some k))"
proof -
  obtain s1 where s1: "(if \<not> fc_active s \<and> fc_selected s = None
      then map_option (\<lambda>(sel, s'). s'\<lparr>fc_selected := sel\<rparr>) (select_fair_commit_job q s) else Some s) = Some s1"
    and inv1: "fair_inv s1" and act: "fc_active s1 = fc_active s"
    and sel: "fc_selected s \<noteq> None \<longrightarrow> fc_selected s1 = fc_selected s"
    and pick: "\<not> fc_active s \<and> fc_selected s = None \<and> fc_order s \<noteq> [] \<longrightarrow> fc_selected s1 \<noteq> None"
  proof (cases "\<not> fc_active s \<and> fc_selected s = None")
    case True
    from select_fair_commit_job_spec [OF fair_inv_queue [OF inv] q] obtain sel s' where
      s': "select_fair_commit_job q s = Some (sel, s')" "queue_ok s'" "\<forall>j. waits s' j = waits s j"
      "fc_active s' = fc_active s"
      "case sel of None \<Rightarrow> fc_order s = [] \<and> fc_order s' = []
       | Some j \<Rightarrow> j \<in> set (fc_order s) \<and> set (fc_order s') = set (fc_order s) - {j}" by blast
    then have "fair_inv (s'\<lparr>fc_selected := sel\<rparr>)"
      using inv True by (cases sel) (auto simp: fair_inv_def queue_ok_def)
    with s' True that [of "s'\<lparr>fc_selected := sel\<rparr>"] show ?thesis by (cases sel) auto
  next
    case False
    with inv that [of s] show ?thesis by auto
  qed
  show ?thesis
  proof (cases "\<not> fc_active s1 \<and> fc_selected s1 = Some j")
    case True
    let ?s' = "s1\<lparr>fc_active := True, fc_selected := None, fc_jobs := (case map_of (fc_jobs s1) j of
        Some job \<Rightarrow> tput j (job\<lparr>fj_waiting := False\<rparr>) (fc_jobs s1) | None \<Rightarrow> fc_jobs s1)\<rparr>"
    have ord: "ordered (fc_jobs s1)" using inv1 by (simp add: fair_inv_def)
    have w: "waits ?s' k \<longleftrightarrow> k \<noteq> j \<and> waits s1 k" for k
      using ord by (auto simp: waits_def split: option.splits)
    have "ordered (fc_jobs ?s')" using ord by (auto split: option.splits)
    with inv1 True w have "fair_inv ?s'" by (auto simp: fair_inv_def)
    moreover have "acquire_poll q s j = Some (True, ?s')"
      unfolding acquire_poll_def s1 using True by simp
    ultimately show ?thesis using True act by (intro exI [of _ True] exI [of _ ?s']) simp
  next
    case False
    then have "acquire_poll q s j = Some (False, s1)" unfolding acquire_poll_def s1 by simp
    with inv1 act sel pick False show ?thesis by (intro exI [of _ False] exI [of _ s1]) auto
  qed
qed

lemma cancel_waiter_inv: "fair_inv s \<Longrightarrow> fair_inv (cancel_waiter s j) \<and> fc_active (cancel_waiter s j) = fc_active s"
proof -
  assume inv: "fair_inv s"
  have ord: "ordered (fc_jobs s)" using inv by (simp add: fair_inv_def)
  have w: "waits (cancel_waiter s j) k \<longleftrightarrow> k \<noteq> j \<and> waits s k" for k
    using ord by (auto simp: cancel_waiter_def clear_selected_def Let_def waits_def split: option.splits)
  have o: "ordered (fc_jobs (cancel_waiter s j))"
    using ord by (auto simp: cancel_waiter_def clear_selected_def Let_def split: option.splits)
  have f: "fc_order (cancel_waiter s j) = filter (\<lambda>k. k \<noteq> j) (fc_order s)"
    "fc_selected (cancel_waiter s j) = (if fc_selected s = Some j then None else fc_selected s)"
    "fc_active (cancel_waiter s j) = fc_active s"
    by (simp_all add: cancel_waiter_def clear_selected_def Let_def)
  with w o inv show ?thesis by (auto simp: fair_inv_def)
qed

lemma drop_registration_inv:
  "fair_inv s \<Longrightarrow> fair_inv (drop_registration s j) \<and> fc_active (drop_registration s j) = fc_active s"
proof -
  assume inv: "fair_inv s"
  have ord: "ordered (fc_jobs s)" using inv by (simp add: fair_inv_def)
  have w: "waits (drop_registration s j) k \<longleftrightarrow> k \<noteq> j \<and> waits s k" for k
    by (auto simp: drop_registration_def clear_selected_def Let_def waits_def split: option.splits)
  have f: "fc_order (drop_registration s j) = filter (\<lambda>k. k \<noteq> j) (fc_order s)"
    "fc_selected (drop_registration s j) = (if fc_selected s = Some j then None else fc_selected s)"
    "fc_active (drop_registration s j) = fc_active s" "fc_jobs (drop_registration s j) = tdel j (fc_jobs s)"
    by (simp_all add: drop_registration_def clear_selected_def Let_def)
  with w ord inv show ?thesis by (auto simp: fair_inv_def)
qed

lemma release_inv: "fair_inv s \<Longrightarrow> fair_inv (release s j charged) \<and> \<not> fc_active (release s j charged)"
proof -
  assume inv: "fair_inv s"
  have ord: "ordered (fc_jobs s)" using inv by (simp add: fair_inv_def)
  then have "waits (release s j charged) k = waits s k" for k
    by (auto simp: release_def waits_def split: option.splits)
  moreover have "ordered (fc_jobs (release s j charged))"
    using ord by (auto simp: release_def split: option.splits)
  ultimately show ?thesis using inv by (auto simp: fair_inv_def release_def)
qed

lemma fair_step_inv: "fair_step q x y \<Longrightarrow> 0 < q \<Longrightarrow> system_inv x \<Longrightarrow> system_inv y"
proof (induction rule: fair_step.induct)
  case (poll_wait s j s' ps)
  with acquire_poll_spec [of s q j] show ?case by (auto simp: system_inv_def)
next
  case (poll_permit s j s' ps)
  with acquire_poll_spec [of s q j] show ?case by (auto simp: system_inv_def)
next
  case (completed j ps s charged)
  then show ?case using release_inv [of s j "max charged 1"]
    by (auto simp: system_inv_def permit_complete_def length_remove1 split: if_splits)
next
  case (dropped j ps s)
  then show ?case using release_inv [of s j 0]
    by (auto simp: system_inv_def permit_drop_def length_remove1 split: if_splits)
qed (auto simp: system_inv_def dest: register_job_inv acquire_enqueue_inv
    intro: cancel_waiter_inv [THEN conjunct1] drop_registration_inv [THEN conjunct1]
    simp: cancel_waiter_inv drop_registration_inv)

definition quantum_step ::
  "fair_state \<times> string list \<Rightarrow> fair_state \<times> string list \<Rightarrow> bool" where
  "quantum_step = fair_step HISTORICAL_FAIR_COMMIT_QUANTUM_BYTES"

interpretation fair: kept_invariant quantum_step system_inv
  by unfold_locales
    (auto simp: quantum_step_def HISTORICAL_FAIR_COMMIT_QUANTUM_BYTES_def intro: fair_step_inv)

lemma fair_new_inv: "system_inv (fair_new, [])"
  by (simp add: system_inv_def fair_inv_def fair_new_def waits_def)

end
