(* ===== verification/Canonical_Store.thy ===== *)
theory Canonical_Store
  imports Frames Durables Deltas
begin

text \<open>
  The canonical recent blocks of the SQLite store, \<^verbatim>\<open>crates/store-sqlite/src/lib.rs\<close>: retaining
  frames, seeding anchors, reorganisations, promotion to attested and finalized, the cleanup
  after a restart, and pruning. An SQL table is an ordered table under its primary key. A
  transaction that fails is rolled back, so an operation returns the new database only when it
  succeeds. Numbers are bound as 64-bit signed integers, which refuse values from \<^verbatim>\<open>2^63\<close> on.
\<close>

section \<open>Tables\<close>

record canonical_row =
  cn_hash :: block_hash
  cn_parent_hash :: block_hash
  cn_timestamp :: u64
  cn_finality :: finality

record locator =
  lo_block_number :: block_number
  lo_block_hash :: block_hash
  lo_transaction_index :: u32

text \<open>The column \<^verbatim>\<open>bytes\<close> of a recent block is the length of the encoded frame in its row.\<close>

record recent_db =
  canonical_blocks :: "(chain_id \<times> block_number, canonical_row) table"
  recent_blocks :: "(chain_id \<times> block_number \<times> block_hash, bytes) table"
  transaction_locators :: "(chain_id \<times> transaction_hash, locator) table"

datatype consumer_state = Active | ResetRequired | Revoked

datatype 'pe store_error =
  Numeric string
| StoreInvariant string
| StoreEncoding "'pe durable_error"
| CanonicalConflict block_number block_hash block_hash
| RecentStorageLimit u64 u64
| UnlinkedFinalizedAncestry block_number block_number bool
| StoreInvalidConfig string
| Sqlx string
| ChangeCursorExpired nat nat
| ConsumerExists string string
| ConsumerNotFound string string
| ConsumerInactive string consumer_state
| ConsumerSessionActive string int
| ConsumerSessionLost string nat
| ConsumerResetRequired "nat option" "nat option"
| AcknowledgementBackwards nat nat
| AcknowledgementBeyondDelivered nat nat
| AcknowledgementNotBoundary nat
| AcknowledgementMidBlock nat block_number
| AcknowledgementBeyondHead nat nat
| ProcessorFailed string
| ProcessorPaused string u64 u64
| DeliveryItemTooLarge string u64 u64 u64 "u64 option"
| DeliveryLimit string delivery_limit_action string u64 u64 u64
| StoreProcessor processor_error

definition u64_i64 :: "u64 \<Rightarrow> string \<Rightarrow> (u64, 'pe store_error) result" where
  "u64_i64 v field = (if unat v < 2 ^ 63 then Ok v else Err (Numeric field))"

definition usize_i64 :: "nat \<Rightarrow> string \<Rightarrow> (nat, 'pe store_error) result" where
  "usize_i64 v field = (if v < 2 ^ 63 then Ok v else Err (Numeric field))"

definition finality_i64 :: "finality \<Rightarrow> nat" where
  "finality_i64 f = (case f of Unattested \<Rightarrow> 0 | Attested \<Rightarrow> 1 | Finalized \<Rightarrow> 2)"

section \<open>Reads\<close>

definition canonical_block ::
  "recent_db \<Rightarrow> chain_id \<Rightarrow> block_number \<Rightarrow> ((block_ref \<times> finality) option, 'pe store_error) result" where
  "canonical_block db c n =
     and_then (u64_i64 c ''chain_id'') (\<lambda>_.
     and_then (u64_i64 n ''block_number'') (\<lambda>_.
     Ok (map_option (\<lambda>r. (\<lparr>number = n, hash = cn_hash r, parent_hash = cn_parent_hash r,
            timestamp = cn_timestamp r\<rparr>, cn_finality r)) (map_of (canonical_blocks db) (c, n)))))"

definition decode_recent_frame ::
  "(block_frame, 'pe, 'he) codec \<Rightarrow> bytes \<Rightarrow> (block_hash \<times> finality) option
    \<Rightarrow> (block_frame, 'pe store_error) result" where
  "decode_recent_frame cd encoded canonical =
     and_then (map_err StoreEncoding
       (durable_decode cd DurableBlockFrame BLOCK_FRAME_SCHEMA_VERSION encoded)) (\<lambda>f.
     case canonical of
       None \<Rightarrow> Ok f
     | Some (h, level) \<Rightarrow>
         (if h \<noteq> hash (fr_block f)
          then Err (StoreInvariant ''recent frame does not match its canonical block hash'')
          else Ok (f\<lparr>fr_finality := level\<rparr>)))"

definition recent_frame ::
  "(block_frame, 'pe, 'he) codec \<Rightarrow> recent_db \<Rightarrow> chain_id \<Rightarrow> block_number
    \<Rightarrow> (block_frame option, 'pe store_error) result" where
  "recent_frame cd db c n =
     and_then (u64_i64 c ''chain_id'') (\<lambda>_.
     and_then (u64_i64 n ''block_number'') (\<lambda>_.
     case map_of (canonical_blocks db) (c, n) of
       None \<Rightarrow> Ok None
     | Some r \<Rightarrow>
         (case map_of (recent_blocks db) (c, n, cn_hash r) of
            None \<Rightarrow> Ok None
          | Some encoded \<Rightarrow>
              and_then (decode_recent_frame cd encoded (Some (cn_hash r, cn_finality r)))
                (\<lambda>f. Ok (Some f)))))"

definition same_recent_material :: "block_frame \<Rightarrow> block_frame \<Rightarrow> bool" where
  "same_recent_material a b =
     (fr_chain_id a = fr_chain_id b \<and> fr_block a = fr_block b \<and> fr_header a = fr_header b
      \<and> fr_transactions a = fr_transactions b \<and> fr_receipts a = fr_receipts b
      \<and> fr_logs a = fr_logs b \<and> fr_withdrawals a = fr_withdrawals b
      \<and> fr_blob_sidecars a = fr_blob_sidecars b \<and> fr_traces a = fr_traces b
      \<and> fr_state_diffs a = fr_state_diffs b)"

section \<open>Transaction locators\<close>

definition delete_recent_transaction_locators ::
  "recent_db \<Rightarrow> chain_id \<Rightarrow> block_ref \<Rightarrow> (recent_db, 'pe store_error) result" where
  "delete_recent_transaction_locators db c b =
     and_then (u64_i64 c ''chain_id'') (\<lambda>_.
     and_then (u64_i64 (number b) ''block_number'') (\<lambda>_.
     Ok (db\<lparr>transaction_locators := filter (\<lambda>((ch, _), l).
           \<not> (ch = c \<and> lo_block_number l = number b \<and> lo_block_hash l = hash b))
         (transaction_locators db)\<rparr>)))"

fun insert_locators ::
  "chain_id \<Rightarrow> block_ref \<Rightarrow> nat \<Rightarrow> transaction_envelope list \<Rightarrow> recent_db \<Rightarrow> (recent_db, 'pe store_error) result"
  where
  "insert_locators c b pos [] db = Ok db"
| "insert_locators c b pos (t # ts) db =
     (if \<not> pos < 2 ^ 32 then Err (StoreInvariant ''transaction count exceeds u32'')
      else if tx_index t \<noteq> of_nat pos
      then Err (StoreInvariant ''transaction has another index than its position'')
      else insert_locators c b (Suc pos) ts
        (db\<lparr>transaction_locators := tput (c, tx_hash t)
             \<lparr>lo_block_number = number b, lo_block_hash = hash b,
              lo_transaction_index = of_nat pos\<rparr> (transaction_locators db)\<rparr>))"

definition upsert_recent_transaction_locators ::
  "recent_db \<Rightarrow> block_frame \<Rightarrow> (recent_db, 'pe store_error) result" where
  "upsert_recent_transaction_locators db f =
     (case fr_transactions f of
        Complete txs \<Rightarrow>
          and_then (delete_recent_transaction_locators db (fr_chain_id f) (fr_block f)) (\<lambda>db1.
          insert_locators (fr_chain_id f) (fr_block f) 0 txs db1)
      | _ \<Rightarrow> Ok db)"

section \<open>Retaining frames\<close>

text \<open>SQLite's \<^verbatim>\<open>SUM\<close> fails when the sum leaves the signed 64-bit range.\<close>

definition retained_bytes :: "recent_db \<Rightarrow> chain_id \<Rightarrow> nat" where
  "retained_bytes db c =
     (\<Sum>e\<leftarrow>filter (\<lambda>((ch, _), _). ch = c) (recent_blocks db). length (snd e))"

definition admit_recent_frame ::
  "recent_db \<Rightarrow> block_frame \<Rightarrow> nat \<Rightarrow> u64 \<Rightarrow> (unit, 'pe store_error) result" where
  "admit_recent_frame db f frame_len hard_bytes =
     (if map_of (recent_blocks db) (fr_chain_id f, number (fr_block f), hash (fr_block f)) \<noteq> None
      then Ok ()
      else
        (if \<not> retained_bytes db (fr_chain_id f) < 2 ^ 63 then Err (Sqlx ''integer overflow'')
         else
           (let projected = saturating_add (of_nat (retained_bytes db (fr_chain_id f)))
                  (dynamic_bytes frame_len)
            in if projected > hard_bytes then Err (RecentStorageLimit hard_bytes projected)
               else Ok ())))"

text \<open>The upsert of \<^verbatim>\<open>canonical_blocks\<close>: a seeded row takes parent and time from the frame.\<close>

definition merge_row :: "canonical_row \<Rightarrow> canonical_row \<Rightarrow> canonical_row" where
  "merge_row old new =
     old\<lparr>cn_finality := max (cn_finality old) (cn_finality new),
         cn_parent_hash := (if cn_parent_hash old = 0 then cn_parent_hash new else cn_parent_hash old),
         cn_timestamp := (if cn_parent_hash old = 0 then cn_timestamp new else cn_timestamp old)\<rparr>"

definition row_of :: "block_ref \<Rightarrow> finality \<Rightarrow> canonical_row" where
  "row_of b level = \<lparr>cn_hash = hash b, cn_parent_hash = parent_hash b,
     cn_timestamp = timestamp b, cn_finality = level\<rparr>"

definition upsert_canonical :: "chain_id \<times> block_number \<Rightarrow> canonical_row \<Rightarrow> recent_db \<Rightarrow> recent_db" where
  "upsert_canonical k new db =
     db\<lparr>canonical_blocks := tput k
          (case map_of (canonical_blocks db) k of None \<Rightarrow> new | Some old \<Rightarrow> merge_row old new)
          (canonical_blocks db)\<rparr>"

text \<open>
  Insert the encoded frame unless its row exists, and compare what is stored with it. The
  same steps serve a retained frame and a replacement frame of a reorganisation.
\<close>

definition insert_recent ::
  "(block_frame, 'pe, 'he) codec \<Rightarrow> string \<Rightarrow> block_frame \<Rightarrow> bytes \<Rightarrow> recent_db
    \<Rightarrow> (recent_db, 'pe store_error) result" where
  "insert_recent cd conflict f encoded db =
     (let k = (fr_chain_id f, number (fr_block f), hash (fr_block f))
      in and_then (usize_i64 (length encoded) ''recent frame bytes'') (\<lambda>_.
         case map_of (recent_blocks db) k of
           None \<Rightarrow> Ok (db\<lparr>recent_blocks := tput k encoded (recent_blocks db)\<rparr>)
         | Some stored \<Rightarrow>
             (if stored = encoded then Ok db
              else and_then (map_err StoreEncoding
                     (durable_decode cd DurableBlockFrame BLOCK_FRAME_SCHEMA_VERSION stored)) (\<lambda>held.
                   if same_recent_material held f then Ok db else Err (StoreInvariant conflict)))))"

text \<open>What follows the conflict check: admission, then the writes of the transaction.\<close>

definition write_recent_frame ::
  "(block_frame, 'pe, 'he) codec \<Rightarrow> recent_db \<Rightarrow> block_frame \<Rightarrow> bytes \<Rightarrow> u64
    \<Rightarrow> (recent_db, 'pe store_error) result" where
  "write_recent_frame cd db f encoded hard_bytes =
     and_then (if hard_bytes \<noteq> word_max then admit_recent_frame db f (length encoded) hard_bytes
               else Ok ()) (\<lambda>_.
     and_then (u64_i64 (timestamp (fr_block f)) ''block timestamp'') (\<lambda>_.
     and_then (insert_recent cd ''recent frame conflicts with retained material for the same block hash''
         f encoded
         (upsert_canonical (fr_chain_id f, number (fr_block f)) (row_of (fr_block f) (fr_finality f)) db))
       (\<lambda>db1. upsert_recent_transaction_locators db1 f)))"

definition store_recent_frame_within ::
  "(block_frame, 'pe, 'he) codec \<Rightarrow> recent_db \<Rightarrow> block_frame \<Rightarrow> u64 \<Rightarrow> (recent_db, 'pe store_error) result"
  where
  "store_recent_frame_within cd db f hard_bytes =
     and_then (map_err StoreInvariant (validate_shape f)) (\<lambda>_.
     and_then (map_err StoreEncoding
       (durable_encode cd DurableBlockFrame BLOCK_FRAME_SCHEMA_VERSION f)) (\<lambda>encoded.
     and_then (u64_i64 (fr_chain_id f) ''chain_id'') (\<lambda>c.
     and_then (u64_i64 (number (fr_block f)) ''block_number'') (\<lambda>n.
     and_then (case map_of (canonical_blocks db) (c, n) of
         Some r \<Rightarrow> (if cn_hash r \<noteq> hash (fr_block f)
           then Err (CanonicalConflict n (cn_hash r) (hash (fr_block f))) else Ok ())
       | None \<Rightarrow> Ok ()) (\<lambda>_.
     write_recent_frame cd db f encoded hard_bytes)))))"

definition store_recent_frame ::
  "(block_frame, 'pe, 'he) codec \<Rightarrow> recent_db \<Rightarrow> block_frame \<Rightarrow> (recent_db, 'pe store_error) result" where
  "store_recent_frame cd db f = store_recent_frame_within cd db f word_max"

text \<open>\<^verbatim>\<open>store_canonical_anchor\<close>: the upsert raises the level only, and a conflict rolls it back.\<close>

definition store_canonical_anchor ::
  "recent_db \<Rightarrow> chain_id \<Rightarrow> block_ref \<Rightarrow> finality \<Rightarrow> (recent_db, 'pe store_error) result" where
  "store_canonical_anchor db chain b level =
     and_then (u64_i64 chain ''chain_id'') (\<lambda>c.
     and_then (u64_i64 (number b) ''block_number'') (\<lambda>n.
     and_then (u64_i64 (timestamp b) ''block timestamp'') (\<lambda>_.
     let row = (case map_of (canonical_blocks db) (c, n) of
           None \<Rightarrow> row_of b level
         | Some old \<Rightarrow> old\<lparr>cn_finality := max (cn_finality old) level\<rparr>)
     in if cn_hash row \<noteq> hash b then Err (CanonicalConflict n (cn_hash row) (hash b))
        else Ok (db\<lparr>canonical_blocks := tput (c, n) row (canonical_blocks db)\<rparr>))))"

section \<open>Promotion\<close>

text \<open>An \<^verbatim>\<open>UPDATE\<close> that sets the level of the rows a predicate selects.\<close>

definition set_level ::
  "(chain_id \<times> block_number \<Rightarrow> canonical_row \<Rightarrow> bool) \<Rightarrow> finality \<Rightarrow> recent_db \<Rightarrow> recent_db" where
  "set_level P level db =
     db\<lparr>canonical_blocks :=
       map (\<lambda>(k, r). (k, if P k r then r\<lparr>cn_finality := level\<rparr> else r)) (canonical_blocks db)\<rparr>"

definition count_rows ::
  "(chain_id \<times> block_number \<Rightarrow> canonical_row \<Rightarrow> bool) \<Rightarrow> recent_db \<Rightarrow> nat" where
  "count_rows P db = length (filter (\<lambda>(k, r). P k r) (canonical_blocks db))"

definition mark_recent_attested ::
  "recent_db \<Rightarrow> chain_id \<Rightarrow> block_number \<Rightarrow> block_hash \<Rightarrow> (nat \<times> recent_db, 'pe store_error) result" where
  "mark_recent_attested db chain through expected_hash =
     and_then (u64_i64 chain ''chain_id'') (\<lambda>c.
     and_then (u64_i64 through ''block_number'') (\<lambda>n.
     case map_of (canonical_blocks db) (c, n) of
       None \<Rightarrow> Ok (0, db)
     | Some r \<Rightarrow>
         (if cn_hash r \<noteq> expected_hash
          then Err (CanonicalConflict through (cn_hash r) expected_hash)
          else let P = (\<lambda>(ch, m) r. ch = c \<and> m \<le> n \<and> cn_finality r = Unattested)
               in Ok (count_rows P db, set_level P Attested db))))"

text \<open>The rows of a chain between two heights, in order.\<close>

definition chain_rows ::
  "recent_db \<Rightarrow> chain_id \<Rightarrow> block_number \<Rightarrow> block_number \<Rightarrow> (block_number \<times> canonical_row) list" where
  "chain_rows db c lo hi =
     map (\<lambda>((_, n), r). (n, r))
       (filter (\<lambda>((ch, n), _). ch = c \<and> lo \<le> n \<and> n \<le> hi) (canonical_blocks db))"

text \<open>
  The walk down the parent hashes; \<open>expected\<close> is the height and hash of the next ancestor, and
  the value is \<^verbatim>\<open>lowest_proven\<close>.
\<close>

fun walk_parents ::
  "block_number \<Rightarrow> (block_number \<times> block_hash) option \<Rightarrow> block_number
    \<Rightarrow> (block_number \<times> canonical_row) list \<Rightarrow> (block_number, 'pe store_error) result" where
  "walk_parents through expected lowest_proven [] = Ok lowest_proven"
| "walk_parents through expected lowest_proven ((n, r) # rows) =
     (case expected of
        None \<Rightarrow> Ok lowest_proven
      | Some (height, ancestor) \<Rightarrow>
          (if height \<noteq> n then Ok lowest_proven
           else if cn_hash r \<noteq> ancestor
           then (if ancestor = 0 then Ok lowest_proven
                 else Err (UnlinkedFinalizedAncestry n through (cn_finality r = Finalized)))
           else walk_parents through
                  (map_option (\<lambda>below. (below, cn_parent_hash r)) (checked_sub height 1))
                  height rows))"

definition mark_recent_finalized ::
  "recent_db \<Rightarrow> chain_id \<Rightarrow> block_number \<Rightarrow> block_hash \<Rightarrow> (nat \<times> recent_db, 'pe store_error) result" where
  "mark_recent_finalized db chain through expected_hash =
     and_then (u64_i64 chain ''chain_id'') (\<lambda>c.
     and_then (u64_i64 through ''finalized block_number'') (\<lambda>n.
     if map_option cn_hash (map_of (canonical_blocks db) (c, n)) \<noteq> Some expected_hash
     then Err (StoreInvariant
       ''finalized block is absent or contradicts retained canonical material'')
     else
       and_then
         (case filter (\<lambda>(_, r). cn_finality r \<noteq> Finalized) (chain_rows db c 0 n) of
            [] \<Rightarrow> Ok n
          | (lowest, _) # _ \<Rightarrow>
              walk_parents n (Some (n, expected_hash)) n (rev (chain_rows db c lowest n)))
         (\<lambda>lowest_proven.
            let P = (\<lambda>(ch, m) r. ch = c \<and> lowest_proven \<le> m \<and> m \<le> n \<and> cn_finality r \<noteq> Finalized)
            in Ok (count_rows P db, set_level P Finalized db))))"

section \<open>Reorganisations\<close>

record recent_reorg_outcome =
  ro_reverted_frames :: nat
  ro_applied_frames :: nat
  ro_new_tip :: block_ref

fun tip_first :: "block_ref list \<Rightarrow> bool" where
  "tip_first (newer # older # rest) =
     (number newer = saturating_add (number older) 1 \<and> parent_hash newer = hash older
      \<and> tip_first (older # rest))"
| "tip_first _ = True"

fun encode_applied ::
  "(block_frame, 'pe, 'he) codec \<Rightarrow> chain_id \<Rightarrow> block_number \<Rightarrow> block_hash \<Rightarrow> block_frame list
    \<Rightarrow> (bytes list, 'pe store_error) result" where
  "encode_applied cd c expected_number expected_parent [] = Ok []"
| "encode_applied cd c expected_number expected_parent (f # fs) =
     and_then (map_err StoreInvariant (validate_shape f)) (\<lambda>_.
     if fr_chain_id f \<noteq> c \<or> number (fr_block f) \<noteq> expected_number
        \<or> parent_hash (fr_block f) \<noteq> expected_parent
     then Err (StoreInvariant ''replacement recent branch is not ancestor-first and contiguous'')
     else and_then (map_err StoreEncoding
            (durable_encode cd DurableBlockFrame BLOCK_FRAME_SCHEMA_VERSION f)) (\<lambda>encoded.
          and_then (encode_applied cd c (saturating_add expected_number 1) (hash (fr_block f)) fs)
            (\<lambda>rest. Ok (encoded # rest))))"

definition delete_canonical :: "chain_id \<Rightarrow> block_ref \<Rightarrow> recent_db \<Rightarrow> recent_db" where
  "delete_canonical c b db =
     db\<lparr>canonical_blocks := filter (\<lambda>((ch, n), r). \<not> (ch = c \<and> n = number b \<and> cn_hash r = hash b))
          (canonical_blocks db)\<rparr>"

fun revert_blocks ::
  "chain_id \<Rightarrow> block_ref list \<Rightarrow> recent_db \<Rightarrow> (recent_db, 'pe store_error) result" where
  "revert_blocks c [] db = Ok db"
| "revert_blocks c (b # bs) db =
     and_then (u64_i64 (number b) ''reverted block_number'') (\<lambda>n.
     case map_of (canonical_blocks db) (c, n) of
       None \<Rightarrow> Err (StoreInvariant ''reverted block is not retained canonical material'')
     | Some r \<Rightarrow>
         (if cn_hash r \<noteq> hash b \<or> cn_finality r = Finalized
          then Err (StoreInvariant ''reverted block conflicts with canonical or finalized material'')
          else and_then (delete_recent_transaction_locators db c b) (\<lambda>db1.
               revert_blocks c bs (delete_canonical c b db1))))"

text \<open>A replacement row is inserted, not merged: an occupied height is an SQL error.\<close>

fun apply_frames ::
  "(block_frame, 'pe, 'he) codec \<Rightarrow> chain_id \<Rightarrow> (block_frame \<times> bytes) list \<Rightarrow> recent_db
    \<Rightarrow> (recent_db, 'pe store_error) result" where
  "apply_frames cd c [] db = Ok db"
| "apply_frames cd c ((f, encoded) # rest) db =
     and_then (u64_i64 (number (fr_block f)) ''block_number'') (\<lambda>n.
     and_then (insert_recent cd ''replacement frame conflicts with retained material'' f encoded db)
       (\<lambda>db1.
     and_then (u64_i64 (timestamp (fr_block f)) ''block timestamp'') (\<lambda>_.
     if map_of (canonical_blocks db1) (c, n) \<noteq> None
     then Err (Sqlx ''UNIQUE constraint failed: canonical_blocks'')
     else and_then (upsert_recent_transaction_locators
            (db1\<lparr>canonical_blocks := tput (c, n) (row_of (fr_block f) (fr_finality f))
                  (canonical_blocks db1)\<rparr>) f) (\<lambda>db2.
          apply_frames cd c rest db2))))"

definition reorg_recent_frames ::
  "(block_frame, 'pe, 'he) codec \<Rightarrow> recent_db \<Rightarrow> chain_id \<Rightarrow> block_ref list \<Rightarrow> block_frame list
    \<Rightarrow> (recent_reorg_outcome \<times> recent_db, 'pe store_error) result" where
  "reorg_recent_frames cd db c reverted applied =
     (if reverted = [] then Err (StoreInvariant ''recent reorg must revert at least one block'')
      else
        (let lowest = last reverted
         in if number lowest = 0 then Err (StoreInvariant ''the genesis block cannot be reverted'')
            else if \<not> tip_first reverted
            then Err (StoreInvariant ''reverted recent branch is not tip-first and contiguous'')
            else
              (let ancestor = \<lparr>number = number lowest - 1, hash = parent_hash lowest,
                     parent_hash = 0, timestamp = 0\<rparr>
               in and_then (encode_applied cd c (number lowest) (hash ancestor) applied) (\<lambda>encoded.
                  and_then (u64_i64 c ''chain_id'') (\<lambda>_.
                  and_then (u64_i64 (number ancestor) ''ancestor block_number'') (\<lambda>n.
                  if map_option cn_hash (map_of (canonical_blocks db) (c, n)) \<noteq> Some (hash ancestor)
                  then Err (StoreInvariant ''recent reorg ancestor is not the retained canonical block'')
                  else and_then (revert_blocks c reverted db) (\<lambda>db1.
                       and_then (apply_frames cd c (zip applied encoded) db1) (\<lambda>db2.
                       Ok (\<lparr>ro_reverted_frames = length reverted,
                            ro_applied_frames = length applied,
                            ro_new_tip = (if applied = [] then ancestor else fr_block (last applied))\<rparr>,
                           db2)))))))))"

section \<open>Reverting what an anchor does not prove\<close>

definition ancestral :: "block_ref \<Rightarrow> block_hash list \<Rightarrow> u64 \<Rightarrow> block_ref \<Rightarrow> bool" where
  "ancestral anchor ancestry ancestry_start b =
     (number b \<le> number anchor \<and> number b \<ge> ancestry_start
      \<and> unat (number b - ancestry_start) < length ancestry
      \<and> ancestry ! unat (number b - ancestry_start) = hash b)"

definition unfinalized_blocks :: "recent_db \<Rightarrow> chain_id \<Rightarrow> (block_ref \<times> finality) list" where
  "unfinalized_blocks db c =
     map (\<lambda>((_, n), r). (\<lparr>number = n, hash = cn_hash r, parent_hash = cn_parent_hash r,
            timestamp = cn_timestamp r\<rparr>, cn_finality r))
       (filter (\<lambda>((ch, _), r). ch = c \<and> cn_finality r \<noteq> Finalized) (canonical_blocks db))"

definition retained_block :: "block_ref list \<Rightarrow> u64 \<Rightarrow> block_ref option" where
  "retained_block bs n = List.find (\<lambda>b. number b = n) bs"

text \<open>The two passes over the unfinalized blocks; the set is \<^verbatim>\<open>proven\<close>.\<close>

fun prove_ancestors ::
  "recent_db \<Rightarrow> chain_id \<Rightarrow> block_ref \<Rightarrow> bool \<Rightarrow> (block_ref \<Rightarrow> bool) \<Rightarrow> block_ref list \<Rightarrow> block_ref list
    \<Rightarrow> u64 set \<Rightarrow> (u64 set, 'pe store_error) result" where
  "prove_ancestors db c anchor anchor_matches is_ancestral unfinalized [] proven = Ok proven"
| "prove_ancestors db c anchor anchor_matches is_ancestral unfinalized (b # bs) proven =
     (let child_number = saturating_add (number b) 1
      in and_then
           (case retained_block unfinalized child_number of
              Some child \<Rightarrow> Ok (child_number \<in> proven \<and> parent_hash child = hash b)
            | None \<Rightarrow>
                and_then (canonical_block db c child_number) (\<lambda>row.
                Ok (case row of
                      None \<Rightarrow> False
                    | Some (child, level) \<Rightarrow>
                        (level = Finalized \<or> (anchor_matches \<and> number child = number anchor))
                        \<and> parent_hash child = hash b)))
           (\<lambda>links.
              prove_ancestors db c anchor anchor_matches is_ancestral unfinalized bs
                (if links \<or> (anchor_matches \<and> number b = number anchor) \<or> is_ancestral b
                 then insert (number b) proven else proven)))"

fun prove_descendants ::
  "recent_db \<Rightarrow> chain_id \<Rightarrow> block_ref \<Rightarrow> block_ref list \<Rightarrow> block_ref list \<Rightarrow> u64 set
    \<Rightarrow> (u64 set, 'pe store_error) result" where
  "prove_descendants db c anchor unfinalized [] proven = Ok proven"
| "prove_descendants db c anchor unfinalized (b # bs) proven =
     (let parent_number = saturating_sub (number b) 1
      in and_then
           (if parent_number = number anchor then Ok (Some (hash anchor))
            else case retained_block unfinalized parent_number of
              Some parent \<Rightarrow> Ok (if parent_number \<in> proven then Some (hash parent) else None)
            | None \<Rightarrow>
                and_then (canonical_block db c parent_number) (\<lambda>row.
                Ok (case row of
                      Some (parent, level) \<Rightarrow> (if level = Finalized then Some (hash parent) else None)
                    | None \<Rightarrow> None)))
           (\<lambda>parent.
              prove_descendants db c anchor unfinalized bs
                (if parent = Some (parent_hash b) then insert (number b) proven else proven)))"

fun delete_reverted ::
  "chain_id \<Rightarrow> block_ref list \<Rightarrow> recent_db \<Rightarrow> (recent_db, 'pe store_error) result" where
  "delete_reverted c [] db = Ok db"
| "delete_reverted c (b # bs) db =
     and_then (delete_recent_transaction_locators db c b) (\<lambda>db1.
     delete_reverted c bs (delete_canonical c b db1))"

text \<open>Both passes, and the transaction that reverts and finalizes.\<close>

definition proven_blocks ::
  "recent_db \<Rightarrow> chain_id \<Rightarrow> block_ref \<Rightarrow> bool \<Rightarrow> (block_ref \<Rightarrow> bool) \<Rightarrow> block_ref list
    \<Rightarrow> (u64 set, 'pe store_error) result" where
  "proven_blocks db c anchor anchor_matches is_ancestral unfinalized =
     and_then (prove_ancestors db c anchor anchor_matches is_ancestral unfinalized
         (rev unfinalized) {}) (\<lambda>proven.
     if anchor_matches
     then prove_descendants db c anchor unfinalized
            (filter (\<lambda>b. number b > number anchor) unfinalized) proven
     else Ok proven)"

definition revert_and_finalize ::
  "chain_id \<Rightarrow> block_ref list \<Rightarrow> block_number option \<Rightarrow> recent_db
    \<Rightarrow> (block_ref list \<times> recent_db, 'pe store_error) result" where
  "revert_and_finalize c reverted finalize_through db =
     (if reverted = [] \<and> finalize_through = None then Ok (reverted, db)
      else and_then (delete_reverted c reverted db) (\<lambda>db1.
        case finalize_through of
          None \<Rightarrow> Ok (reverted, db1)
        | Some through \<Rightarrow>
            and_then (u64_i64 through ''proven block_number'') (\<lambda>_.
            Ok (reverted, set_level (\<lambda>(ch, m) r. ch = c \<and> m \<le> through
              \<and> cn_finality r \<noteq> Finalized) Finalized db1))))"

definition revert_unproven_recent_blocks ::
  "recent_db \<Rightarrow> chain_id \<Rightarrow> block_ref \<Rightarrow> block_hash list \<Rightarrow> (block_ref list \<times> recent_db, 'pe store_error) result"
  where
  "revert_unproven_recent_blocks db c anchor ancestry =
     (if ancestry \<noteq> [] \<and> last ancestry \<noteq> hash anchor
      then Err (StoreInvariant ''retained ancestry does not end at anchor block'')
      else case checked_sub (saturating_add (number anchor) 1) (dynamic_bytes (length ancestry)) of
        None \<Rightarrow> Err (StoreInvariant ''retained ancestry is longer than the chain'')
      | Some ancestry_start \<Rightarrow>
          and_then (u64_i64 c ''chain_id'') (\<lambda>_.
          let rows = unfinalized_blocks db c;
              unfinalized = map fst rows;
              unattested = map (number \<circ> fst) (filter (\<lambda>(_, level). level = Unattested) rows);
              is_ancestral = ancestral anchor ancestry ancestry_start
          in if unfinalized = [] then Ok ([], db)
             else
               and_then (canonical_block db c (number anchor)) (\<lambda>anchor_row.
               let anchor_matches = (case anchor_row of None \<Rightarrow> False
                     | Some (row, _) \<Rightarrow> hash row = hash anchor)
               in and_then (proven_blocks db c anchor anchor_matches is_ancestral unfinalized) (\<lambda>proven.
                  revert_and_finalize c
                    (filter (\<lambda>b. number b \<notin> proven
                       \<or> (number b \<in> set unattested \<and> number b > number anchor)) (rev unfinalized))
                    (map_option number (List.find is_ancestral (rev unfinalized))) db))))"

section \<open>Pruning\<close>

record recent_prune_outcome =
  po_deleted_frames :: u64
  po_deleted_bytes :: u64
  po_retained_frames :: u64
  po_retained_bytes :: u64
  po_hard_limit_exceeded :: bool

text \<open>The loop over the frames; the state is the database, the retained and the deleted sizes.\<close>

fun prune_loop ::
  "chain_id \<Rightarrow> u64 \<Rightarrow> block_number \<Rightarrow> u64 \<Rightarrow> ((chain_id \<times> block_number \<times> block_hash) \<times> bytes) list
    \<Rightarrow> recent_db \<times> u64 \<times> u64 \<times> u64 \<Rightarrow> (recent_db \<times> u64 \<times> u64 \<times> u64, 'pe store_error) result" where
  "prune_loop c retain_from finalized_through soft_bytes [] acc = Ok acc"
| "prune_loop c retain_from finalized_through soft_bytes (((ch, n, h), encoded) # rows)
     (db, retained, deleted_frames, deleted_bytes) =
     (if retained \<le> soft_bytes then Ok (db, retained, deleted_frames, deleted_bytes)
      else if n \<ge> retain_from \<or> n > finalized_through
      then prune_loop c retain_from finalized_through soft_bytes rows
             (db, retained, deleted_frames, deleted_bytes)
      else
        and_then (delete_recent_transaction_locators db c
            \<lparr>number = n, hash = h, parent_hash = 0, timestamp = 0\<rparr>) (\<lambda>db1.
        prune_loop c retain_from finalized_through soft_bytes rows
          (db1\<lparr>recent_blocks := tdel (c, n, h) (recent_blocks db1)\<rparr>,
           saturating_sub retained (dynamic_bytes (length encoded)),
           saturating_add deleted_frames 1,
           saturating_add deleted_bytes (dynamic_bytes (length encoded)))))"

definition prune_recent_frames ::
  "recent_db \<Rightarrow> chain_id \<Rightarrow> block_number \<Rightarrow> u64 \<Rightarrow> u64 \<Rightarrow> u64
    \<Rightarrow> (recent_prune_outcome \<times> recent_db, 'pe store_error) result" where
  "prune_recent_frames db c finalized_through minimum_recent_blocks soft_bytes hard_bytes =
     (if minimum_recent_blocks = 0 \<or> soft_bytes = 0 \<or> hard_bytes < soft_bytes
      then Err (StoreInvalidConfig
        ''recent pruning requires a non-zero window/soft limit and hard >= soft'')
      else and_then (u64_i64 c ''chain_id'') (\<lambda>_.
        let rows = filter (\<lambda>((ch, _), _). ch = c) (recent_blocks db);
            latest = (if rows = [] then 0 else fst (snd (fst (last rows))));
            retain_from = saturating_sub latest (saturating_sub minimum_recent_blocks 1);
            retained0 = foldl (\<lambda>total e. saturating_add total (dynamic_bytes (length (snd e)))) 0 rows
        in and_then (prune_loop c retain_from finalized_through soft_bytes rows (db, retained0, 0, 0))
             (\<lambda>(db', retained, deleted_frames, deleted_bytes).
               Ok (\<lparr>po_deleted_frames = deleted_frames, po_deleted_bytes = deleted_bytes,
                    po_retained_frames = saturating_sub (dynamic_bytes (length rows)) deleted_frames,
                    po_retained_bytes = retained,
                    po_hard_limit_exceeded = (retained > hard_bytes)\<rparr>, db'))))"

end
