(* ===== verification/Canonical_Laws.thy ===== *)
theory Canonical_Laws
  imports Canonical_Store
begin

text \<open>
  The laws of the canonical recent store: what each operation changes, that finalized blocks
  are permanent along every run of operations, that finality follows the parent hashes, that a
  reorganisation leaves a linked branch, that pruning keeps its safety window, and that a
  stored frame is read back.
\<close>

section \<open>The tables stay ordered, and what each step changes\<close>

text \<open>The canonical rows as a map, and the rows that are finalized with their hashes.\<close>

abbreviation canon :: "recent_db \<Rightarrow> (chain_id \<times> block_number) \<rightharpoonup> canonical_row" where
  "canon db \<equiv> map_of (canonical_blocks db)"

definition tables_ok :: "recent_db \<Rightarrow> bool" where
  "tables_ok db = (ordered (canonical_blocks db) \<and> ordered (recent_blocks db)
     \<and> ordered (transaction_locators db))"

definition final_hash :: "recent_db \<Rightarrow> (chain_id \<times> block_number) \<rightharpoonup> block_hash" where
  "final_hash db k = (case canon db k of None \<Rightarrow> None
     | Some r \<Rightarrow> if cn_finality r = Finalized then Some (cn_hash r) else None)"

lemma u64_i64_Ok [simp]: "u64_i64 v field = Ok w \<longleftrightarrow> unat v < 2 ^ 63 \<and> w = v"
  by (auto simp: u64_i64_def)

lemma usize_i64_Ok [simp]: "usize_i64 v field = Ok w \<longleftrightarrow> v < 2 ^ 63 \<and> w = v"
  by (auto simp: usize_i64_def)

lemma delete_locators_effect:
  "delete_recent_transaction_locators db c b = Ok db' \<Longrightarrow>
    canonical_blocks db' = canonical_blocks db \<and> recent_blocks db' = recent_blocks db
    \<and> (tables_ok db \<longrightarrow> tables_ok db')"
  by (auto simp: delete_recent_transaction_locators_def tables_ok_def)

lemma insert_locators_effect:
  "insert_locators c b p ts db = Ok db' \<Longrightarrow>
    canonical_blocks db' = canonical_blocks db \<and> recent_blocks db' = recent_blocks db
    \<and> (tables_ok db \<longrightarrow> tables_ok db')"
  by (induction c b p ts db rule: insert_locators.induct)
    (auto simp: tables_ok_def split: if_splits)

lemma upsert_locators_effect:
  "upsert_recent_transaction_locators db f = Ok db' \<Longrightarrow>
    canonical_blocks db' = canonical_blocks db \<and> recent_blocks db' = recent_blocks db
    \<and> (tables_ok db \<longrightarrow> tables_ok db')"
  by (auto simp: upsert_recent_transaction_locators_def split: material.splits
    dest!: delete_locators_effect insert_locators_effect)

text \<open>The frame in its row after the insert holds the same material.\<close>

lemma insert_recent_effect:
  assumes "insert_recent cd msg f encoded db = Ok db'"
  shows "canonical_blocks db' = canonical_blocks db"
    and "tables_ok db \<Longrightarrow> tables_ok db'"
  using assms by (auto simp: insert_recent_def tables_ok_def Let_def split: option.splits if_splits)

lemma insert_recent_row:
  assumes "insert_recent cd msg f encoded db = Ok db'" "tables_ok db"
  shows "\<exists>stored. map_of (recent_blocks db') (fr_chain_id f, number (fr_block f), hash (fr_block f))
      = Some stored
    \<and> (stored = encoded \<or> (\<exists>held. durable_decode cd DurableBlockFrame BLOCK_FRAME_SCHEMA_VERSION stored
          = Ok held \<and> same_recent_material held f))"
  using assms by (auto simp: insert_recent_def tables_ok_def Let_def split: option.splits if_splits)

lemma canon_set_level:
  "canon (set_level P level db) k =
    map_option (\<lambda>r. if P k r then r\<lparr>cn_finality := level\<rparr> else r) (canon db k)"
  by (simp add: set_level_def map_of_map_snd)

lemma tables_ok_set_level [simp]: "tables_ok (set_level P level db) = tables_ok db"
  by (simp add: set_level_def tables_ok_def)

lemma tables_ok_upsert_canonical [simp]: "tables_ok db \<Longrightarrow> tables_ok (upsert_canonical k r db)"
  by (simp add: upsert_canonical_def tables_ok_def)

lemma canon_upsert_canonical:
  "tables_ok db \<Longrightarrow> canon (upsert_canonical k r db) =
    (canon db)(k \<mapsto> (case canon db k of None \<Rightarrow> r | Some old \<Rightarrow> merge_row old r))"
  by (simp add: upsert_canonical_def tables_ok_def)

lemma tables_ok_delete_canonical [simp]: "tables_ok db \<Longrightarrow> tables_ok (delete_canonical c b db)"
  by (simp add: delete_canonical_def tables_ok_def)

lemma canon_delete_canonical:
  "tables_ok db \<Longrightarrow> canon (delete_canonical c b db) k =
    (if k = (c, number b) \<and> map_option cn_hash (canon db k) = Some (hash b) then None
     else canon db k)"
  by (cases k) (auto simp: delete_canonical_def tables_ok_def map_of_filter_ordered split: option.splits)

lemmas locator_effects = delete_locators_effect insert_locators_effect upsert_locators_effect

text \<open>Storing a frame merges one canonical row.\<close>

lemma write_recent_frame_effect:
  fixes cd :: "(block_frame, 'pe, 'he) codec"
  assumes w: "write_recent_frame cd db f encoded hard = Ok db'" and ok: "tables_ok db"
  shows "tables_ok db'"
    and "canon db' = canon (upsert_canonical (fr_chain_id f, number (fr_block f))
           (row_of (fr_block f) (fr_finality f)) db)"
    and "\<exists>stored. map_of (recent_blocks db') (fr_chain_id f, number (fr_block f), hash (fr_block f))
           = Some stored
         \<and> (stored = encoded \<or> (\<exists>held. durable_decode cd DurableBlockFrame BLOCK_FRAME_SCHEMA_VERSION
               stored = Ok held \<and> same_recent_material held f))"
proof -
  let ?up = "upsert_canonical (fr_chain_id f, number (fr_block f)) (row_of (fr_block f) (fr_finality f)) db"
  obtain msg db1 where ins: "insert_recent cd msg f encoded ?up = Ok db1"
    and loc: "upsert_recent_transaction_locators db1 f = (Ok db' :: (recent_db, 'pe store_error) result)"
    using w by (auto simp: write_recent_frame_def)
  note e = insert_recent_effect [OF ins] upsert_locators_effect [OF loc]
  show "tables_ok db'" using e ok by simp
  show "canon db' = canon ?up" using e by simp
  show "\<exists>stored. map_of (recent_blocks db') (fr_chain_id f, number (fr_block f), hash (fr_block f))
           = Some stored
         \<and> (stored = encoded \<or> (\<exists>held. durable_decode cd DurableBlockFrame BLOCK_FRAME_SCHEMA_VERSION
               stored = Ok held \<and> same_recent_material held f))"
    using insert_recent_row [OF ins] e ok by simp
qed

lemma store_recent_frame_within_Ok:
  assumes "store_recent_frame_within cd db f hard = Ok db'"
  obtains encoded where
    "durable_encode cd DurableBlockFrame BLOCK_FRAME_SCHEMA_VERSION f = Ok encoded"
    "write_recent_frame cd db f encoded hard = Ok db'"
    "unat (fr_chain_id f) < 2 ^ 63" "unat (number (fr_block f)) < 2 ^ 63"
    "\<And>r. canon db (fr_chain_id f, number (fr_block f)) = Some r \<Longrightarrow> cn_hash r = hash (fr_block f)"
  using assms by (auto simp: store_recent_frame_within_def split: option.splits if_splits)

lemma revert_blocks_effect:
  "revert_blocks c bs db = (Ok db' :: (recent_db, 'pe store_error) result) \<Longrightarrow> tables_ok db \<Longrightarrow>
    tables_ok db' \<and> recent_blocks db' = recent_blocks db
    \<and> (\<forall>b \<in> set bs. \<exists>r. canon db (c, number b) = Some r \<and> cn_hash r = hash b
          \<and> cn_finality r \<noteq> Finalized)
    \<and> (\<forall>k. canon db' k = (if k \<in> (\<lambda>b. (c, number b)) ` set bs then None else canon db k))"
proof (induction c bs db rule: revert_blocks.induct)
  case (1 c db)
  then show ?case by simp
next
  case (2 c b bs db)
  from "2.prems"(1) obtain r db1 where n: "unat (number b) < 2 ^ 63"
    and r: "canon db (c, number b) = Some r" "cn_hash r = hash b" "cn_finality r \<noteq> Finalized"
    and del: "delete_recent_transaction_locators db c b = (Ok db1 :: (recent_db, 'pe store_error) result)"
    and rest: "revert_blocks c bs (delete_canonical c b db1) = (Ok db' :: (recent_db, 'pe store_error) result)"
    by (auto split: option.splits if_splits)
  note e = delete_locators_effect [OF del]
  have ok: "tables_ok (delete_canonical c b db1)" using e "2.prems"(2) by simp
  have canon: "canon (delete_canonical c b db1) k = (if k = (c, number b) then None else canon db k)" for k
    using e "2.prems"(2) r by (auto simp: canon_delete_canonical)
  have rec: "recent_blocks (delete_canonical c b db1) = recent_blocks db"
    using e by (simp add: delete_canonical_def)
  from "2.IH" [OF r(1) _ rest ok] r(2,3) canon rec r(1)
  show ?case by (auto split: if_splits)
qed

lemma apply_frames_effect:
  fixes cd :: "(block_frame, 'pe, 'he) codec"
  shows "apply_frames cd c fes db = Ok db' \<Longrightarrow> tables_ok db \<Longrightarrow>
    tables_ok db' \<and> distinct (map (\<lambda>e. number (fr_block (fst e))) fes)
    \<and> (\<forall>(f, _) \<in> set fes. unat (number (fr_block f)) < 2 ^ 63
          \<and> canon db (c, number (fr_block f)) = None)
    \<and> canon db' = canon db ++ map_of (map (\<lambda>(f, _).
          ((c, number (fr_block f)), row_of (fr_block f) (fr_finality f))) fes)"
proof (induction cd c fes db rule: apply_frames.induct)
  case (1 cd c db)
  then show ?case by simp
next
  case (2 cd c f encoded rest db)
  let ?n = "number (fr_block f)" and ?r = "row_of (fr_block f) (fr_finality f)"
  from "2.prems"(1) obtain db1 db2 where n: "unat ?n < 2 ^ 63"
    and t: "unat (timestamp (fr_block f)) < 2 ^ 63"
    and ins: "insert_recent cd ''replacement frame conflicts with retained material'' f encoded db = Ok db1"
    and free: "canon db1 (c, ?n) = None"
    and loc: "upsert_recent_transaction_locators
        (db1\<lparr>canonical_blocks := tput (c, ?n) ?r (canonical_blocks db1)\<rparr>) f
        = (Ok db2 :: (recent_db, 'pe store_error) result)"
    and rest: "apply_frames cd c rest db2 = Ok db'"
    by (auto split: if_splits)
  have ok1: "tables_ok db1" using insert_recent_effect [OF ins] "2.prems"(2) by simp
  then have ok2: "tables_ok db2"
    using upsert_locators_effect [OF loc] by (simp add: tables_ok_def)
  have c2: "canon db2 = (canon db)((c, ?n) \<mapsto> ?r)"
    using upsert_locators_effect [OF loc] insert_recent_effect(1) [OF ins] ok1
    by (simp add: tables_ok_def)
  have free0: "canon db (c, ?n) = None" using free insert_recent_effect(1) [OF ins] by simp
  have ih: "tables_ok db' \<and> distinct (map (\<lambda>e. number (fr_block (fst e))) rest)
    \<and> (\<forall>(f, _) \<in> set rest. unat (number (fr_block f)) < 2 ^ 63
          \<and> canon db2 (c, number (fr_block f)) = None)
    \<and> canon db' = canon db2 ++ map_of (map (\<lambda>(f, _).
          ((c, number (fr_block f)), row_of (fr_block f) (fr_finality f))) rest)"
    by (rule "2.IH" [OF _ rest ok2]) (use free in simp)
  have fresh: "number (fr_block g) \<noteq> ?n" if "(g, e) \<in> set rest" for g e
    using ih that c2 by (auto split: if_splits)
  have none: "map_of (map (\<lambda>(f, _). ((c, number (fr_block f)), row_of (fr_block f) (fr_finality f))) rest)
      (c, ?n) = None"
    using fresh by (fastforce simp: map_of_eq_None_iff)
  have "canon db' = canon db ++ map_of (map (\<lambda>(f, _).
          ((c, number (fr_block f)), row_of (fr_block f) (fr_finality f))) ((f, encoded) # rest))"
    using ih c2 none by (auto simp: fun_eq_iff map_add_def split: option.splits)
  moreover have "unat (number (fr_block g)) < 2 ^ 63 \<and> canon db (c, number (fr_block g)) = None"
    if "(g, e) \<in> set ((f, encoded) # rest)" for g e
    using that ih c2 n free0 fresh by (auto split: if_splits)
  moreover have "distinct (map (\<lambda>e. number (fr_block (fst e))) ((f, encoded) # rest))"
    using ih fresh by fastforce
  ultimately show ?case using ih by blast
qed

section \<open>Finalized blocks are permanent\<close>

definition finals_kept :: "recent_db \<Rightarrow> recent_db \<Rightarrow> bool" where
  "finals_kept db db' = (tables_ok db' \<and> final_hash db \<subseteq>\<^sub>m final_hash db')"

text \<open>One criterion covers every operation: rows go only when unfinalized, and a finalized
  row keeps its hash and its level.\<close>

lemma finals_keptI:
  assumes "tables_ok db'"
    and "\<And>k r. canon db k = Some r \<Longrightarrow> cn_finality r = Finalized \<Longrightarrow>
      \<exists>r'. canon db' k = Some r' \<and> cn_hash r' = cn_hash r \<and> cn_finality r' = Finalized"
  shows "finals_kept db db'"
proof -
  have "final_hash db k = final_hash db' k" if "k \<in> dom (final_hash db)" for k
  proof -
    from that obtain r where "canon db k = Some r" "cn_finality r = Finalized"
      by (auto simp: final_hash_def split: option.splits if_splits)
    with assms(2) [of k r] show ?thesis by (auto simp: final_hash_def)
  qed
  with assms(1) show ?thesis by (simp add: finals_kept_def map_le_def)
qed

lemma merge_row_hash [simp]: "cn_hash (merge_row old new) = cn_hash old"
  by (simp add: merge_row_def)

lemma merge_row_finality [simp]:
  "cn_finality (merge_row old new) = max (cn_finality old) (cn_finality new)"
  by (simp add: merge_row_def)

lemma store_recent_frame_within_keeps:
  assumes "store_recent_frame_within cd db f hard = Ok db'" "tables_ok db"
  shows "finals_kept db db'"
proof -
  from assms(1) obtain encoded where w: "write_recent_frame cd db f encoded hard = Ok db'"
    by (rule store_recent_frame_within_Ok)
  show ?thesis
    by (rule finals_keptI) (use write_recent_frame_effect [OF w assms(2)] assms(2) in
      \<open>auto simp: canon_upsert_canonical\<close>)
qed

lemma store_canonical_anchor_effect:
  assumes "store_canonical_anchor db c b level = Ok db'" "tables_ok db"
  shows "tables_ok db'" "\<exists>row. canon db' = (canon db)((c, number b) \<mapsto> row) \<and> cn_hash row = hash b
    \<and> (case canon db (c, number b) of None \<Rightarrow> row = row_of b level
       | Some old \<Rightarrow> row = old\<lparr>cn_finality := max (cn_finality old) level\<rparr>)"
  using assms by (auto simp: store_canonical_anchor_def tables_ok_def Let_def
    split: option.splits if_splits)

lemma store_canonical_anchor_keeps:
  assumes "store_canonical_anchor db c b level = Ok db'" "tables_ok db"
  shows "finals_kept db db'"
  by (rule finals_keptI)
    (use store_canonical_anchor_effect [OF assms] in \<open>auto split: option.splits\<close>)

lemma mark_recent_attested_keeps:
  "mark_recent_attested db c through h = Ok (n, db') \<Longrightarrow> tables_ok db \<Longrightarrow> finals_kept db db'"
  by (rule finals_keptI) (auto simp: mark_recent_attested_def Let_def canon_set_level
    split: option.splits if_splits)

lemma mark_recent_finalized_keeps:
  "mark_recent_finalized db c through h = Ok (n, db') \<Longrightarrow> tables_ok db \<Longrightarrow> finals_kept db db'"
  by (rule finals_keptI) (auto simp: mark_recent_finalized_def Let_def canon_set_level
    split: if_splits)

text \<open>A reorganisation removes the reverted rows and inserts the applied ones.\<close>

lemma reorg_recent_frames_Ok:
  fixes cd :: "(block_frame, 'pe, 'he) codec"
  assumes "reorg_recent_frames cd db c reverted applied = Ok (out, db')"
  obtains encoded db1 where "reverted \<noteq> []" "number (last reverted) \<noteq> 0" "tip_first reverted"
    "encode_applied cd c (number (last reverted)) (parent_hash (last reverted)) applied = Ok encoded"
    "map_option cn_hash (canon db (c, number (last reverted) - 1)) = Some (parent_hash (last reverted))"
    "revert_blocks c reverted db = (Ok db1 :: (recent_db, 'pe store_error) result)"
    "apply_frames cd c (zip applied encoded) db1 = Ok db'"
    "ro_new_tip out = (if applied = [] then
        \<lparr>number = number (last reverted) - 1, hash = parent_hash (last reverted),
         parent_hash = 0, timestamp = 0\<rparr> else fr_block (last applied))"
    "ro_reverted_frames out = length reverted" "ro_applied_frames out = length applied"
  using assms by (auto simp: reorg_recent_frames_def Let_def if_Err_eq_Ok)

lemma encode_applied_length:
  "encode_applied cd c n h fs = Ok es \<Longrightarrow> length es = length fs"
  by (induction fs arbitrary: n h es) (auto simp: if_Err_eq_Ok)

lemma reorg_rows:
  fixes cd :: "(block_frame, 'pe, 'he) codec"
  assumes r: "reorg_recent_frames cd db c reverted applied = Ok (out, db')" and ok: "tables_ok db"
  shows "tables_ok db'"
    and "\<And>b. b \<in> set reverted \<Longrightarrow> \<exists>r. canon db (c, number b) = Some r \<and> cn_hash r = hash b
          \<and> cn_finality r \<noteq> Finalized"
    and "distinct (map (number \<circ> fr_block) applied)"
    and "canon db' = (canon db |` (- (\<lambda>b. (c, number b)) ` set reverted)) ++ map_of (map (\<lambda>f.
          ((c, number (fr_block f)), row_of (fr_block f) (fr_finality f))) applied)"
    and "\<And>f. f \<in> set applied \<Longrightarrow> unat (number (fr_block f)) < 2 ^ 63
          \<and> (canon db |` (- (\<lambda>b. (c, number b)) ` set reverted)) (c, number (fr_block f)) = None"
proof -
  from r obtain encoded db1 where
    enc: "encode_applied cd c (number (last reverted)) (parent_hash (last reverted)) applied = Ok encoded"
    and rev: "revert_blocks c reverted db = (Ok db1 :: (recent_db, 'pe store_error) result)"
    and app: "apply_frames cd c (zip applied encoded) db1 = Ok db'"
    by (rule reorg_recent_frames_Ok)
  have len: "length encoded = length applied" using enc by (rule encode_applied_length)
  have m: "map (\<lambda>e. g (fst e)) (zip applied encoded) = map g applied" for g :: "block_frame \<Rightarrow> 'z"
  proof -
    have "map (\<lambda>e. g (fst e)) (zip applied encoded) = map g (map fst (zip applied encoded))"
      by (simp add: comp_def)
    then show ?thesis using len by simp
  qed
  note R = revert_blocks_effect [OF rev ok]
  then have ok1: "tables_ok db1" by simp
  note A = apply_frames_effect [OF app ok1]
  have c1: "canon db1 = canon db |` (- (\<lambda>b. (c, number b)) ` set reverted)"
    using R by (auto simp: restrict_map_def fun_eq_iff)
  show "tables_ok db'" using A by simp
  show "\<exists>r. canon db (c, number b) = Some r \<and> cn_hash r = hash b \<and> cn_finality r \<noteq> Finalized"
    if "b \<in> set reverted" for b using R that by simp
  show "distinct (map (number \<circ> fr_block) applied)"
    using A m [of "number \<circ> fr_block"] by simp
  show "canon db' = (canon db |` (- (\<lambda>b. (c, number b)) ` set reverted)) ++ map_of (map (\<lambda>f.
      ((c, number (fr_block f)), row_of (fr_block f) (fr_finality f))) applied)"
    using A c1 m [of "\<lambda>f. ((c, number (fr_block f)), row_of (fr_block f) (fr_finality f))"]
    by (simp add: case_prod_unfold)
  show "unat (number (fr_block f)) < 2 ^ 63
      \<and> (canon db |` (- (\<lambda>b. (c, number b)) ` set reverted)) (c, number (fr_block f)) = None"
    if "f \<in> set applied" for f
  proof -
    from that len obtain e where "(f, e) \<in> set (zip applied encoded)"
      by (metis in_set_impl_in_set_zip1)
    with A c1 show ?thesis by auto
  qed
qed

lemma reorg_recent_frames_keeps:
  assumes r: "reorg_recent_frames cd db c reverted applied = Ok (out, db')" and ok: "tables_ok db"
  shows "finals_kept db db'"
proof (rule finals_keptI)
  fix k r assume k: "canon db k = Some r" "cn_finality r = Finalized"
  note R = reorg_rows [OF r ok]
  have kept: "(canon db |` (- (\<lambda>b. (c, number b)) ` set reverted)) k = Some r"
    using k R(2) by (fastforce simp: restrict_map_def)
  have "map_of (map (\<lambda>f. ((c, number (fr_block f)), row_of (fr_block f) (fr_finality f))) applied) k
      = None"
    using kept R(5) by (auto simp: map_of_eq_None_iff)
  then have "canon db' k = Some r" using R(4) kept by (simp add: map_add_None map_add_def)
  then show "\<exists>r'. canon db' k = Some r' \<and> cn_hash r' = cn_hash r \<and> cn_finality r' = Finalized"
    using k by simp
qed (rule reorg_rows(1) [OF r ok])

text \<open>The cleanup after a restart deletes unfinalized rows only.\<close>

lemma unfinalized_blocks_rows:
  assumes "tables_ok db" "b \<in> fst ` set (unfinalized_blocks db c)"
  shows "\<exists>r. canon db (c, number b) = Some r \<and> cn_hash r = hash b
    \<and> cn_parent_hash r = parent_hash b \<and> cn_finality r \<noteq> Finalized"
proof -
  from assms(2) obtain n r where m: "((c, n), r) \<in> set (canonical_blocks db)"
    and f: "cn_finality r \<noteq> Finalized"
    and b: "b = \<lparr>number = n, hash = cn_hash r, parent_hash = cn_parent_hash r, timestamp = cn_timestamp r\<rparr>"
    by (auto simp: unfinalized_blocks_def)
  have "canon db (c, n) = Some r"
    using m assms(1) by (simp add: tables_ok_def ordered_distinct)
  with b f show ?thesis by simp
qed

lemma delete_reverted_effect:
  "delete_reverted c bs db = (Ok db' :: (recent_db, 'pe store_error) result) \<Longrightarrow> tables_ok db \<Longrightarrow>
    tables_ok db' \<and> recent_blocks db' = recent_blocks db
    \<and> (\<forall>k. canon db' k = (if \<exists>b \<in> set bs. k = (c, number b) \<and> map_option cn_hash (canon db k) = Some (hash b)
        then None else canon db k))"
proof (induction c bs db rule: delete_reverted.induct)
  case (1 c db)
  then show ?case by simp
next
  case (2 c b bs db)
  from "2.prems"(1) obtain db1
    where del: "delete_recent_transaction_locators db c b = (Ok db1 :: (recent_db, 'pe store_error) result)"
    and rest: "delete_reverted c bs (delete_canonical c b db1) = (Ok db' :: (recent_db, 'pe store_error) result)"
    by auto
  note e = delete_locators_effect [OF del]
  have ok1: "tables_ok db1" using e "2.prems"(2) by simp
  have rec: "recent_blocks (delete_canonical c b db1) = recent_blocks db"
    using e by (simp add: delete_canonical_def)
  have canon: "canon (delete_canonical c b db1) k =
      (if k = (c, number b) \<and> map_option cn_hash (canon db k) = Some (hash b) then None else canon db k)" for k
    using canon_delete_canonical [OF ok1, of c b k] e by (simp only: split: if_splits)
  have ih: "tables_ok db' \<and> recent_blocks db' = recent_blocks (delete_canonical c b db1)
    \<and> (\<forall>k. canon db' k = (if \<exists>b' \<in> set bs. k = (c, number b')
          \<and> map_option cn_hash (canon (delete_canonical c b db1) k) = Some (hash b')
        then None else canon (delete_canonical c b db1) k))"
    by (rule "2.IH" [OF rest]) (use ok1 in simp)
  have "canon db' k = (if \<exists>b' \<in> set (b # bs). k = (c, number b')
        \<and> map_option cn_hash (canon db k) = Some (hash b') then None else canon db k)" for k
    using ih canon [of k] by (cases k; cases "canon db k") auto
  then show ?case using ih rec by simp
qed

lemma revert_and_finalize_effect:
  assumes "revert_and_finalize c bs through db = (Ok (reverted, db') :: (block_ref list \<times> recent_db, 'pe store_error) result)"
    and "tables_ok db"
  shows "reverted = bs" "tables_ok db'"
    and "canon db' k = (if \<exists>b \<in> set bs. k = (c, number b) \<and> map_option cn_hash (canon db k) = Some (hash b)
        then None
        else map_option (\<lambda>r. case through of None \<Rightarrow> r
          | Some t \<Rightarrow> if fst k = c \<and> snd k \<le> t then r\<lparr>cn_finality := Finalized\<rparr> else r) (canon db k))"
proof -
  have "(reverted = bs \<and> db' = db \<and> bs = [] \<and> through = None) \<or>
    (\<exists>db1. reverted = bs \<and> delete_reverted c bs db = (Ok db1 :: (recent_db, 'pe store_error) result)
      \<and> (case through of None \<Rightarrow> db' = db1
         | Some t \<Rightarrow> db' = set_level (\<lambda>(ch, m) r. ch = c \<and> m \<le> t \<and> cn_finality r \<noteq> Finalized)
             Finalized db1))"
    using assms(1) by (auto simp: revert_and_finalize_def split: if_splits option.splits)
  then consider "reverted = bs" "db' = db" "bs = []" "through = None"
    | db1 where "reverted = bs" "delete_reverted c bs db = (Ok db1 :: (recent_db, 'pe store_error) result)"
      "case through of None \<Rightarrow> db' = db1
         | Some t \<Rightarrow> db' = set_level (\<lambda>(ch, m) r. ch = c \<and> m \<le> t \<and> cn_finality r \<noteq> Finalized)
             Finalized db1"
    by blast
  then have "reverted = bs \<and> tables_ok db' \<and> canon db' k =
      (if \<exists>b \<in> set bs. k = (c, number b) \<and> map_option cn_hash (canon db k) = Some (hash b) then None
       else map_option (\<lambda>r. case through of None \<Rightarrow> r
          | Some t \<Rightarrow> if fst k = c \<and> snd k \<le> t then r\<lparr>cn_finality := Finalized\<rparr> else r) (canon db k))"
  proof cases
    case 1
    then show ?thesis using assms(2) by (cases "canon db k") simp_all
  next
    case (2 db1)
    note d = delete_reverted_effect [OF 2(2) assms(2)]
    show ?thesis
    proof (cases through)
      case None
      then show ?thesis using 2 d by (cases k; cases "canon db k") auto
    next
      case (Some t)
      then show ?thesis using 2 d by (cases k; cases "canon db k") (auto simp: canon_set_level)
    qed
  qed
  then show "reverted = bs" "tables_ok db'"
    "canon db' k = (if \<exists>b \<in> set bs. k = (c, number b) \<and> map_option cn_hash (canon db k) = Some (hash b)
        then None
        else map_option (\<lambda>r. case through of None \<Rightarrow> r
          | Some t \<Rightarrow> if fst k = c \<and> snd k \<le> t then r\<lparr>cn_finality := Finalized\<rparr> else r) (canon db k))"
    by blast+
qed

text \<open>What the cleanup reverts: blocks not proven, and unattested ones above the anchor.\<close>

lemma revert_unproven_Ok:
  assumes "revert_unproven_recent_blocks db c anchor ancestry
      = (Ok (reverted, db') :: (block_ref list \<times> recent_db, 'pe store_error) result)"
  obtains "unfinalized_blocks db c = []" "reverted = []" "db' = db"
  | start proven m where
      "checked_sub (saturating_add (number anchor) 1) (dynamic_bytes (length ancestry)) = Some start"
      "ancestry = [] \<or> last ancestry = hash anchor"
      "m \<longleftrightarrow> map_option cn_hash (canon db (c, number anchor)) = Some (hash anchor)"
      "proven_blocks db c anchor m (ancestral anchor ancestry start) (map fst (unfinalized_blocks db c))
        = (Ok proven :: (u64 set, 'pe store_error) result)"
      "revert_and_finalize c
        (filter (\<lambda>b. number b \<notin> proven \<or> (number b \<in> (number \<circ> fst) `
            set (filter (\<lambda>(_, level). level = Unattested) (unfinalized_blocks db c))
            \<and> number b > number anchor)) (rev (map fst (unfinalized_blocks db c))))
        (map_option number (List.find (ancestral anchor ancestry start)
          (rev (map fst (unfinalized_blocks db c))))) db
        = (Ok (reverted, db') :: (block_ref list \<times> recent_db, 'pe store_error) result)"
proof (cases "unfinalized_blocks db c = []")
  case True
  then show ?thesis using assms that(1)
    by (auto simp: revert_unproven_recent_blocks_def Let_def if_Err_eq_Ok split: option.splits)
next
  case False
  then have rows: "map fst (unfinalized_blocks db c) \<noteq> []" by simp
  obtain start where start:
    "checked_sub (saturating_add (number anchor) 1) (dynamic_bytes (length ancestry)) = Some start"
    using assms by (cases "checked_sub (saturating_add (number anchor) 1) (dynamic_bytes (length ancestry))")
      (simp_all add: revert_unproven_recent_blocks_def if_Err_eq_Ok)
  have last: "ancestry = [] \<or> last ancestry = hash anchor"
    using assms by (auto simp: revert_unproven_recent_blocks_def if_Err_eq_Ok)
  obtain arow where arow: "canonical_block db c (number anchor)
      = (Ok arow :: ((block_ref \<times> finality) option, 'pe store_error) result)"
    using assms rows start by (auto simp: revert_unproven_recent_blocks_def if_Err_eq_Ok Let_def)
  have m: "(case arow of None \<Rightarrow> False | Some (row, _) \<Rightarrow> hash row = hash anchor)
      \<longleftrightarrow> map_option cn_hash (canon db (c, number anchor)) = Some (hash anchor)"
    using arow by (auto simp: canonical_block_def split: option.splits)
  show ?thesis
    using assms rows start arow that(2) [OF start last refl]
    by (simp add: revert_unproven_recent_blocks_def if_Err_eq_Ok Let_def m) blast
qed

lemma revert_unproven_keeps:
  assumes "revert_unproven_recent_blocks db c anchor ancestry
      = (Ok (reverted, db') :: (block_ref list \<times> recent_db, 'pe store_error) result)"
    and ok: "tables_ok db"
  shows "finals_kept db db'"
  using assms(1)
proof (cases rule: revert_unproven_Ok)
  case 1
  with ok show ?thesis by (simp add: finals_kept_def)
next
  case (2 start proven m)
  note e = revert_and_finalize_effect [OF 2(5) ok]
  show ?thesis
  proof (rule finals_keptI)
    show "tables_ok db'" by (rule e(2))
    fix k r assume k: "canon db k = Some r" "cn_finality r = Finalized"
    have "k \<noteq> (c, number b)" if "b \<in> fst ` set (unfinalized_blocks db c)" for b
      using unfinalized_blocks_rows [OF ok that] k by auto
    then show "\<exists>r'. canon db' k = Some r' \<and> cn_hash r' = cn_hash r \<and> cn_finality r' = Finalized"
      using e(3) [of k] k by (auto split: option.splits)
  qed
qed

section \<open>Pruning\<close>

abbreviation prunable :: "block_number \<Rightarrow> block_number \<Rightarrow> chain_id \<times> block_number \<times> block_hash \<Rightarrow> bool" where
  "prunable retain_from finalized_through k \<equiv>
     fst (snd k) < retain_from \<and> fst (snd k) \<le> finalized_through"

abbreviation row_bytes :: "('k \<times> bytes) list \<Rightarrow> nat" where
  "row_bytes rows \<equiv> (\<Sum>e\<leftarrow>rows. length (snd e))"

lemma unat_sub_dynamic_bytes: "unat (saturating_sub w (dynamic_bytes n)) = unat w - n"
proof -
  have "unat w - min n (2 ^ 64 - 1) = unat w - n"
    using unat_less_power [of w] by (simp add: min_def)
  then show ?thesis by (simp add: unat_saturating_sub unat_dynamic_bytes cap64_def)
qed

lemma row_bytes_split:
  "row_bytes rows = row_bytes (filter P rows) + row_bytes (filter (\<lambda>e. \<not> P e) rows)"
  by (induction rows) auto

text \<open>
  The loop deletes a set \<open>D\<close> of prunable frames, and stops early only when the soft limit is
  reached.
\<close>

definition pruned_by ::
  "block_number \<Rightarrow> block_number \<Rightarrow> u64 \<Rightarrow> ((chain_id \<times> block_number \<times> block_hash) \<times> bytes) list
    \<Rightarrow> recent_db \<Rightarrow> u64 \<Rightarrow> recent_db \<Rightarrow> u64 \<Rightarrow> (chain_id \<times> block_number \<times> block_hash \<Rightarrow> bool) \<Rightarrow> bool" where
  "pruned_by rf ft soft rows db ret db' ret' D =
     ((\<forall>k. D k \<longrightarrow> k \<in> fst ` set rows \<and> prunable rf ft k)
      \<and> canonical_blocks db' = canonical_blocks db \<and> tables_ok db'
      \<and> recent_blocks db' = filter (\<lambda>e. \<not> D (fst e)) (recent_blocks db)
      \<and> unat ret' = unat ret - row_bytes (filter (\<lambda>e. D (fst e)) rows)
      \<and> (ret' \<le> soft \<or> (\<forall>k \<in> fst ` set rows. prunable rf ft k \<longrightarrow> D k)))"

lemma prune_loop_effect:
  fixes c :: chain_id
  assumes "prune_loop c rf ft soft rows (db, ret, df, dby)
      = (Ok (db', ret', df', dby') :: (recent_db \<times> u64 \<times> u64 \<times> u64, 'pe store_error) result)"
    and "distinct (map fst rows)" and "\<forall>e \<in> set rows. fst (fst e) = c" and "tables_ok db"
  shows "\<exists>D. pruned_by rf ft soft rows db ret db' ret' D"
  using assms
proof (induction rows arbitrary: db ret df dby)
  case Nil
  then show ?case by (intro exI [of _ "\<lambda>_. False"]) (simp add: pruned_by_def)
next
  case (Cons row rows)
  obtain n h encoded where row: "row = ((c, n, h), encoded)"
    using Cons.prems(3) by (cases row) auto
  consider "ret \<le> soft" | "\<not> ret \<le> soft" "n \<ge> rf \<or> n > ft" | "\<not> ret \<le> soft" "n < rf" "n \<le> ft"
    by (meson leI)
  then show ?case
  proof cases
    case 1
    then show ?thesis using Cons.prems row by (intro exI [of _ "\<lambda>_. False"]) (simp add: pruned_by_def)
  next
    case 2
    have row': "\<not> prunable rf ft (fst row)" using 2(2) by (auto simp: row)
    have rest: "prune_loop c rf ft soft rows (db, ret, df, dby)
        = (Ok (db', ret', df', dby') :: (recent_db \<times> u64 \<times> u64 \<times> u64, 'pe store_error) result)"
      using Cons.prems(1) 2 by (simp add: row)
    obtain D where D: "pruned_by rf ft soft rows db ret db' ret' D"
      using Cons.IH [OF rest _ _ Cons.prems(4)] Cons.prems(2,3) by auto
    then have "D (fst row) \<Longrightarrow> prunable rf ft (fst row)" unfolding pruned_by_def by blast
    with row' have "\<not> D (fst row)" by blast
    with D row' have "pruned_by rf ft soft (row # rows) db ret db' ret' D"
      by (simp add: pruned_by_def)
    then show ?thesis by blast
  next
    case 3
    let ?b = "\<lparr>number = n, hash = h, parent_hash = 0, timestamp = 0\<rparr>"
    have keep: "\<not> (n \<ge> rf \<or> n > ft)" using 3(2,3) by (simp add: not_le not_less)
    obtain db1 where del: "delete_recent_transaction_locators db c ?b
        = (Ok db1 :: (recent_db, 'pe store_error) result)"
      and rest: "prune_loop c rf ft soft rows (db1\<lparr>recent_blocks := tdel (c, n, h) (recent_blocks db1)\<rparr>,
          saturating_sub ret (dynamic_bytes (length encoded)), saturating_add df 1,
          saturating_add dby (dynamic_bytes (length encoded)))
        = (Ok (db', ret', df', dby') :: (recent_db \<times> u64 \<times> u64 \<times> u64, 'pe store_error) result)"
      using Cons.prems(1) 3(1) keep by (auto simp: row)
    note e = delete_locators_effect [OF del]
    have ok: "tables_ok (db1\<lparr>recent_blocks := tdel (c, n, h) (recent_blocks db1)\<rparr>)"
      using e Cons.prems(4) by (simp add: tables_ok_def)
    obtain D where D: "pruned_by rf ft soft rows
        (db1\<lparr>recent_blocks := tdel (c, n, h) (recent_blocks db1)\<rparr>)
        (saturating_sub ret (dynamic_bytes (length encoded))) db' ret' D"
      using Cons.IH [OF rest _ _ ok] Cons.prems(2,3) by auto
    have new: "(c, n, h) \<notin> fst ` set rows" using Cons.prems(2) by (simp add: row)
    have same: "filter (\<lambda>e. fst e = (c, n, h) \<or> D (fst e)) rows = filter (\<lambda>e. D (fst e)) rows"
      using new by (intro filter_cong) (auto simp: image_iff)
    have "pruned_by rf ft soft (row # rows) db ret db' ret' (\<lambda>k. k = (c, n, h) \<or> D k)"
      using D e 3(2,3) same
      by (simp add: pruned_by_def row tdel_def unat_sub_dynamic_bytes conj_commute) blast
    then show ?thesis by blast
  qed
qed

abbreviation retained_of :: "recent_db \<Rightarrow> chain_id \<Rightarrow> ((chain_id \<times> block_number \<times> block_hash) \<times> bytes) list" where
  "retained_of db c \<equiv> filter (\<lambda>((ch, _), _). ch = c) (recent_blocks db)"

definition retain_from :: "recent_db \<Rightarrow> chain_id \<Rightarrow> u64 \<Rightarrow> block_number" where
  "retain_from db c window =
     saturating_sub (if retained_of db c = [] then 0 else fst (snd (fst (last (retained_of db c)))))
       (saturating_sub window 1)"

lemma fold_row_bytes:
  "unat (foldl (\<lambda>total e. saturating_add total (dynamic_bytes (length (snd e)))) t rows)
    = cap64 (unat t + row_bytes rows)"
proof (induction rows arbitrary: t)
  case Nil
  then show ?case by (simp add: cap64_cap64)
next
  case (Cons e rows)
  then show ?case
    by (simp add: unat_sat64 unat_dynamic_bytes cap64_cap64 add.assoc)
qed

lemma prune_recent_frames_effect:
  assumes "prune_recent_frames db c ft window soft hard
      = (Ok (out, db') :: (recent_prune_outcome \<times> recent_db, 'pe store_error) result)"
    and ok: "tables_ok db"
  shows "\<exists>D ret. unat ret = cap64 (row_bytes (retained_of db c))
    \<and> pruned_by (retain_from db c window) ft soft (retained_of db c) db ret db' (po_retained_bytes out) D
    \<and> po_hard_limit_exceeded out = (po_retained_bytes out > hard)"
proof -
  let ?rows = "retained_of db c"
  let ?ret = "foldl (\<lambda>total e. saturating_add total (dynamic_bytes (length (snd e)))) 0 ?rows"
  obtain ret' df' dby' where
    loop: "prune_loop c (retain_from db c window) ft soft ?rows (db, ?ret, 0, 0)
      = (Ok (db', ret', df', dby') :: (recent_db \<times> u64 \<times> u64 \<times> u64, 'pe store_error) result)"
    and out: "po_retained_bytes out = ret'" "po_hard_limit_exceeded out = (ret' > hard)"
    using assms(1) by (auto simp: prune_recent_frames_def retain_from_def Let_def if_Err_eq_Ok)
  have "distinct (map fst ?rows)"
    using ok by (simp add: tables_ok_def ordered_distinct)
  then obtain D where "pruned_by (retain_from db c window) ft soft ?rows db ?ret db' ret' D"
    using prune_loop_effect [OF loop _ _ ok] by auto
  then show ?thesis using out fold_row_bytes [of 0 ?rows] by auto
qed

lemma prune_recent_frames_keeps:
  assumes "prune_recent_frames db c ft window soft hard
      = (Ok (out, db') :: (recent_prune_outcome \<times> recent_db, 'pe store_error) result)"
    and "tables_ok db"
  shows "finals_kept db db'"
  using prune_recent_frames_effect [OF assms]
  by (auto simp: pruned_by_def finals_kept_def final_hash_def [abs_def])

section \<open>The store as a state machine\<close>

text \<open>Every operation that writes the canonical rows or the retained frames is a step.\<close>

inductive canonical_step :: "(block_frame, 'pe, 'he) codec \<Rightarrow> recent_db \<Rightarrow> recent_db \<Rightarrow> bool"
  for cd :: "(block_frame, 'pe, 'he) codec" where
  step_store: "store_recent_frame_within cd db f hard = Ok db' \<Longrightarrow> canonical_step cd db db'"
| step_anchor: "store_canonical_anchor db c b level = (Ok db' :: (recent_db, 'pe store_error) result)
    \<Longrightarrow> canonical_step cd db db'"
| step_attest: "mark_recent_attested db c through h = (Ok (n, db') :: (nat \<times> recent_db, 'pe store_error) result)
    \<Longrightarrow> canonical_step cd db db'"
| step_finalize: "mark_recent_finalized db c through h = (Ok (n, db') :: (nat \<times> recent_db, 'pe store_error) result)
    \<Longrightarrow> canonical_step cd db db'"
| step_reorg: "reorg_recent_frames cd db c reverted applied = Ok (out, db') \<Longrightarrow> canonical_step cd db db'"
| step_revert: "revert_unproven_recent_blocks db c anchor ancestry
    = (Ok (bs, db') :: (block_ref list \<times> recent_db, 'pe store_error) result) \<Longrightarrow> canonical_step cd db db'"
| step_prune: "prune_recent_frames db c ft window soft hard
    = (Ok (out', db') :: (recent_prune_outcome \<times> recent_db, 'pe store_error) result) \<Longrightarrow> canonical_step cd db db'"

inductive_cases canonical_stepE: "canonical_step cd db db'"

lemma canonical_step_keeps: "canonical_step cd db db' \<Longrightarrow> tables_ok db \<Longrightarrow> finals_kept db db'"
  by (erule canonical_stepE)
    (blast intro: store_recent_frame_within_keeps store_canonical_anchor_keeps
      mark_recent_attested_keeps mark_recent_finalized_keeps reorg_recent_frames_keeps
      revert_unproven_keeps prune_recent_frames_keeps)+

text \<open>Along a run the tables stay ordered and every hash finalized at the start stays.\<close>

definition holds_finals :: "((chain_id \<times> block_number) \<rightharpoonup> block_hash) \<Rightarrow> recent_db \<Rightarrow> bool" where
  "holds_finals base db = (tables_ok db \<and> base \<subseteq>\<^sub>m final_hash db)"

interpretation canonical: kept_invariant "canonical_step cd" "holds_finals base" for cd base
  by unfold_locales (auto simp: holds_finals_def finals_kept_def dest!: canonical_step_keeps
    intro: map_le_trans)

section \<open>Finality follows the parent hashes\<close>

text \<open>
  The rows of chain \<open>c\<close> from height \<open>m\<close> up to \<open>tip\<close> are linked: each names the row below it as
  its parent.
\<close>

definition linked :: "recent_db \<Rightarrow> chain_id \<Rightarrow> block_number \<Rightarrow> block_number \<Rightarrow> bool" where
  "linked db c m tip = (\<forall>j. m < j \<and> j \<le> tip \<longrightarrow>
     (\<exists>r below. canon db (c, j) = Some r \<and> canon db (c, j - 1) = Some below
        \<and> cn_parent_hash r = cn_hash below))"

lemma linked_refl [simp]: "linked db c m m"
  by (auto simp: linked_def dest: leD)

lemma word_minus_1: "j \<noteq> 0 \<Longrightarrow> unat (j - 1 :: u64) = unat j - 1"
  by (rule unat_minus_one)

lemma word_below: "(m :: u64) < h \<longleftrightarrow> h \<noteq> 0 \<and> m \<le> h - 1"
proof (cases "h = 0")
  case True
  then show ?thesis by simp
next
  case False
  then have "unat h \<noteq> 0" by (simp add: word_eq_nat)
  with False show ?thesis by (auto simp: word_nat word_minus_1)
qed

lemma linked_step:
  assumes "h \<noteq> 0" "m \<le> h - 1"
  shows "linked db c m h \<longleftrightarrow> linked db c m (h - 1) \<and>
    (\<exists>r below. canon db (c, h) = Some r \<and> canon db (c, h - 1) = Some below
       \<and> cn_parent_hash r = cn_hash below)"
proof -
  have "m < h" using assms by (simp add: word_below)
  have "(m < j \<and> j \<le> h) \<longleftrightarrow> (m < j \<and> j \<le> h - 1) \<or> j = h" for j
    using \<open>m < h\<close> assms(1) word_below [of j h] by (auto simp: order.order_iff_strict [of j h])
  then show ?thesis unfolding linked_def by blast
qed

lemma checked_sub_1: "checked_sub h 1 = (if h = 0 then None else Some (h - 1 :: u64))"
proof -
  have "(1 :: u64) \<le> h \<longleftrightarrow> h \<noteq> 0"
    by (simp add: word_le_nat_alt word_eq_nat [of h 0] Suc_le_eq)
  then show ?thesis by (simp add: checked_sub_def)
qed

lemma walk_parents_None [simp]: "walk_parents through None lp rows = Ok lp"
  by (cases rows) auto

lemma walk_parents_linked:
  assumes "walk_parents through (Some (h, a)) lp rows
      = (Ok lp' :: (block_number, 'pe store_error) result)"
    and "\<forall>(n, r) \<in> set rows. canon db (c, n) = Some r"
  shows "lp' = lp \<or> (lp' \<le> h \<and> map_option cn_hash (canon db (c, h)) = Some a \<and> linked db c lp' h)"
  using assms
proof (induction rows arbitrary: h a lp)
  case Nil
  then show ?case by simp
next
  case (Cons row rows)
  obtain n r where row: "row = (n, r)" by (cases row)
  consider "lp' = lp" | "n = h" "cn_hash r = a"
      "walk_parents through (map_option (\<lambda>below. (below, cn_parent_hash r)) (checked_sub h 1)) h rows
        = (Ok lp' :: (block_number, 'pe store_error) result)"
    using Cons.prems(1) by (auto simp: row split: if_splits)
  then show ?case
  proof cases
    case 2
    have here: "canon db (c, h) = Some r" using Cons.prems(2) 2(1) by (simp add: row)
    show ?thesis
    proof (cases "h = 0")
      case True
      then show ?thesis using 2 here by (simp add: checked_sub_1)
    next
      case False
      then have "walk_parents through (Some (h - 1, cn_parent_hash r)) h rows
          = (Ok lp' :: (block_number, 'pe store_error) result)"
        using 2(3) by (simp add: checked_sub_1)
      then have "lp' = h \<or> (lp' \<le> h - 1 \<and> map_option cn_hash (canon db (c, h - 1)) = Some (cn_parent_hash r)
          \<and> linked db c lp' (h - 1))"
        using Cons.prems(2) by (intro Cons.IH) auto
      then show ?thesis
        using 2(2) here linked_step [OF False, of lp' db c] word_below [of lp' h] False by auto
    qed
  qed simp
qed

text \<open>The walk stops no earlier than the links do.\<close>

lemma walk_parents_complete:
  assumes "walk_parents through (Some (h, a)) lp rows
      = (Ok lp' :: (block_number, 'pe store_error) result)"
    and "sorted_wrt (\<lambda>x y. fst y < fst x) rows"
    and "\<forall>(n, r) \<in> set rows. canon db (c, n) = Some r \<and> n \<le> h"
    and "\<forall>n r. lo \<le> n \<and> n \<le> h \<and> canon db (c, n) = Some r \<longrightarrow> (n, r) \<in> set rows"
    and "lo \<le> m" "m \<le> h" "linked db c m h" "map_option cn_hash (canon db (c, h)) = Some a"
  shows "lp' \<le> m"
  using assms
proof (induction rows arbitrary: h a lp)
  case Nil
  then show ?case by (fastforce dest: order_trans)
next
  case (Cons row rows)
  obtain r where r: "canon db (c, h) = Some r" "cn_hash r = a" using Cons.prems(8) by auto
  have "(h, r) \<in> set (row # rows)"
    using Cons.prems(4-6) r(1) by (blast intro: order_trans)
  moreover have "(h, r) \<notin> set rows"
    using Cons.prems(2,3) by (cases row) (force dest: leD)
  ultimately have row: "row = (h, r)" by simp
  have rest: "walk_parents through (map_option (\<lambda>below. (below, cn_parent_hash r)) (checked_sub h 1)) h rows
      = (Ok lp' :: (block_number, 'pe store_error) result)"
    using Cons.prems(1) r(2) by (simp add: row)
  show ?case
  proof (cases "m = h")
    case True
    show ?thesis
    proof (cases "h = 0")
      case False
      have "walk_parents through (Some (h - 1, cn_parent_hash r)) h rows
          = (Ok lp' :: (block_number, 'pe store_error) result)"
        using rest False by (simp add: checked_sub_1)
      moreover have "\<forall>(n, r) \<in> set rows. canon db (c, n) = Some r" using Cons.prems(3) by auto
      ultimately have "lp' = h \<or> lp' \<le> h - 1" by (blast dest: walk_parents_linked)
      then show ?thesis using True False word_below [of lp' h] by auto
    qed (use rest True in \<open>simp add: checked_sub_1\<close>)
  next
    case False
    then have m: "m < h" using Cons.prems(6) by simp
    then have h: "h \<noteq> 0" "m \<le> h - 1" by (simp_all add: word_below)
    have below: "linked db c m (h - 1)" "map_option cn_hash (canon db (c, h - 1)) = Some (cn_parent_hash r)"
      using linked_step [OF h, of db c] Cons.prems(7) r(1) by auto
    show ?thesis
    proof (rule Cons.IH)
      show "walk_parents through (Some (h - 1, cn_parent_hash r)) h rows
          = (Ok lp' :: (block_number, 'pe store_error) result)"
        using rest h(1) by (simp add: checked_sub_1)
      show "sorted_wrt (\<lambda>x y. fst y < fst x) rows" using Cons.prems(2) by simp
      show "\<forall>(n, r) \<in> set rows. canon db (c, n) = Some r \<and> n \<le> h - 1"
        using Cons.prems(2,3) h(1) by (auto simp: row word_below)
      show "\<forall>n r. lo \<le> n \<and> n \<le> h - 1 \<and> canon db (c, n) = Some r \<longrightarrow> (n, r) \<in> set rows"
      proof (intro allI impI)
        fix n r' assume n: "lo \<le> n \<and> n \<le> h - 1 \<and> canon db (c, n) = Some r'"
        then have "n < h" using h(1) by (simp add: word_below)
        with n Cons.prems(4) show "(n, r') \<in> set rows" by (fastforce simp: row)
      qed
    qed (use Cons.prems(5) h(2) below in simp_all)
  qed
qed

lemma chain_rows_set:
  assumes "tables_ok db"
  shows "(n, r) \<in> set (chain_rows db c lo hi) \<longleftrightarrow> canon db (c, n) = Some r \<and> lo \<le> n \<and> n \<le> hi"
proof -
  have "((c, n), r) \<in> set (canonical_blocks db) \<longleftrightarrow> canon db (c, n) = Some r"
    using assms by (simp add: tables_ok_def ordered_distinct)
  then show ?thesis by (force simp: chain_rows_def)
qed

lemma chain_rows_sorted:
  assumes "tables_ok db"
  shows "sorted_wrt (\<lambda>x y. fst x < fst y) (chain_rows db c lo hi)"
proof -
  have "ordered t \<Longrightarrow> sorted_wrt (\<lambda>x y. fst x < fst y)
      (map (\<lambda>((_, n), r). (n, r)) (filter (\<lambda>((ch, n), _). ch = c \<and> lo \<le> n \<and> n \<le> hi) t))"
    for t :: "(chain_id \<times> block_number, canonical_row) table"
    by (induction t) fastforce+
  then show ?thesis using assms by (simp add: chain_rows_def tables_ok_def)
qed

text \<open>Finalizing promotes exactly the unfinalized rows linked to the finalized block.\<close>

lemma mark_recent_finalized_exact:
  assumes r: "mark_recent_finalized db c through h
      = (Ok (n, db') :: (nat \<times> recent_db, 'pe store_error) result)"
    and ok: "tables_ok db"
  shows "canon db' (ch, m) = map_option (\<lambda>row.
      if ch = c \<and> m \<le> through \<and> linked db c m through then row\<lparr>cn_finality := Finalized\<rparr> else row)
      (canon db (ch, m))"
proof (cases "canon db (ch, m)")
  case None
  then show ?thesis using r
    by (auto simp: mark_recent_finalized_def Let_def if_Err_eq_Ok canon_set_level)
next
  case (Some row)
  let ?low = "filter (\<lambda>(_, r). cn_finality r \<noteq> Finalized) (chain_rows db c 0 through)"
  obtain lp where hash: "map_option cn_hash (canon db (c, through)) = Some h"
    and lp: "(case ?low of [] \<Rightarrow> Ok through
      | (lowest, _) # _ \<Rightarrow> walk_parents through (Some (through, h)) through
          (rev (chain_rows db c lowest through))) = (Ok lp :: (block_number, 'pe store_error) result)"
    and db': "db' = set_level (\<lambda>(ch, m) r. ch = c \<and> lp \<le> m \<and> m \<le> through \<and> cn_finality r \<noteq> Finalized)
      Finalized db"
    using r by (auto simp: mark_recent_finalized_def Let_def if_Err_eq_Ok)
  have exact: "lp \<le> m \<longleftrightarrow> linked db c m through"
    if m: "ch = c" "m \<le> through" and unfinal: "cn_finality row \<noteq> Finalized"
  proof -
    have low: "(m, row) \<in> set ?low"
      using Some m unfinal by (simp add: chain_rows_set [OF ok])
    then obtain lowest r0 rest where cons: "?low = (lowest, r0) # rest"
      by (cases ?low) auto
    let ?rows = "rev (chain_rows db c lowest through)"
    have walk: "walk_parents through (Some (through, h)) through ?rows
        = (Ok lp :: (block_number, 'pe store_error) result)"
      using lp unfolding cons by simp
    have "sorted_wrt (\<lambda>x y. fst x < fst y) ((lowest, r0) # rest)"
      unfolding cons [symmetric] by (rule sorted_wrt_filter) (rule chain_rows_sorted [OF ok])
    with low have lowest: "lowest \<le> m" unfolding cons by auto
    have rows: "\<forall>(n, r) \<in> set ?rows. canon db (c, n) = Some r \<and> n \<le> through"
      by (auto simp: chain_rows_set [OF ok])
    have sorted: "sorted_wrt (\<lambda>x y. fst y < fst x) ?rows"
      using chain_rows_sorted [OF ok] by (simp add: sorted_wrt_rev)
    have down: "linked db c m through" if "lp \<le> m"
    proof -
      have "lp = through \<or> linked db c lp through"
        using walk_parents_linked [OF walk] rows by fastforce
      then show ?thesis using that m(2) by (auto simp: linked_def dest: order_trans order.strict_trans1)
    qed
    show ?thesis
      using down walk_parents_complete [OF walk sorted rows _ lowest m(2) _ hash]
      by (auto simp: chain_rows_set [OF ok])
  qed
  show ?thesis
    using Some exact by (cases "cn_finality row = Finalized") (auto simp: db' canon_set_level)
qed

section \<open>A reorganisation leaves a linked branch\<close>

lemma tip_first_above: "tip_first bs \<Longrightarrow> b \<in> set bs \<Longrightarrow> number (last bs) \<le> number b"
proof (induction bs arbitrary: b rule: tip_first.induct)
  case (1 newer older rest)
  have "number older \<le> number newer"
    using "1.prems"(1) unat_u64_bound [of "number older"] by (auto simp: word_nat min_def)
  moreover have "number (last (older # rest)) \<le> number older" using 1 by simp
  ultimately have "number (last (older # rest)) \<le> number newer" by (rule order_trans [rotated])
  then show ?case using 1 by auto
qed simp_all

lemma encode_applied_chain:
  assumes "encode_applied cd c n h fs = Ok es" "\<forall>f \<in> set fs. unat (number (fr_block f)) < 2 ^ 63"
    and "i < length fs"
  shows "unat (number (fr_block (fs ! i))) = unat n + i
    \<and> parent_hash (fr_block (fs ! i)) = (if i = 0 then h else hash (fr_block (fs ! (i - 1))))
    \<and> fr_chain_id (fs ! i) = c"
  using assms
proof (induction fs arbitrary: n h es i)
  case Nil
  then show ?case by simp
next
  case (Cons f fs)
  from Cons.prems(1) obtain rest where f: "fr_chain_id f = c" "number (fr_block f) = n"
      "parent_hash (fr_block f) = h"
    and enc: "encode_applied cd c (saturating_add n 1) (hash (fr_block f)) fs = Ok rest"
    by (auto simp: if_Err_eq_Ok)
  have "unat n < 2 ^ 63" using Cons.prems(2) f by simp
  then have n: "unat (saturating_add n 1) = unat n + 1" by (simp add: unat_saturating_add)
  show ?case
  proof (cases i)
    case 0
    then show ?thesis using f by simp
  next
    case (Suc k)
    then have "k < length fs" using Cons.prems(3) by simp
    with Cons.IH [OF enc _ this] Cons.prems(2) Suc n show ?thesis by (cases k) simp_all
  qed
qed

text \<open>The applied frames sit at consecutive heights above the ancestor, which stays.\<close>

lemma reorg_row_at:
  fixes cd :: "(block_frame, 'pe, 'he) codec"
  assumes r: "reorg_recent_frames cd db c reverted applied = Ok (out, db')" and ok: "tables_ok db"
    and i: "i < length applied"
  shows "unat (number (fr_block (applied ! i))) = unat (number (last reverted)) + i"
    and "parent_hash (fr_block (applied ! i)) =
      (if i = 0 then parent_hash (last reverted) else hash (fr_block (applied ! (i - 1))))"
    and "unat j = unat (number (last reverted)) + i \<Longrightarrow>
      canon db' (c, j) = Some (row_of (fr_block (applied ! i)) (fr_finality (applied ! i)))"
proof -
  let ?kv = "\<lambda>f. ((c, number (fr_block f)), row_of (fr_block f) (fr_finality f))"
  from r obtain encoded where
    enc: "encode_applied cd c (number (last reverted)) (parent_hash (last reverted)) applied = Ok encoded"
    by (rule reorg_recent_frames_Ok)
  note R = reorg_rows [OF r ok]
  have bound: "\<forall>f \<in> set applied. unat (number (fr_block f)) < 2 ^ 63" using R(5) by blast
  note chain = encode_applied_chain [OF enc bound i]
  then show num: "unat (number (fr_block (applied ! i))) = unat (number (last reverted)) + i"
    and "parent_hash (fr_block (applied ! i)) =
      (if i = 0 then parent_hash (last reverted) else hash (fr_block (applied ! (i - 1))))"
    by simp_all
  have "distinct (map fst (map ?kv applied))"
    using R(3) by (simp add: distinct_map comp_def inj_on_def)
  then have "map_of (map ?kv applied) (fst (?kv (applied ! i))) = Some (snd (?kv (applied ! i)))"
    using i by simp
  then have "canon db' (fst (?kv (applied ! i))) = Some (snd (?kv (applied ! i)))"
    using R(4) by simp
  moreover assume "unat j = unat (number (last reverted)) + i"
  then have "j = number (fr_block (applied ! i))" using num by (simp add: word_eq_nat)
  ultimately show "canon db' (c, j) = Some (row_of (fr_block (applied ! i)) (fr_finality (applied ! i)))"
    by simp
qed

lemma reorg_ancestor:
  fixes cd :: "(block_frame, 'pe, 'he) codec"
  assumes r: "reorg_recent_frames cd db c reverted applied = Ok (out, db')" and ok: "tables_ok db"
  shows "unat (number (last reverted) - 1) = unat (number (last reverted)) - 1"
    and "unat (number (last reverted)) \<noteq> 0"
    and "map_option cn_hash (canon db' (c, number (last reverted) - 1)) = Some (parent_hash (last reverted))"
proof -
  let ?low = "number (last reverted)"
  from r obtain encoded db1 where ne: "?low \<noteq> 0" and tf: "tip_first reverted"
    and anc: "map_option cn_hash (canon db (c, ?low - 1)) = Some (parent_hash (last reverted))"
    by (rule reorg_recent_frames_Ok)
  note R = reorg_rows [OF r ok]
  show low: "unat (?low - 1) = unat ?low - 1" "unat ?low \<noteq> 0"
    using ne by (simp_all add: word_minus_1 word_eq_nat [of ?low 0])
  have "number b \<noteq> ?low - 1" if "b \<in> set reverted" for b
    using tip_first_above [OF tf that] low by (auto simp: word_nat)
  moreover have "number (fr_block f) \<noteq> ?low - 1" if "f \<in> set applied" for f
  proof -
    from that obtain i where "i < length applied" "f = applied ! i" by (metis in_set_conv_nth)
    with reorg_row_at(1) [OF r ok] low show ?thesis by (auto simp: word_nat)
  qed
  then have "map_of (map (\<lambda>f. ((c, number (fr_block f)), row_of (fr_block f) (fr_finality f))) applied)
      (c, ?low - 1) = None"
    by (fastforce simp: map_of_eq_None_iff)
  ultimately have "canon db' (c, ?low - 1) = canon db (c, ?low - 1)"
    unfolding R(4) by (fastforce simp: map_add_def restrict_map_def)
  then show "map_option cn_hash (canon db' (c, ?low - 1)) = Some (parent_hash (last reverted))"
    using anc by simp
qed

lemma reorg_linked:
  fixes cd :: "(block_frame, 'pe, 'he) codec"
  assumes r: "reorg_recent_frames cd db c reverted applied = Ok (out, db')" and ok: "tables_ok db"
    and ne: "applied \<noteq> []"
  shows "linked db' c (number (last reverted) - 1) (number (fr_block (last applied)))"
proof -
  let ?low = "number (last reverted)"
  note low = reorg_ancestor [OF r ok] and at = reorg_row_at [OF r ok]
  have top: "unat (number (fr_block (last applied))) = unat ?low + (length applied - 1)"
    using at(1) [of "length applied - 1"] ne by (simp add: last_conv_nth)
  have "\<exists>r below. canon db' (c, j) = Some r \<and> canon db' (c, j - 1) = Some below
      \<and> cn_parent_hash r = cn_hash below"
    if j: "?low - 1 < j" "j \<le> number (fr_block (last applied))" for j
  proof -
    define i where "i = unat j - unat ?low"
    have "unat ?low - 1 < unat j" "unat j \<le> unat ?low + (length applied - 1)"
      using j low(1) top by (simp_all add: word_nat)
    moreover have "length applied \<noteq> 0" using ne by simp
    ultimately have i: "unat j = unat ?low + i" "i < length applied"
      using low(2) unfolding i_def by linarith+
    have below: "unat (j - 1) = unat j - 1"
      using i(1) low(2) by (intro word_minus_1) (auto simp: word_eq_nat)
    show ?thesis
    proof (cases i)
      case 0
      then have "j = ?low" using i(1) by (simp add: word_eq_nat)
      then show ?thesis using at(2,3) [OF i(2)] i(1) low(3) 0 by (auto simp: row_of_def)
    next
      case (Suc k)
      then have "unat (j - 1) = unat ?low + k" "k < length applied" using i below by simp_all
      then show ?thesis using at(2) [OF i(2)] at(3) [OF i(2,1)] at(3) [of k "j - 1"] Suc
        by (auto simp: row_of_def)
    qed
  qed
  then show ?thesis by (auto simp: linked_def)
qed

section \<open>A stored frame is read back\<close>

text \<open>
  Reading a height after its frame was stored gives the same material at the canonical level,
  whether the frame was new or had been retained before.
\<close>

lemma recent_frame_store:
  assumes cd: "codec_ok cd" and ok: "tables_ok db"
    and st: "store_recent_frame_within cd db f hard = Ok db'"
  shows "\<exists>g. recent_frame cd db' (fr_chain_id f) (number (fr_block f)) = Ok (Some g)
    \<and> same_recent_material g f
    \<and> fr_finality g = (case canon db (fr_chain_id f, number (fr_block f)) of None \<Rightarrow> fr_finality f
        | Some r \<Rightarrow> max (cn_finality r) (fr_finality f))"
proof -
  let ?k = "(fr_chain_id f, number (fr_block f))"
  from st obtain encoded where enc: "durable_encode cd DurableBlockFrame BLOCK_FRAME_SCHEMA_VERSION f = Ok encoded"
    and w: "write_recent_frame cd db f encoded hard = Ok db'"
    and bounds: "unat (fr_chain_id f) < 2 ^ 63" "unat (number (fr_block f)) < 2 ^ 63"
    and same: "\<And>r. canon db ?k = Some r \<Longrightarrow> cn_hash r = hash (fr_block f)"
    by (rule store_recent_frame_within_Ok) (rule that)
  note W = write_recent_frame_effect [OF w ok]
  obtain r where r: "canon db' ?k = Some r" "cn_hash r = hash (fr_block f)"
    "cn_finality r = (case canon db ?k of None \<Rightarrow> fr_finality f | Some r \<Rightarrow> max (cn_finality r) (fr_finality f))"
    using W(2) same ok by (auto simp: canon_upsert_canonical row_of_def split: option.splits)
  obtain stored held where stored: "map_of (recent_blocks db') (fr_chain_id f, number (fr_block f), hash (fr_block f))
      = Some stored" "durable_decode cd DurableBlockFrame BLOCK_FRAME_SCHEMA_VERSION stored = Ok held"
    "same_recent_material held f"
    using W(3) durable_decode_encode [OF cd enc] by (auto simp: same_recent_material_def)
  have "hash (fr_block held) = hash (fr_block f)"
    using stored(3) by (simp add: same_recent_material_def)
  then have "recent_frame cd db' (fr_chain_id f) (number (fr_block f))
      = Ok (Some (held\<lparr>fr_finality := cn_finality r\<rparr>))"
    using bounds r(1,2) stored(1,2) by (simp add: recent_frame_def decode_recent_frame_def)
  moreover have "same_recent_material (held\<lparr>fr_finality := cn_finality r\<rparr>) f"
    using stored(3) by (simp add: same_recent_material_def)
  ultimately show ?thesis using r(3) by auto
qed

end
