(* ===== verification/Reducer.thy ===== *)
theory Reducer
  imports Deltas Canonical_Store
begin

text \<open>
  The reducer's view of the store, \<^verbatim>\<open>crates/store-sqlite/src/lib.rs\<close>: the overlay that collects a
  block's reads and writes, the mutations it becomes, their application and undo, the
  before-images of output metadata, and the inverse changes. SQL failures other than numeric
  bounds are not modelled: a query reads or writes its table.
\<close>

section \<open>Tables of the processors\<close>

record entity_meta =
  em_block_number :: u64
  em_block_timestamp :: u64
  em_finality :: finality
  em_written_at_unix_ms :: int
  em_value_bytes :: u64

text \<open>The key columns are the instance and the key of the row.\<close>

record processor_db =
  entities :: "(string \<times> string \<times> bytes, bytes) table"
  entity_indexes :: "(string \<times> string \<times> bytes \<times> bytes, unit) table"
  processor_state :: "(string \<times> string \<times> bytes, bytes) table"
  output_entity_meta :: "(string \<times> string \<times> bytes, entity_meta) table"

datatype mutation =
  EntityMutation string bytes "bytes option" "bytes option"
| IndexMutation string bytes bytes bool bool
| StateMutation string bytes "bytes option" "bytes option"

record mutation_batch =
  mb_mutations :: "mutation list"
  mb_changes :: "domain_change list"

section \<open>The overlay\<close>

record 'v overlay_value =
  ov_before :: 'v
  ov_after :: 'v

record reducer_overlay =
  rv_instance :: string
  rv_state :: "(string \<times> bytes, bytes option overlay_value) table"
  rv_entities :: "(string \<times> bytes, bytes option overlay_value) table"
  rv_indexes :: "(string \<times> bytes \<times> bytes, bool overlay_value) table"
  rv_changes :: "domain_change list"
  rv_window_dependent :: bool

definition overlay_new :: "string \<Rightarrow> reducer_overlay" where
  "overlay_new instance_id = \<lparr>rv_instance = instance_id, rv_state = [], rv_entities = [],
     rv_indexes = [], rv_changes = [], rv_window_dependent = False\<rparr>"

text \<open>
  The three loads share their shape: a key that is not in the overlay enters it with the stored
  value before and after. Writing sets the value after; the entry exists, since it was loaded.
\<close>

definition load_value :: "'k::linorder \<Rightarrow> 'v \<Rightarrow> ('k, 'v overlay_value) table \<Rightarrow> ('k, 'v overlay_value) table" where
  "load_value k stored t =
     (case map_of t k of
        Some _ \<Rightarrow> t
      | None \<Rightarrow> tput k \<lparr>ov_before = stored, ov_after = stored\<rparr> t)"

definition set_after :: "'k::linorder \<Rightarrow> 'v \<Rightarrow> ('k, 'v overlay_value) table \<Rightarrow> ('k, 'v overlay_value) table" where
  "set_after k v t =
     (case map_of t k of
        Some entry \<Rightarrow> tput k (entry\<lparr>ov_after := v\<rparr>) t
      | None \<Rightarrow> t)"

definition load_state :: "processor_db \<Rightarrow> string \<Rightarrow> bytes \<Rightarrow> reducer_overlay \<Rightarrow> reducer_overlay" where
  "load_state db ns key ov =
     ov\<lparr>rv_state := load_value (ns, key) (map_of (processor_state db) (rv_instance ov, ns, key))
          (rv_state ov)\<rparr>"

definition load_entity :: "processor_db \<Rightarrow> string \<Rightarrow> bytes \<Rightarrow> reducer_overlay \<Rightarrow> reducer_overlay" where
  "load_entity db collection key ov =
     ov\<lparr>rv_entities := load_value (collection, key)
          (map_of (entities db) (rv_instance ov, collection, key)) (rv_entities ov)\<rparr>"

definition load_index :: "processor_db \<Rightarrow> string \<Rightarrow> bytes \<Rightarrow> bytes \<Rightarrow> reducer_overlay \<Rightarrow> reducer_overlay" where
  "load_index db index_name index_key entity_key ov =
     ov\<lparr>rv_indexes := load_value (index_name, index_key, entity_key)
          (map_of (entity_indexes db) (rv_instance ov, index_name, index_key, entity_key) \<noteq> None)
          (rv_indexes ov)\<rparr>"

definition state_get ::
  "processor_db \<Rightarrow> string \<Rightarrow> bytes \<Rightarrow> reducer_overlay \<Rightarrow> bytes option \<times> reducer_overlay" where
  "state_get db ns key ov =
     (let ov1 = load_state db ns key ov
      in (Option.bind (map_of (rv_state ov1) (ns, key)) ov_after, ov1))"

definition state_put ::
  "processor_db \<Rightarrow> string \<Rightarrow> bytes \<Rightarrow> bytes \<Rightarrow> reducer_overlay \<Rightarrow> reducer_overlay" where
  "state_put db ns key v ov =
     (let ov1 = load_state db ns key ov
      in ov1\<lparr>rv_state := set_after (ns, key) (Some v) (rv_state ov1)\<rparr>)"

definition state_delete :: "processor_db \<Rightarrow> string \<Rightarrow> bytes \<Rightarrow> reducer_overlay \<Rightarrow> reducer_overlay" where
  "state_delete db ns key ov =
     (let ov1 = load_state db ns key ov
      in ov1\<lparr>rv_state := set_after (ns, key) None (rv_state ov1)\<rparr>)"

definition entity_get ::
  "processor_db \<Rightarrow> string \<Rightarrow> bytes \<Rightarrow> reducer_overlay \<Rightarrow> bytes option \<times> reducer_overlay" where
  "entity_get db collection key ov =
     (let ov1 = load_entity db collection key (ov\<lparr>rv_window_dependent := True\<rparr>)
      in (Option.bind (map_of (rv_entities ov1) (collection, key)) ov_after, ov1))"

definition entity_put ::
  "processor_db \<Rightarrow> string \<Rightarrow> bytes \<Rightarrow> bytes \<Rightarrow> reducer_overlay \<Rightarrow> reducer_overlay" where
  "entity_put db collection key v ov =
     (let ov1 = load_entity db collection key ov;
          same = (Option.bind (map_of (rv_entities ov1) (collection, key)) ov_after = Some v)
      in ov1\<lparr>rv_window_dependent := (rv_window_dependent ov1 \<or> same),
            rv_entities := set_after (collection, key) (Some v) (rv_entities ov1)\<rparr>)"

definition entity_delete :: "processor_db \<Rightarrow> string \<Rightarrow> bytes \<Rightarrow> reducer_overlay \<Rightarrow> reducer_overlay" where
  "entity_delete db collection key ov =
     (let ov1 = load_entity db collection key ov
      in ov1\<lparr>rv_entities := set_after (collection, key) None (rv_entities ov1)\<rparr>)"

definition index_put ::
  "processor_db \<Rightarrow> string \<Rightarrow> bytes \<Rightarrow> bytes \<Rightarrow> reducer_overlay \<Rightarrow> reducer_overlay" where
  "index_put db index_name index_key entity_key ov =
     (let ov1 = load_index db index_name index_key entity_key ov;
          k = (index_name, index_key, entity_key);
          held = (case map_of (rv_indexes ov1) k of None \<Rightarrow> False | Some e \<Rightarrow> ov_after e)
      in ov1\<lparr>rv_window_dependent := (rv_window_dependent ov1 \<or> held),
            rv_indexes := set_after k True (rv_indexes ov1)\<rparr>)"

definition index_delete ::
  "processor_db \<Rightarrow> string \<Rightarrow> bytes \<Rightarrow> bytes \<Rightarrow> reducer_overlay \<Rightarrow> reducer_overlay" where
  "index_delete db index_name index_key entity_key ov =
     (let ov1 = load_index db index_name index_key entity_key ov
      in ov1\<lparr>rv_indexes := set_after (index_name, index_key, entity_key) False (rv_indexes ov1)\<rparr>)"

definition emit :: "domain_change \<Rightarrow> reducer_overlay \<Rightarrow> reducer_overlay" where
  "emit change ov = ov\<lparr>rv_changes := rv_changes ov @ [change]\<rparr>"

section \<open>Prefix scans\<close>

fun pub_rev :: "bytes \<Rightarrow> bytes option" where
  "pub_rev [] = None"
| "pub_rev (b # bs) = (if b \<noteq> word_max then Some (rev bs @ [saturating_add b 1]) else pub_rev bs)"

text \<open>The loop runs from the last byte to the first, so it reads the reversed prefix.\<close>

definition prefix_upper_bound :: "bytes \<Rightarrow> bytes option" where
  "prefix_upper_bound p = pub_rev (rev p)"

definition starts_with :: "bytes \<Rightarrow> bytes \<Rightarrow> bool" where
  "starts_with p k = (take (length p) k = p)"

text \<open>One query: the rows from a lower bound on, below the upper bound, at most a page.\<close>

definition below_bound :: "bytes option \<Rightarrow> bytes \<Rightarrow> bool" where
  "below_bound upper k = (case upper of None \<Rightarrow> True | Some u \<Rightarrow> k < u)"

definition query_page ::
  "(bytes, bytes) table \<Rightarrow> bytes option \<Rightarrow> nat \<Rightarrow> bytes \<Rightarrow> (bytes \<times> bytes) list" where
  "query_page rows upper limit lower =
     take limit (filter (\<lambda>(k, _). lower \<le> k \<and> below_bound upper k) rows)"

definition merge_page ::
  "(bytes, bytes option) table \<Rightarrow> (bytes \<times> bytes) list \<Rightarrow> (bytes, bytes) table \<Rightarrow> (bytes, bytes) table" where
  "merge_page overlay page merged =
     foldl (\<lambda>t (k, v). if map_of overlay k = None then tput k v t else t) merged page"

definition visible_count ::
  "(bytes, bytes option) table \<Rightarrow> (bytes, bytes) table \<Rightarrow> bytes \<Rightarrow> nat" where
  "visible_count overlay merged through =
     length merged + length (filter (\<lambda>(k, v). k \<le> through \<and> v \<noteq> None) overlay)"

lemma query_page_set: "set (query_page rows upper limit lower) \<subseteq> {e \<in> set rows. lower \<le> fst e}"
  by (auto simp: query_page_def dest: in_set_takeD)

lemma less_snoc: "(xs :: bytes) < xs @ [0]"
  by (induction xs) simp_all

lemma page_progress:
  assumes "query_page rows upper limit lower \<noteq> []"
  shows "length (filter (\<lambda>e. fst (last (query_page rows upper limit lower)) @ [0] \<le> fst e) rows)
    < length (filter (\<lambda>e. lower \<le> fst e) rows)"
proof -
  let ?l = "last (query_page rows upper limit lower)"
  have l: "?l \<in> set rows" "lower \<le> fst ?l"
    using query_page_set [of rows upper limit lower] last_in_set [OF assms] by auto
  have less: "fst ?l < fst ?l @ [0]" by (rule less_snoc)
  have "filter (\<lambda>e. fst ?l @ [0] \<le> fst e) rows
      = filter (\<lambda>e. fst ?l @ [0] \<le> fst e) (filter (\<lambda>e. lower \<le> fst e) rows)"
    using less l(2) by (auto intro!: filter_cong dest: order_trans less_imp_le)
  moreover have "?l \<in> set (filter (\<lambda>e. lower \<le> fst e) rows)" "\<not> fst ?l @ [0] \<le> fst ?l"
    using l less by (auto dest: leD)
  ultimately show ?thesis
    using length_filter_less [of ?l "filter (\<lambda>e. lower \<le> fst e) rows" "\<lambda>e. fst ?l @ [0] \<le> fst e"]
    by simp
qed

text \<open>
  The loop over the pages; it returns the merged rows and how far the committed rows were read.
\<close>

function scan_loop ::
  "(bytes, bytes) table \<Rightarrow> bytes option \<Rightarrow> nat \<Rightarrow> (bytes, bytes option) table \<Rightarrow> bytes
    \<Rightarrow> (bytes, bytes) table \<Rightarrow> (bytes, bytes) table \<times> bytes option" where
  "scan_loop rows upper limit overlay lower merged =
     (let page = query_page rows upper limit lower;
          merged' = merge_page overlay page merged
      in if length page < limit \<or> page = [] then (merged', None)
         else if visible_count overlay merged' (fst (last page)) \<ge> limit
         then (merged', Some (fst (last page)))
         else scan_loop rows upper limit overlay (fst (last page) @ [0]) merged')"
  by pat_completeness auto
termination
  by (relation "measure (\<lambda>(rows, upper, limit, overlay, lower, merged).
        length (filter (\<lambda>e. lower \<le> fst e) rows))")
    (auto simp: page_progress)

declare scan_loop.simps [simp del]

definition scan_merged_prefix ::
  "(bytes, bytes) table \<Rightarrow> bytes \<Rightarrow> nat \<Rightarrow> (bytes, bytes option) table
    \<Rightarrow> ((bytes \<times> bytes) list, processor_error) result" where
  "scan_merged_prefix rows prefix limit overlay =
     (if \<not> limit < 2 ^ 63 then Err (StateError ''limit'')
      else
        (let (merged, read_through) = scan_loop rows (prefix_upper_bound prefix) limit overlay prefix [];
             final = foldl (\<lambda>t (k, v). case v of
                 Some value \<Rightarrow> (if (case read_through of None \<Rightarrow> True | Some through \<Rightarrow> k \<le> through)
                                then tput k value t else t)
               | None \<Rightarrow> t) merged overlay
         in Ok (take limit final)))"

text \<open>The committed rows of one namespace or collection, and the overlay's rows under a prefix.\<close>

definition scope_rows :: "(string \<times> string \<times> bytes, bytes) table \<Rightarrow> string \<Rightarrow> string \<Rightarrow> (bytes, bytes) table" where
  "scope_rows t instance_id scope =
     map (\<lambda>((_, _, k), v). (k, v)) (filter (\<lambda>((i, s, _), _). i = instance_id \<and> s = scope) t)"

definition overlay_rows ::
  "(string \<times> bytes, bytes option overlay_value) table \<Rightarrow> string \<Rightarrow> bytes \<Rightarrow> (bytes, bytes option) table" where
  "overlay_rows t scope prefix =
     map (\<lambda>((_, k), v). (k, ov_after v)) (filter (\<lambda>((s, k), _). s = scope \<and> starts_with prefix k) t)"

definition state_scan_prefix ::
  "processor_db \<Rightarrow> string \<Rightarrow> bytes \<Rightarrow> nat \<Rightarrow> reducer_overlay
    \<Rightarrow> ((bytes \<times> bytes) list, processor_error) result" where
  "state_scan_prefix db ns prefix limit ov =
     (if limit = 0 \<or> limit > 10000 then Err (StateError ''scan limit must be in 1..=10000'')
      else scan_merged_prefix (scope_rows (processor_state db) (rv_instance ov) ns) prefix limit
             (overlay_rows (rv_state ov) ns prefix))"

definition scan_prefix ::
  "processor_db \<Rightarrow> string \<Rightarrow> bytes \<Rightarrow> nat \<Rightarrow> reducer_overlay
    \<Rightarrow> ((bytes \<times> bytes) list \<times> reducer_overlay, processor_error) result" where
  "scan_prefix db collection prefix limit ov =
     (if limit = 0 \<or> limit > 10000 then Err (StateError ''scan limit must be in 1..=10000'')
      else and_then (scan_merged_prefix (scope_rows (entities db) (rv_instance ov) collection) prefix limit
             (overlay_rows (rv_entities ov) collection prefix)) (\<lambda>rows.
           Ok (rows, ov\<lparr>rv_window_dependent := True\<rparr>)))"

section \<open>Batches\<close>

definition entity_mutations :: "(string \<times> bytes, bytes option overlay_value) table \<Rightarrow> mutation list" where
  "entity_mutations t =
     map (\<lambda>((collection, key), v). EntityMutation collection key (ov_before v) (ov_after v))
       (filter (\<lambda>(_, v). ov_before v \<noteq> ov_after v) t)"

definition index_mutations :: "(string \<times> bytes \<times> bytes, bool overlay_value) table \<Rightarrow> mutation list" where
  "index_mutations t =
     map (\<lambda>((name, index_key, entity_key), v). IndexMutation name index_key entity_key (ov_before v) (ov_after v))
       (filter (\<lambda>(_, v). ov_before v \<noteq> ov_after v) t)"

definition state_mutations :: "(string \<times> bytes, bytes option overlay_value) table \<Rightarrow> mutation list" where
  "state_mutations t =
     map (\<lambda>((ns, key), v). StateMutation ns key (ov_before v) (ov_after v))
       (filter (\<lambda>(_, v). ov_before v \<noteq> ov_after v) t)"

definition into_batch :: "reducer_overlay \<Rightarrow> mutation_batch" where
  "into_batch ov =
     \<lparr>mb_mutations = entity_mutations (rv_entities ov) @ index_mutations (rv_indexes ov)
        @ state_mutations (rv_state ov),
      mb_changes = rv_changes ov\<rparr>"

text \<open>A batch taken from a live overlay leaves its values as the new before-images.\<close>

definition settle :: "('k, 'v overlay_value) table \<Rightarrow> ('k, 'v overlay_value) table" where
  "settle t = map (\<lambda>(k, v). (k, if ov_before v \<noteq> ov_after v then v\<lparr>ov_before := ov_after v\<rparr> else v)) t"

definition take_batch :: "reducer_overlay \<Rightarrow> mutation_batch \<times> reducer_overlay" where
  "take_batch ov =
     (into_batch ov,
      ov\<lparr>rv_entities := settle (rv_entities ov), rv_indexes := settle (rv_indexes ov),
         rv_state := settle (rv_state ov), rv_changes := []\<rparr>)"

section \<open>Applying and undoing mutations\<close>

text \<open>
  Deleting an entity cascades to its metadata row. The clock is the argument \<open>now\<close>.
\<close>

definition write_entity ::
  "string \<times> string \<times> bytes \<Rightarrow> bytes option \<Rightarrow> block_ref \<Rightarrow> finality \<Rightarrow> int \<Rightarrow> processor_db
    \<Rightarrow> (processor_db, 'pe store_error) result" where
  "write_entity k value b level now db =
     (case value of
        Some v \<Rightarrow>
          and_then (u64_i64 (number b) ''output block number'') (\<lambda>n.
          and_then (u64_i64 (timestamp b) ''output block timestamp'') (\<lambda>ts.
          and_then (usize_i64 (length v) ''output value bytes'') (\<lambda>len.
          Ok (db\<lparr>entities := tput k v (entities db),
                 output_entity_meta := tput k \<lparr>em_block_number = n, em_block_timestamp = ts,
                   em_finality = level, em_written_at_unix_ms = now, em_value_bytes = of_nat len\<rparr>
                   (output_entity_meta db)\<rparr>))))
      | None \<Rightarrow> Ok (db\<lparr>entities := tdel k (entities db),
                      output_entity_meta := tdel k (output_entity_meta db)\<rparr>))"

definition write_index :: "string \<times> string \<times> bytes \<times> bytes \<Rightarrow> bool \<Rightarrow> processor_db \<Rightarrow> processor_db" where
  "write_index k exists db =
     db\<lparr>entity_indexes := (if exists then tput k () (entity_indexes db) else tdel k (entity_indexes db))\<rparr>"

definition write_state :: "string \<times> string \<times> bytes \<Rightarrow> bytes option \<Rightarrow> processor_db \<Rightarrow> processor_db" where
  "write_state k value db =
     db\<lparr>processor_state := (case value of
          Some v \<Rightarrow> tput k v (processor_state db) | None \<Rightarrow> tdel k (processor_state db))\<rparr>"

fun apply_mutation ::
  "string \<Rightarrow> bool \<Rightarrow> bool \<Rightarrow> block_ref \<Rightarrow> finality \<Rightarrow> int \<Rightarrow> mutation \<Rightarrow> processor_db
    \<Rightarrow> (processor_db, 'pe store_error) result" where
  "apply_mutation i inverting retain_output b level now (EntityMutation collection key before after) db =
     (if \<not> retain_output then Ok db
      else write_entity (i, collection, key) (if inverting then before else after) b level now db)"
| "apply_mutation i inverting retain_output b level now (IndexMutation name index_key entity_key before after) db =
     (if \<not> retain_output then Ok db
      else Ok (write_index (i, name, index_key, entity_key) (if inverting then before else after) db))"
| "apply_mutation i inverting retain_output b level now (StateMutation ns key before after) db =
     Ok (write_state (i, ns, key) (if inverting then before else after) db)"

fun apply_each ::
  "string \<Rightarrow> bool \<Rightarrow> bool \<Rightarrow> block_ref \<Rightarrow> finality \<Rightarrow> int \<Rightarrow> mutation list \<Rightarrow> processor_db
    \<Rightarrow> (processor_db, 'pe store_error) result" where
  "apply_each i inverting retain_output b level now [] db = Ok db"
| "apply_each i inverting retain_output b level now (m # ms) db =
     and_then (apply_mutation i inverting retain_output b level now m db) (\<lambda>db1.
     apply_each i inverting retain_output b level now ms db1)"

definition apply_mutations ::
  "string \<Rightarrow> mutation list \<Rightarrow> bool \<Rightarrow> bool \<Rightarrow> block_ref \<Rightarrow> finality \<Rightarrow> int \<Rightarrow> processor_db
    \<Rightarrow> (processor_db, 'pe store_error) result" where
  "apply_mutations i ms inverting retain_output b level now db =
     apply_each i inverting retain_output b level now (if inverting then rev ms else ms) db"

section \<open>Output metadata\<close>

record entity_meta_image =
  ei_collection :: string
  ei_key :: bytes
  ei_meta :: entity_meta

text \<open>A row of \<^verbatim>\<open>output_entity_meta\<close> with its key; the image's other columns are those of the row.\<close>

definition entity_meta_images :: "string \<Rightarrow> mutation list \<Rightarrow> processor_db \<Rightarrow> entity_meta_image list" where
  "entity_meta_images i ms db =
     List.map_filter (\<lambda>m. case m of
         EntityMutation collection key (Some _) _ \<Rightarrow>
           map_option (\<lambda>meta. \<lparr>ei_collection = collection, ei_key = key, ei_meta = meta\<rparr>)
             (map_of (output_entity_meta db) (i, collection, key))
       | _ \<Rightarrow> None) ms"

text \<open>The coverage of the instance maps a block number to its level.\<close>

definition image_finality ::
  "(u64 \<Rightarrow> finality option) \<Rightarrow> block_number option \<Rightarrow> entity_meta \<Rightarrow> finality" where
  "image_finality coverage finalized_through m =
     (if (case finalized_through of None \<Rightarrow> False | Some through \<Rightarrow> em_block_number m \<le> through)
      then Finalized
      else case coverage (em_block_number m) of
        None \<Rightarrow> em_finality m
      | Some covered \<Rightarrow> max covered (em_finality m))"

fun restore_entity_metadata ::
  "string \<Rightarrow> (u64 \<Rightarrow> finality option) \<Rightarrow> block_number option \<Rightarrow> entity_meta_image list \<Rightarrow> processor_db
    \<Rightarrow> (processor_db, 'pe store_error) result" where
  "restore_entity_metadata i coverage finalized_through [] db = Ok db"
| "restore_entity_metadata i coverage finalized_through (img # imgs) db =
     (let m = ei_meta img; k = (i, ei_collection img, ei_key img)
      in and_then (u64_i64 (em_block_number m) ''output block number'') (\<lambda>_.
         and_then (u64_i64 (em_block_timestamp m) ''output block timestamp'') (\<lambda>_.
         and_then (u64_i64 (em_value_bytes m) ''output value bytes'') (\<lambda>_.
         restore_entity_metadata i coverage finalized_through imgs
           (case map_of (output_entity_meta db) k of
              None \<Rightarrow> db
            | Some _ \<Rightarrow> db\<lparr>output_entity_meta := tput k
                (m\<lparr>em_finality := image_finality coverage finalized_through m\<rparr>)
                (output_entity_meta db)\<rparr>)))))"

section \<open>Inverse changes\<close>

fun entity_effect :: "mutation \<Rightarrow> (bytes \<times> bytes option \<times> bytes option) option" where
  "entity_effect (EntityMutation _ key before after) = Some (key, before, after)"
| "entity_effect _ = None"

fun state_effect :: "mutation \<Rightarrow> (bytes \<times> bytes option \<times> bytes option) option" where
  "state_effect (StateMutation _ key before after) = Some (key, before, after)"
| "state_effect _ = None"

definition matches_change :: "domain_change \<Rightarrow> bytes \<times> bytes option \<times> bytes option \<Rightarrow> bool" where
  "matches_change c = (\<lambda>(key, _, after). key = ch_key c
     \<and> (case ch_operation c of Upsert \<Rightarrow> after = Some (ch_payload c) | Delete \<Rightarrow> after = None))"

definition invert_change ::
  "(bytes \<times> bytes option \<times> bytes option) list \<Rightarrow> (bytes \<times> bytes option \<times> bytes option) list
    \<Rightarrow> domain_change \<Rightarrow> (domain_change, 'pe store_error) result" where
  "invert_change output_entities working_state c =
     (let exact = filter (matches_change c) output_entities;
          found = (if exact = [] then filter (matches_change c) working_state else exact);
          created = filter (\<lambda>(key, before, after). key = ch_key c \<and> before = None \<and> after \<noteq> None)
            (output_entities @ working_state)
      in if found = [] \<and> ch_operation c = Upsert \<and> length created = 1
         then Ok \<lparr>ch_kind = ch_kind c, ch_key = ch_key c, ch_operation = Delete, ch_payload = []\<rparr>
         else if length found \<noteq> 1
         then Err (StoreInvariant ''change has no single matching state mutation'')
         else
           (let before = fst (snd (hd found))
            in Ok \<lparr>ch_kind = ch_kind c, ch_key = ch_key c,
                   ch_operation = (if before \<noteq> None then Upsert else Delete),
                   ch_payload = (case before of None \<Rightarrow> [] | Some v \<Rightarrow> v)\<rparr>))"

fun invert_all ::
  "(domain_change \<Rightarrow> (domain_change, 'pe store_error) result) \<Rightarrow> domain_change list
    \<Rightarrow> (domain_change list, 'pe store_error) result" where
  "invert_all f [] = Ok []"
| "invert_all f (c # cs) = and_then (f c) (\<lambda>d. and_then (invert_all f cs) (\<lambda>ds. Ok (d # ds)))"

definition build_inverse_changes :: "mutation_batch \<Rightarrow> (domain_change list, 'pe store_error) result" where
  "build_inverse_changes batch =
     invert_all (invert_change (List.map_filter entity_effect (mb_mutations batch))
         (List.map_filter state_effect (mb_mutations batch)))
       (rev (mb_changes batch))"

definition validate_cursor ::
  "processor_cursor \<Rightarrow> processor_descriptor \<Rightarrow> encoded_delta \<Rightarrow> (unit, processor_error) result" where
  "validate_cursor cursor desc delta =
     (if pc_processor_id cursor \<noteq> pd_id desc \<or> pc_processor_version cursor \<noteq> pd_version desc
         \<or> pc_chain_id cursor \<noteq> ed_chain_id delta \<or> pc_block_number cursor \<noteq> number (ed_block delta)
         \<or> pc_block_hash cursor \<noteq> hash (ed_block delta)
      then Err CursorMismatch else Ok ())"

end
