(* ===== verification/Reducer_Laws.thy ===== *)
theory Reducer_Laws
  imports Reducer Canonical_Laws
begin

text \<open>
  The laws of the reducer: prefix scans return the first rows of what the reducer sees, the
  overlay refines direct writes to the database, applying its batch gives what it showed, and
  undoing the batch restores what was there.
\<close>

section \<open>Byte strings in order\<close>

lemma append_le_append [simp]: "q @ x \<le> q @ y \<longleftrightarrow> x \<le> (y :: bytes)"
  by (induction q) auto

lemma append_between:
  "q @ x \<le> k \<Longrightarrow> k < q @ y \<Longrightarrow> \<exists>r. k = q @ r \<and> x \<le> r \<and> r < (y :: bytes)"
proof (induction q arbitrary: k)
  case Nil
  then show ?case by simp
next
  case (Cons c q)
  then show ?case by (cases k) (auto dest: leD)
qed

lemma le_append [simp]: "(p :: bytes) \<le> p @ r"
  by (induction p) auto

lemma less_snoc_zero: "k < xs @ [0] \<longleftrightarrow> k \<le> (xs :: bytes)"
proof (induction xs arbitrary: k)
  case Nil
  then show ?case by (cases k) auto
next
  case (Cons x xs)
  then show ?case by (cases k) auto
qed

lemma starts_with_append: "starts_with p k \<longleftrightarrow> (\<exists>r. k = p @ r)"
  by (metis append_eq_conv_conj append_take_drop_id starts_with_def)

lemma byte_between: "b \<le> d \<Longrightarrow> d < saturating_add b 1 \<Longrightarrow> b \<noteq> word_max \<Longrightarrow> d = (b :: u8)"
  by (auto simp: word_nat unat_word_max)

lemma byte_succ: "b \<noteq> word_max \<Longrightarrow> b < saturating_add b (1 :: u8)"
  using unat_less_power [of b] by (auto simp: word_nat unat_word_max)

lemma word_max_le: "word_max \<le> d \<longleftrightarrow> d = (word_max :: u8)"
  using unat_less_power [of d] by (auto simp: word_nat unat_word_max)

lemma le_word_max [simp]: "d \<le> (word_max :: u8)"
  using unat_less_power [of d] by (auto simp: word_nat unat_word_max)

text \<open>The bound of a prefix is exact: the keys between the prefix and the bound start with it.\<close>

lemma prefix_upper_bound_exact:
  "p \<le> k \<and> below_bound (prefix_upper_bound p) k \<longleftrightarrow> starts_with p k"
proof (induction p rule: rev_induct)
  case Nil
  then show ?case by (simp add: prefix_upper_bound_def below_bound_def starts_with_def)
next
  case (snoc b q)
  show ?case
  proof (cases "b = word_max")
    case True
    have "q @ [b] \<le> k \<Longrightarrow> q \<le> k" by (rule order_trans [OF le_append])
    moreover have "[b] \<le> r \<longleftrightarrow> (\<exists>r'. r = b # r')" for r
    proof (cases r)
      case (Cons d l)
      have "\<not> word_max < d" by (simp add: not_less)
      with Cons True show ?thesis by auto
    qed simp
    ultimately show ?thesis
      using snoc True by (auto simp: prefix_upper_bound_def starts_with_append)
  next
    case False
    have "q @ [b] \<le> k \<and> k < q @ [saturating_add b 1] \<longleftrightarrow> (\<exists>r. k = q @ b # r)"
    proof
      assume k: "q @ [b] \<le> k \<and> k < q @ [saturating_add b 1]"
      then obtain r where r: "k = q @ r" "[b] \<le> r" "r < [saturating_add b 1]"
        using append_between by blast
      then show "\<exists>r. k = q @ b # r"
        using byte_between [OF _ _ False] by (cases r) (auto simp: order.order_iff_strict)
    next
      assume "\<exists>r. k = q @ b # r"
      then show "q @ [b] \<le> k \<and> k < q @ [saturating_add b 1]"
        using byte_succ [OF False] by (auto simp: append_less_append)
    qed
    then show ?thesis
      using False by (simp add: prefix_upper_bound_def below_bound_def starts_with_append)
  qed
qed

section \<open>Prefix scans\<close>

text \<open>What a scan should see: the committed rows under the prefix that the overlay does not
  touch, and the values the overlay holds.\<close>

definition put_some :: "(bytes, bytes option) table \<Rightarrow> (bytes, bytes) table \<Rightarrow> (bytes, bytes) table" where
  "put_some overlay t = foldl (\<lambda>t (k, v). case v of Some x \<Rightarrow> tput k x t | None \<Rightarrow> t) t overlay"

definition scan_view ::
  "(bytes, bytes) table \<Rightarrow> (bytes, bytes option) table \<Rightarrow> bytes \<Rightarrow> (bytes, bytes) table" where
  "scan_view rows overlay p =
     put_some overlay (filter (\<lambda>(k, _). starts_with p k \<and> map_of overlay k = None) rows)"

lemma put_some_simps [simp]:
  "put_some [] t = t"
  "put_some ((k, Some x) # overlay) t = put_some overlay (tput k x t)"
  "put_some ((k, None) # overlay) t = put_some overlay t"
  by (simp_all add: put_some_def)

lemma put_some_map:
  "distinct (map fst overlay) \<Longrightarrow> ordered t \<Longrightarrow>
    ordered (put_some overlay t) \<and> map_of (put_some overlay t) k =
      (case map_of overlay k of Some (Some x) \<Rightarrow> Some x | _ \<Rightarrow> map_of t k)"
proof (induction overlay arbitrary: t)
  case Nil
  then show ?case by simp
next
  case (Cons e overlay)
  obtain k' v where e: "e = (k', v)" by (cases e)
  have fresh: "map_of overlay k' = None" using Cons.prems(1) e by (simp add: map_of_eq_None_iff)
  show ?case
  proof (cases v)
    case None
    then show ?thesis using Cons fresh by (auto simp: e)
  next
    case (Some x)
    have "ordered (tput k' x t)" using Cons.prems by simp
    then show ?thesis using Cons.IH [of "tput k' x t"] Cons.prems fresh Some by (auto simp: e split: option.splits)
  qed
qed

lemma length_tput_fresh: "ordered t \<Longrightarrow> map_of t k = None \<Longrightarrow> length (tput k v t) = Suc (length t)"
  by (induction t) (auto simp: map_of_eq_None_iff split: if_splits)

lemma length_put_some:
  "distinct (map fst overlay) \<Longrightarrow> ordered t \<Longrightarrow> (\<forall>k \<in> fst ` set overlay. map_of t k = None) \<Longrightarrow>
    length (put_some overlay t) = length t + length (filter (\<lambda>(_, v). v \<noteq> None) overlay)"
proof (induction overlay arbitrary: t)
  case Nil
  then show ?case by simp
next
  case (Cons e overlay)
  obtain k' v where e: "e = (k', v)" by (cases e)
  show ?case
  proof (cases v)
    case None
    then show ?thesis using Cons by (simp add: e)
  next
    case (Some x)
    have "\<forall>k \<in> fst ` set overlay. map_of (tput k' x t) k = None"
      using Cons.prems by (auto simp: e)
    then show ?thesis
      using Cons.IH [of "tput k' x t"] Cons.prems Some by (simp add: e length_tput_fresh)
  qed
qed

lemma ordered_take [simp]: "ordered t \<Longrightarrow> ordered (take n t)"
  by (auto simp: ordered_def take_map dest: sorted_wrt_take)

lemma ordered_take_last:
  assumes "ordered t" "take n t \<noteq> []"
  shows "e \<in> set (take n t) \<longleftrightarrow> e \<in> set t \<and> fst e \<le> fst (last (take n t))"
proof -
  have s: "sorted_wrt (\<lambda>x y. fst x < fst y) (take n t @ drop n t)"
    using assms(1) by (simp add: ordered_def sorted_wrt_map)
  have "fst x \<le> fst (last (take n t))" if "x \<in> set (take n t)" for x
    using s that assms(2) by (cases "take n t" rule: rev_cases) (auto simp: sorted_wrt_append)
  moreover have "fst (last (take n t)) < fst x" if "x \<in> set (drop n t)" for x
    using s that last_in_set [OF assms(2)] unfolding sorted_wrt_append by blast
  ultimately show ?thesis
    by (metis Un_iff append_take_drop_id leD set_append)
qed

lemma merge_page_simps [simp]:
  "merge_page overlay [] t = t"
  "merge_page overlay ((k, v) # page) t =
     merge_page overlay page (if map_of overlay k = None then tput k v t else t)"
  by (simp_all add: merge_page_def)

lemma merge_page_map:
  "distinct (map fst page) \<Longrightarrow> ordered t \<Longrightarrow>
    ordered (merge_page overlay page t) \<and> map_of (merge_page overlay page t) k =
      (if map_of overlay k = None \<and> map_of page k \<noteq> None then map_of page k else map_of t k)"
proof (induction page arbitrary: t)
  case Nil
  then show ?case by simp
next
  case (Cons e page)
  obtain k' v where e: "e = (k', v)" by (cases e)
  have fresh: "map_of page k' = None" using Cons.prems(1) e by (simp add: map_of_eq_None_iff)
  show ?case
  proof (cases "map_of overlay k' = None")
    case True
    have "ordered (tput k' v t)" using Cons.prems by simp
    then show ?thesis using Cons.IH [of "tput k' v t"] Cons.prems fresh True by (auto simp: e)
  next
    case False
    then show ?thesis using Cons fresh by (auto simp: e)
  qed
qed

lemma guarded_option: "(\<And>v. a = Some v \<longleftrightarrow> c \<and> b = Some v) \<Longrightarrow> a = (if c then b else None)"
  by (cases a; cases b; cases c) auto

text \<open>The committed rows the loop has merged once it has read below a bound.\<close>

definition read_below ::
  "(bytes, bytes) table \<Rightarrow> (bytes, bytes option) table \<Rightarrow> bytes \<Rightarrow> (bytes \<Rightarrow> bool) \<Rightarrow> (bytes, bytes) table \<Rightarrow> bool"
  where
  "read_below rows overlay p B t =
     (ordered t \<and> (\<forall>k. map_of t k =
        (if starts_with p k \<and> B k \<and> map_of overlay k = None then map_of rows k else None)))"

lemma query_page_rows:
  assumes "ordered rows" "p \<le> lower"
  shows "ordered (query_page rows (prefix_upper_bound p) limit lower)"
    and "length (query_page rows (prefix_upper_bound p) limit lower) < limit \<Longrightarrow>
      map_of (query_page rows (prefix_upper_bound p) limit lower) k =
        (if lower \<le> k \<and> starts_with p k then map_of rows k else None)"
    and "query_page rows (prefix_upper_bound p) limit lower \<noteq> [] \<Longrightarrow>
      map_of (query_page rows (prefix_upper_bound p) limit lower) k =
        (if lower \<le> k \<and> starts_with p k \<and> k \<le> fst (last (query_page rows (prefix_upper_bound p) limit lower))
         then map_of rows k else None)"
proof -
  let ?P = "\<lambda>e. lower \<le> fst e \<and> below_bound (prefix_upper_bound p) (fst e)"
  let ?page = "query_page rows (prefix_upper_bound p) limit lower"
  have page: "?page = take limit (filter ?P rows)"
    by (simp add: query_page_def case_prod_unfold)
  have ord: "ordered (filter ?P rows)" using assms(1) by simp
  have in_range: "?P (k, v) \<longleftrightarrow> lower \<le> k \<and> starts_with p k" for k and v :: bytes
    using prefix_upper_bound_exact [of p k] assms(2) by (auto dest: order_trans)
  have full: "map_of (filter ?P rows) k = (if lower \<le> k \<and> starts_with p k then map_of rows k else None)" for k
    using map_of_filter_keys [of "\<lambda>k. lower \<le> k \<and> below_bound (prefix_upper_bound p) k" rows k] in_range [of k "[]"]
    by simp
  show "ordered ?page" using ord by (simp add: page)
  show "map_of ?page k = (if lower \<le> k \<and> starts_with p k then map_of rows k else None)"
    if "length ?page < limit" using that full [of k] by (simp add: page)
  show "map_of ?page k = (if lower \<le> k \<and> starts_with p k \<and> k \<le> fst (last ?page) then map_of rows k else None)"
    if ne: "?page \<noteq> []"
  proof -
    have "(k, v) \<in> set ?page \<longleftrightarrow> map_of (filter ?P rows) k = Some v \<and> k \<le> fst (last ?page)" for v
      using ordered_take_last [OF ord, of limit "(k, v)"] ne ordered_distinct [OF ord] by (simp add: page)
    moreover have "map_of ?page k = Some v \<longleftrightarrow> (k, v) \<in> set ?page" for v
      using ordered_distinct [of ?page] ord by (simp add: page)
    ultimately have "map_of ?page k = Some v \<longleftrightarrow>
        (lower \<le> k \<and> starts_with p k \<and> k \<le> fst (last ?page)) \<and> map_of rows k = Some v" for v
      using full [of k] by auto
    then show ?thesis by (rule guarded_option)
  qed
qed

lemma read_below_merge:
  assumes "read_below rows overlay p (\<lambda>k. k < lower) t" "ordered page"
    and "\<And>k. map_of page k = (if lower \<le> k \<and> starts_with p k \<and> B k then map_of rows k else None)"
    and "\<And>k. k < lower \<Longrightarrow> B k"
  shows "read_below rows overlay p B (merge_page overlay page t)"
proof -
  note m = merge_page_map [OF ordered_distinct [OF assms(2)], of t overlay]
  have t: "ordered t" using assms(1) by (simp add: read_below_def)
  have "map_of (merge_page overlay page t) k =
      (if starts_with p k \<and> B k \<and> map_of overlay k = None then map_of rows k else None)" for k
    using m [OF t, of k] assms(1,3,4) not_le [of lower k]
    by (cases "map_of rows k") (auto simp: read_below_def)
  then show ?thesis using m [OF t] by (simp add: read_below_def)
qed

lemma scan_loop_reads:
  assumes "ordered rows" "p \<le> lower" "read_below rows overlay p (\<lambda>k. k < lower) merged"
    and "scan_loop rows (prefix_upper_bound p) limit overlay lower merged = (t, through)"
  shows "case through of
      None \<Rightarrow> limit = 0 \<or> read_below rows overlay p (\<lambda>_. True) t
    | Some last_key \<Rightarrow> read_below rows overlay p (\<lambda>k. k \<le> last_key) t
        \<and> limit \<le> visible_count overlay t last_key"
  using assms
proof (induction rows "prefix_upper_bound p" limit overlay lower merged rule: scan_loop.induct)
  case (1 rows limit overlay lower merged)
  let ?page = "query_page rows (prefix_upper_bound p) limit lower"
  let ?m = "merge_page overlay ?page merged"
  note q = query_page_rows [OF "1.prems"(1,2), of limit]
  consider "length ?page < limit" | "limit = 0" | "?page \<noteq> []" "\<not> length ?page < limit"
    by fastforce
  then show ?case
  proof cases
    case 1
    have "read_below rows overlay p (\<lambda>_. True) ?m"
      using q(2) [OF 1] by (intro read_below_merge [OF "1.prems"(3) q(1)]) simp_all
    then show ?thesis using "1.prems"(4) 1 by (auto simp: scan_loop.simps Let_def)
  next
    case 2
    then show ?thesis using "1.prems"(4) by (auto simp: scan_loop.simps query_page_def Let_def)
  next
    case 3
    let ?last = "fst (last ?page)"
    have lower: "lower \<le> ?last"
      using query_page_set [of rows "prefix_upper_bound p" limit lower] last_in_set [OF 3(1)] by auto
    have m: "read_below rows overlay p (\<lambda>k. k \<le> ?last) ?m"
      by (rule read_below_merge [OF "1.prems"(3) q(1)]) (use q(3) [OF 3(1)] lower in auto)
    show ?thesis
    proof (cases "limit \<le> visible_count overlay ?m ?last")
      case True
      then show ?thesis using "1.prems"(4) 3 m by (auto simp: scan_loop.simps Let_def)
    next
      case False
      have "p \<le> ?last @ [0]" using "1.prems"(2) lower by (meson le_append order_trans)
      moreover have "read_below rows overlay p (\<lambda>k. k < ?last @ [0]) ?m"
        using m by (simp add: less_snoc_zero)
      moreover have "scan_loop rows (prefix_upper_bound p) limit overlay (?last @ [0]) ?m = (t, through)"
        using "1.prems"(4) 3 False by (simp add: scan_loop.simps [of _ _ _ _ lower] Let_def)
      ultimately show ?thesis
        using "1.hyps" [OF refl refl _ _ "1.prems"(1)] 3 False by auto
    qed
  qed
qed

lemma ordered_filter_prefix:
  assumes "ordered t"
  shows "filter (\<lambda>e. fst e \<le> b) t = takeWhile (\<lambda>e. fst e \<le> b) t"
  using assms
proof (induction t)
  case (Cons e t)
  show ?case
  proof (cases "fst e \<le> b")
    case False
    then have "filter (\<lambda>x. fst x \<le> b) t = []"
      using Cons.prems by (auto simp: filter_empty_conv)
    with False show ?thesis by simp
  qed (use Cons in simp)
qed simp

lemma scan_view_map:
  assumes "ordered rows" "ordered overlay"
  shows "ordered (scan_view rows overlay p)"
    and "map_of (scan_view rows overlay p) k =
      (case map_of overlay k of Some v \<Rightarrow> v | None \<Rightarrow> if starts_with p k then map_of rows k else None)"
proof -
  let ?base = "filter (\<lambda>e. starts_with p (fst e) \<and> map_of overlay (fst e) = None) rows"
  have v: "scan_view rows overlay p = put_some overlay ?base"
    by (simp add: scan_view_def case_prod_unfold)
  have base: "map_of ?base k = (if starts_with p k \<and> map_of overlay k = None then map_of rows k else None)" for k
    by (rule map_of_filter_keys [of "\<lambda>k. starts_with p k \<and> map_of overlay k = None"])
  note m = put_some_map [OF ordered_distinct [OF assms(2)] ordered_filter [OF assms(1)],
      of "\<lambda>e. starts_with p (fst e) \<and> map_of overlay (fst e) = None" k]
  show "ordered (scan_view rows overlay p)" using m by (simp add: v)
  show "map_of (scan_view rows overlay p) k =
      (case map_of overlay k of Some v \<Rightarrow> v | None \<Rightarrow> if starts_with p k then map_of rows k else None)"
    using m base [of k] by (simp add: v split: option.splits)
qed

text \<open>What the loop has read, with the overlay's values put over it, is the start of the view.\<close>

lemma read_below_view:
  assumes "ordered rows" "ordered overlay" "read_below rows overlay p B t"
  shows "put_some (filter (\<lambda>e. B (fst e)) overlay) t = filter (\<lambda>e. B (fst e)) (scan_view rows overlay p)"
proof (rule ordered_map_of_eq)
  let ?ov = "filter (\<lambda>e. B (fst e)) overlay"
  have t: "ordered t" using assms(3) by (simp add: read_below_def)
  have ov: "map_of ?ov k = (if B k then map_of overlay k else None)" for k
    by (rule map_of_filter_keys)
  note m = put_some_map [OF ordered_distinct [OF ordered_filter [OF assms(2)]] t, of "\<lambda>e. B (fst e)"]
  show "ordered (put_some ?ov t)" using m by blast
  show "ordered (filter (\<lambda>e. B (fst e)) (scan_view rows overlay p))"
    using scan_view_map(1) [OF assms(1,2)] by simp
  show "map_of (put_some ?ov t) = map_of (filter (\<lambda>e. B (fst e)) (scan_view rows overlay p))"
  proof
    fix k
    have "map_of t k = (if starts_with p k \<and> B k \<and> map_of overlay k = None then map_of rows k else None)"
      using assms(3) by (simp add: read_below_def)
    then show "map_of (put_some ?ov t) k = map_of (filter (\<lambda>e. B (fst e)) (scan_view rows overlay p)) k"
      using m [of k] ov [of k] scan_view_map(2) [OF assms(1,2), of p k]
        map_of_filter_keys [of B "scan_view rows overlay p" k]
      by (cases "B k"; cases "map_of overlay k") (simp_all split: option.splits)
  qed
qed

lemma put_some_fold:
  "foldl (\<lambda>t (k, v). case v of Some value \<Rightarrow> (if B k then tput k value t else t) | None \<Rightarrow> t) t os
    = put_some (filter (\<lambda>e. B (fst e)) os) t"
  by (induction os arbitrary: t) (auto simp: put_some_def split: option.splits)

lemma visible_count_view:
  assumes "ordered overlay" "read_below rows overlay p (\<lambda>k. k \<le> b) t"
  shows "visible_count overlay t b = length (put_some (filter (\<lambda>e. fst e \<le> b) overlay) t)"
proof -
  have "map_of t k = None" if "k \<in> fst ` set (filter (\<lambda>e. fst e \<le> b) overlay)" for k
  proof -
    have "k \<in> fst ` set overlay" using that by auto
    then have "map_of overlay k \<noteq> None" by (simp add: map_of_eq_None_iff)
    then show ?thesis using assms(2) by (auto simp: read_below_def)
  qed
  moreover have "ordered t" using assms(2) by (simp add: read_below_def)
  ultimately show ?thesis
    using length_put_some [OF ordered_distinct [OF ordered_filter [OF assms(1)]], of t "\<lambda>e. fst e \<le> b"]
    by (simp add: visible_count_def case_prod_unfold conj_commute)
qed

text \<open>A scan returns the first rows of what the reducer sees under the prefix, in key order.\<close>

lemma scan_merged_prefix_exact:
  assumes rows: "ordered rows" and overlay: "ordered overlay" and limit: "0 < limit" "limit < 2 ^ 63"
  shows "scan_merged_prefix rows p limit overlay = Ok (take limit (scan_view rows overlay p))"
proof -
  obtain t through where loop: "scan_loop rows (prefix_upper_bound p) limit overlay p [] = (t, through)"
    by fastforce
  have start: "read_below rows overlay p (\<lambda>k. k < p) []"
    using prefix_upper_bound_exact [of p] by (auto simp: read_below_def dest: leD)
  note reads = scan_loop_reads [OF rows order_refl start loop]
  define B where "B k = (case through of None \<Rightarrow> True | Some b \<Rightarrow> k \<le> b)" for k
  have t: "read_below rows overlay p B t"
    using reads limit(1) by (cases through) (simp_all add: B_def [abs_def])
  note same = read_below_view [OF rows overlay t]
  have "take limit (filter (\<lambda>e. B (fst e)) (scan_view rows overlay p)) = take limit (scan_view rows overlay p)"
  proof (cases through)
    case None
    then show ?thesis by (simp add: B_def)
  next
    case (Some b)
    have B: "B = (\<lambda>k. k \<le> b)" by (simp add: B_def fun_eq_iff Some)
    note prefix = ordered_filter_prefix [OF scan_view_map(1) [OF rows overlay], of b p]
    have "limit \<le> length (takeWhile (\<lambda>e. fst e \<le> b) (scan_view rows overlay p))"
      using reads visible_count_view [OF overlay, of rows p b t] same prefix by (simp add: Some B)
    then show ?thesis
      using prefix by (simp add: B) (metis takeWhile_eq_take take_take min_absorb1)
  qed
  then show ?thesis
    using limit(2) same put_some_fold [of B t overlay]
    by (simp add: scan_merged_prefix_def loop B_def [symmetric])
qed

section \<open>The overlay over the database\<close>

text \<open>
  What a map looks like through an overlay: \<open>tracks\<close> says that the overlay holds the values of
  the map as its before-images, \<open>seen\<close> is the map the reducer observes.
\<close>

definition tracks :: "('k::linorder \<Rightarrow> 'v) \<Rightarrow> ('k, 'v overlay_value) table \<Rightarrow> bool" where
  "tracks base t = (ordered t \<and> (\<forall>k e. map_of t k = Some e \<longrightarrow> ov_before e = base k))"

definition seen :: "('k::linorder \<Rightarrow> 'v) \<Rightarrow> ('k, 'v overlay_value) table \<Rightarrow> 'k \<Rightarrow> 'v" where
  "seen base t k = (case map_of t k of Some e \<Rightarrow> ov_after e | None \<Rightarrow> base k)"

named_theorems overlay \<open>loads and writes of overlay tables\<close>

lemma tracks_Nil [overlay]: "tracks base []"
  by (simp add: tracks_def)

lemma load_value_tracks [overlay]: "tracks base t \<Longrightarrow> tracks base (load_value k (base k) t)"
  by (auto simp: tracks_def load_value_def split: option.splits)

lemma load_value_seen [overlay]: "tracks base t \<Longrightarrow> seen base (load_value k (base k) t) = seen base t"
  by (auto simp: tracks_def load_value_def seen_def fun_eq_iff split: option.splits)

lemma load_value_after [overlay]:
  "tracks base t \<Longrightarrow> \<exists>e. map_of (load_value k (base k) t) k = Some e \<and> ov_after e = seen base t k"
  by (auto simp: tracks_def load_value_def seen_def split: option.splits)

lemma set_after_tracks [overlay]: "tracks base t \<Longrightarrow> tracks base (set_after k v t)"
  by (auto simp: tracks_def set_after_def split: option.splits)

lemma set_after_seen [overlay]:
  "tracks base t \<Longrightarrow> map_of t k \<noteq> None \<Longrightarrow> seen base (set_after k v t) = (seen base t)(k := v)"
  by (auto simp: tracks_def set_after_def seen_def fun_eq_iff split: option.splits)

lemma load_set_seen [overlay]:
  "tracks base t \<Longrightarrow> seen base (set_after k v (load_value k (base k) t)) = (seen base t)(k := v)"
  using load_value_after [of base t k] by (auto simp: set_after_seen load_value_tracks load_value_seen)

lemma load_set_tracks [overlay]: "tracks base t \<Longrightarrow> tracks base (set_after k v (load_value k (base k) t))"
  by (simp add: overlay)

lemma load_read [overlay]:
  "tracks base t \<Longrightarrow> Option.bind (map_of (load_value k (base k) t) k) ov_after = seen base t k"
  using load_value_after [of base t k] by auto

text \<open>The committed values of an instance, by table.\<close>

definition state_base :: "processor_db \<Rightarrow> string \<Rightarrow> string \<times> bytes \<Rightarrow> bytes option" where
  "state_base db i = (\<lambda>(ns, key). map_of (processor_state db) (i, ns, key))"

definition entity_base :: "processor_db \<Rightarrow> string \<Rightarrow> string \<times> bytes \<Rightarrow> bytes option" where
  "entity_base db i = (\<lambda>(collection, key). map_of (entities db) (i, collection, key))"

definition index_base :: "processor_db \<Rightarrow> string \<Rightarrow> string \<times> bytes \<times> bytes \<Rightarrow> bool" where
  "index_base db i = (\<lambda>(name, index_key, entity_key).
     map_of (entity_indexes db) (i, name, index_key, entity_key) \<noteq> None)"

definition overlay_ok :: "processor_db \<Rightarrow> reducer_overlay \<Rightarrow> bool" where
  "overlay_ok db ov =
     (tracks (state_base db (rv_instance ov)) (rv_state ov)
      \<and> tracks (entity_base db (rv_instance ov)) (rv_entities ov)
      \<and> tracks (index_base db (rv_instance ov)) (rv_indexes ov))"

definition state_view :: "processor_db \<Rightarrow> reducer_overlay \<Rightarrow> string \<times> bytes \<Rightarrow> bytes option" where
  "state_view db ov = seen (state_base db (rv_instance ov)) (rv_state ov)"

definition entity_view :: "processor_db \<Rightarrow> reducer_overlay \<Rightarrow> string \<times> bytes \<Rightarrow> bytes option" where
  "entity_view db ov = seen (entity_base db (rv_instance ov)) (rv_entities ov)"

definition index_view :: "processor_db \<Rightarrow> reducer_overlay \<Rightarrow> string \<times> bytes \<times> bytes \<Rightarrow> bool" where
  "index_view db ov = seen (index_base db (rv_instance ov)) (rv_indexes ov)"

lemmas views = overlay_ok_def state_view_def entity_view_def index_view_def

lemma stored_base:
  "map_of (processor_state db) (i, ns, key) = state_base db i (ns, key)"
  "map_of (entities db) (i, ns, key) = entity_base db i (ns, key)"
  "(map_of (entity_indexes db) (i, ns, key, ek) = Some u) = index_base db i (ns, key, ek)"
  by (simp_all add: state_base_def entity_base_def index_base_def)

text \<open>
  The contract of a store behind an overlay: reads return the observed map, writes and
  deletions change it at their key, and every operation keeps the representation.
\<close>

locale key_value =
  fixes get :: "'k \<Rightarrow> 's \<Rightarrow> 'v option \<times> 's"
    and put :: "'k \<Rightarrow> 'v \<Rightarrow> 's \<Rightarrow> 's"
    and del :: "'k \<Rightarrow> 's \<Rightarrow> 's"
    and view :: "'s \<Rightarrow> 'k \<Rightarrow> 'v option"
    and inv :: "'s \<Rightarrow> bool"
  assumes get_value: "inv s \<Longrightarrow> fst (get k s) = view s k"
    and get_view: "inv s \<Longrightarrow> view (snd (get k s)) = view s"
    and put_view: "inv s \<Longrightarrow> view (put k v s) = (view s)(k \<mapsto> v)"
    and del_view: "inv s \<Longrightarrow> view (del k s) = (view s)(k := None)"
    and get_inv: "inv s \<Longrightarrow> inv (snd (get k s))"
    and put_inv: "inv s \<Longrightarrow> inv (put k v s)"
    and del_inv: "inv s \<Longrightarrow> inv (del k s)"
begin

lemma read_own_write: "inv s \<Longrightarrow> fst (get k (put k v s)) = Some v"
  by (simp add: get_value put_inv put_view)

lemma read_own_delete: "inv s \<Longrightarrow> fst (get k (del k s)) = None"
  by (simp add: get_value del_inv del_view)

lemma read_unrelated: "inv s \<Longrightarrow> k \<noteq> k' \<Longrightarrow> fst (get k (put k' v s)) = fst (get k s)"
  by (simp add: get_value put_inv put_view)

lemma writes_view:
  "inv s \<Longrightarrow>
    inv (foldl (\<lambda>s (k, w). case w of Some v \<Rightarrow> put k v s | None \<Rightarrow> del k s) s ws)
    \<and> view (foldl (\<lambda>s (k, w). case w of Some v \<Rightarrow> put k v s | None \<Rightarrow> del k s) s ws)
      = foldl (\<lambda>m (k, w). m(k := w)) (view s) ws"
  by (induction ws arbitrary: s)
    (auto simp: put_inv del_inv put_view del_view split: option.splits)

end

interpretation reducer_state: key_value "\<lambda>(ns, key). state_get db ns key"
  "\<lambda>(ns, key). state_put db ns key" "\<lambda>(ns, key). state_delete db ns key" "state_view db" "overlay_ok db"
  for db
  by unfold_locales
    (auto simp: views state_get_def state_put_def state_delete_def load_state_def Let_def stored_base overlay)

interpretation reducer_entities: key_value "\<lambda>(c, key). entity_get db c key"
  "\<lambda>(c, key). entity_put db c key" "\<lambda>(c, key). entity_delete db c key" "entity_view db" "overlay_ok db"
  for db
  by unfold_locales
    (auto simp: views entity_get_def entity_put_def entity_delete_def load_entity_def Let_def stored_base overlay)

text \<open>What a reducer can do to its overlay during a block.\<close>

inductive reducer_step :: "processor_db \<Rightarrow> reducer_overlay \<Rightarrow> reducer_overlay \<Rightarrow> bool" for db where
  step_state_get: "state_get db ns key ov = (v, ov') \<Longrightarrow> reducer_step db ov ov'"
| step_state_put: "reducer_step db ov (state_put db ns key v ov)"
| step_state_delete: "reducer_step db ov (state_delete db ns key ov)"
| step_get: "entity_get db c key ov = (v, ov') \<Longrightarrow> reducer_step db ov ov'"
| step_put: "reducer_step db ov (entity_put db c key v ov)"
| step_delete: "reducer_step db ov (entity_delete db c key ov)"
| step_index_put: "reducer_step db ov (index_put db name ik ek ov)"
| step_index_delete: "reducer_step db ov (index_delete db name ik ek ov)"
| step_scan: "scan_prefix db c p limit ov = Ok (rows, ov') \<Longrightarrow> reducer_step db ov ov'"
| step_emit: "reducer_step db ov (emit change ov)"

lemma index_put_ok: "overlay_ok db ov \<Longrightarrow> overlay_ok db (index_put db name ik ek ov)"
  by (simp add: views index_put_def load_index_def Let_def stored_base overlay)

lemma index_delete_ok: "overlay_ok db ov \<Longrightarrow> overlay_ok db (index_delete db name ik ek ov)"
  by (simp add: views index_delete_def load_index_def Let_def stored_base overlay)

lemma reducer_step_ok:
  assumes "reducer_step db ov ov'" "overlay_ok db ov"
  shows "overlay_ok db ov' \<and> rv_instance ov' = rv_instance ov"
  using assms
proof (induction rule: reducer_step.induct)
  case (step_state_get ns key ov v ov')
  then show ?case
    using reducer_state.get_inv [of db ov "(ns, key)"]
    by (auto simp: state_get_def load_state_def Let_def)
next
  case (step_state_put ov ns key v)
  then show ?case
    using reducer_state.put_inv [of db ov "(ns, key)" v] by (simp add: state_put_def load_state_def Let_def)
next
  case (step_state_delete ov ns key)
  then show ?case
    using reducer_state.del_inv [of db ov "(ns, key)"] by (simp add: state_delete_def load_state_def Let_def)
next
  case (step_get c key ov v ov')
  then show ?case
    using reducer_entities.get_inv [of db ov "(c, key)"]
    by (auto simp: entity_get_def load_entity_def Let_def)
next
  case (step_put ov c key v)
  then show ?case
    using reducer_entities.put_inv [of db ov "(c, key)" v] by (simp add: entity_put_def load_entity_def Let_def)
next
  case (step_delete ov c key)
  then show ?case
    using reducer_entities.del_inv [of db ov "(c, key)"] by (simp add: entity_delete_def load_entity_def Let_def)
next
  case (step_index_put ov name ik ek)
  then show ?case
    using index_put_ok [of db ov] by (simp add: index_put_def load_index_def Let_def)
next
  case (step_index_delete ov name ik ek)
  then show ?case
    using index_delete_ok [of db ov] by (simp add: index_delete_def load_index_def Let_def)
next
  case (step_scan c p limit ov rows ov')
  then show ?case by (auto simp: scan_prefix_def views split: if_splits)
next
  case (step_emit ov change)
  then show ?case by (simp add: emit_def views)
qed

interpretation reducer_run: kept_invariant "reducer_step db" "\<lambda>ov. overlay_ok db ov \<and> rv_instance ov = i"
  for db i
  by unfold_locales (use reducer_step_ok in blast)

lemma overlay_new_ok: "overlay_ok db (overlay_new i)"
  by (simp add: views overlay_new_def overlay)

section \<open>Applying and undoing a batch\<close>

text \<open>
  One map for what the three tables hold: an index row is present with the empty value. A
  mutation is then an assignment at its target.
\<close>

datatype mutation_target =
  EntityAt string bytes
| IndexAt string bytes bytes
| StateAt string bytes

fun contents :: "processor_db \<Rightarrow> string \<Rightarrow> mutation_target \<Rightarrow> bytes option" where
  "contents db i (EntityAt c k) = map_of (entities db) (i, c, k)"
| "contents db i (IndexAt n ik ek) = map_option (\<lambda>_. []) (map_of (entity_indexes db) (i, n, ik, ek))"
| "contents db i (StateAt n k) = map_of (processor_state db) (i, n, k)"

fun target :: "mutation \<Rightarrow> mutation_target" where
  "target (EntityMutation c k _ _) = EntityAt c k"
| "target (IndexMutation n ik ek _ _) = IndexAt n ik ek"
| "target (StateMutation n k _ _) = StateAt n k"

fun mutation_value :: "bool \<Rightarrow> mutation \<Rightarrow> bytes option" where
  "mutation_value inverting (EntityMutation _ _ before after) = (if inverting then before else after)"
| "mutation_value inverting (IndexMutation _ _ _ before after) =
     (if (if inverting then before else after) then Some [] else None)"
| "mutation_value inverting (StateMutation _ _ before after) = (if inverting then before else after)"

fun is_state_mutation :: "mutation \<Rightarrow> bool" where
  "is_state_mutation (StateMutation _ _ _ _) = True"
| "is_state_mutation _ = False"

definition tables_ordered :: "processor_db \<Rightarrow> bool" where
  "tables_ordered db = (ordered (entities db) \<and> ordered (entity_indexes db)
     \<and> ordered (processor_state db) \<and> ordered (output_entity_meta db))"

definition assign :: "bool \<Rightarrow> mutation list \<Rightarrow> (mutation_target \<Rightarrow> bytes option) \<Rightarrow> mutation_target \<Rightarrow> bytes option" where
  "assign inverting ms f = foldl (\<lambda>f m. f(target m := mutation_value inverting m)) f ms"

text \<open>The sizes that the store can record for a block and the values it writes.\<close>

definition block_storable :: "block_ref \<Rightarrow> bool" where
  "block_storable b = (unat (number b) < 2 ^ 63 \<and> unat (timestamp b) < 2 ^ 63)"

definition value_storable :: "bool \<Rightarrow> mutation \<Rightarrow> bool" where
  "value_storable inverting m = (case mutation_value inverting m of None \<Rightarrow> True | Some v \<Rightarrow> length v < 2 ^ 63)"

lemma apply_mutation_contents:
  assumes "apply_mutation i inverting True b level now m db = (Ok db' :: (_, 'pe store_error) result)"
    and "tables_ordered db"
  shows "tables_ordered db'"
    and "contents db' j = (if j = i then (contents db i)(target m := mutation_value inverting m) else contents db j)"
proof -
  show "tables_ordered db'"
    using assms by (cases m)
      (auto simp: tables_ordered_def write_entity_def write_index_def write_state_def split: option.splits)
  have "contents db' j t = (if j = i then (contents db i)(target m := mutation_value inverting m) else contents db j) t" for t
    using assms by (cases m; cases t)
      (auto simp: tables_ordered_def write_entity_def write_index_def write_state_def split: option.splits)
  then show "contents db' j = (if j = i then (contents db i)(target m := mutation_value inverting m) else contents db j)"
    by (rule ext)
qed

lemma apply_each_contents:
  "apply_each i inverting True b level now ms db = (Ok db' :: (_, 'pe store_error) result) \<Longrightarrow> tables_ordered db \<Longrightarrow>
    tables_ordered db' \<and> contents db' j = (if j = i then assign inverting ms (contents db i) else contents db j)"
proof (induction ms arbitrary: db)
  case Nil
  then show ?case by (simp add: assign_def)
next
  case (Cons m ms)
  from Cons.prems(1) obtain db1 where
    m: "apply_mutation i inverting True b level now m db = (Ok db1 :: (_, 'pe store_error) result)"
    and ms: "apply_each i inverting True b level now ms db1 = (Ok db' :: (_, 'pe store_error) result)"
    by auto
  note c = apply_mutation_contents [OF m Cons.prems(2)]
  show ?case using Cons.IH [OF ms c(1)] c(2) [of i] c(2) [of j] by (auto simp: assign_def)
qed

lemma apply_each_retain:
  "apply_each i inverting retain b level now ms db =
    apply_each i inverting True b level now (filter (\<lambda>m. retain \<or> is_state_mutation m) ms) db"
proof (induction ms arbitrary: db)
  case (Cons m ms)
  have m: "apply_mutation i inverting retain b level now m db =
      (if retain \<or> is_state_mutation m then apply_mutation i inverting True b level now m db else Ok db)"
    by (cases m) simp_all
  show ?case
  proof (cases "retain \<or> is_state_mutation m")
    case True
    then show ?thesis by (auto simp: m Cons.IH and_then_def split: sum.splits)
  next
    case False
    then show ?thesis using Cons.IH [of db] by (cases m) simp_all
  qed
qed simp

lemma apply_mutation_total:
  assumes "block_storable b" "value_storable inverting m"
  shows "\<exists>db'. apply_mutation i inverting True b level now m db = (Ok db' :: (_, 'pe store_error) result)"
  using assms by (cases m; cases inverting)
    (auto simp: block_storable_def value_storable_def write_entity_def u64_i64_def usize_i64_def split: option.splits)

lemma apply_each_total:
  assumes "block_storable b" "\<forall>m \<in> set ms. value_storable inverting m"
  shows "\<exists>db'. apply_each i inverting True b level now ms db = (Ok db' :: (_, 'pe store_error) result)"
  using assms(2)
proof (induction ms arbitrary: db)
  case (Cons m ms)
  obtain db1 where "apply_mutation i inverting True b level now m db = (Ok db1 :: (_, 'pe store_error) result)"
    using apply_mutation_total [OF assms(1), of inverting m] Cons.prems by (meson list.set_intros(1))
  then show ?case using Cons by simp
qed simp

lemma assign_other: "t \<notin> target ` set ms \<Longrightarrow> assign inverting ms f t = f t"
  by (induction ms arbitrary: f) (auto simp: assign_def)

lemma assign_simps [simp]:
  "assign inverting [] f = f"
  "assign inverting (m # ms) f = assign inverting ms (f(target m := mutation_value inverting m))"
  by (simp_all add: assign_def)

lemma assign_override: "assign inverting ms f t =
    (if t \<in> target ` set ms then assign inverting ms (\<lambda>_. None) t else f t)"
proof (induction ms arbitrary: f)
  case (Cons m ms)
  show ?case
    using Cons.IH [of "f(target m := mutation_value inverting m)"]
      Cons.IH [of "(\<lambda>_. None)(target m := mutation_value inverting m)"]
    by (cases "t \<in> target ` set ms"; cases "t = target m") (simp_all add: fun_upd_def)
qed simp

lemma assign_member:
  "distinct (map target ms) \<Longrightarrow> m \<in> set ms \<Longrightarrow> assign inverting ms f (target m) = mutation_value inverting m"
proof (induction ms arbitrary: f)
  case (Cons n ms)
  then show ?case
    using assign_other [of "target n" ms inverting] by (auto simp: assign_def)
qed simp

text \<open>What the reducer sees, as one map; the targets it has changed.\<close>

fun full_view :: "processor_db \<Rightarrow> reducer_overlay \<Rightarrow> mutation_target \<Rightarrow> bytes option" where
  "full_view db ov (EntityAt c k) = entity_view db ov (c, k)"
| "full_view db ov (IndexAt n ik ek) = (if index_view db ov (n, ik, ek) then Some [] else None)"
| "full_view db ov (StateAt n k) = state_view db ov (n, k)"

lemma tracks_distinct: "tracks base t \<Longrightarrow> distinct (map fst (filter P t))"
  by (simp add: tracks_def ordered_distinct)

lemma tracks_member:
  "tracks base t \<Longrightarrow> (k, e) \<in> set t \<longleftrightarrow> map_of t k = Some e"
  by (simp add: tracks_def ordered_distinct)

lemma tracks_values:
  "tracks base t \<Longrightarrow> (k, e) \<in> set t \<Longrightarrow> ov_before e = base k \<and> ov_after e = seen base t k"
  using tracks_member [of base t k e] by (simp add: seen_def tracks_def)

lemma tracks_clean:
  assumes "tracks base t" "\<And>e. (k, e) \<in> set t \<Longrightarrow> ov_before e = ov_after e"
  shows "seen base t k = base k"
  using assms tracks_member [OF assms(1), of k]
  by (cases "map_of t k") (auto simp: seen_def tracks_def)

lemma batch_targets_distinct:
  assumes "overlay_ok db ov"
  shows "distinct (map target (mb_mutations (into_batch ov)))"
proof -
  have e: "map target (entity_mutations t) = map (\<lambda>(c, k). EntityAt c k) (map fst (filter (\<lambda>(_, v). ov_before v \<noteq> ov_after v) t))" for t
    by (auto simp: entity_mutations_def)
  have s: "map target (state_mutations t) = map (\<lambda>(c, k). StateAt c k) (map fst (filter (\<lambda>(_, v). ov_before v \<noteq> ov_after v) t))" for t
    by (auto simp: state_mutations_def)
  have i: "map target (index_mutations t) = map (\<lambda>(n, ik, ek). IndexAt n ik ek) (map fst (filter (\<lambda>(_, v). ov_before v \<noteq> ov_after v) t))" for t
    by (auto simp: index_mutations_def)
  have ok: "tracks (entity_base db (rv_instance ov)) (rv_entities ov)"
    "tracks (index_base db (rv_instance ov)) (rv_indexes ov)"
    "tracks (state_base db (rv_instance ov)) (rv_state ov)"
    using assms by (simp_all add: views)
  have "distinct (map target (entity_mutations (rv_entities ov)))"
    unfolding e using tracks_distinct [OF ok(1)] by (subst distinct_map) (auto simp: inj_on_def)
  moreover have "distinct (map target (index_mutations (rv_indexes ov)))"
    unfolding i using tracks_distinct [OF ok(2)] by (subst distinct_map) (auto simp: inj_on_def)
  moreover have "distinct (map target (state_mutations (rv_state ov)))"
    unfolding s using tracks_distinct [OF ok(3)] by (subst distinct_map) (auto simp: inj_on_def)
  ultimately show ?thesis
    by (auto simp: into_batch_def entity_mutations_def index_mutations_def state_mutations_def)
qed

lemma batch_values:
  assumes "overlay_ok db ov" "m \<in> set (mb_mutations (into_batch ov))"
  shows "mutation_value True m = contents db (rv_instance ov) (target m)"
    and "mutation_value False m = full_view db ov (target m)"
  using assms tracks_values [of "entity_base db (rv_instance ov)" "rv_entities ov"]
    tracks_values [of "index_base db (rv_instance ov)" "rv_indexes ov"]
    tracks_values [of "state_base db (rv_instance ov)" "rv_state ov"]
  by (auto simp: views into_batch_def entity_mutations_def index_mutations_def state_mutations_def
      entity_base_def index_base_def state_base_def)

lemma batch_untouched:
  assumes "overlay_ok db ov" "t \<notin> target ` set (mb_mutations (into_batch ov))"
  shows "full_view db ov t = contents db (rv_instance ov) t"
proof (cases t)
  case (EntityAt c k)
  have "ov_before e = ov_after e" if "((c, k), e) \<in> set (rv_entities ov)" for e
    using assms(2) that EntityAt by (force simp: into_batch_def entity_mutations_def image_iff)
  then have "entity_view db ov (c, k) = entity_base db (rv_instance ov) (c, k)"
    using assms(1) unfolding views by (intro tracks_clean) simp_all
  then show ?thesis using EntityAt by (simp add: entity_base_def)
next
  case (IndexAt n ik ek)
  have "ov_before e = ov_after e" if "((n, ik, ek), e) \<in> set (rv_indexes ov)" for e
    using assms(2) that IndexAt by (force simp: into_batch_def index_mutations_def image_iff)
  then have "index_view db ov (n, ik, ek) = index_base db (rv_instance ov) (n, ik, ek)"
    using assms(1) unfolding views by (intro tracks_clean) simp_all
  then show ?thesis
    using IndexAt by (cases "map_of (entity_indexes db) (rv_instance ov, n, ik, ek)") (simp_all add: index_base_def)
next
  case (StateAt n k)
  have "ov_before e = ov_after e" if "((n, k), e) \<in> set (rv_state ov)" for e
    using assms(2) that StateAt by (force simp: into_batch_def state_mutations_def image_iff)
  then have "state_view db ov (n, k) = state_base db (rv_instance ov) (n, k)"
    using assms(1) unfolding views by (intro tracks_clean) simp_all
  then show ?thesis using StateAt by (simp add: state_base_def)
qed

text \<open>
  Committing a batch: the instance then holds what the reducer saw (its working state only, when
  it keeps no output) and every other instance is as before.
\<close>

fun kept_target :: "bool \<Rightarrow> mutation_target \<Rightarrow> bool" where
  "kept_target retain (StateAt _ _) = True"
| "kept_target retain _ = retain"

lemma kept_target_mutation: "kept_target retain (target m) \<longleftrightarrow> retain \<or> is_state_mutation m"
  by (cases m) simp_all

lemma assign_kept:
  assumes "distinct (map target ms)"
    and "\<And>m. m \<in> set ms \<Longrightarrow> mutation_value inverting m = g (target m)"
    and "\<And>t. t \<notin> target ` set ms \<Longrightarrow> g t = f t"
  shows "assign inverting (filter (\<lambda>m. retain \<or> is_state_mutation m) ms) f t =
    (if kept_target retain t then g t else f t)"
proof -
  let ?ms = "filter (\<lambda>m. retain \<or> is_state_mutation m) ms"
  have d: "distinct (map target ?ms)" using assms(1) by (simp add: distinct_map_filter)
  show ?thesis
  proof (cases "t \<in> target ` set ?ms")
    case True
    then obtain m where m: "m \<in> set ?ms" "t = target m" by blast
    then show ?thesis
      using assign_member [OF d m(1)] assms(2) [of m] by (simp add: kept_target_mutation)
  next
    case False
    then have "assign inverting ?ms f t = f t" by (rule assign_other)
    moreover have "g t = f t" if "kept_target retain t"
      using False that by (intro assms(3)) (auto simp: kept_target_mutation)
    ultimately show ?thesis by simp
  qed
qed

lemma batch_applied:
  assumes "overlay_ok db ov" "tables_ordered db"
    and "apply_mutations (rv_instance ov) (mb_mutations (into_batch ov)) False retain b level now db
      = (Ok db' :: (_, 'pe store_error) result)"
  shows "tables_ordered db'"
    and "contents db' j t =
      (if j = rv_instance ov \<and> kept_target retain t then full_view db ov t else contents db j t)"
proof -
  let ?i = "rv_instance ov" and ?ms = "mb_mutations (into_batch ov)"
  let ?kept = "filter (\<lambda>m. retain \<or> is_state_mutation m) ?ms"
  have "apply_each ?i False True b level now ?kept db = (Ok db' :: (_, 'pe store_error) result)"
    using assms(3) unfolding apply_mutations_def if_False apply_each_retain [of ?i False retain] .
  note c = apply_each_contents [OF this assms(2)]
  show "tables_ordered db'" using c by blast
  have "assign False ?kept (contents db ?i) t =
      (if kept_target retain t then full_view db ov t else contents db ?i t)"
    by (rule assign_kept [OF batch_targets_distinct [OF assms(1)] batch_values(2) [OF assms(1)]
        batch_untouched [OF assms(1)]])
  then show "contents db' j t =
      (if j = ?i \<and> kept_target retain t then full_view db ov t else contents db j t)"
    using c [of j] by simp
qed

lemma contents_tables:
  assumes "tables_ordered db" "tables_ordered db'" "\<And>j. contents db j = contents db' j"
  shows "entities db = entities db'" "entity_indexes db = entity_indexes db'"
    "processor_state db = processor_state db'"
proof -
  have e: "map_of (entities db) k = map_of (entities db') k" for k
    using fun_cong [OF assms(3), of "fst k" "EntityAt (fst (snd k)) (snd (snd k))"] by simp
  have s: "map_of (processor_state db) k = map_of (processor_state db') k" for k
    using fun_cong [OF assms(3), of "fst k" "StateAt (fst (snd k)) (snd (snd k))"] by simp
  have i: "map_of (entity_indexes db) k = map_of (entity_indexes db') k" for k
    using fun_cong [OF assms(3), of "fst k" "IndexAt (fst (snd k)) (fst (snd (snd k))) (snd (snd (snd k)))"]
    by (cases "map_of (entity_indexes db) k"; cases "map_of (entity_indexes db') k") simp_all
  show "entities db = entities db'"
    using assms(1,2) e by (intro ordered_map_of_eq) (auto simp: tables_ordered_def)
  show "processor_state db = processor_state db'"
    using assms(1,2) s by (intro ordered_map_of_eq) (auto simp: tables_ordered_def)
  show "entity_indexes db = entity_indexes db'"
    using assms(1,2) i by (intro ordered_map_of_eq) (auto simp: tables_ordered_def)
qed

text \<open>
  Undoing a batch: on a store that holds what the batch left, the inverse mutations restore what
  the batch found, whatever block and level they are stamped with.
\<close>

lemma batch_undone:
  assumes "overlay_ok db ov" "tables_ordered db1"
    and "\<And>j t. contents db1 j t =
      (if j = rv_instance ov \<and> kept_target retain t then full_view db ov t else contents db j t)"
    and "apply_mutations (rv_instance ov) (mb_mutations (into_batch ov)) True retain b level now db1
      = (Ok db2 :: (_, 'pe store_error) result)"
  shows "tables_ordered db2" and "contents db2 j = contents db j"
proof -
  let ?i = "rv_instance ov" and ?ms = "rev (mb_mutations (into_batch ov))"
  let ?kept = "filter (\<lambda>m. retain \<or> is_state_mutation m) ?ms"
  have "apply_each ?i True True b level now ?kept db1 = (Ok db2 :: (_, 'pe store_error) result)"
    using assms(4) unfolding apply_mutations_def if_True apply_each_retain [of ?i True retain] .
  note c = apply_each_contents [OF this assms(2)]
  show "tables_ordered db2" using c by blast
  let ?g = "\<lambda>t. if t \<in> target ` set ?ms then contents db ?i t else contents db1 ?i t"
  have "assign True ?kept (contents db1 ?i) t = (if kept_target retain t then ?g t else contents db1 ?i t)" for t
  proof (rule assign_kept)
    show "distinct (map target ?ms)"
      using batch_targets_distinct [OF assms(1)] by (simp flip: rev_map)
  qed (use batch_values(1) [OF assms(1)] in simp_all)
  moreover have "?g t = contents db ?i t" if "kept_target retain t" for t
    using batch_untouched [OF assms(1), of t] assms(3) [of ?i t] that by simp
  ultimately have "assign True ?kept (contents db1 ?i) = contents db ?i"
    using assms(3) [of ?i] by (auto simp: fun_eq_iff)
  then show "contents db2 j = contents db j"
    using c [of j] assms(3) [of j] by (auto simp: fun_eq_iff)
qed

lemma batch_undo_total:
  assumes "overlay_ok db ov" "block_storable b"
    and "\<And>t v. contents db (rv_instance ov) t = Some v \<Longrightarrow> length v < 2 ^ 63"
  shows "\<exists>db2. apply_mutations (rv_instance ov) (mb_mutations (into_batch ov)) True retain b level now db1
      = (Ok db2 :: (_, 'pe store_error) result)"
proof -
  have "value_storable True m" if "m \<in> set (mb_mutations (into_batch ov))" for m
    using batch_values(1) [OF assms(1) that] assms(3) [of "target m"]
    by (auto simp: value_storable_def split: option.splits)
  then show ?thesis
    unfolding apply_mutations_def if_True apply_each_retain [of _ True retain]
    by (intro apply_each_total [OF assms(2)]) auto
qed

section \<open>Metadata of the output\<close>

text \<open>
  The rows of \<^verbatim>\<open>output_entity_meta\<close>: a write stamps the row with its block, a deletion removes it.
\<close>

fun stamped :: "block_ref \<Rightarrow> finality \<Rightarrow> int \<Rightarrow> bytes option \<Rightarrow> entity_meta option" where
  "stamped b level now (Some v) = Some \<lparr>em_block_number = number b, em_block_timestamp = timestamp b,
     em_finality = level, em_written_at_unix_ms = now, em_value_bytes = of_nat (length v)\<rparr>"
| "stamped b level now None = None"

lemma apply_mutation_meta:
  assumes "apply_mutation i inverting True b level now m db = (Ok db' :: (_, 'pe store_error) result)"
    and "tables_ordered db"
  shows "map_of (output_entity_meta db') (j, c, k) =
    (if j = i \<and> target m = EntityAt c k then stamped b level now (mutation_value inverting m)
     else map_of (output_entity_meta db) (j, c, k))"
  using assms by (cases m)
    (auto simp: tables_ordered_def write_entity_def write_index_def write_state_def split: option.splits)

lemma apply_each_meta:
  "apply_each i inverting True b level now ms db = (Ok db' :: (_, 'pe store_error) result) \<Longrightarrow> tables_ordered db \<Longrightarrow>
    map_of (output_entity_meta db') (j, c, k) =
      (if j = i \<and> EntityAt c k \<in> target ` set ms
       then stamped b level now (assign inverting ms (\<lambda>_. None) (EntityAt c k))
       else map_of (output_entity_meta db) (j, c, k))"
proof (induction ms arbitrary: db)
  case Nil
  then show ?case by simp
next
  case (Cons m ms)
  from Cons.prems(1) obtain db1 where
    m: "apply_mutation i inverting True b level now m db = (Ok db1 :: (_, 'pe store_error) result)"
    and ms: "apply_each i inverting True b level now ms db1 = (Ok db' :: (_, 'pe store_error) result)"
    by auto
  have "assign inverting (m # ms) (\<lambda>_. None) t =
      (if t \<in> target ` set ms then assign inverting ms (\<lambda>_. None) t
       else if t = target m then mutation_value inverting m else None)" for t
    using assign_override [of inverting ms "(\<lambda>_. None)(target m := mutation_value inverting m)" t]
    by (cases "t \<in> target ` set ms") simp_all
  then show ?case
    using Cons.IH [OF ms apply_mutation_contents(1) [OF m Cons.prems(2)]]
      apply_mutation_meta [OF m Cons.prems(2), of j c k] by auto
qed

text \<open>The images taken of a batch, as a map from entity keys.\<close>

definition images_map :: "entity_meta_image list \<Rightarrow> (string \<times> bytes, entity_meta) table" where
  "images_map imgs = map (\<lambda>img. ((ei_collection img, ei_key img), ei_meta img)) imgs"

lemma images_map_Nil [simp]: "images_map [] = []"
  by (simp add: images_map_def)

lemma images_map_Cons [simp]:
  "images_map (img # imgs) = ((ei_collection img, ei_key img), ei_meta img) # images_map imgs"
  by (simp add: images_map_def)

lemma images_map_keys: "set (map fst (images_map (entity_meta_images i ms db))) \<subseteq>
    {(c, k). EntityAt c k \<in> target ` set ms}"
proof (induction ms)
  case (Cons m ms)
  then show ?case
    by (cases m) (auto simp: entity_meta_images_def List.map_filter_simps split: option.splits)
qed (simp add: entity_meta_images_def List.map_filter_simps)

lemma images_of_batch:
  assumes "distinct (map target ms)"
  shows "distinct (map fst (images_map (entity_meta_images i ms db)))"
    and "map_of (images_map (entity_meta_images i ms db)) (c, k) =
      (if EntityAt c k \<in> target ` set ms \<and> assign True ms (\<lambda>_. None) (EntityAt c k) \<noteq> None
       then map_of (output_entity_meta db) (i, c, k) else None)"
proof -
  show "distinct (map fst (images_map (entity_meta_images i ms db)))"
    using assms
  proof (induction ms)
    case (Cons m ms)
    then show ?case
      using images_map_keys [of i ms db]
      by (cases m) (auto simp: entity_meta_images_def List.map_filter_simps split: option.splits)
  qed (simp add: entity_meta_images_def List.map_filter_simps)
  show "map_of (images_map (entity_meta_images i ms db)) (c, k) =
      (if EntityAt c k \<in> target ` set ms \<and> assign True ms (\<lambda>_. None) (EntityAt c k) \<noteq> None
       then map_of (output_entity_meta db) (i, c, k) else None)"
    using assms
  proof (induction ms)
    case Nil
    then show ?case by (simp add: entity_meta_images_def List.map_filter_simps)
  next
    case (Cons m ms)
    have split: "images_map (entity_meta_images i (m # ms) db) =
        images_map (entity_meta_images i [m] db) @ images_map (entity_meta_images i ms db)"
      by (simp add: entity_meta_images_def List.map_filter_simps images_map_def split: option.splits)
    have head: "map_of (images_map (entity_meta_images i [m] db)) (c, k) =
        (if target m = EntityAt c k \<and> mutation_value True m \<noteq> None
         then map_of (output_entity_meta db) (i, c, k) else None)"
      by (cases m) (auto simp: entity_meta_images_def List.map_filter_simps split: option.splits)
    have rest: "assign True (m # ms) (\<lambda>_. None) (EntityAt c k) =
        (if EntityAt c k \<in> target ` set ms then assign True ms (\<lambda>_. None) (EntityAt c k)
         else if EntityAt c k = target m then mutation_value True m else None)"
      using assign_override [of True ms "(\<lambda>_. None)(target m := mutation_value True m)" "EntityAt c k"]
      by (cases "EntityAt c k \<in> target ` set ms") simp_all
    show ?case
      using Cons head rest by (auto simp: split map_add_def split: option.splits)
  qed
qed

lemma restore_entity_metadata_effect:
  assumes "restore_entity_metadata i cov ft imgs db = (Ok db' :: (_, 'pe store_error) result)"
    and "tables_ordered db" "distinct (map fst (images_map imgs))"
  shows "tables_ordered db' \<and> contents db' = contents db \<and>
    map_of (output_entity_meta db') (j, c, k) =
      (if j = i \<and> map_of (output_entity_meta db) (j, c, k) \<noteq> None
       then case map_of (images_map imgs) (c, k) of
           None \<Rightarrow> map_of (output_entity_meta db) (j, c, k)
         | Some m \<Rightarrow> Some (m\<lparr>em_finality := image_finality cov ft m\<rparr>)
       else map_of (output_entity_meta db) (j, c, k))"
  using assms
proof (induction imgs arbitrary: db)
  case Nil
  then show ?case by simp
next
  case (Cons img imgs)
  let ?k = "(i, ei_collection img, ei_key img)"
  let ?m = "ei_meta img"
  define db1 where "db1 = (case map_of (output_entity_meta db) ?k of None \<Rightarrow> db
      | Some _ \<Rightarrow> db\<lparr>output_entity_meta := tput ?k (?m\<lparr>em_finality := image_finality cov ft ?m\<rparr>) (output_entity_meta db)\<rparr>)"
  have rest: "restore_entity_metadata i cov ft imgs db1 = (Ok db' :: (_, 'pe store_error) result)"
    using Cons.prems(1) by (auto simp: Let_def db1_def)
  have ord: "tables_ordered db1"
    using Cons.prems(2) by (auto simp: db1_def tables_ordered_def split: option.splits)
  have "contents db1 a t = contents db a t" for a t
    by (cases t) (auto simp: db1_def split: option.splits)
  then have same: "contents db1 = contents db" by (simp add: fun_eq_iff)
  have meta: "map_of (output_entity_meta db1) x = (if x = ?k \<and> map_of (output_entity_meta db) x \<noteq> None
      then Some (?m\<lparr>em_finality := image_finality cov ft ?m\<rparr>) else map_of (output_entity_meta db) x)" for x
    using Cons.prems(2) by (auto simp: db1_def tables_ordered_def split: option.splits)
  have fresh: "map_of (images_map imgs) (ei_collection img, ei_key img) = None"
    using Cons.prems(3) by (simp add: map_of_eq_None_iff)
  show ?case
    using Cons.IH [OF rest ord] Cons.prems(3) meta [of "(j, c, k)"] same fresh
    by (cases "(c, k) = (ei_collection img, ei_key img)") (auto split: option.splits)
qed

lemma batch_assigned:
  assumes "overlay_ok db ov" "t \<in> target ` set (mb_mutations (into_batch ov))"
  shows "assign True (mb_mutations (into_batch ov)) f t = contents db (rv_instance ov) t"
    and "assign True (rev (mb_mutations (into_batch ov))) f t = contents db (rv_instance ov) t"
proof -
  let ?ms = "mb_mutations (into_batch ov)"
  obtain m where m: "m \<in> set ?ms" "t = target m" using assms(2) by blast
  note d = batch_targets_distinct [OF assms(1)]
  have d': "distinct (map target (rev ?ms))" using d by (simp flip: rev_map)
  show "assign True ?ms f t = contents db (rv_instance ov) t"
    using assign_member [OF d m(1)] batch_values(1) [OF assms(1) m(1)] m(2) by simp
  show "assign True (rev ?ms) f t = contents db (rv_instance ov) t"
    using assign_member [OF d', of m] batch_values(1) [OF assms(1) m(1)] m by simp
qed

text \<open>
  A block applied and undone: the values are those of before, and the metadata of an entity that
  the block had changed is that of before, at the level its own block has reached since.
\<close>

lemma undo_restores_metadata:
  assumes ok: "overlay_ok db ov" and ord: "tables_ordered db"
    and rows: "\<And>c k. map_of (entities db) (rv_instance ov, c, k) = None \<longleftrightarrow>
      map_of (output_entity_meta db) (rv_instance ov, c, k) = None"
    and fwd: "apply_mutations (rv_instance ov) (mb_mutations (into_batch ov)) False True b level now db
      = (Ok db1 :: (_, 'pe store_error) result)"
    and inv: "apply_mutations (rv_instance ov) (mb_mutations (into_batch ov)) True True b level' now' db1
      = (Ok db2 :: (_, 'pe store_error) result)"
    and restore: "restore_entity_metadata (rv_instance ov) cov ft
        (entity_meta_images (rv_instance ov) (mb_mutations (into_batch ov)) db) db2
      = (Ok db3 :: (_, 'pe store_error) result)"
  shows "tables_ordered db3" and "contents db3 j = contents db j"
    and "map_of (output_entity_meta db3) (j, c, k) =
      (if j = rv_instance ov \<and> EntityAt c k \<in> target ` set (mb_mutations (into_batch ov))
       then map_option (\<lambda>m. m\<lparr>em_finality := image_finality cov ft m\<rparr>) (map_of (output_entity_meta db) (j, c, k))
       else map_of (output_entity_meta db) (j, c, k))"
proof -
  let ?i = "rv_instance ov" and ?ms = "mb_mutations (into_batch ov)" and ?t = "EntityAt c k"
  note applied = batch_applied [OF ok ord fwd]
  have undone: "tables_ordered db2" "contents db2 = contents db"
    using batch_undone [OF ok applied(1) _ inv] applied(2) by (simp_all add: fun_eq_iff)
  note images = images_of_batch [OF batch_targets_distinct [OF ok], of ?i db]
  note r = restore_entity_metadata_effect [OF restore undone(1) images(1), of j c k]
  show "tables_ordered db3" "contents db3 j = contents db j" using r undone(2) by simp_all
  have m1: "map_of (output_entity_meta db1) (j, c, k) = map_of (output_entity_meta db) (j, c, k)"
    if "\<not> (j = ?i \<and> ?t \<in> target ` set ?ms)"
    using apply_each_meta [OF fwd [unfolded apply_mutations_def if_False] ord, of j c k] that by auto
  have m2: "map_of (output_entity_meta db2) (j, c, k) = (if j = ?i \<and> ?t \<in> target ` set ?ms
      then stamped b level' now' (contents db ?i ?t) else map_of (output_entity_meta db) (j, c, k))"
    using apply_each_meta [OF inv [unfolded apply_mutations_def if_True] applied(1), of j c k] m1
      batch_assigned(2) [OF ok, of ?t "\<lambda>_. None"]
    by (cases "j = ?i \<and> ?t \<in> target ` set ?ms") (simp_all only: set_rev if_True if_False simp_thms)
  have im: "map_of (images_map (entity_meta_images ?i ?ms db)) (c, k) =
      (if ?t \<in> target ` set ?ms \<and> contents db ?i ?t \<noteq> None then map_of (output_entity_meta db) (?i, c, k) else None)"
    using images(2) [of c k] batch_assigned(1) [OF ok, of ?t "\<lambda>_. None"]
    by (cases "?t \<in> target ` set ?ms") (simp_all only: simp_thms if_False)
  show "map_of (output_entity_meta db3) (j, c, k) = (if j = ?i \<and> ?t \<in> target ` set ?ms
      then map_option (\<lambda>m. m\<lparr>em_finality := image_finality cov ft m\<rparr>) (map_of (output_entity_meta db) (j, c, k))
      else map_of (output_entity_meta db) (j, c, k))"
    using r m2 im rows [of c k]
    by (cases "?t \<in> target ` set ?ms"; cases "j = ?i"; cases "map_of (entities db) (?i, c, k)";
        cases "map_of (output_entity_meta db) (?i, c, k)") simp_all
qed

section \<open>Taking a batch from a live overlay\<close>

lemma settle_map:
  fixes t :: "('k, 'v overlay_value) table"
  shows "map_of (settle t) k = map_option (\<lambda>v. \<lparr>ov_before = ov_after v, ov_after = ov_after v\<rparr>) (map_of t k)"
proof -
  have "(if ov_before v \<noteq> ov_after v then v\<lparr>ov_before := ov_after v\<rparr> else v) =
      \<lparr>ov_before = ov_after v, ov_after = ov_after v\<rparr>" for v :: "'v overlay_value"
    by (cases v) simp
  then show ?thesis unfolding settle_def map_of_map_snd by (cases "map_of t k") simp_all
qed

lemma settle_tracks: "tracks base t \<Longrightarrow> tracks (seen base t) (settle t)"
  unfolding tracks_def settle_map by (auto simp: settle_def seen_def)

lemma settle_seen: "seen (seen base t) (settle t) = seen base t"
  by (rule ext) (simp add: seen_def settle_map split: option.splits)

text \<open>Once its batch is committed, the overlay tracks the new store and shows the same values.\<close>

lemma take_batch_commits:
  assumes ok: "overlay_ok db ov" and ord: "tables_ordered db"
    and take: "take_batch ov = (batch, ov')"
    and fwd: "apply_mutations (rv_instance ov) (mb_mutations batch) False True b level now db
      = (Ok db' :: (_, 'pe store_error) result)"
  shows "overlay_ok db' ov'" and "full_view db' ov' t = full_view db ov t"
proof -
  have batch: "batch = into_batch ov" using take by (simp add: take_batch_def)
  let ?i = "rv_instance ov"
  note c = batch_applied(2) [OF ok ord fwd [unfolded batch], of ?i]
  have e: "entity_base db' ?i = entity_view db ov"
  proof
    fix ck
    show "entity_base db' ?i ck = entity_view db ov ck"
      using c [of "EntityAt (fst ck) (snd ck)"] by (simp add: entity_base_def case_prod_unfold)
  qed
  have s: "state_base db' ?i = state_view db ov"
  proof
    fix nk
    show "state_base db' ?i nk = state_view db ov nk"
      using c [of "StateAt (fst nk) (snd nk)"] by (simp add: state_base_def case_prod_unfold)
  qed
  have x: "index_base db' ?i = index_view db ov"
  proof
    fix nie
    show "index_base db' ?i nie = index_view db ov nie"
      using c [of "IndexAt (fst nie) (fst (snd nie)) (snd (snd nie))"]
      by (cases "map_of (entity_indexes db') (?i, nie)")
        (simp_all add: index_base_def case_prod_unfold split: if_splits)
  qed
  have ov': "rv_instance ov' = ?i" "rv_entities ov' = settle (rv_entities ov)"
    "rv_indexes ov' = settle (rv_indexes ov)" "rv_state ov' = settle (rv_state ov)"
    using take by (auto simp: take_batch_def)
  show "overlay_ok db' ov'"
    using ok unfolding overlay_ok_def ov' e s x entity_view_def state_view_def index_view_def
    by (elim conjE) (intro conjI settle_tracks)
  have "entity_view db' ov' = entity_view db ov" "state_view db' ov' = state_view db ov"
    "index_view db' ov' = index_view db ov"
    unfolding entity_view_def [of db'] state_view_def [of db'] index_view_def [of db'] ov' e s x
    unfolding entity_view_def state_view_def index_view_def by (rule settle_seen)+
  then show "full_view db' ov' t = full_view db ov t"
    by (cases t) simp_all
qed

section \<open>Scans of the reducer\<close>

lemma ordered_scope:
  assumes "ordered t"
  shows "ordered (scope_rows t i s)" and "map_of (scope_rows t i s) k = map_of t (i, s, k)"
proof -
  have "ordered (scope_rows t i s) \<and> map_of (scope_rows t i s) k = map_of t (i, s, k)"
    using assms
  proof (induction t)
    case (Cons e t)
    have "fst ` set (scope_rows t i s) = {k. (i, s, k) \<in> fst ` set t}"
      by (force simp: scope_rows_def image_iff)
    with Cons show ?case
      by (cases e) (auto simp: scope_rows_def)
  qed (simp add: scope_rows_def)
  then show "ordered (scope_rows t i s)" "map_of (scope_rows t i s) k = map_of t (i, s, k)" by auto
qed

lemma ordered_overlay_rows:
  assumes "ordered t"
  shows "ordered (overlay_rows t s p)"
    and "map_of (overlay_rows t s p) k =
      (if starts_with p k then map_option ov_after (map_of t (s, k)) else None)"
proof -
  have "ordered (overlay_rows t s p) \<and> map_of (overlay_rows t s p) k =
      (if starts_with p k then map_option ov_after (map_of t (s, k)) else None)"
    using assms
  proof (induction t)
    case (Cons e t)
    have "fst ` set (overlay_rows t s p) = {k. starts_with p k \<and> (s, k) \<in> fst ` set t}"
      by (force simp: overlay_rows_def image_iff)
    with Cons show ?case
      by (cases e) (auto simp: overlay_rows_def)
  qed (simp add: overlay_rows_def)
  then show "ordered (overlay_rows t s p)" "map_of (overlay_rows t s p) k =
      (if starts_with p k then map_option ov_after (map_of t (s, k)) else None)" by auto
qed

text \<open>The rows a scan should see: ordered by key, with the values the reducer sees under the prefix.\<close>

definition rows_under :: "bytes \<Rightarrow> (bytes \<Rightarrow> bytes option) \<Rightarrow> (bytes, bytes) table \<Rightarrow> bool" where
  "rows_under p view rows =
     (ordered rows \<and> (\<forall>k. map_of rows k = (if starts_with p k then view k else None)))"

lemma rows_under_unique: "rows_under p view rows \<Longrightarrow> rows_under p view rows' \<Longrightarrow> rows = rows'"
  by (intro ordered_map_of_eq) (auto simp: rows_under_def fun_eq_iff)

lemma scan_merged_view:
  assumes "ordered t" "tracks base ov" "\<And>k. map_of t (i, s, k) = base (s, k)" "0 < limit" "limit \<le> 10000"
  shows "\<exists>rows. rows_under p (\<lambda>k. seen base ov (s, k)) rows
    \<and> scan_merged_prefix (scope_rows t i s) p limit (overlay_rows ov s p) = Ok (take limit rows)"
proof (intro exI conjI)
  have ov: "ordered ov" using assms(2) by (simp add: tracks_def)
  let ?rows = "scan_view (scope_rows t i s) (overlay_rows ov s p) p"
  note sc = ordered_scope [OF assms(1), of i s]
  note ovr = ordered_overlay_rows [OF ov, of s p]
  note v = scan_view_map [OF sc(1) ovr(1), of p]
  have "map_of ?rows k = (if starts_with p k then seen base ov (s, k) else None)" for k
    using v(2) [of k] ovr(2) [of k] sc(2) [of k] assms(3) [of k]
    by (cases "map_of ov (s, k)") (simp_all add: seen_def)
  then show "rows_under p (\<lambda>k. seen base ov (s, k)) ?rows"
    using v(1) by (simp add: rows_under_def)
  show "scan_merged_prefix (scope_rows t i s) p limit (overlay_rows ov s p) = Ok (take limit ?rows)"
    using assms(4,5) by (intro scan_merged_prefix_exact [OF sc(1) ovr(1)]) simp_all
qed

section \<open>Inverse changes\<close>

lemma invert_all_Ok:
  "invert_all f cs = Ok ds \<longleftrightarrow> list_all2 (\<lambda>c d. f c = Ok d) cs ds"
proof (induction cs arbitrary: ds)
  case (Cons c cs)
  then show ?case by (cases ds) auto
qed auto

lemma invert_all_Err:
  "invert_all f cs = Err e \<Longrightarrow> \<exists>c \<in> set cs. f c = Err e"
  by (induction cs) (auto simp: and_then_def split: sum.splits)

lemma filter_single: "length (filter P xs) = 1 \<Longrightarrow> \<exists>x. filter P xs = [x] \<and> x \<in> set xs \<and> P x"
  by (cases "filter P xs") (auto dest: filter_eq_ConsD)

text \<open>
  The inverse of a change: the prior value of the one mutation that the change announces, or a
  deletion of a key that the block created.
\<close>

definition restores :: "bytes option \<Rightarrow> domain_change \<Rightarrow> bool" where
  "restores before d = ((ch_operation d = Delete \<longleftrightarrow> before = None)
     \<and> ch_payload d = (case before of None \<Rightarrow> [] | Some v \<Rightarrow> v))"

lemma invert_change_sound:
  assumes "invert_change es ss c = (Ok d :: (_, 'pe store_error) result)"
  shows "ch_kind d = ch_kind c \<and> ch_key d = ch_key c
    \<and> (\<exists>before after. (ch_key c, before, after) \<in> set (es @ ss) \<and> restores before d)"
proof -
  define found where "found = (if filter (matches_change c) es = [] then filter (matches_change c) ss
    else filter (matches_change c) es)"
  define created where "created = filter (\<lambda>(key, before, after). key = ch_key c \<and> before = None \<and> after \<noteq> None) (es @ ss)"
  have member: "x \<in> set (es @ ss) \<and> matches_change c x" if "x \<in> set found" for x
    using that by (auto simp: found_def split: if_splits)
  have r: "(if found = [] \<and> ch_operation c = Upsert \<and> length created = 1
      then Ok \<lparr>ch_kind = ch_kind c, ch_key = ch_key c, ch_operation = Delete, ch_payload = []\<rparr>
      else if length found \<noteq> 1 then Err (StoreInvariant ''change has no single matching state mutation'')
      else Ok \<lparr>ch_kind = ch_kind c, ch_key = ch_key c,
             ch_operation = (if fst (snd (hd found)) \<noteq> None then Upsert else Delete),
             ch_payload = (case fst (snd (hd found)) of None \<Rightarrow> [] | Some v \<Rightarrow> v)\<rparr>)
      = (Ok d :: (_, 'pe store_error) result)"
    using assms unfolding invert_change_def Let_def found_def created_def .
  show ?thesis
  proof (cases "found = [] \<and> ch_operation c = Upsert \<and> length created = 1")
    case True
    then obtain x where "x \<in> set created" by (cases created) auto
    then obtain after where "(ch_key c, None, after) \<in> set (es @ ss)" by (auto simp: created_def)
    moreover have "d = \<lparr>ch_kind = ch_kind c, ch_key = ch_key c, ch_operation = Delete, ch_payload = []\<rparr>"
      using r True by simp
    ultimately show ?thesis by (force simp: restores_def)
  next
    case False
    then have one: "length found = 1" using r by (auto split: if_splits)
    then obtain key before after where f: "found = [(key, before, after)]"
      by (cases found) auto
    have "key = ch_key c" using member [of "(key, before, after)"] by (simp add: f matches_change_def)
    moreover have "d = \<lparr>ch_kind = ch_kind c, ch_key = ch_key c,
        ch_operation = (if before \<noteq> None then Upsert else Delete),
        ch_payload = (case before of None \<Rightarrow> [] | Some v \<Rightarrow> v)\<rparr>"
      using r False f by simp
    ultimately show ?thesis
      using member [of "(key, before, after)"] by (auto simp: f restores_def)
  qed
qed

lemma effects_of_mutations:
  "(key, before, after) \<in> set (List.map_filter entity_effect ms @ List.map_filter state_effect ms) \<longleftrightarrow>
    (\<exists>scope. EntityMutation scope key before after \<in> set ms \<or> StateMutation scope key before after \<in> set ms)"
proof (induction ms)
  case (Cons m ms)
  then show ?case by (cases m) (auto simp: List.map_filter_simps)
qed (simp add: List.map_filter_simps)

text \<open>The undo record's changes: one for each change of the batch, last first, to its prior value.\<close>

lemma build_inverse_changes_sound:
  assumes "build_inverse_changes batch = (Ok ds :: (_, 'pe store_error) result)"
  shows "list_all2 (\<lambda>c d. ch_kind d = ch_kind c \<and> ch_key d = ch_key c
      \<and> (\<exists>scope before after. (EntityMutation scope (ch_key c) before after \<in> set (mb_mutations batch)
            \<or> StateMutation scope (ch_key c) before after \<in> set (mb_mutations batch))
          \<and> restores before d))
    (rev (mb_changes batch)) ds"
proof -
  let ?ms = "mb_mutations batch"
  have "list_all2 (\<lambda>c d. invert_change (List.map_filter entity_effect ?ms) (List.map_filter state_effect ?ms) c
      = (Ok d :: (_, 'pe store_error) result)) (rev (mb_changes batch)) ds"
    using assms by (simp add: build_inverse_changes_def invert_all_Ok)
  then show ?thesis
  proof (rule list_all2_mono)
    fix c d
    assume "invert_change (List.map_filter entity_effect ?ms) (List.map_filter state_effect ?ms) c
      = (Ok d :: (_, 'pe store_error) result)"
    from invert_change_sound [OF this] show "ch_kind d = ch_kind c \<and> ch_key d = ch_key c
      \<and> (\<exists>scope before after. (EntityMutation scope (ch_key c) before after \<in> set ?ms
            \<or> StateMutation scope (ch_key c) before after \<in> set ?ms) \<and> restores before d)"
      using effects_of_mutations [of "ch_key c" _ _ ?ms] by blast
  qed
qed

section \<open>A block applied and undone\<close>

text \<open>
  What the store keeps of an instance's output: every entity row has its metadata row, and sizes
  and heights are those that fit a column.
\<close>

definition output_ok :: "processor_db \<Rightarrow> string \<Rightarrow> bool" where
  "output_ok db i =
     ((\<forall>c k. map_of (entities db) (i, c, k) = None \<longleftrightarrow> map_of (output_entity_meta db) (i, c, k) = None)
      \<and> (\<forall>t v. contents db i t = Some v \<longrightarrow> length v < 2 ^ 63)
      \<and> (\<forall>c k m. map_of (output_entity_meta db) (i, c, k) = Some m \<longrightarrow>
           unat (em_block_number m) < 2 ^ 63 \<and> unat (em_block_timestamp m) < 2 ^ 63
           \<and> unat (em_value_bytes m) < 2 ^ 63))"

lemma restore_total:
  assumes "\<forall>img \<in> set imgs. unat (em_block_number (ei_meta img)) < 2 ^ 63
      \<and> unat (em_block_timestamp (ei_meta img)) < 2 ^ 63 \<and> unat (em_value_bytes (ei_meta img)) < 2 ^ 63"
  shows "\<exists>db'. restore_entity_metadata i cov ft imgs db = (Ok db' :: (_, 'pe store_error) result)"
  using assms
proof (induction imgs arbitrary: db)
  case (Cons img imgs)
  then show ?case by (simp add: Let_def u64_i64_def)
qed simp

lemma images_stored:
  assumes "img \<in> set (entity_meta_images i ms db)"
  shows "\<exists>c k. map_of (output_entity_meta db) (i, c, k) = Some (ei_meta img)"
proof -
  have "\<exists>m \<in> set ms. img \<in> set (entity_meta_images i [m] db)"
    using assms by (induction ms) (auto simp: entity_meta_images_def List.map_filter_simps split: option.splits)
  then obtain m where "img \<in> set (entity_meta_images i [m] db)" by blast
  then have "map_of (output_entity_meta db) (i, ei_collection img, ei_key img) = Some (ei_meta img)"
    by (cases m) (auto simp: entity_meta_images_def List.map_filter_simps split: option.splits)
  then show ?thesis by blast
qed

lemma reducer_run_ok:
  assumes "(reducer_step db)\<^sup>*\<^sup>* (overlay_new i) ov"
  shows "overlay_ok db ov" "rv_instance ov = i"
proof -
  have "rv_instance (overlay_new i) = i" by (simp add: overlay_new_def)
  then have "overlay_ok db ov \<and> rv_instance ov = i"
    using overlay_new_ok by (intro reducer_run.run_keeps [OF assms]) simp
  then show "overlay_ok db ov" "rv_instance ov = i" by simp_all
qed

lemma batch_apply_total:
  assumes "overlay_ok db ov" "block_storable b"
    and "\<And>t v. full_view db ov t = Some v \<Longrightarrow> length v < 2 ^ 63"
  shows "\<exists>db'. apply_mutations (rv_instance ov) (mb_mutations (into_batch ov)) False retain b level now db
      = (Ok db' :: (_, 'pe store_error) result)"
proof -
  have "value_storable False m" if "m \<in> set (mb_mutations (into_batch ov))" for m
    using batch_values(2) [OF assms(1) that] assms(3) [of "target m"]
    by (auto simp: value_storable_def split: option.splits)
  then show ?thesis
    unfolding apply_mutations_def if_False apply_each_retain [of _ False retain]
    by (intro apply_each_total [OF assms(2)]) auto
qed

end
