(* ===== verification/Delivery.thy ===== *)
theory Delivery
  imports Deltas Descriptors Canonical_Store
begin

text \<open>
  Durable delivery, \<^verbatim>\<open>crates/store-sqlite/src/lib.rs\<close>: the change log with its streams, the changes
  parked until finality, durable consumers with their leases and acknowledgements, pages of changes,
  and the pruning of acknowledged changes. Sequence numbers are the non-negative values of their
  columns: a number enters a column only below \<open>2 ^ 63\<close>. The clock is the argument \<open>now\<close>.
\<close>

section \<open>Tables\<close>

datatype consumer_role = RoleRequired | RoleBestEffort

datatype delivery_stream_kind = StreamCanonical | StreamLive | StreamBackfill

datatype delivery_origin_kind = OriginLive | OriginLiveRecovery | OriginHistoricalBackfill | OriginRecompute

datatype change_direction = DirectionApply | DirectionUndo | DirectionFinalized | DirectionResetRequired

datatype processor_run_state = RunRunning | RunPaused | RunFailed

record delivery_origin =
  og_kind :: delivery_origin_kind
  og_id :: string
  og_publication_revision :: u64

definition origin_live :: "string \<Rightarrow> delivery_origin" where
  "origin_live instance_id = \<lparr>og_kind = OriginLive, og_id = instance_id, og_publication_revision = 0\<rparr>"

definition origin_live_recovery :: "string \<Rightarrow> delivery_origin" where
  "origin_live_recovery instance_id =
     \<lparr>og_kind = OriginLiveRecovery, og_id = instance_id, og_publication_revision = 0\<rparr>"

record change_row =
  cl_physical :: nat
  cl_encoding_version :: nat
  cl_chain_id :: chain_id
  cl_instance :: string
  cl_origin :: delivery_origin
  cl_block :: block_ref
  cl_finality :: finality
  cl_direction :: change_direction
  cl_change :: domain_change
  cl_created :: int

record stream_row =
  sr_instance :: string
  sr_kind :: delivery_stream_kind
  sr_next_sequence :: nat
  sr_pruned_through :: nat
  sr_live_bytes :: int

record consumer_row =
  cr_instance :: string
  cr_role :: consumer_role
  cr_state :: consumer_state
  cr_acknowledged :: nat
  cr_delivered :: nat
  cr_work_blocks :: nat
  cr_ttl_ms :: int
  cr_expires :: int
  cr_generation :: nat
  cr_created :: int
  cr_updated :: int
  cr_credential :: "bytes option"

text \<open>A parked row holds its block, origin, changes and sinks decoded.\<close>

record deferred_row =
  df_instance :: string
  df_stream :: string
  df_chain_id :: chain_id
  df_block :: block_ref
  df_origin :: delivery_origin
  df_changes :: "domain_change list"
  df_sinks :: "string list"
  df_bytes :: u64

record delivery_db =
  delivery_streams :: "(string, stream_row) table"
  change_log :: "(string \<times> nat, change_row) table"
  last_rowid :: nat
  sink_outbox :: "(string \<times> nat, unit) table"
  durable_consumers :: "(string \<times> string, consumer_row) table"
  runtime_state :: "(string, processor_run_state \<times> string option) table"
  deferred_changes :: "(nat, deferred_row) table"

text \<open>The retained rows of a stream in sequence order, and its first and last sequence.\<close>

definition stream_rows :: "delivery_db \<Rightarrow> string \<Rightarrow> (nat, change_row) table" where
  "stream_rows db stream =
     map (\<lambda>((_, n), r). (n, r)) (filter (\<lambda>((s, _), _). s = stream) (change_log db))"

definition first_sequence :: "(nat, change_row) table \<Rightarrow> nat option" where
  "first_sequence rows = (case rows of [] \<Rightarrow> None | e # _ \<Rightarrow> Some (fst e))"

definition last_sequence :: "(nat, change_row) table \<Rightarrow> nat option" where
  "last_sequence rows = (if rows = [] then None else Some (fst (last rows)))"

definition fetch_stream :: "delivery_db \<Rightarrow> string \<Rightarrow> (stream_row, 'pe store_error) result" where
  "fetch_stream db stream = ok_or (map_of (delivery_streams db) stream) (Sqlx ''no row'')"

definition validate_delivery_stream :: "delivery_db \<Rightarrow> string \<Rightarrow> string \<Rightarrow> (unit, 'pe store_error) result" where
  "validate_delivery_stream db instance_id stream =
     (case map_of (delivery_streams db) stream of
        Some s \<Rightarrow>
          if sr_instance s = instance_id then Ok ()
          else Err (StoreInvalidConfig ''delivery stream belongs to another processor'')
      | None \<Rightarrow> Err (StoreInvalidConfig ''delivery stream does not exist''))"

section \<open>Publishing changes\<close>

definition change_bytes :: "domain_change \<Rightarrow> nat" where
  "change_bytes c = length (ch_key c) + length (ch_payload c)"

definition BACKFILL_COMPLETE :: string where
  "BACKFILL_COMPLETE = ''system.backfill_complete''"

definition BACKFILL_PROGRESS :: string where
  "BACKFILL_PROGRESS = ''system.backfill_progress''"

text \<open>
  The insertion of a row fails on the unique indexes of the log: one row for each sequence of a
  stream, and one completion row for each stream.
\<close>

definition insert_change ::
  "string \<Rightarrow> nat \<Rightarrow> change_row \<Rightarrow> delivery_db \<Rightarrow> (delivery_db, 'pe store_error) result" where
  "insert_change stream n row db =
     (if map_of (change_log db) (stream, n) \<noteq> None
         \<or> ch_kind (cl_change row) = BACKFILL_COMPLETE
           \<and> list_ex (\<lambda>(_, r). ch_kind (cl_change r) = BACKFILL_COMPLETE) (stream_rows db stream)
      then Err (Sqlx ''unique constraint'')
      else Ok (db\<lparr>change_log := tput (stream, n) row (change_log db), last_rowid := cl_physical row\<rparr>))"

fun insert_outbox :: "nat \<Rightarrow> string list \<Rightarrow> delivery_db \<Rightarrow> (delivery_db, 'pe store_error) result" where
  "insert_outbox physical [] db = Ok db"
| "insert_outbox physical (sink # sinks) db =
     (if map_of (sink_outbox db) (sink, physical) \<noteq> None then Err (Sqlx ''unique constraint'')
      else insert_outbox physical sinks
        (db\<lparr>sink_outbox := tput (sink, physical) () (sink_outbox db)\<rparr>))"

text \<open>The loop over the changes; the template row carries what all rows of the call share.\<close>

fun append_loop ::
  "string \<Rightarrow> change_row \<Rightarrow> string list \<Rightarrow> domain_change list \<Rightarrow> nat \<Rightarrow> nat \<Rightarrow> (nat \<times> nat) option \<Rightarrow> delivery_db
    \<Rightarrow> (nat \<times> nat \<times> (nat \<times> nat) option \<times> delivery_db, 'pe store_error) result" where
  "append_loop stream template sinks [] next bytes sequences db = Ok (next, bytes, sequences, db)"
| "append_loop stream template sinks (c # cs) next bytes sequences db =
     (if \<not> change_bytes c < 2 ^ 64 \<or> \<not> bytes + change_bytes c < 2 ^ 64
      then Err (Numeric ''appended delivery change bytes'')
      else
       and_then (u64_i64 (cl_chain_id template) ''chain_id'') (\<lambda>_.
       and_then (u64_i64 (og_publication_revision (cl_origin template)) ''publication revision'') (\<lambda>_.
       and_then (u64_i64 (number (cl_block template)) ''block_number'') (\<lambda>_.
       and_then (u64_i64 (timestamp (cl_block template)) ''block_timestamp'') (\<lambda>_.
       and_then (insert_change stream next
         (template\<lparr>cl_physical := Suc (last_rowid db), cl_change := c\<rparr>) db) (\<lambda>db1.
       if \<not> next + 1 < 2 ^ 63 then Err (Numeric ''next stream change sequence'')
       else
         and_then (insert_outbox (last_rowid db1) sinks db1) (\<lambda>db2.
         append_loop stream template sinks cs (next + 1) (bytes + change_bytes c)
           (Some (case sequences of None \<Rightarrow> next | Some (first, _) \<Rightarrow> first, next)) db2)))))))"

definition advance_stream ::
  "string \<Rightarrow> nat \<Rightarrow> nat \<Rightarrow> delivery_db \<Rightarrow> (delivery_db, 'pe store_error) result" where
  "advance_stream stream next bytes db =
     (case map_of (delivery_streams db) stream of
        None \<Rightarrow> Ok db
      | Some t \<Rightarrow>
          if \<not> sr_live_bytes t + int bytes < 2 ^ 63 then Err (Sqlx ''datatype mismatch'')
          else Ok (db\<lparr>delivery_streams := tput stream
             (t\<lparr>sr_next_sequence := next, sr_live_bytes := sr_live_bytes t + int bytes\<rparr>)
             (delivery_streams db)\<rparr>))"

definition append_changes ::
  "int \<Rightarrow> string \<Rightarrow> string \<Rightarrow> delivery_origin \<Rightarrow> chain_id \<Rightarrow> block_ref \<Rightarrow> finality \<Rightarrow> change_direction
    \<Rightarrow> domain_change list \<Rightarrow> string list \<Rightarrow> delivery_db
    \<Rightarrow> ((nat \<times> nat) option \<times> delivery_db, 'pe store_error) result" where
  "append_changes now instance_id stream origin c b level direction changes sinks db =
     and_then (fetch_stream db stream) (\<lambda>s.
     and_then (append_loop stream
       \<lparr>cl_physical = 0, cl_encoding_version = 1, cl_chain_id = c, cl_instance = instance_id,
        cl_origin = origin, cl_block = b, cl_finality = level, cl_direction = direction,
        cl_change = \<lparr>ch_kind = '''', ch_key = [], ch_operation = Upsert, ch_payload = []\<rparr>,
        cl_created = now\<rparr> sinks changes (sr_next_sequence s) 0 None db) (\<lambda>(next, bytes, sequences, db1).
     if changes = [] then Ok (sequences, db1)
     else
       and_then (usize_i64 bytes ''appended delivery change bytes'') (\<lambda>_.
       and_then (advance_stream stream next bytes db1) (\<lambda>db2.
       Ok (sequences, db2)))))"

section \<open>Changes parked until finality\<close>

definition DEFERRED_FLUSH_BATCH :: nat where
  "DEFERRED_FLUSH_BATCH = 256"

text \<open>The rows of one round: those through the height, by block and then by row, at most a batch.\<close>

definition deferred_through :: "delivery_db \<Rightarrow> string \<Rightarrow> block_number \<Rightarrow> (nat \<times> deferred_row) list" where
  "deferred_through db instance_id through =
     sort_key (\<lambda>(n, r). (number (df_block r), n))
       (filter (\<lambda>(_, r). df_instance r = instance_id \<and> number (df_block r) \<le> through) (deferred_changes db))"

fun release_rows ::
  "int \<Rightarrow> string \<Rightarrow> finality \<Rightarrow> (nat \<times> deferred_row) list \<Rightarrow> delivery_db
    \<Rightarrow> (delivery_db, 'pe store_error) result" where
  "release_rows now instance_id level [] db = Ok db"
| "release_rows now instance_id level ((n, r) # rows) db =
     and_then (append_changes now instance_id (df_stream r) (df_origin r) (df_chain_id r) (df_block r) level
         DirectionApply (df_changes r) (df_sinks r) db) (\<lambda>(_, db1).
     release_rows now instance_id level rows
       (db1\<lparr>deferred_changes := tdel n (deferred_changes db1)\<rparr>))"

lemma insert_change_deferred:
  "insert_change stream n row db = (Ok db' :: (_, 'pe store_error) result) \<Longrightarrow>
    deferred_changes db' = deferred_changes db"
  by (auto simp: insert_change_def split: if_splits)

lemma insert_outbox_deferred:
  "insert_outbox physical sinks db = (Ok db' :: (_, 'pe store_error) result) \<Longrightarrow>
    deferred_changes db' = deferred_changes db"
  by (induction sinks arbitrary: db) (auto split: if_splits)

lemma append_loop_Cons:
  assumes "append_loop stream template sinks (c # cs) n bytes sequences db
      = (Ok r :: (_, 'pe store_error) result)"
  obtains db1 db2 where
    "insert_change stream n (template\<lparr>cl_physical := Suc (last_rowid db), cl_change := c\<rparr>) db
      = (Ok db1 :: (_, 'pe store_error) result)"
    "insert_outbox (last_rowid db1) sinks db1 = (Ok db2 :: (_, 'pe store_error) result)"
    "append_loop stream template sinks cs (n + 1) (bytes + change_bytes c)
      (Some (case sequences of None \<Rightarrow> n | Some (first, _) \<Rightarrow> first, n)) db2 = (Ok r :: (_, 'pe store_error) result)"
    "n + 1 < 2 ^ 63" "bytes + change_bytes c < 2 ^ 64"
  using assms by (auto simp: if_Err_eq_Ok)

lemma append_loop_deferred:
  "append_loop stream template sinks cs n bytes sequences db
      = (Ok (n', bytes', sequences', db') :: (_, 'pe store_error) result) \<Longrightarrow>
    deferred_changes db' = deferred_changes db"
proof (induction cs arbitrary: n bytes sequences db)
  case (Cons c cs)
  from Cons.prems obtain db1 db2 where
    "insert_change stream n (template\<lparr>cl_physical := Suc (last_rowid db), cl_change := c\<rparr>) db
      = (Ok db1 :: (_, 'pe store_error) result)"
    "insert_outbox (last_rowid db1) sinks db1 = (Ok db2 :: (_, 'pe store_error) result)"
    "append_loop stream template sinks cs (n + 1) (bytes + change_bytes c)
      (Some (case sequences of None \<Rightarrow> n | Some (first, _) \<Rightarrow> first, n)) db2
      = (Ok (n', bytes', sequences', db') :: (_, 'pe store_error) result)"
    by (rule append_loop_Cons)
  then show ?case by (metis Cons.IH insert_change_deferred insert_outbox_deferred)
qed simp

lemma append_changes_deferred:
  "append_changes now i stream origin c b level direction changes sinks db
      = (Ok (sequences, db') :: (_, 'pe store_error) result) \<Longrightarrow>
    deferred_changes db' = deferred_changes db"
  by (auto simp: append_changes_def advance_stream_def dest!: append_loop_deferred split: if_splits option.splits)

lemma release_rows_deferred:
  "release_rows now i level rows db = (Ok db' :: (_, 'pe store_error) result) \<Longrightarrow>
    deferred_changes db' = filter (\<lambda>e. fst e \<notin> fst ` set rows) (deferred_changes db)"
proof (induction rows arbitrary: db)
  case (Cons e rows)
  obtain n r where e: "e = (n, r)" by (cases e)
  from Cons.prems obtain sequences db1 where
    a: "append_changes now i (df_stream r) (df_origin r) (df_chain_id r) (df_block r) level
        DirectionApply (df_changes r) (df_sinks r) db = (Ok (sequences, db1) :: (_, 'pe store_error) result)"
    and rest: "release_rows now i level rows (db1\<lparr>deferred_changes := tdel n (deferred_changes db1)\<rparr>)
        = (Ok db' :: (_, 'pe store_error) result)"
    by (auto simp: e)
  show ?case
    using Cons.IH [OF rest] append_changes_deferred [OF a] by (auto simp: e tdel_def intro!: filter_cong)
qed simp

lemma release_progress:
  assumes "release_rows now i level (take m (deferred_through db i through)) db
      = (Ok db' :: (_, 'pe store_error) result)"
    and "take m (deferred_through db i through) \<noteq> []"
  shows "length (deferred_through db' i through) < length (deferred_through db i through)"
proof -
  let ?P = "\<lambda>(_ :: nat, r). df_instance r = i \<and> number (df_block r) \<le> through"
  let ?rows = "take m (deferred_through db i through)"
  obtain e where e: "e \<in> set ?rows" using assms(2) by (cases ?rows) auto
  then have "e \<in> set (filter ?P (deferred_changes db))"
    by (auto simp: deferred_through_def dest!: in_set_takeD)
  moreover have "deferred_changes db' = filter (\<lambda>e. fst e \<notin> fst ` set ?rows) (deferred_changes db)"
    by (rule release_rows_deferred [OF assms(1)])
  then have "filter ?P (deferred_changes db') = filter (\<lambda>e. fst e \<notin> fst ` set ?rows) (filter ?P (deferred_changes db))"
    by (simp add: conj_commute)
  ultimately show ?thesis
    using e length_filter_less [of e "filter ?P (deferred_changes db)" "\<lambda>e. fst e \<notin> fst ` set ?rows"]
    by (simp add: deferred_through_def)
qed

function release_loop ::
  "int \<Rightarrow> string \<Rightarrow> block_number \<Rightarrow> finality \<Rightarrow> bool \<Rightarrow> delivery_db
    \<Rightarrow> (bool \<times> delivery_db, 'pe store_error) result" where
  "release_loop now instance_id through level released db =
     (let rows = take DEFERRED_FLUSH_BATCH (deferred_through db instance_id through)
      in if rows = [] then Ok (released, db)
         else case (release_rows now instance_id level rows db :: (_, 'pe store_error) result) of
             Inl e \<Rightarrow> Err e
           | Inr db1 \<Rightarrow>
               if length rows < DEFERRED_FLUSH_BATCH then Ok (True, db1)
               else release_loop now instance_id through level True db1)"
  by pat_completeness auto
termination
  by (relation "measure (\<lambda>(now, i, through, level, released, db). length (deferred_through db i through))")
    (auto simp: release_progress)

declare release_loop.simps [simp del]

definition release_deferred_changes ::
  "int \<Rightarrow> string \<Rightarrow> block_number \<Rightarrow> finality \<Rightarrow> delivery_db \<Rightarrow> (bool \<times> delivery_db, 'pe store_error) result" where
  "release_deferred_changes now instance_id through level db =
     and_then (u64_i64 through ''block_number'') (\<lambda>_. release_loop now instance_id through level False db)"

section \<open>Reading changes\<close>

record change_record =
  rc_chain_id :: chain_id
  rc_processor_id :: processor_id
  rc_sequence :: nat
  rc_origin :: delivery_origin
  rc_block :: block_ref
  rc_finality :: finality
  rc_direction :: change_direction
  rc_change :: domain_change
  rc_emitted :: int

definition validate_change_limit :: "nat \<Rightarrow> (unit, 'pe store_error) result" where
  "validate_change_limit limit =
     (if limit = 0 \<or> limit > 10000 then Err (StoreInvalidConfig ''change limit must be in 1..=10000'') else Ok ())"

definition change_page_rows ::
  "delivery_db \<Rightarrow> string \<Rightarrow> nat \<Rightarrow> nat \<Rightarrow> ((nat \<times> change_row) list, 'pe store_error) result" where
  "change_page_rows db stream after limit =
     and_then (usize_i64 after ''sequence'') (\<lambda>_.
     and_then (usize_i64 limit ''limit'') (\<lambda>_.
     Ok (take limit (filter (\<lambda>(n, _). after < n) (stream_rows db stream)))))"

definition decode_change_row ::
  "processor_descriptor \<Rightarrow> chain_id \<Rightarrow> nat \<times> change_row \<Rightarrow> (change_record, 'pe store_error) result" where
  "decode_change_row desc c = (\<lambda>(n, r).
     if cl_encoding_version r \<noteq> 1 then Err (StoreInvariant ''unsupported delivery encoding version'')
     else if cl_chain_id r \<noteq> c then Err (StoreInvariant ''processor change belongs to another chain'')
     else if cl_created r < 0 then Err (Numeric ''created_at_unix_ms'')
     else Ok \<lparr>rc_chain_id = c, rc_processor_id = pd_id desc, rc_sequence = n, rc_origin = cl_origin r,
            rc_block = cl_block r, rc_finality = cl_finality r, rc_direction = cl_direction r,
            rc_change = cl_change r, rc_emitted = cl_created r\<rparr>)"

fun decode_change_rows ::
  "processor_descriptor \<Rightarrow> chain_id \<Rightarrow> (nat \<times> change_row) list \<Rightarrow> (change_record list, 'pe store_error) result" where
  "decode_change_rows desc c [] = Ok []"
| "decode_change_rows desc c (row # rows) =
     and_then (decode_change_row desc c row) (\<lambda>r.
     and_then (decode_change_rows desc c rows) (\<lambda>rs. Ok (r # rs)))"

definition read_changes_in_stream ::
  "processor_descriptor \<Rightarrow> string \<Rightarrow> chain_id \<Rightarrow> nat option \<Rightarrow> nat \<Rightarrow> bool \<Rightarrow> delivery_db
    \<Rightarrow> (change_record list, 'pe store_error) result" where
  "read_changes_in_stream desc stream c after limit check_retention db =
     and_then (validate_change_limit limit) (\<lambda>_.
     and_then (validate_delivery_stream db (pd_instance desc) stream) (\<lambda>_.
     and_then
       (if check_retention
        then and_then (fetch_stream db stream) (\<lambda>s.
          (let pruned = sr_pruned_through s; rows = stream_rows db stream
           in case after of
                Some n \<Rightarrow>
                  if n < pruned
                  then Err (ChangeCursorExpired
                    (case first_sequence rows of None \<Rightarrow> pruned + 1 | Some e \<Rightarrow> e)
                    (case last_sequence rows of None \<Rightarrow> pruned | Some l \<Rightarrow> l))
                  else Ok n
              | None \<Rightarrow> Ok pruned))
        else Ok (case after of None \<Rightarrow> 0 | Some n \<Rightarrow> n)) (\<lambda>after_sequence.
     and_then (change_page_rows db stream after_sequence limit) (\<lambda>rows.
     decode_change_rows desc c rows))))"

definition change_bounds_in_stream ::
  "processor_descriptor \<Rightarrow> string \<Rightarrow> delivery_db \<Rightarrow> ((nat \<times> nat) option, 'pe store_error) result" where
  "change_bounds_in_stream desc stream db =
     and_then (validate_delivery_stream db (pd_instance desc) stream) (\<lambda>_.
     Ok (case (first_sequence (stream_rows db stream), last_sequence (stream_rows db stream)) of
           (Some earliest, Some latest) \<Rightarrow> Some (earliest, latest)
         | _ \<Rightarrow> None))"

section \<open>Durable consumers\<close>

text \<open>A lease time is a duration in nanoseconds; the column keeps whole milliseconds.\<close>

definition valid_consumer_id :: "string \<Rightarrow> bool" where
  "valid_consumer_id v = (v \<noteq> [] \<and> length v \<le> 128 \<and> list_all portable_byte v)"

definition validate_consumer_registration :: "string \<Rightarrow> nat \<Rightarrow> (unit, string) result" where
  "validate_consumer_registration consumer ttl =
     (if \<not> valid_consumer_id consumer \<or> ttl = 0 \<or> ttl > unat MAXIMUM_CONSUMER_LEASE_TTL * 1000000000
      then Err ''consumer ID must be 1-128 portable characters and lease TTL must be non-zero and at most 100 years''
      else Ok ())"

definition is_ascii_graphic :: "char \<Rightarrow> bool" where
  "is_ascii_graphic c = (33 \<le> (of_char c :: nat) \<and> (of_char c :: nat) \<le> 126)"

definition validate_consumer_credential :: "string \<Rightarrow> (unit, string) result" where
  "validate_consumer_credential credential =
     (if length credential < 32 \<or> length credential > 512 \<or> \<not> list_all is_ascii_graphic credential
      then Err ''consumer credential must hold 32 to 512 printable ASCII characters without spaces''
      else Ok ())"

definition delivery_stream_is_backfill :: "delivery_db \<Rightarrow> string \<Rightarrow> (bool, 'pe store_error) result" where
  "delivery_stream_is_backfill db stream =
     and_then (fetch_stream db stream) (\<lambda>s. Ok (sr_kind s = StreamBackfill))"

definition ensure_required_consumer_retention ::
  "delivery_db \<Rightarrow> processor_descriptor \<Rightarrow> string \<Rightarrow> consumer_role \<Rightarrow> (unit, 'pe store_error) result" where
  "ensure_required_consumer_retention db desc stream role =
     (if role \<noteq> RoleRequired \<or> dp_mode (lc_delivery (pd_lifecycle desc)) = DeliveryUntilAcknowledged then Ok ()
      else and_then (delivery_stream_is_backfill db stream) (\<lambda>backfill.
        if backfill then Ok ()
        else Err (StoreInvalidConfig ''required consumers need until_acknowledged delivery'')))"

datatype consumer_start = EarliestRetained | CurrentHead | After nat

definition start_sequence ::
  "consumer_start \<Rightarrow> nat option \<Rightarrow> nat option \<Rightarrow> nat \<Rightarrow> (nat, 'pe store_error) result" where
  "start_sequence start earliest latest pruned_through =
     (let head = (case latest of None \<Rightarrow> pruned_through | Some l \<Rightarrow> l)
      in case start of
           EarliestRetained \<Rightarrow> Ok (case earliest of None \<Rightarrow> pruned_through | Some e \<Rightarrow> e - 1)
         | CurrentHead \<Rightarrow> Ok head
         | After n \<Rightarrow>
             if n < pruned_through then Err (ConsumerResetRequired earliest latest)
             else if n > head then Err (AcknowledgementBeyondHead n head)
             else Ok n)"

text \<open>
  Creating a consumer of a registered processor; the keyed digest of a credential is a parameter.
\<close>

definition create_consumer_inner ::
  "(string \<Rightarrow> bytes) \<Rightarrow> int \<Rightarrow> processor_descriptor \<Rightarrow> string \<Rightarrow> string \<Rightarrow> consumer_role \<Rightarrow> consumer_start
    \<Rightarrow> nat \<Rightarrow> string option \<Rightarrow> delivery_db \<Rightarrow> (delivery_db, 'pe store_error) result" where
  "create_consumer_inner credential_hash now desc stream consumer role start ttl credential db =
     and_then (map_err StoreInvalidConfig (validate_consumer_registration consumer ttl)) (\<lambda>_.
     and_then (validate_delivery_stream db (pd_instance desc) stream) (\<lambda>_.
     and_then (usize_i64 (ttl div 1000000) ''consumer lease TTL'') (\<lambda>ttl_ms.
     if map_of (durable_consumers db) (stream, consumer) \<noteq> None
     then Err (ConsumerExists (pd_instance desc) consumer)
     else
       and_then (case credential of
           None \<Rightarrow> Ok ()
         | Some secret \<Rightarrow> map_err StoreInvalidConfig (validate_consumer_credential secret)) (\<lambda>_.
       and_then (ensure_required_consumer_retention db desc stream role) (\<lambda>_.
       and_then (fetch_stream db stream) (\<lambda>s.
       and_then (start_sequence start (first_sequence (stream_rows db stream))
           (last_sequence (stream_rows db stream)) (sr_pruned_through s)) (\<lambda>acknowledged.
       if \<not> now + int ttl_ms < 2 ^ 63 then Err (Numeric ''consumer lease expiry'')
       else
         and_then (usize_i64 acknowledged ''acknowledged sequence'') (\<lambda>_.
         if ttl_ms = 0 then Err (Sqlx ''check constraint'')
         else Ok (db\<lparr>durable_consumers := tput (stream, consumer)
             \<lparr>cr_instance = pd_instance desc, cr_role = role, cr_state = Active,
              cr_acknowledged = acknowledged, cr_delivered = acknowledged, cr_work_blocks = 0,
              cr_ttl_ms = int ttl_ms, cr_expires = now + int ttl_ms, cr_generation = 0,
              cr_created = now, cr_updated = now,
              cr_credential = map_option credential_hash credential\<rparr> (durable_consumers db)\<rparr>)))))))))"

text \<open>The update of one consumer row.\<close>

definition set_consumer :: "string \<Rightarrow> string \<Rightarrow> consumer_row \<Rightarrow> delivery_db \<Rightarrow> delivery_db" where
  "set_consumer stream consumer row db =
     db\<lparr>durable_consumers := tput (stream, consumer) row (durable_consumers db)\<rparr>"

definition expiry :: "int \<Rightarrow> int \<Rightarrow> (int, 'pe store_error) result" where
  "expiry now ttl_ms = (if now + ttl_ms < 2 ^ 63 then Ok (now + ttl_ms) else Err (Numeric ''consumer lease expiry''))"

definition acquire_consumer_session_in_stream ::
  "int \<Rightarrow> processor_descriptor \<Rightarrow> string \<Rightarrow> string \<Rightarrow> delivery_db
    \<Rightarrow> ((nat \<times> int) \<times> delivery_db, 'pe store_error) result" where
  "acquire_consumer_session_in_stream now desc stream consumer db =
     and_then (validate_delivery_stream db (pd_instance desc) stream) (\<lambda>_.
     case map_of (durable_consumers db) (stream, consumer) of
       None \<Rightarrow> Err (ConsumerNotFound (pd_instance desc) consumer)
     | Some r \<Rightarrow>
         if cr_state r \<noteq> Active then Err (ConsumerInactive consumer (cr_state r))
         else if cr_generation r > 0 \<and> cr_expires r > now
         then Err (ConsumerSessionActive consumer (cr_expires r))
         else
           and_then (usize_i64 (cr_generation r + 1) ''consumer lease generation'') (\<lambda>generation.
           and_then (expiry now (cr_ttl_ms r)) (\<lambda>expires.
           Ok ((generation, expires),
             set_consumer stream consumer
               (r\<lparr>cr_generation := generation, cr_expires := expires, cr_updated := now\<rparr>) db))))"

text \<open>Whether a session holds its lease: the condition of the guarded updates.\<close>

definition session_current :: "int \<Rightarrow> nat \<Rightarrow> consumer_row \<Rightarrow> bool" where
  "session_current now generation r =
     (cr_state r = Active \<and> cr_generation r = generation \<and> cr_expires r > now)"

definition renew_consumer_session_in_stream ::
  "int \<Rightarrow> string \<Rightarrow> string \<Rightarrow> nat \<Rightarrow> delivery_db \<Rightarrow> ((nat \<times> int) \<times> delivery_db, 'pe store_error) result" where
  "renew_consumer_session_in_stream now stream consumer generation db =
     and_then (usize_i64 generation ''consumer lease generation'') (\<lambda>_.
     case map_of (durable_consumers db) (stream, consumer) of
       Some r \<Rightarrow>
         if session_current now generation r
         then (if now + cr_ttl_ms r < 2 ^ 63
               then Ok ((generation, now + cr_ttl_ms r),
                 set_consumer stream consumer (r\<lparr>cr_expires := now + cr_ttl_ms r, cr_updated := now\<rparr>) db)
               else Err (Sqlx ''datatype mismatch''))
         else Err (ConsumerSessionLost consumer generation)
     | None \<Rightarrow> Err (ConsumerSessionLost consumer generation))"

definition consumer_session_is_current_in_stream ::
  "int \<Rightarrow> string \<Rightarrow> string \<Rightarrow> nat \<Rightarrow> delivery_db \<Rightarrow> bool" where
  "consumer_session_is_current_in_stream now stream consumer generation db =
     (case map_of (durable_consumers db) (stream, consumer) of
        None \<Rightarrow> False
      | Some r \<Rightarrow> session_current now generation r)"

text \<open>The reader records what it hands out, once before and once under the writer's lock.\<close>

definition may_record :: "int \<Rightarrow> nat option \<Rightarrow> consumer_row \<Rightarrow> bool" where
  "may_record now generation r =
     (cr_state r = Active \<and>
      (case generation of None \<Rightarrow> True | Some g \<Rightarrow> cr_generation r = g \<and> cr_expires r > now))"

definition record_consumer_delivery_in_stream ::
  "int \<Rightarrow> string \<Rightarrow> string \<Rightarrow> nat option \<Rightarrow> nat \<Rightarrow> delivery_db
    \<Rightarrow> (bool \<times> delivery_db, 'pe store_error) result" where
  "record_consumer_delivery_in_stream now stream consumer generation sequence db =
     and_then (case generation of None \<Rightarrow> Ok 0 | Some g \<Rightarrow> usize_i64 g ''consumer lease generation'') (\<lambda>_.
     and_then (usize_i64 sequence ''delivered sequence'') (\<lambda>_.
     case map_of (durable_consumers db) (stream, consumer) of
       Some r \<Rightarrow>
         if \<not> may_record now generation r then Ok (False, db)
         else if sequence \<le> cr_delivered r then Ok (True, db)
         else Ok (True, set_consumer stream consumer (r\<lparr>cr_delivered := max (cr_delivered r) sequence\<rparr>) db)
     | None \<Rightarrow> Ok (False, db)))"

definition release_consumer_session_in_stream ::
  "int \<Rightarrow> string \<Rightarrow> string \<Rightarrow> nat \<Rightarrow> delivery_db \<Rightarrow> (bool \<times> delivery_db, 'pe store_error) result" where
  "release_consumer_session_in_stream now stream consumer generation db =
     and_then (usize_i64 generation ''consumer lease generation'') (\<lambda>_.
     case map_of (durable_consumers db) (stream, consumer) of
       Some r \<Rightarrow>
         if cr_generation r = generation
         then Ok (True, set_consumer stream consumer (r\<lparr>cr_expires := now, cr_updated := now\<rparr>) db)
         else Ok (False, db)
     | None \<Rightarrow> Ok (False, db))"

definition renew_consumer_in_stream ::
  "int \<Rightarrow> processor_descriptor \<Rightarrow> string \<Rightarrow> string \<Rightarrow> delivery_db \<Rightarrow> (delivery_db, 'pe store_error) result" where
  "renew_consumer_in_stream now desc stream consumer db =
     and_then (validate_delivery_stream db (pd_instance desc) stream) (\<lambda>_.
     case map_of (durable_consumers db) (stream, consumer) of
       Some r \<Rightarrow>
         if cr_state r = Active
         then (if now + cr_ttl_ms r < 2 ^ 63
               then Ok (set_consumer stream consumer (r\<lparr>cr_expires := now + cr_ttl_ms r, cr_updated := now\<rparr>) db)
               else Err (Sqlx ''datatype mismatch''))
         else Err (ConsumerInactive consumer (cr_state r))
     | None \<Rightarrow> Err (ConsumerNotFound (pd_instance desc) consumer))"

definition default_delivery_stream_id :: "processor_descriptor \<Rightarrow> string" where
  "default_delivery_stream_id desc =
     pd_instance desc @ '':'' @ (case pd_delivery_ordering desc of
         OrderCanonical \<Rightarrow> ''canonical'' | OrderBlockVersionedIdempotent \<Rightarrow> ''live'')"

definition transition_consumer ::
  "int \<Rightarrow> processor_descriptor \<Rightarrow> string \<Rightarrow> consumer_state \<Rightarrow> delivery_db \<Rightarrow> (delivery_db, 'pe store_error) result" where
  "transition_consumer now desc consumer state db =
     (case map_of (durable_consumers db) (default_delivery_stream_id desc, consumer) of
        Some r \<Rightarrow> Ok (set_consumer (default_delivery_stream_id desc) consumer
                  (r\<lparr>cr_state := state, cr_updated := now\<rparr>) db)
      | None \<Rightarrow> Err (ConsumerNotFound (pd_instance desc) consumer))"

definition revoke_consumer ::
  "int \<Rightarrow> processor_descriptor \<Rightarrow> string \<Rightarrow> delivery_db \<Rightarrow> (delivery_db, 'pe store_error) result" where
  "revoke_consumer now desc consumer db = transition_consumer now desc consumer Revoked db"

definition reset_consumer_required ::
  "int \<Rightarrow> processor_descriptor \<Rightarrow> string \<Rightarrow> delivery_db \<Rightarrow> (delivery_db, 'pe store_error) result" where
  "reset_consumer_required now desc consumer db = transition_consumer now desc consumer ResetRequired db"

section \<open>Consumer pages\<close>

definition consumer_read_is_retained ::
  "delivery_db \<Rightarrow> string \<Rightarrow> string \<Rightarrow> string \<Rightarrow> nat \<Rightarrow> (bool, 'pe store_error) result" where
  "consumer_read_is_retained db instance_id stream consumer after =
     (case map_of (durable_consumers db) (stream, consumer) of
        None \<Rightarrow> Err (ConsumerNotFound instance_id consumer)
      | Some r \<Rightarrow>
          if cr_state r \<noteq> Active then Err (ConsumerInactive consumer (cr_state r))
          else if after < cr_acknowledged r then Err (AcknowledgementBackwards after (cr_acknowledged r))
          else and_then (fetch_stream db stream) (\<lambda>s. Ok (cr_acknowledged r \<ge> sr_pruned_through s)))"

text \<open>
  One round of the read: a page from one snapshot, or the mark that pruning overtook the consumer.
  The mark checks again under the writer's lock; a consumer that moved meanwhile is read again,
  which is the result \<open>None\<close>.
\<close>

definition read_consumer_page ::
  "processor_descriptor \<Rightarrow> string \<Rightarrow> chain_id \<Rightarrow> string \<Rightarrow> nat \<Rightarrow> nat \<Rightarrow> delivery_db
    \<Rightarrow> (change_record list option, 'pe store_error) result" where
  "read_consumer_page desc stream c consumer after limit db =
     and_then (consumer_read_is_retained db (pd_instance desc) stream consumer after) (\<lambda>retained.
     if retained
     then and_then (validate_change_limit limit) (\<lambda>_.
          and_then (change_page_rows db stream after limit) (\<lambda>rows.
          and_then (decode_change_rows desc c rows) (\<lambda>rs. Ok (Some rs))))
     else Ok None)"

definition mark_overtaken :: "int \<Rightarrow> string \<Rightarrow> string \<Rightarrow> delivery_db \<Rightarrow> bool \<times> delivery_db" where
  "mark_overtaken now stream consumer db =
     (case (map_of (durable_consumers db) (stream, consumer), map_of (delivery_streams db) stream) of
        (Some r, Some s) \<Rightarrow>
          if cr_state r = Active \<and> cr_acknowledged r < sr_pruned_through s
          then (True, set_consumer stream consumer (r\<lparr>cr_state := ResetRequired, cr_updated := now\<rparr>) db)
          else (False, db)
      | _ \<Rightarrow> (False, db))"

definition consumer_changes_round ::
  "int \<Rightarrow> processor_descriptor \<Rightarrow> string \<Rightarrow> chain_id \<Rightarrow> string \<Rightarrow> nat \<Rightarrow> nat \<Rightarrow> delivery_db
    \<Rightarrow> (change_record list, 'pe store_error) result option \<times> delivery_db" where
  "consumer_changes_round now desc stream c consumer after limit db =
     (case (read_consumer_page desc stream c consumer after limit db :: (_, 'pe store_error) result) of
        Inl e \<Rightarrow> (Some (Err e), db)
      | Inr (Some rs) \<Rightarrow> (Some (Ok rs), db)
      | Inr None \<Rightarrow>
          (case mark_overtaken now stream consumer db of
             (True, db1) \<Rightarrow>
               (Some (and_then (change_bounds_in_stream desc stream db1) (\<lambda>bounds.
                  Err (ConsumerResetRequired (map_option fst bounds) (map_option snd bounds)))), db1)
           | (False, db1) \<Rightarrow> (None, db1)))"

section \<open>Acknowledgements\<close>

definition same_commit :: "change_row \<Rightarrow> change_row \<Rightarrow> bool" where
  "same_commit r s =
     (number (cl_block s) = number (cl_block r) \<and> hash (cl_block s) = hash (cl_block r)
      \<and> cl_finality s = cl_finality r \<and> cl_direction s = cl_direction r
      \<and> og_kind (cl_origin s) = og_kind (cl_origin r) \<and> og_id (cl_origin s) = og_id (cl_origin r)
      \<and> og_publication_revision (cl_origin s) = og_publication_revision (cl_origin r))"

definition live_commit_continues_after ::
  "delivery_db \<Rightarrow> string \<Rightarrow> nat \<Rightarrow> (block_number option, 'pe store_error) result" where
  "live_commit_continues_after db stream sequence =
     and_then (usize_i64 sequence ''acknowledged delivery sequence'') (\<lambda>_.
     Ok (case (map_of (stream_rows db stream) sequence, filter (\<lambda>(n, _). sequence < n) (stream_rows db stream)) of
           (Some current, (_, following) # _) \<Rightarrow>
             if same_commit current following then Some (number (cl_block current)) else None
         | _ \<Rightarrow> None))"

definition backfill_progress_change :: "block_number \<Rightarrow> block_number \<Rightarrow> u64 \<Rightarrow> domain_change" where
  "backfill_progress_change from_block through_block processed_blocks =
     \<lparr>ch_kind = BACKFILL_PROGRESS, ch_key = to_be_bytes 8 through_block, ch_operation = Upsert,
      ch_payload = to_be_bytes 8 from_block @ to_be_bytes 8 through_block @ to_be_bytes 8 processed_blocks\<rparr>"

definition backfill_progress_blocks :: "bytes \<Rightarrow> (u64, 'pe store_error) result" where
  "backfill_progress_blocks payload =
     (if payload = [] then Ok 1
      else if length payload \<noteq> 24 then Err (StoreInvariant ''invalid backfill progress payload'')
      else if (from_be_bytes (take 8 payload) :: u64) > from_be_bytes (take 8 (drop 8 payload))
      then Err (StoreInvariant ''invalid backfill progress boundary'')
      else Ok (from_be_bytes (drop 16 payload)))"

fun sum_progress :: "bytes list \<Rightarrow> nat \<Rightarrow> (nat, 'pe store_error) result" where
  "sum_progress [] so_far = Ok so_far"
| "sum_progress (p # ps) so_far =
     and_then (backfill_progress_blocks p) (\<lambda>blocks.
     if so_far + unat blocks < 2 ^ 64 then sum_progress ps (so_far + unat blocks)
     else Err (Numeric ''newly acknowledged work blocks''))"

text \<open>What a sequence above the acknowledged one has to satisfy.\<close>

definition check_boundary ::
  "delivery_db \<Rightarrow> string \<Rightarrow> consumer_row \<Rightarrow> nat \<Rightarrow> (unit, 'pe store_error) result" where
  "check_boundary db stream r sequence =
     (let head = (case last_sequence (stream_rows db stream) of None \<Rightarrow> 0 | Some n \<Rightarrow> n)
      in if sequence > head then Err (AcknowledgementBeyondHead sequence head)
         else if sequence > cr_delivered r then Err (AcknowledgementBeyondDelivered sequence (cr_delivered r))
         else
           and_then (fetch_stream db stream) (\<lambda>s.
           case sr_kind s of
             StreamBackfill \<Rightarrow>
               and_then (usize_i64 sequence ''acknowledged delivery sequence'') (\<lambda>_.
               case map_of (stream_rows db stream) sequence of
                 Some row \<Rightarrow>
                   if ch_kind (cl_change row) \<in> {BACKFILL_PROGRESS, BACKFILL_COMPLETE} then Ok ()
                   else Err (AcknowledgementNotBoundary sequence)
               | None \<Rightarrow> Err (AcknowledgementNotBoundary sequence))
           | StreamLive \<Rightarrow>
               and_then (live_commit_continues_after db stream sequence) (\<lambda>continues.
               case continues of
                 Some b \<Rightarrow> Err (AcknowledgementMidBlock sequence b)
               | None \<Rightarrow> Ok ())
           | StreamCanonical \<Rightarrow> Ok ()))"

definition progress_payloads :: "delivery_db \<Rightarrow> string \<Rightarrow> nat \<Rightarrow> nat \<Rightarrow> bytes list" where
  "progress_payloads db stream acknowledged sequence =
     map (\<lambda>(_, row). ch_payload (cl_change row))
       (filter (\<lambda>(n, row). acknowledged < n \<and> n \<le> sequence \<and> ch_kind (cl_change row) = BACKFILL_PROGRESS)
         (stream_rows db stream))"

text \<open>
  The update at the end repeats the session's condition, which the check above has established
  under the same lock.
\<close>

definition acknowledge_consumer_in_stream_inner ::
  "int \<Rightarrow> processor_descriptor \<Rightarrow> string \<Rightarrow> string \<Rightarrow> nat option \<Rightarrow> nat \<Rightarrow> delivery_db
    \<Rightarrow> (delivery_db, 'pe store_error) result" where
  "acknowledge_consumer_in_stream_inner now desc stream consumer session sequence db =
     and_then (validate_delivery_stream db (pd_instance desc) stream) (\<lambda>_.
     case map_of (durable_consumers db) (stream, consumer) of
       None \<Rightarrow> Err (ConsumerNotFound (pd_instance desc) consumer)
     | Some r \<Rightarrow>
         if cr_state r \<noteq> Active then Err (ConsumerInactive consumer (cr_state r))
         else if (case session of None \<Rightarrow> False | Some g \<Rightarrow> cr_generation r \<noteq> g \<or> cr_expires r \<le> now)
         then (if session = Some (cr_generation r) \<and> sequence = cr_acknowledged r then Ok db
               else Err (ConsumerSessionLost consumer (case session of None \<Rightarrow> 0 | Some g \<Rightarrow> g)))
         else if sequence < cr_acknowledged r
         then Err (AcknowledgementBackwards sequence (cr_acknowledged r))
         else
           and_then (if sequence > cr_acknowledged r then check_boundary db stream r sequence else Ok ()) (\<lambda>_.
           and_then (usize_i64 (cr_acknowledged r) ''prior acknowledged delivery sequence'') (\<lambda>_.
           and_then (usize_i64 sequence ''acknowledged delivery sequence'') (\<lambda>_.
           and_then (sum_progress (progress_payloads db stream (cr_acknowledged r) sequence) 0) (\<lambda>work.
           if \<not> cr_work_blocks r + work < 2 ^ 64 then Err (Numeric ''consumer acknowledged work blocks'')
           else
             and_then (usize_i64 (cr_work_blocks r + work) ''consumer acknowledged work blocks'') (\<lambda>_.
             and_then (case session of None \<Rightarrow> Ok (cr_expires r) | Some _ \<Rightarrow> expiry now (cr_ttl_ms r)) (\<lambda>expires.
             Ok (set_consumer stream consumer
               (r\<lparr>cr_acknowledged := sequence, cr_delivered := max (cr_delivered r) sequence,
                  cr_work_blocks := cr_work_blocks r + work, cr_expires := expires, cr_updated := now\<rparr>) db))))))))"

definition acknowledge_consumer_in_stream ::
  "int \<Rightarrow> processor_descriptor \<Rightarrow> string \<Rightarrow> string \<Rightarrow> nat \<Rightarrow> delivery_db \<Rightarrow> (delivery_db, 'pe store_error) result" where
  "acknowledge_consumer_in_stream now desc stream consumer sequence db =
     acknowledge_consumer_in_stream_inner now desc stream consumer None sequence db"

definition acknowledge_consumer_session_in_stream ::
  "int \<Rightarrow> processor_descriptor \<Rightarrow> string \<Rightarrow> string \<Rightarrow> nat \<Rightarrow> nat \<Rightarrow> delivery_db
    \<Rightarrow> (delivery_db, 'pe store_error) result" where
  "acknowledge_consumer_session_in_stream now desc stream consumer generation sequence db =
     acknowledge_consumer_in_stream_inner now desc stream consumer (Some generation) sequence db"

section \<open>Pruning\<close>

record change_prune_outcome =
  cpo_requested_before :: nat
  cpo_effective_before :: nat
  cpo_deleted :: nat

definition delivery_resume_mark :: "u64 \<Rightarrow> u64" where
  "delivery_resume_mark limit = saturating_mul limit 9 div 10"

text \<open>The first sequence that an active required consumer has not acknowledged.\<close>

definition protected_sequence :: "delivery_db \<Rightarrow> string \<Rightarrow> nat option" where
  "protected_sequence db stream =
     (let acks = map (\<lambda>(_, r). if cr_acknowledged r = 2 ^ 63 - 1 then cr_acknowledged r else cr_acknowledged r + 1)
            (filter (\<lambda>((s, _), r). s = stream \<and> cr_role r = RoleRequired \<and> cr_state r = Active)
              (durable_consumers db))
      in if acks = [] then None else Some (Min (set acks)))"

definition whole_blocks :: "(nat, change_row) table \<Rightarrow> nat \<Rightarrow> nat" where
  "whole_blocks rows effective =
     (case last_sequence (filter (\<lambda>(n, _). n < effective) rows) of
        None \<Rightarrow> effective
      | Some trailing \<Rightarrow>
          (let block = map_option (\<lambda>r. number (cl_block r)) (map_of rows trailing);
               same = filter (\<lambda>(_, r). Some (number (cl_block r)) = block) rows
           in case (first_sequence same, last_sequence same) of
                (Some block_first, Some block_last) \<Rightarrow>
                  if block_last \<ge> effective then min effective block_first else effective
              | _ \<Rightarrow> effective))"

definition effective_before :: "delivery_db \<Rightarrow> string \<Rightarrow> nat \<Rightarrow> nat" where
  "effective_before db stream requested =
     (let e1 = (case protected_sequence db stream of None \<Rightarrow> requested | Some p \<Rightarrow> min requested p);
          e2 = (case last_sequence (stream_rows db stream) of None \<Rightarrow> e1 | Some l \<Rightarrow> min e1 l)
      in if e2 > 0 then whole_blocks (stream_rows db stream) e2 else e2)"

definition row_change_bytes :: "(nat \<times> change_row) list \<Rightarrow> nat" where
  "row_change_bytes rows = sum_list (map (\<lambda>(_, r). change_bytes (cl_change r)) rows)"

text \<open>Deleting a row of the log cascades to the outbox.\<close>

definition prune_changes_before_in_stream ::
  "processor_descriptor \<Rightarrow> string \<Rightarrow> nat \<Rightarrow> delivery_db
    \<Rightarrow> (change_prune_outcome \<times> delivery_db, 'pe store_error) result" where
  "prune_changes_before_in_stream desc stream requested db =
     and_then (validate_delivery_stream db (pd_instance desc) stream) (\<lambda>_.
     and_then (fetch_stream db stream) (\<lambda>s.
     (let effective = effective_before db stream requested;
          doomed = filter (\<lambda>(n, _). n < effective) (stream_rows db stream);
          pruned = (case last_sequence doomed of None \<Rightarrow> sr_pruned_through s
                    | Some n \<Rightarrow> max (sr_pruned_through s) n);
          live = sr_live_bytes s - int (row_change_bytes doomed)
      in and_then (usize_i64 effective ''effective prune sequence'') (\<lambda>_.
         if live < 0 then Err (Numeric ''delivery live bytes'')
         else
           (let resumes = (nat live \<le> unat (delivery_resume_mark (dp_max_bytes (lc_delivery (pd_lifecycle desc))))
              \<and> map_option fst (map_of (runtime_state db) (pd_instance desc)) = Some RunPaused)
            in Ok (\<lparr>cpo_requested_before = requested, cpo_effective_before = effective,
                   cpo_deleted = length doomed\<rparr>,
              db\<lparr>change_log := filter (\<lambda>((t, n), _). \<not> (t = stream \<and> n < effective)) (change_log db),
                 sink_outbox := filter (\<lambda>((_, p), _). p \<notin> set (map (\<lambda>(_, r). cl_physical r) doomed)) (sink_outbox db),
                 delivery_streams := tput stream (s\<lparr>sr_pruned_through := pruned, sr_live_bytes := live\<rparr>)
                   (delivery_streams db),
                 runtime_state := (if resumes then tput (pd_instance desc) (RunRunning, None) (runtime_state db)
                   else runtime_state db)\<rparr>))))))"

text \<open>The candidates of the policy: the last change that age, or pressure, lets go.\<close>

definition age_prune_candidate :: "(nat, change_row) table \<Rightarrow> block_number \<Rightarrow> int \<Rightarrow> nat option" where
  "age_prune_candidate rows cutoff created_cutoff =
     (case last_sequence (filter (\<lambda>(_, r). cl_created r \<le> created_cutoff) rows) of
        None \<Rightarrow> None
      | Some old \<Rightarrow>
          (let bound = (case first_sequence (filter (\<lambda>(_, r). number (cl_block r) > cutoff) rows) of
               None \<Rightarrow> old | Some kept \<Rightarrow> min old (kept - 1))
           in last_sequence (filter (\<lambda>(n, r). number (cl_block r) \<le> cutoff \<and> n \<le> bound) rows)))"

definition pressure_prune_candidate :: "(nat, change_row) table \<Rightarrow> block_number \<Rightarrow> nat option" where
  "pressure_prune_candidate rows cutoff =
     last_sequence (filter (\<lambda>(_, r). number (cl_block r) \<le> cutoff) rows)"

text \<open>The counts stop at their limits; a limit that does not fit a column is its maximum.\<close>

definition count_to :: "nat \<Rightarrow> nat \<Rightarrow> nat" where
  "count_to n limit = min n (min limit (2 ^ 63 - 1))"

definition batch_end :: "(nat, change_row) table \<Rightarrow> nat \<Rightarrow> u64 \<Rightarrow> nat \<Rightarrow> (nat, 'pe store_error) result" where
  "batch_end rows eligible maximum candidate_before =
     (let below = filter (\<lambda>(n, _). n < candidate_before) rows; offset = unat (saturating_sub maximum 1)
      in if \<not> unat maximum < eligible then Ok candidate_before
         else
           and_then (usize_i64 offset ''delivery prune batch offset'') (\<lambda>_.
           if \<not> offset < length below then Err (Sqlx ''no row'')
           else
             (let block = number (cl_block (snd (below ! offset)))
              in case last_sequence (filter (\<lambda>(_, r). number (cl_block r) = block) below) of
                   None \<Rightarrow> Err (Sqlx ''null column'')
                 | Some n \<Rightarrow> Ok (n + 1))))"

text \<open>
  Whether a terminal backfill subscription reads the stream is an argument: subscriptions are not
  part of this state.
\<close>

definition prune_delivery_changes_in_stream ::
  "int \<Rightarrow> bool \<Rightarrow> processor_descriptor \<Rightarrow> string \<Rightarrow> block_number \<Rightarrow> delivery_db
    \<Rightarrow> (change_prune_outcome \<times> delivery_db, 'pe store_error) result" where
  "prune_delivery_changes_in_stream now terminal_backfill desc stream finalized_through db =
     and_then (validate_delivery_stream db (pd_instance desc) stream) (\<lambda>_.
     and_then (fetch_stream db stream) (\<lambda>s.
     (let policy = lc_delivery (pd_lifecycle desc);
          pruning = dp_pruning policy;
          cutoff = saturating_sub finalized_through (pr_retain_finalized_blocks pruning);
          age = unat (if sr_kind s = StreamBackfill \<or> dp_mode policy = DeliveryUntilAcknowledged
            then pr_retain_acknowledged_seconds pruning else dp_max_age_seconds policy) * 1000;
          rows = stream_rows db stream
      in if \<not> age < 2 ^ 63 then Err (Numeric ''delivery replay age'')
         else if now - int age < - (2 ^ 63) then Err (Numeric ''delivery replay cutoff'')
         else
           and_then (ok_or (map_of (runtime_state db) (pd_instance desc)) (Sqlx ''no row'')) (\<lambda>(run_state, _).
           if sr_live_bytes s < 0 then Err (Numeric ''delivery stream bytes'')
           else
             and_then (u64_i64 cutoff ''delivery block cutoff'') (\<lambda>_.
             (let pressure = (nat (sr_live_bytes s) > unat (dp_max_bytes policy) \<or> run_state = RunPaused)
              in case (if pressure then pressure_prune_candidate rows cutoff
                       else age_prune_candidate rows cutoff (now - int age)) of
                   None \<Rightarrow> Ok (\<lparr>cpo_requested_before = 0, cpo_effective_before = 0, cpo_deleted = 0\<rparr>, db)
                 | Some candidate \<Rightarrow>
                     (let before = candidate + 1;
                          below = filter (\<lambda>(n, _). n < before) rows;
                          changes_limit = max (pr_minimum_batch_changes pruning)
                            (saturating_add (pr_maximum_delete_changes pruning) 1);
                          eligible = count_to (length below) (unat changes_limit);
                          blocks = count_to (card (set (map (\<lambda>(_, r). number (cl_block r)) below)))
                            (unat (pr_minimum_batch_blocks pruning))
                      in and_then (usize_i64 before ''delivery prune candidate'') (\<lambda>_.
                         if \<not> terminal_backfill \<and> \<not> pressure \<and> eligible < unat (pr_minimum_batch_changes pruning)
                            \<and> blocks < unat (pr_minimum_batch_blocks pruning)
                         then Ok (\<lparr>cpo_requested_before = before, cpo_effective_before = before,
                                 cpo_deleted = 0\<rparr>, db)
                         else
                           and_then (batch_end rows eligible (pr_maximum_delete_changes pruning) before) (\<lambda>requested.
                           prune_changes_before_in_stream desc stream requested db)))))))))"

section \<open>Streams and parked rows\<close>

text \<open>Registration creates a stream and the run state of its processor unless they exist.\<close>

definition ensure_stream :: "string \<Rightarrow> string \<Rightarrow> delivery_stream_kind \<Rightarrow> delivery_db \<Rightarrow> delivery_db" where
  "ensure_stream stream instance_id kind db =
     (case map_of (delivery_streams db) stream of
        Some _ \<Rightarrow> db
      | None \<Rightarrow> db\<lparr>delivery_streams := tput stream \<lparr>sr_instance = instance_id, sr_kind = kind,
                 sr_next_sequence = 1, sr_pruned_through = 0, sr_live_bytes = 0\<rparr> (delivery_streams db)\<rparr>)"

definition ensure_runtime_state :: "string \<Rightarrow> delivery_db \<Rightarrow> delivery_db" where
  "ensure_runtime_state instance_id db =
     (case map_of (runtime_state db) instance_id of
        Some _ \<Rightarrow> db
      | None \<Rightarrow> db\<lparr>runtime_state := tput instance_id (RunRunning, None) (runtime_state db)\<rparr>)"

text \<open>A block whose changes wait for their level is parked; the row number is the next free one.\<close>

definition park_changes :: "deferred_row \<Rightarrow> delivery_db \<Rightarrow> (delivery_db, 'pe store_error) result" where
  "park_changes row db =
     and_then (u64_i64 (df_chain_id row) ''chain_id'') (\<lambda>_.
     and_then (u64_i64 (number (df_block row)) ''block_number'') (\<lambda>_.
     and_then (u64_i64 (df_bytes row) ''deferred delivery bytes'') (\<lambda>_.
     Ok (db\<lparr>deferred_changes := tput
         (if deferred_changes db = [] then 1 else fst (last (deferred_changes db)) + 1) row
         (deferred_changes db)\<rparr>))))"

end
