(* ===== verification/Delivery_Laws.thy ===== *)
theory Delivery_Laws
  imports Delivery Canonical_Laws
begin

text \<open>
  The laws of durable delivery: every stream keeps an unbroken interval of sequences with its byte
  count, publishing extends it at the end, pruning cuts it at the front and never past what an
  active required consumer has to read, acknowledgements move forward to the end of a commit, and
  parked changes are released in block order.
\<close>

section \<open>Rows of a stream\<close>

lemma stream_rows_table:
  assumes "ordered (change_log db)"
  shows "ordered (stream_rows db stream)"
    and "map_of (stream_rows db stream) n = map_of (change_log db) (stream, n)"
proof -
  have "ordered (map (\<lambda>((_, n), r). (n, r)) (filter (\<lambda>((s, _), _). s = stream) t))
      \<and> map_of (map (\<lambda>((_, n), r). (n, r)) (filter (\<lambda>((s, _), _). s = stream) t)) n = map_of t (stream, n)"
    if "ordered t" for t :: "(string \<times> nat, change_row) table"
    using that
  proof (induction t)
    case (Cons e t)
    have "fst ` set (map (\<lambda>((_, n), r). (n, r)) (filter (\<lambda>((s, _), _). s = stream) t)) = {n. (stream, n) \<in> fst ` set t}"
      by (force simp: image_iff)
    with Cons show ?case by (cases e) auto
  qed simp
  then show "ordered (stream_rows db stream)" "map_of (stream_rows db stream) n = map_of (change_log db) (stream, n)"
    using assms by (auto simp: stream_rows_def)
qed

lemma interval_keys:
  assumes "ordered t" "\<And>n. map_of t n \<noteq> None \<longleftrightarrow> a \<le> n \<and> n < (b :: nat)"
  shows "map fst t = [a..<b]"
proof (rule sorted_distinct_set_unique)
  show "sorted (map fst t)" "distinct (map fst t)"
    using assms(1) by (auto simp: ordered_def strict_sorted_iff)
  have "n \<in> fst ` set t \<longleftrightarrow> a \<le> n \<and> n < b" for n
    using assms(2) [of n] by (simp add: map_of_eq_None_iff)
  then show "set (map fst t) = set [a..<b]" unfolding set_eq_iff set_map set_upt atLeastLessThan_iff by blast
qed simp_all

lemma last_sequence_keys: "last_sequence rows = (if map fst rows = [] then None else Some (last (map fst rows)))"
  by (simp add: last_sequence_def last_map)

lemma first_sequence_keys: "first_sequence rows = (if map fst rows = [] then None else Some (hd (map fst rows)))"
  by (cases rows) (simp_all add: first_sequence_def)

lemma row_change_bytes_simps [simp]:
  "row_change_bytes [] = 0"
  "row_change_bytes (e # rows) = change_bytes (cl_change (snd e)) + row_change_bytes rows"
  "row_change_bytes (rows @ rows') = row_change_bytes rows + row_change_bytes rows'"
  by (simp_all add: row_change_bytes_def case_prod_unfold)

lemma row_change_bytes_split:
  "row_change_bytes rows = row_change_bytes (filter P rows) + row_change_bytes (filter (\<lambda>e. \<not> P e) rows)"
  by (induction rows) simp_all

section \<open>The invariant\<close>

definition stream_ok :: "delivery_db \<Rightarrow> string \<Rightarrow> stream_row \<Rightarrow> bool" where
  "stream_ok db stream s =
     (sr_pruned_through s < sr_next_sequence s \<and> sr_next_sequence s < 2 ^ 63
      \<and> (\<forall>n. map_of (change_log db) (stream, n) \<noteq> None \<longleftrightarrow> sr_pruned_through s < n \<and> n < sr_next_sequence s)
      \<and> sr_live_bytes s = int (row_change_bytes (stream_rows db stream))
      \<and> row_change_bytes (stream_rows db stream) < 2 ^ 63)"

definition consumer_ok :: "stream_row \<Rightarrow> consumer_row \<Rightarrow> bool" where
  "consumer_ok s r =
     (cr_acknowledged r \<le> cr_delivered r \<and> cr_acknowledged r < sr_next_sequence s
      \<and> (cr_role r = RoleRequired \<and> cr_state r = Active \<longrightarrow> sr_pruned_through s \<le> cr_acknowledged r))"

definition delivery_ordered :: "delivery_db \<Rightarrow> bool" where
  "delivery_ordered db = (ordered (delivery_streams db) \<and> ordered (change_log db)
     \<and> ordered (durable_consumers db) \<and> ordered (runtime_state db) \<and> ordered (deferred_changes db)
     \<and> ordered (sink_outbox db))"

definition delivery_ok :: "delivery_db \<Rightarrow> bool" where
  "delivery_ok db =
     (delivery_ordered db
      \<and> (\<forall>stream s. map_of (delivery_streams db) stream = Some s \<longrightarrow> stream_ok db stream s)
      \<and> (\<forall>stream n. map_of (delivery_streams db) stream = None \<longrightarrow> map_of (change_log db) (stream, n) = None)
      \<and> (\<forall>stream consumer r. map_of (durable_consumers db) (stream, consumer) = Some r \<longrightarrow>
           (\<exists>s. map_of (delivery_streams db) stream = Some s \<and> consumer_ok s r)))"

lemma delivery_okD:
  assumes "delivery_ok db"
  shows "delivery_ordered db"
    and "map_of (delivery_streams db) stream = Some s \<Longrightarrow> stream_ok db stream s"
    and "map_of (delivery_streams db) stream = None \<Longrightarrow> map_of (change_log db) (stream, n) = None"
    and "map_of (durable_consumers db) (stream, consumer) = Some r \<Longrightarrow>
      \<exists>s. map_of (delivery_streams db) stream = Some s \<and> consumer_ok s r"
  using assms unfolding delivery_ok_def by blast+

lemma stream_keys:
  assumes "delivery_ok db" "map_of (delivery_streams db) stream = Some s"
  shows "map fst (stream_rows db stream) = [sr_pruned_through s + 1..<sr_next_sequence s]"
proof (rule interval_keys)
  have ord: "ordered (change_log db)"
    using delivery_okD(1) [OF assms(1)] by (simp add: delivery_ordered_def)
  show "ordered (stream_rows db stream)" by (rule stream_rows_table(1) [OF ord])
  show "map_of (stream_rows db stream) n \<noteq> None \<longleftrightarrow> sr_pruned_through s + 1 \<le> n \<and> n < sr_next_sequence s" for n
    using delivery_okD(2) [OF assms] stream_rows_table(2) [OF ord, of stream n]
    by (auto simp: stream_ok_def Suc_le_eq)
qed

lemma stream_bounds:
  assumes "delivery_ok db" "map_of (delivery_streams db) stream = Some s"
  shows "last_sequence (stream_rows db stream) =
      (if sr_pruned_through s + 1 < sr_next_sequence s then Some (sr_next_sequence s - 1) else None)"
    and "first_sequence (stream_rows db stream) =
      (if sr_pruned_through s + 1 < sr_next_sequence s then Some (sr_pruned_through s + 1) else None)"
  unfolding last_sequence_keys first_sequence_keys stream_keys [OF assms] by (auto simp: hd_upt)

section \<open>Publishing\<close>

lemma insert_change_effect:
  assumes "insert_change stream n row db = (Ok db' :: (_, 'pe store_error) result)"
  shows "db' = db\<lparr>change_log := tput (stream, n) row (change_log db), last_rowid := cl_physical row\<rparr>"
    and "map_of (change_log db) (stream, n) = None"
  using assms by (auto simp: insert_change_def split: if_splits)

lemma insert_outbox_effect:
  "insert_outbox physical sinks db = (Ok db' :: (_, 'pe store_error) result) \<Longrightarrow>
    \<exists>outbox. db' = db\<lparr>sink_outbox := outbox\<rparr> \<and> (ordered (sink_outbox db) \<longrightarrow> ordered outbox)"
proof (induction sinks arbitrary: db)
  case Nil
  then show ?case by (intro exI [of _ "sink_outbox db"]) simp
next
  case (Cons sink sinks)
  from Cons.prems have rest: "insert_outbox physical sinks
      (db\<lparr>sink_outbox := tput (sink, physical) () (sink_outbox db)\<rparr>) = (Ok db' :: (_, 'pe store_error) result)"
    by (simp split: if_splits)
  from Cons.IH [OF this] show ?case by auto
qed

text \<open>The rows that one call appends.\<close>

definition new_rows :: "change_row \<Rightarrow> domain_change list \<Rightarrow> nat \<Rightarrow> nat \<Rightarrow> (nat \<times> change_row) list" where
  "new_rows template cs n physical =
     map (\<lambda>i. (n + i, template\<lparr>cl_physical := physical + i + 1, cl_change := cs ! i\<rparr>)) [0..<length cs]"

lemma new_rows_Cons:
  "new_rows template (c # cs) n physical =
    (n, template\<lparr>cl_physical := physical + 1, cl_change := c\<rparr>) # new_rows template cs (n + 1) (physical + 1)"
  unfolding new_rows_def
  by (simp add: upt_conv_Cons del: upt_Suc) (simp add: map_Suc_upt [symmetric] o_def del: map_Suc_upt upt_Suc)

lemma append_loop_effect:
  "append_loop stream template sinks cs n bytes sequences db
      = (Ok (n', bytes', sequences', db') :: (_, 'pe store_error) result) \<Longrightarrow> ordered (change_log db) \<Longrightarrow>
    n' = n + length cs \<and> bytes' = bytes + row_change_bytes (new_rows template cs n (last_rowid db))
    \<and> (cs \<noteq> [] \<longrightarrow> n' < 2 ^ 63)
    \<and> sequences' = (if cs = [] then sequences
        else Some (case sequences of None \<Rightarrow> n | Some (first, _) \<Rightarrow> first, n + length cs - 1))
    \<and> (\<exists>outbox log. db' = db\<lparr>change_log := log, last_rowid := last_rowid db + length cs, sink_outbox := outbox\<rparr>
        \<and> (ordered (sink_outbox db) \<longrightarrow> ordered outbox) \<and> ordered log
        \<and> (\<forall>k. map_of log k = (if fst k = stream \<and> n \<le> snd k \<and> snd k < n + length cs
             then map_of (new_rows template cs n (last_rowid db)) (snd k) else map_of (change_log db) k)))"
proof (induction cs arbitrary: n bytes sequences db)
  case Nil
  then show ?case
    by (auto intro!: exI [of _ "sink_outbox db"] exI [of _ "change_log db"] simp: new_rows_def)
next
  case (Cons c cs)
  let ?row = "template\<lparr>cl_physical := Suc (last_rowid db), cl_change := c\<rparr>"
  from Cons.prems(1) obtain db1 db2 where
    ins: "insert_change stream n ?row db = (Ok db1 :: (_, 'pe store_error) result)"
    and out: "insert_outbox (last_rowid db1) sinks db1 = (Ok db2 :: (_, 'pe store_error) result)"
    and rest: "append_loop stream template sinks cs (n + 1) (bytes + change_bytes c)
      (Some (case sequences of None \<Rightarrow> n | Some (first, _) \<Rightarrow> first, n)) db2
      = (Ok (n', bytes', sequences', db') :: (_, 'pe store_error) result)"
    and bound: "n + 1 < 2 ^ 63"
    by (rule append_loop_Cons)
  note db1 = insert_change_effect [OF ins]
  obtain ob where db2: "db2 = db1\<lparr>sink_outbox := ob\<rparr>" and ob: "ordered (sink_outbox db1) \<longrightarrow> ordered ob"
    using insert_outbox_effect [OF out] by blast
  have log2: "change_log db2 = tput (stream, n) ?row (change_log db)" "last_rowid db2 = last_rowid db + 1"
    by (simp_all add: db2 db1(1))
  have ord2: "ordered (change_log db2)" using Cons.prems(2) by (simp add: log2)
  note IH = Cons.IH [OF rest ord2]
  have e: "n' = n + 1 + length cs"
      "bytes' = bytes + change_bytes c + row_change_bytes (new_rows template cs (n + 1) (last_rowid db2))"
      "cs \<noteq> [] \<longrightarrow> n' < 2 ^ 63"
      "sequences' = (if cs = [] then Some (case sequences of None \<Rightarrow> n | Some (first, _) \<Rightarrow> first, n)
        else Some (case sequences of None \<Rightarrow> n | Some (first, _) \<Rightarrow> first, n + 1 + length cs - 1))"
    using IH by (auto simp del: add_Suc)
  obtain outbox log where
    db': "db' = db2\<lparr>change_log := log, last_rowid := last_rowid db2 + length cs, sink_outbox := outbox\<rparr>"
      "ordered (sink_outbox db2) \<longrightarrow> ordered outbox" "ordered log"
      "\<forall>k. map_of log k = (if fst k = stream \<and> n + 1 \<le> snd k \<and> snd k < n + 1 + length cs
        then map_of (new_rows template cs (n + 1) (last_rowid db2)) (snd k) else map_of (change_log db2) k)"
    using IH by blast
  have log: "map_of log k = (if fst k = stream \<and> n \<le> snd k \<and> snd k < n + length (c # cs)
      then map_of (new_rows template (c # cs) n (last_rowid db)) (snd k) else map_of (change_log db) k)" for k
  proof (cases "fst k = stream \<and> snd k = n")
    case True
    then show ?thesis
      using db'(4) Cons.prems(2) by (cases k) (simp add: new_rows_Cons log2)
  next
    case False
    then have "k \<noteq> (stream, n)" by (cases k) auto
    with False show ?thesis
      using spec [OF db'(4), of k] Cons.prems(2) by (auto simp: new_rows_Cons log2)
  qed
  have "db' = db\<lparr>change_log := log, last_rowid := last_rowid db + length (c # cs), sink_outbox := outbox\<rparr>"
    using db'(1) log2(2) by (simp add: db2 db1(1))
  moreover have "ordered (sink_outbox db) \<longrightarrow> ordered outbox"
    using db'(2) ob by (simp add: db2 db1(1))
  moreover have "n' < 2 ^ 63" using e(1,3) bound by (cases cs) auto
  moreover have "bytes' = bytes + row_change_bytes (new_rows template (c # cs) n (last_rowid db))"
    using e(2) log2(2) by (simp add: new_rows_Cons)
  moreover have "sequences' = Some (case sequences of None \<Rightarrow> n | Some (first, _) \<Rightarrow> first, n + length (c # cs) - 1)"
    using e(4) by (cases cs) auto
  ultimately show ?case
    using e(1) log db'(3) by (intro conjI exI [of _ outbox] exI [of _ log]) (auto simp only: list.size list.distinct if_False)
qed

definition change_template ::
  "int \<Rightarrow> string \<Rightarrow> delivery_origin \<Rightarrow> chain_id \<Rightarrow> block_ref \<Rightarrow> finality \<Rightarrow> change_direction \<Rightarrow> change_row" where
  "change_template now i origin c b level direction =
     \<lparr>cl_physical = 0, cl_encoding_version = 1, cl_chain_id = c, cl_instance = i,
      cl_origin = origin, cl_block = b, cl_finality = level, cl_direction = direction,
      cl_change = \<lparr>ch_kind = '''', ch_key = [], ch_operation = Upsert, ch_payload = []\<rparr>, cl_created = now\<rparr>"

lemma stream_rows_other:
  "(\<And>n. map_of (change_log db') (stream, n) = map_of (change_log db) (stream, n)) \<Longrightarrow>
    ordered (change_log db) \<Longrightarrow> ordered (change_log db') \<Longrightarrow> stream_rows db' stream = stream_rows db stream"
  by (intro ordered_map_of_eq) (auto simp: stream_rows_table)

text \<open>The invariant after a change of one stream, or of one consumer.\<close>

lemma delivery_ok_update:
  assumes ok: "delivery_ok db" and "delivery_ordered db'"
    and streams: "map_of (delivery_streams db') = (map_of (delivery_streams db))(stream \<mapsto> s')"
    and "stream_ok db' stream s'"
    and others: "\<And>other n. other \<noteq> stream \<Longrightarrow> map_of (change_log db') (other, n) = map_of (change_log db) (other, n)"
    and consumers: "\<And>st c r. map_of (durable_consumers db') (st, c) = Some r \<Longrightarrow>
      st = stream \<and> consumer_ok s' r \<or> st \<noteq> stream \<and> map_of (durable_consumers db) (st, c) = Some r"
  shows "delivery_ok db'"
proof -
  have ord: "ordered (change_log db)" "ordered (change_log db')"
    using delivery_okD(1) [OF ok] assms(2) by (simp_all add: delivery_ordered_def)
  have "stream_ok db' other s" if "other \<noteq> stream" "map_of (delivery_streams db) other = Some s" for other s
    using delivery_okD(2) [OF ok that(2)] stream_rows_other [of db' other db] others [OF that(1)] ord
    by (simp add: stream_ok_def)
  then have "stream_ok db' other s" if "map_of (delivery_streams db') other = Some s" for other s
    using that streams assms(4) by (cases "other = stream") auto
  moreover have "map_of (change_log db') (other, n) = None" if "map_of (delivery_streams db') other = None" for other n
    using that streams others delivery_okD(3) [OF ok] by (cases "other = stream") auto
  moreover have "\<exists>s. map_of (delivery_streams db') st = Some s \<and> consumer_ok s r"
    if "map_of (durable_consumers db') (st, c) = Some r" for st c r
    using consumers [OF that] delivery_okD(4) [OF ok] streams by (cases "st = stream") fastforce+
  ultimately show ?thesis using assms(2) unfolding delivery_ok_def by blast
qed

lemma delivery_ok_consumer:
  assumes ok: "delivery_ok db" and s: "map_of (delivery_streams db) stream = Some s" and "consumer_ok s r"
  shows "delivery_ok (set_consumer stream consumer r db)"
proof (rule delivery_ok_update [OF ok, where stream = stream and s' = s])
  let ?db = "set_consumer stream consumer r db"
  have ord: "delivery_ordered db" by (rule delivery_okD(1) [OF ok])
  then show "delivery_ordered ?db" by (simp add: delivery_ordered_def set_consumer_def)
  show "map_of (delivery_streams ?db) = (map_of (delivery_streams db))(stream \<mapsto> s)"
    using s by (simp add: set_consumer_def map_upd_triv)
  show "stream_ok ?db stream s"
    using delivery_okD(2) [OF ok s] by (simp add: stream_ok_def set_consumer_def stream_rows_def)
  show "map_of (change_log ?db) (other, n) = map_of (change_log db) (other, n)" for other n
    by (simp add: set_consumer_def)
  show "st = stream \<and> consumer_ok s q \<or> st \<noteq> stream \<and> map_of (durable_consumers db) (st, c) = Some q"
    if "map_of (durable_consumers ?db) (st, c) = Some q" for st c q
    using that ord assms(3) delivery_okD(4) [OF ok, of st c] s
    by (cases "st = stream"; cases "c = consumer") (auto simp: set_consumer_def delivery_ordered_def)
qed

text \<open>
  Publishing: the stream grows at its end by the changes of the call, in order and at the next
  sequences; every other stream and every consumer is as before.
\<close>

lemma new_rows_keys: "map fst (new_rows template cs n physical) = [n..<n + length cs]"
  by (rule nth_equalityI) (simp_all add: new_rows_def)

lemma append_changes_effect:
  assumes "append_changes now i stream origin c b level direction changes sinks db
      = (Ok (sequences, db') :: (_, 'pe store_error) result)" and ok: "delivery_ok db"
  obtains s rows where "map_of (delivery_streams db) stream = Some s"
    and "rows = new_rows (change_template now i origin c b level direction) changes (sr_next_sequence s) (last_rowid db)"
    and "sequences = (if changes = [] then None
      else Some (sr_next_sequence s, sr_next_sequence s + length changes - 1))"
    and "stream_rows db' stream = stream_rows db stream @ rows"
    and "\<And>other. other \<noteq> stream \<Longrightarrow> stream_rows db' other = stream_rows db other"
    and "durable_consumers db' = durable_consumers db" "runtime_state db' = runtime_state db"
    and "deferred_changes db' = deferred_changes db"
    and "map_of (delivery_streams db') = (map_of (delivery_streams db))(stream \<mapsto>
      s\<lparr>sr_next_sequence := sr_next_sequence s + length changes,
        sr_live_bytes := sr_live_bytes s + int (row_change_bytes rows)\<rparr>)"
    and "delivery_ok db'"
proof -
  let ?t = "change_template now i origin c b level direction"
  from assms(1) obtain s n' bytes db1 where
    s: "map_of (delivery_streams db) stream = Some s"
    and loop: "append_loop stream ?t sinks changes (sr_next_sequence s) 0 None db
      = (Ok (n', bytes, sequences, db1) :: (_, 'pe store_error) result)"
    and none: "changes = [] \<Longrightarrow> db' = db1"
    and some: "changes \<noteq> [] \<Longrightarrow>
      advance_stream stream n' bytes db1 = (Ok db' :: (_, 'pe store_error) result)"
    by (auto simp: append_changes_def fetch_stream_def change_template_def split: if_splits)
  have fin: "db' = (if changes = [] then db1 else (case map_of (delivery_streams db1) stream of
            None \<Rightarrow> db1
          | Some t \<Rightarrow> db1\<lparr>delivery_streams := tput stream
              (t\<lparr>sr_next_sequence := n', sr_live_bytes := sr_live_bytes t + int bytes\<rparr>)
              (delivery_streams db1)\<rparr>))"
    using none some by (auto simp: advance_stream_def split: option.splits if_splits)
  have room: "sr_live_bytes t + int bytes < 2 ^ 63"
    if "changes \<noteq> []" "map_of (delivery_streams db1) stream = Some t" for t
    using some that by (auto simp: advance_stream_def split: if_splits)
  note ordb = delivery_okD(1) [OF ok, unfolded delivery_ordered_def]
  note sok = delivery_okD(2) [OF ok s, unfolded stream_ok_def]
  let ?rows = "new_rows ?t changes (sr_next_sequence s) (last_rowid db)"
  have "ordered (change_log db)" using ordb by blast
  note l = append_loop_effect [OF loop this]
  have n': "n' = sr_next_sequence s + length changes" and bytes: "bytes = row_change_bytes ?rows"
    and bound: "changes \<noteq> [] \<longrightarrow> n' < 2 ^ 63"
    and seqs: "sequences = (if changes = [] then None
      else Some (sr_next_sequence s, sr_next_sequence s + length changes - 1))"
    using l by (simp_all only: simp_thms option.case add_0, blast)
  obtain outbox log where
    db1: "db1 = db\<lparr>change_log := log, last_rowid := last_rowid db + length changes, sink_outbox := outbox\<rparr>"
    "ordered outbox" "ordered log" and
    log: "\<forall>k. map_of log k = (if fst k = stream \<and> sr_next_sequence s \<le> snd k \<and> snd k < sr_next_sequence s + length changes
             then map_of ?rows (snd k) else map_of (change_log db) k)"
    using l ordb by blast
  let ?s = "s\<lparr>sr_next_sequence := sr_next_sequence s + length changes,
        sr_live_bytes := sr_live_bytes s + int (row_change_bytes ?rows)\<rparr>"
  have streams: "ordered (delivery_streams db')"
    "map_of (delivery_streams db') = (map_of (delivery_streams db))(stream \<mapsto> ?s)"
    using ordb s by (auto simp: fin db1(1) n' bytes new_rows_def map_upd_triv split: if_splits)
  have rest: "change_log db' = log" "durable_consumers db' = durable_consumers db"
    "runtime_state db' = runtime_state db" "deferred_changes db' = deferred_changes db" "sink_outbox db' = outbox"
    using s by (auto simp: fin db1(1) split: if_splits option.splits)
  have lg: "map_of log (st, m) = (if st = stream \<and> sr_next_sequence s \<le> m \<and> m < sr_next_sequence s + length changes
      then map_of ?rows m else map_of (change_log db) (st, m))" for st m
    using spec [OF log, of "(st, m)"] by simp
  have new: "map_of ?rows m \<noteq> None \<longleftrightarrow> sr_next_sequence s \<le> m \<and> m < sr_next_sequence s + length changes" for m
    using new_rows_keys [of ?t changes "sr_next_sequence s" "last_rowid db"]
    by (simp add: map_of_eq_None_iff flip: set_map)
  have ordlog: "ordered (change_log db')" by (simp add: rest db1(3))
  have same: "stream_rows db' other = stream_rows db other" if "other \<noteq> stream" for other
    using that ordlog ordb lg by (intro stream_rows_other) (simp_all add: rest)
  have keys: "map fst (stream_rows db stream) = [sr_pruned_through s + 1..<sr_next_sequence s]"
    by (rule stream_keys [OF ok s])
  have app: "stream_rows db' stream = stream_rows db stream @ ?rows"
  proof (rule ordered_map_of_eq)
    show "ordered (stream_rows db' stream)" by (rule stream_rows_table(1) [OF ordlog])
    show "ordered (stream_rows db stream @ ?rows)"
      using sok unfolding ordered_def map_append keys new_rows_keys
      by (auto simp: sorted_wrt_append)
    have old: "map_of (stream_rows db stream) m = None" if "sr_next_sequence s \<le> m" for m
      using keys that by (simp add: map_of_eq_None_iff flip: set_map)
    have "map_of (stream_rows db' stream) m = map_of (stream_rows db stream @ ?rows) m" for m
      using new [of m] old [of m] lg [of stream m] stream_rows_table(2) [OF ordlog, of stream m]
        stream_rows_table(2) [of db stream m] ordb
      by (cases "map_of ?rows m") (auto simp: rest map_add_def split: option.splits)
    then show "map_of (stream_rows db' stream) = map_of (stream_rows db stream @ ?rows)" by (rule ext)
  qed
  have "row_change_bytes (stream_rows db stream) + row_change_bytes ?rows < 2 ^ 63"
    using room [of s] s sok by (cases "changes = []") (simp_all add: db1(1) bytes new_rows_def)
  then have "stream_ok db' stream ?s"
    using sok app new bound n' unfolding stream_ok_def rest lg by auto
  moreover have "delivery_ordered db'"
    using ordb db1 streams(1) by (simp add: delivery_ordered_def rest)
  moreover have "consumer_ok ?s r" if "map_of (durable_consumers db) (stream, cs) = Some r" for cs r
    using delivery_okD(4) [OF ok that] s by (auto simp: consumer_ok_def)
  ultimately have "delivery_ok db'"
    using lg rest by (intro delivery_ok_update [OF ok _ streams(2)]) auto
  then show thesis
    using that [OF s refl seqs app same rest(2) rest(3) rest(4) streams(2)] by blast
qed

section \<open>Releasing parked changes\<close>

lemma delivery_ok_deferred: "delivery_ok db \<Longrightarrow> ordered t \<Longrightarrow> delivery_ok (db\<lparr>deferred_changes := t\<rparr>)"
  by (simp add: delivery_ok_def delivery_ordered_def stream_ok_def stream_rows_def)

lemma delivery_ok_runtime: "delivery_ok db \<Longrightarrow> ordered t \<Longrightarrow> delivery_ok (db\<lparr>runtime_state := t\<rparr>)"
  by (simp add: delivery_ok_def delivery_ordered_def stream_ok_def stream_rows_def)

text \<open>The changes of a stream in order.\<close>

definition stream_changes :: "delivery_db \<Rightarrow> string \<Rightarrow> domain_change list" where
  "stream_changes db stream = map (\<lambda>(_, r). cl_change r) (stream_rows db stream)"

lemma new_rows_changes: "map (\<lambda>(_, r). cl_change r) (new_rows template cs n physical) = cs"
  by (rule nth_equalityI) (simp_all add: new_rows_def)

lemma append_changes_published:
  assumes "append_changes now i stream origin c b level direction changes sinks db
      = (Ok (sequences, db') :: (_, 'pe store_error) result)" and "delivery_ok db"
  shows "delivery_ok db'" "durable_consumers db' = durable_consumers db"
    "stream_changes db' other = stream_changes db other @ (if other = stream then changes else [])"
  by (rule append_changes_effect [OF assms]; auto simp: stream_changes_def new_rows_changes)+

lemma release_rows_published:
  "release_rows now i level rows db = (Ok db' :: (_, 'pe store_error) result) \<Longrightarrow> delivery_ok db \<Longrightarrow>
    delivery_ok db' \<and> durable_consumers db' = durable_consumers db
    \<and> stream_changes db' stream = stream_changes db stream
        @ concat (map (\<lambda>(_, r). df_changes r) (filter (\<lambda>(_, r). df_stream r = stream) rows))"
proof (induction rows arbitrary: db)
  case (Cons e rows)
  obtain n r where e: "e = (n, r)" by (cases e)
  from Cons.prems(1) obtain sequences db1 where
    a: "append_changes now i (df_stream r) (df_origin r) (df_chain_id r) (df_block r) level
        DirectionApply (df_changes r) (df_sinks r) db = (Ok (sequences, db1) :: (_, 'pe store_error) result)"
    and rest: "release_rows now i level rows (db1\<lparr>deferred_changes := tdel n (deferred_changes db1)\<rparr>)
        = (Ok db' :: (_, 'pe store_error) result)"
    by (auto simp: e)
  note p = append_changes_published [OF a Cons.prems(2)]
  have "delivery_ok (db1\<lparr>deferred_changes := tdel n (deferred_changes db1)\<rparr>)"
    using p(1) delivery_okD(1) [OF p(1)] by (intro delivery_ok_deferred) (simp_all add: delivery_ordered_def)
  from Cons.IH [OF rest this] p(2) p(3) [of stream] show ?case
    by (simp add: e stream_changes_def stream_rows_def)
qed simp

lemma release_rows_append:
  "release_rows now i level (xs @ ys) db =
    and_then (release_rows now i level xs db) (release_rows now i level ys)"
proof (induction xs arbitrary: db)
  case (Cons e xs)
  then show ?case by (cases e) (simp add: and_then_def split: sum.split)
qed simp

lemma deferred_through_distinct:
  "ordered (deferred_changes db) \<Longrightarrow> distinct (map fst (deferred_through db i through))"
  using ordered_distinct [of "deferred_changes db"] unfolding deferred_through_def
  by (auto simp: distinct_map intro: inj_on_subset)

lemma drop_as_filter:
  assumes "distinct (map fst xs)"
  shows "filter (\<lambda>e. fst e \<notin> fst ` set (take m xs)) xs = drop m xs"
proof -
  have d: "fst ` set (take m xs) \<inter> fst ` set (drop m xs) = {}"
    using assms by (metis append_take_drop_id distinct_append map_append set_map)
  let ?P = "\<lambda>e. fst e \<notin> fst ` set (take m xs)"
  have "filter ?P (take m xs) = []" unfolding filter_empty_conv by blast
  moreover have "filter ?P (drop m xs) = drop m xs" using d by (intro filter_True) blast
  ultimately have "filter ?P (take m xs @ drop m xs) = drop m xs" unfolding filter_append by simp
  then show ?thesis by (simp only: append_take_drop_id)
qed

lemma release_rows_through:
  assumes "release_rows now i level (take m (deferred_through db i through)) db
      = (Ok db' :: (_, 'pe store_error) result)" "ordered (deferred_changes db)"
  shows "deferred_through db' i through = drop m (deferred_through db i through)"
    and "ordered (deferred_changes db')"
proof -
  let ?L = "deferred_through db i through"
  have d: "deferred_changes db' = filter (\<lambda>e. fst e \<notin> fst ` set (take m ?L)) (deferred_changes db)"
    by (rule release_rows_deferred [OF assms(1)])
  have "deferred_through db' i through = filter (\<lambda>e. fst e \<notin> fst ` set (take m ?L)) ?L"
    unfolding deferred_through_def [of db'] d
    by (simp add: deferred_through_def [of db] filter_sort conj_commute)
  then show "deferred_through db' i through = drop m ?L"
    using drop_as_filter [OF deferred_through_distinct [OF assms(2)]] by simp
  show "ordered (deferred_changes db')" using assms(2) by (simp add: d)
qed

text \<open>The batches of the loop make one pass over all rows through the height.\<close>

lemma release_loop_pass:
  "ordered (deferred_changes db) \<Longrightarrow>
    (release_loop now i through level released db :: (_, 'pe store_error) result) =
      and_then (release_rows now i level (deferred_through db i through) db)
        (\<lambda>db'. Ok (released \<or> deferred_through db i through \<noteq> [], db'))"
proof (induction now i through level released db rule: release_loop.induct [where 'a = 'pe])
  case (1 now i through level released db)
  let ?L = "deferred_through db i through" and ?m = DEFERRED_FLUSH_BATCH
  have m: "0 < ?m" by (simp add: DEFERRED_FLUSH_BATCH_def)
  have pass: "(release_rows now i level ?L db :: (_, 'pe store_error) result) =
      and_then (release_rows now i level (take ?m ?L) db) (release_rows now i level (drop ?m ?L))"
    by (simp flip: release_rows_append)
  show ?case
  proof (cases "take ?m ?L = []")
    case True
    then have "?L = []" using m by simp
    then show ?thesis by (simp add: release_loop.simps)
  next
    case False
    then have ne: "?L \<noteq> []" by auto
    show ?thesis
    proof (cases "release_rows now i level (take ?m ?L) db :: (_, 'pe store_error) result")
      case (Inl e)
      have "(release_rows now i level ?L db :: (_, 'pe store_error) result) = Err e"
        unfolding pass Inl by simp
      then show ?thesis using False Inl by (simp add: release_loop.simps [of now] Let_def)
    next
      case (Inr db1)
      note t = release_rows_through [OF Inr "1.prems"]
      have split: "(release_rows now i level ?L db :: (_, 'pe store_error) result)
          = release_rows now i level (drop ?m ?L) db1"
        unfolding pass Inr by simp
      show ?thesis
      proof (cases "length (take ?m ?L) < ?m")
        case True
        then have "drop ?m ?L = []" by simp
        then show ?thesis
          using False Inr True split ne by (simp add: release_loop.simps [of now] Let_def)
      next
        case go: False
        have "(release_loop now i through level released db :: (_, 'pe store_error) result)
            = release_loop now i through level True db1"
          using False Inr go by (simp add: release_loop.simps [of now] Let_def)
        also have "\<dots> = and_then (release_rows now i level (deferred_through db1 i through) db1)
            (\<lambda>db'. Ok (True \<or> deferred_through db1 i through \<noteq> [], db'))"
          using "1.IH" [OF refl False Inr go t(2)] .
        finally show ?thesis using t(1) split ne by simp
      qed
    qed
  qed
qed

section \<open>Pruning changes\<close>

lemma whole_blocks_le: "whole_blocks rows effective \<le> effective"
  by (auto simp: whole_blocks_def Let_def split: option.splits)

lemma protected_sequence_le:
  assumes "map_of (durable_consumers db) (stream, consumer) = Some r"
    "cr_role r = RoleRequired" "cr_state r = Active"
  shows "\<exists>p. protected_sequence db stream = Some p \<and> p \<le> cr_acknowledged r + 1"
proof -
  let ?f = "\<lambda>r. if cr_acknowledged r = 2 ^ 63 - 1 then cr_acknowledged r else cr_acknowledged r + 1"
  define acks where "acks = map (\<lambda>(_, r). ?f r)
      (filter (\<lambda>((s, _), r). s = stream \<and> cr_role r = RoleRequired \<and> cr_state r = Active) (durable_consumers db))"
  have "((stream, consumer), r) \<in> set (durable_consumers db)"
    using assms(1) by (rule map_of_SomeD)
  then have member: "?f r \<in> set acks" using assms(2,3) unfolding acks_def by force
  then have "acks \<noteq> []" by auto
  then have "protected_sequence db stream = Some (Min (set acks))"
    by (simp add: protected_sequence_def acks_def Let_def)
  moreover have "Min (set acks) \<le> ?f r" using member by (intro Min_le) simp_all
  then have "Min (set acks) \<le> cr_acknowledged r + 1" by (simp split: if_splits)
  ultimately show ?thesis by blast
qed

lemma effective_before_bounds:
  "effective_before db stream requested \<le> requested"
  "last_sequence (stream_rows db stream) = Some l \<Longrightarrow> effective_before db stream requested \<le> l"
  "protected_sequence db stream = Some p \<Longrightarrow> effective_before db stream requested \<le> p"
  unfolding effective_before_def Let_def
  by (auto split: option.splits intro: order_trans [OF whole_blocks_le])

lemma max_last_upt:
  "(case if [a + 1..<m] = [] then None else Some (last [a + 1..<m]) of None \<Rightarrow> a | Some n \<Rightarrow> max a n)
    = max a (m - 1)"
proof (cases "a + 1 < m")
  case True
  then have "last [a + 1..<m] = m - 1" by (intro last_upt) simp
  with True show ?thesis by simp
qed simp

lemma prune_effect:
  assumes prune: "prune_changes_before_in_stream desc stream requested db
      = (Ok (out, db') :: (_, 'pe store_error) result)" and ok: "delivery_ok db"
  obtains s where "map_of (delivery_streams db) stream = Some s"
    and "cpo_effective_before out = effective_before db stream requested"
    and "stream_rows db' stream = filter (\<lambda>(n, _). effective_before db stream requested \<le> n) (stream_rows db stream)"
    and "\<And>other. other \<noteq> stream \<Longrightarrow> stream_rows db' other = stream_rows db other"
    and "durable_consumers db' = durable_consumers db" "deferred_changes db' = deferred_changes db"
    and "map_of (delivery_streams db') = (map_of (delivery_streams db))(stream \<mapsto>
      s\<lparr>sr_pruned_through := max (sr_pruned_through s)
          (min (effective_before db stream requested) (sr_next_sequence s) - 1),
        sr_live_bytes := int (row_change_bytes (stream_rows db' stream))\<rparr>)"
    and "delivery_ok db'"
proof -
  let ?e = "effective_before db stream requested"
  let ?rows = "stream_rows db stream"
  let ?doomed = "filter (\<lambda>(n, _). n < ?e) ?rows"
  from prune obtain s where s: "map_of (delivery_streams db) stream = Some s"
    by (auto simp: prune_changes_before_in_stream_def fetch_stream_def)
  define pruned where "pruned = (case last_sequence ?doomed of None \<Rightarrow> sr_pruned_through s
      | Some n \<Rightarrow> max (sr_pruned_through s) n)"
  define live where "live = sr_live_bytes s - int (row_change_bytes ?doomed)"
  from prune s have eff: "cpo_effective_before out = ?e"
    and log: "change_log db' = filter (\<lambda>((t, n), _). \<not> (t = stream \<and> n < ?e)) (change_log db)"
    and streams: "delivery_streams db' = tput stream (s\<lparr>sr_pruned_through := pruned, sr_live_bytes := live\<rparr>)
        (delivery_streams db)"
    and rest: "durable_consumers db' = durable_consumers db" "deferred_changes db' = deferred_changes db"
    and tables: "ordered (runtime_state db) \<Longrightarrow> ordered (runtime_state db')"
      "ordered (sink_outbox db) \<Longrightarrow> ordered (sink_outbox db')"
    by (auto simp: prune_changes_before_in_stream_def fetch_stream_def Let_def pruned_def live_def split: if_splits)
  note ordb = delivery_okD(1) [OF ok, unfolded delivery_ordered_def]
  note sok = delivery_okD(2) [OF ok s, unfolded stream_ok_def]
  note keys = stream_keys [OF ok s]
  have logm: "map_of (change_log db') (st, n) = (if st = stream \<and> n < ?e then None else map_of (change_log db) (st, n))" for st n
    using map_of_filter_keys [of "\<lambda>(t, n). \<not> (t = stream \<and> n < ?e)" "change_log db" "(st, n)"]
    by (simp add: log case_prod_unfold)
  have ordlog: "ordered (change_log db')" using ordb by (simp add: log)
  have same: "stream_rows db' other = stream_rows db other" if "other \<noteq> stream" for other
    using that ordlog ordb logm by (intro stream_rows_other) simp_all
  have kept: "stream_rows db' stream = filter (\<lambda>(n, _). ?e \<le> n) ?rows"
  proof (rule ordered_map_of_eq)
    show "ordered (stream_rows db' stream)" by (rule stream_rows_table(1) [OF ordlog])
    show "ordered (filter (\<lambda>(n, _). ?e \<le> n) ?rows)" using stream_rows_table(1) [of db stream] ordb by simp
    have "map_of (stream_rows db' stream) n = map_of (filter (\<lambda>(n, _). ?e \<le> n) ?rows) n" for n
      using map_of_filter_keys [of "\<lambda>n. ?e \<le> n" ?rows n] stream_rows_table(2) [OF ordlog, of stream n]
        stream_rows_table(2) [of db stream n] ordb logm [of stream n]
      by (simp add: case_prod_unfold)
    then show "map_of (stream_rows db' stream) = map_of (filter (\<lambda>(n, _). ?e \<le> n) ?rows)" by (rule ext)
  qed
  have doomed: "map fst ?doomed = [sr_pruned_through s + 1..<min ?e (sr_next_sequence s)]"
  proof (rule interval_keys)
    show "ordered ?doomed" using stream_rows_table(1) [of db stream] ordb by simp
    show "map_of ?doomed n \<noteq> None \<longleftrightarrow> sr_pruned_through s + 1 \<le> n \<and> n < min ?e (sr_next_sequence s)" for n
      using map_of_filter_keys [of "\<lambda>n. n < ?e" ?rows n] stream_rows_table(2) [of db stream n] ordb sok
      by (auto simp: case_prod_unfold Suc_le_eq)
  qed
  have below: "?e < sr_next_sequence s" if "sr_pruned_through s + 1 < sr_next_sequence s"
    using effective_before_bounds(2) [of db stream "sr_next_sequence s - 1" requested]
      stream_bounds(1) [OF ok s] that by simp
  have pruned: "pruned = max (sr_pruned_through s) (min ?e (sr_next_sequence s) - 1)"
    unfolding pruned_def last_sequence_keys doomed by (rule max_last_upt)
  let ?s = "s\<lparr>sr_pruned_through := pruned, sr_live_bytes := live\<rparr>"
  have live: "live = int (row_change_bytes (stream_rows db' stream))"
    using sok row_change_bytes_split [of ?rows "\<lambda>(n, _). n < ?e"]
    by (simp add: live_def kept case_prod_unfold not_less)
  moreover have "row_change_bytes (stream_rows db' stream) \<le> row_change_bytes ?rows"
    using row_change_bytes_split [of ?rows "\<lambda>(n, _). n < ?e"] by (simp add: kept case_prod_unfold not_less)
  ultimately have "stream_ok db' stream ?s"
    unfolding stream_ok_def using sok pruned below logm [of stream] by auto
  moreover have "consumer_ok ?s r" if r: "map_of (durable_consumers db) (stream, c) = Some r" for c r
  proof -
    have "?e \<le> cr_acknowledged r + 1" if "cr_role r = RoleRequired" "cr_state r = Active"
      using protected_sequence_le [OF r that] effective_before_bounds(3) [of db stream _ requested] ordb
      by (blast intro: order_trans)
    then show ?thesis
      using delivery_okD(4) [OF ok r] s by (auto simp: consumer_ok_def pruned)
  qed
  moreover have sm: "map_of (delivery_streams db') = (map_of (delivery_streams db))(stream \<mapsto> ?s)"
    using ordb by (simp add: streams)
  moreover have "delivery_ordered db'"
    using ordb tables ordlog by (simp add: delivery_ordered_def streams rest)
  ultimately have "delivery_ok db'"
    using logm rest by (intro delivery_ok_update [OF ok]) auto
  then show thesis
    using that [OF s eff kept same rest] sm pruned live by simp
qed

section \<open>Consumers\<close>

lemma delivery_ok_set:
  assumes "delivery_ok db" "map_of (durable_consumers db) (stream, consumer) = Some r"
    and "\<And>s. consumer_ok s r \<Longrightarrow> map_of (delivery_streams db) stream = Some s \<Longrightarrow> consumer_ok s r'"
  shows "delivery_ok (set_consumer stream consumer r' db)"
  using delivery_okD(4) [OF assms(1,2)] assms(3) delivery_ok_consumer [OF assms(1)] by blast

lemma ensure_stream_ok:
  assumes "delivery_ok db"
  shows "delivery_ok (ensure_stream stream i kind db)"
proof (cases "map_of (delivery_streams db) stream")
  case (Some s)
  then show ?thesis using assms by (simp add: ensure_stream_def)
next
  case None
  let ?s = "\<lparr>sr_instance = i, sr_kind = kind, sr_next_sequence = 1, sr_pruned_through = 0, sr_live_bytes = 0\<rparr>"
  let ?db = "db\<lparr>delivery_streams := tput stream ?s (delivery_streams db)\<rparr>"
  have ord: "delivery_ordered db" by (rule delivery_okD(1) [OF assms])
  have empty: "map_of (change_log db) (stream, n) = None" for n by (rule delivery_okD(3) [OF assms None])
  have "map_of (stream_rows db stream) n = None" for n
    using stream_rows_table(2) [of db stream n] empty [of n] ord by (simp add: delivery_ordered_def)
  then have "map_of (stream_rows db stream) = Map.empty" by (rule ext)
  then have "stream_rows db stream = []" by simp
  then have "stream_ok ?db stream ?s"
    using empty by (auto simp: stream_ok_def stream_rows_def)
  moreover have "map_of (durable_consumers db) (stream, c) = None" for c
    using delivery_okD(4) [OF assms, of stream c] None by (cases "map_of (durable_consumers db) (stream, c)") auto
  ultimately have "delivery_ok ?db"
    using ord by (intro delivery_ok_update [OF assms, of _ stream ?s]) (auto simp: delivery_ordered_def)
  then show ?thesis using None by (simp add: ensure_stream_def)
qed

lemma start_sequence_ok:
  assumes "start_sequence start (first_sequence (stream_rows db stream)) (last_sequence (stream_rows db stream))
      (sr_pruned_through s) = (Ok n :: (_, 'pe store_error) result)"
    and "delivery_ok db" "map_of (delivery_streams db) stream = Some s"
  shows "sr_pruned_through s \<le> n" "n < sr_next_sequence s"
  using assms(1) delivery_okD(2) [OF assms(2,3)]
  unfolding stream_bounds [OF assms(2,3)]
  by (auto simp: start_sequence_def stream_ok_def Let_def split: consumer_start.splits if_splits)

lemma create_consumer_ok:
  assumes "create_consumer_inner ch now desc stream consumer role start ttl credential db
      = (Ok db' :: (_, 'pe store_error) result)" and ok: "delivery_ok db"
  shows "delivery_ok db'"
proof -
  let ?r = "\<lambda>n. \<lparr>cr_instance = pd_instance desc, cr_role = role, cr_state = Active, cr_acknowledged = n,
      cr_delivered = n, cr_work_blocks = 0, cr_ttl_ms = int (ttl div 1000000),
      cr_expires = now + int (ttl div 1000000), cr_generation = 0, cr_created = now, cr_updated = now,
      cr_credential = map_option ch credential\<rparr>"
  from assms(1) obtain s n where s: "map_of (delivery_streams db) stream = Some s"
    and n: "start_sequence start (first_sequence (stream_rows db stream)) (last_sequence (stream_rows db stream))
      (sr_pruned_through s) = (Ok n :: (_, 'pe store_error) result)"
    and db': "db' = set_consumer stream consumer (?r n) db"
    by (auto simp: create_consumer_inner_def fetch_stream_def set_consumer_def split: if_splits)
  show ?thesis
    unfolding db' using start_sequence_ok [OF n ok s] by (intro delivery_ok_consumer [OF ok s]) (simp add: consumer_ok_def)
qed

lemma check_boundary_Ok:
  assumes "check_boundary db stream r sequence = (Ok u :: (_, 'pe store_error) result)"
  shows "\<exists>h. last_sequence (stream_rows db stream) = Some h \<and> sequence \<le> h \<or> sequence = 0"
    and "sequence \<le> cr_delivered r"
  using assms by (auto simp: check_boundary_def Let_def split: if_splits option.splits)

lemma acknowledge_effect:
  assumes "acknowledge_consumer_in_stream_inner now desc stream consumer session sequence db
      = (Ok db' :: (_, 'pe store_error) result)"
  obtains (repeat) r where "map_of (durable_consumers db) (stream, consumer) = Some r" "cr_state r = Active"
      "session = Some (cr_generation r)" "sequence = cr_acknowledged r" "db' = db"
  | (move) r work expires where "map_of (durable_consumers db) (stream, consumer) = Some r" "cr_state r = Active"
      "\<forall>g. session = Some g \<longrightarrow> session_current now g r"
      "cr_acknowledged r \<le> sequence"
      "cr_acknowledged r < sequence \<Longrightarrow> check_boundary db stream r sequence = (Ok () :: (_, 'pe store_error) result)"
      "sum_progress (progress_payloads db stream (cr_acknowledged r) sequence) 0 = (Ok work :: (_, 'pe store_error) result)"
      "db' = set_consumer stream consumer (r\<lparr>cr_acknowledged := sequence, cr_delivered := max (cr_delivered r) sequence,
         cr_work_blocks := cr_work_blocks r + work, cr_expires := expires, cr_updated := now\<rparr>) db"
proof -
  let ?ended = "\<lambda>r. case session of None \<Rightarrow> False | Some g \<Rightarrow> cr_generation r \<noteq> g \<or> cr_expires r \<le> now"
  from assms obtain r where r: "map_of (durable_consumers db) (stream, consumer) = Some r" "cr_state r = Active"
    by (auto simp: acknowledge_consumer_in_stream_inner_def split: option.splits if_splits)
  show thesis
  proof (cases "?ended r")
    case True
    then show thesis
      using assms r repeat by (auto simp: acknowledge_consumer_in_stream_inner_def split: if_splits)
  next
    case False
    then have current: "\<forall>g. session = Some g \<longrightarrow> session_current now g r"
      using r(2) by (auto simp: session_current_def)
    from assms r False have le: "cr_acknowledged r \<le> sequence"
      by (auto simp: acknowledge_consumer_in_stream_inner_def not_less split: if_splits)
    from assms r False le obtain work expires where
      b: "(if sequence > cr_acknowledged r then check_boundary db stream r sequence else Ok ())
        = (Ok () :: (_, 'pe store_error) result)"
      and w: "sum_progress (progress_payloads db stream (cr_acknowledged r) sequence) 0 = (Ok work :: (_, 'pe store_error) result)"
      "db' = set_consumer stream consumer (r\<lparr>cr_acknowledged := sequence, cr_delivered := max (cr_delivered r) sequence,
         cr_work_blocks := cr_work_blocks r + work, cr_expires := expires, cr_updated := now\<rparr>) db"
      unfolding acknowledge_consumer_in_stream_inner_def by (auto simp: if_Err_eq_Ok)
    from b have "cr_acknowledged r < sequence \<Longrightarrow> check_boundary db stream r sequence = (Ok () :: (_, 'pe store_error) result)"
      by simp
    from move [OF r current le this w] show thesis .
  qed
qed

lemma acknowledge_ok:
  assumes "acknowledge_consumer_in_stream_inner now desc stream consumer session sequence db
      = (Ok db' :: (_, 'pe store_error) result)" and ok: "delivery_ok db"
  shows "delivery_ok db'"
  using assms(1)
proof (cases rule: acknowledge_effect)
  case (repeat r)
  then show ?thesis using ok by simp
next
  case (move r work expires)
  show ?thesis unfolding move(7)
  proof (rule delivery_ok_set [OF ok move(1)])
    fix s assume c: "consumer_ok s r" and s: "map_of (delivery_streams db) stream = Some s"
    have "sequence < sr_next_sequence s"
    proof (cases "cr_acknowledged r < sequence")
      case True
      with check_boundary_Ok(1) [OF move(5)] stream_bounds(1) [OF ok s] c show ?thesis
        by (auto simp: consumer_ok_def split: if_splits)
    next
      case False
      then show ?thesis using move(4) c by (simp add: consumer_ok_def)
    qed
    then show "consumer_ok s (r\<lparr>cr_acknowledged := sequence, cr_delivered := max (cr_delivered r) sequence,
         cr_work_blocks := cr_work_blocks r + work, cr_expires := expires, cr_updated := now\<rparr>)"
      using c move(4) by (auto simp: consumer_ok_def)
  qed
qed

section \<open>Steps\<close>

text \<open>
  What no operation takes back: a stream keeps its processor and kind, its sequences only grow, a row
  that is still retained is the same row, and a consumer keeps its role and never moves backwards.
\<close>

definition consumer_moves :: "consumer_row \<Rightarrow> consumer_row \<Rightarrow> bool" where
  "consumer_moves r r' =
     (cr_role r' = cr_role r \<and> cr_acknowledged r \<le> cr_acknowledged r' \<and> cr_delivered r \<le> cr_delivered r'
      \<and> cr_generation r \<le> cr_generation r' \<and> (cr_state r' = Active \<longrightarrow> cr_state r = Active))"

definition stream_moves :: "delivery_db \<Rightarrow> delivery_db \<Rightarrow> string \<Rightarrow> stream_row \<Rightarrow> stream_row \<Rightarrow> bool" where
  "stream_moves db db' stream s s' =
     (sr_instance s' = sr_instance s \<and> sr_kind s' = sr_kind s
      \<and> sr_pruned_through s \<le> sr_pruned_through s' \<and> sr_next_sequence s \<le> sr_next_sequence s'
      \<and> (\<forall>n. sr_pruned_through s' < n \<and> n < sr_next_sequence s \<longrightarrow>
           map_of (stream_rows db' stream) n = map_of (stream_rows db stream) n))"

definition delivery_kept :: "delivery_db \<Rightarrow> delivery_db \<Rightarrow> bool" where
  "delivery_kept db db' =
     ((\<forall>stream s. map_of (delivery_streams db) stream = Some s \<longrightarrow>
         (\<exists>s'. map_of (delivery_streams db') stream = Some s' \<and> stream_moves db db' stream s s'))
      \<and> (\<forall>k r. map_of (durable_consumers db) k = Some r \<longrightarrow>
         (\<exists>r'. map_of (durable_consumers db') k = Some r' \<and> consumer_moves r r')))"

lemma delivery_keptD:
  assumes "delivery_kept db db'"
  shows "map_of (delivery_streams db) stream = Some s \<Longrightarrow>
      \<exists>s'. map_of (delivery_streams db') stream = Some s' \<and> stream_moves db db' stream s s'"
    and "map_of (durable_consumers db) k = Some r \<Longrightarrow>
      \<exists>r'. map_of (durable_consumers db') k = Some r' \<and> consumer_moves r r'"
  using assms unfolding delivery_kept_def by blast+

lemma consumer_moves_refl [simp]: "consumer_moves r r"
  by (simp add: consumer_moves_def)

lemma stream_moves_same: "stream_rows db' stream = stream_rows db stream \<Longrightarrow> stream_moves db db' stream s s"
  by (simp add: stream_moves_def)

lemma delivery_kept_trans:
  assumes "delivery_kept db db'" "delivery_kept db' db''"
  shows "delivery_kept db db''"
  unfolding delivery_kept_def
proof (intro conjI allI impI)
  fix stream s assume "map_of (delivery_streams db) stream = Some s"
  then obtain s' where s': "map_of (delivery_streams db') stream = Some s'" "stream_moves db db' stream s s'"
    using delivery_keptD(1) [OF assms(1)] by blast
  then obtain s'' where "map_of (delivery_streams db'') stream = Some s''" "stream_moves db' db'' stream s' s''"
    using delivery_keptD(1) [OF assms(2)] by blast
  with s' show "\<exists>s''. map_of (delivery_streams db'') stream = Some s'' \<and> stream_moves db db'' stream s s''"
    by (auto simp: stream_moves_def)
next
  fix k r assume "map_of (durable_consumers db) k = Some r"
  then obtain r' r'' where "map_of (durable_consumers db'') k = Some r''" "consumer_moves r r'" "consumer_moves r' r''"
    using delivery_keptD(2) [OF assms(1)] delivery_keptD(2) [OF assms(2)] by meson
  then show "\<exists>r''. map_of (durable_consumers db'') k = Some r'' \<and> consumer_moves r r''"
    by (auto simp: consumer_moves_def)
qed

text \<open>An operation that keeps the rows of the log.\<close>

lemma delivery_kept_same:
  assumes "\<And>stream. stream_rows db' stream = stream_rows db stream"
    and "map_of (delivery_streams db) \<subseteq>\<^sub>m map_of (delivery_streams db')"
    and "map_of (durable_consumers db) \<subseteq>\<^sub>m map_of (durable_consumers db')"
  shows "delivery_kept db db'"
proof -
  have "map_of (delivery_streams db') stream = Some s" if "map_of (delivery_streams db) stream = Some s" for stream s
    using assms(2) that by (metis domI map_le_def)
  moreover have "map_of (durable_consumers db') k = Some r" if "map_of (durable_consumers db) k = Some r" for k r
    using assms(3) that by (metis domI map_le_def)
  ultimately show ?thesis
    unfolding delivery_kept_def using stream_moves_same [OF assms(1)] consumer_moves_refl by blast
qed

text \<open>What every step keeps and leads to.\<close>

definition delivery_next :: "delivery_db \<Rightarrow> delivery_db \<Rightarrow> bool" where
  "delivery_next db db' = (delivery_ok db' \<and> delivery_kept db db')"

lemma delivery_next_refl: "delivery_ok db \<Longrightarrow> delivery_next db db"
  by (simp add: delivery_next_def delivery_kept_same)

lemma delivery_next_trans: "delivery_next db db' \<Longrightarrow> delivery_next db' db'' \<Longrightarrow> delivery_next db db''"
  using delivery_kept_trans by (auto simp: delivery_next_def)

lemma delivery_kept_consumer:
  assumes "delivery_ordered db"
    and "\<And>r. map_of (durable_consumers db) (stream, consumer) = Some r \<Longrightarrow> consumer_moves r r'"
  shows "delivery_kept db (set_consumer stream consumer r' db)"
proof -
  have "stream_rows (set_consumer stream consumer r' db) other = stream_rows db other" for other
    by (simp add: set_consumer_def stream_rows_def)
  then show ?thesis
    using assms stream_moves_same
    by (auto simp: delivery_kept_def set_consumer_def delivery_ordered_def)
qed

lemma consumer_next:
  assumes "delivery_ok db" "map_of (durable_consumers db) (stream, consumer) = Some r"
    and "consumer_moves r r'" "cr_acknowledged r' = cr_acknowledged r"
  shows "delivery_next db (set_consumer stream consumer r' db)"
  unfolding delivery_next_def
proof
  show "delivery_ok (set_consumer stream consumer r' db)"
    using assms by (intro delivery_ok_set [OF assms(1,2)]) (auto simp: consumer_ok_def consumer_moves_def)
  show "delivery_kept db (set_consumer stream consumer r' db)"
    using assms by (intro delivery_kept_consumer delivery_okD(1)) auto
qed

lemma delivery_kept_stream:
  assumes s: "map_of (delivery_streams db) stream = Some s"
    and streams: "map_of (delivery_streams db') = (map_of (delivery_streams db))(stream \<mapsto> s')"
    and moves: "stream_moves db db' stream s s'"
    and others: "\<And>other. other \<noteq> stream \<Longrightarrow> stream_rows db' other = stream_rows db other"
    and consumers: "durable_consumers db' = durable_consumers db"
  shows "delivery_kept db db'"
proof -
  have "\<exists>t'. map_of (delivery_streams db') other = Some t' \<and> stream_moves db db' other t t'"
    if t: "map_of (delivery_streams db) other = Some t" for other t
  proof (cases "other = stream")
    case True
    then show ?thesis using s t streams moves by simp
  next
    case False
    then show ?thesis using t streams stream_moves_same [OF others] by simp
  qed
  then show ?thesis unfolding delivery_kept_def consumers using consumer_moves_refl by blast
qed

lemma append_next:
  assumes "append_changes now i stream origin c b level direction changes sinks db
      = (Ok (sequences, db') :: (_, 'pe store_error) result)" and ok: "delivery_ok db"
  shows "delivery_next db db'"
proof (rule append_changes_effect [OF assms])
  fix s :: stream_row and rows
  let ?s = "s\<lparr>sr_next_sequence := sr_next_sequence s + length changes,
        sr_live_bytes := sr_live_bytes s + int (row_change_bytes rows)\<rparr>"
  assume s: "map_of (delivery_streams db) stream = Some s"
    and rows: "rows = new_rows (change_template now i origin c b level direction) changes (sr_next_sequence s) (last_rowid db)"
    and new: "stream_rows db' stream = stream_rows db stream @ rows"
    and others: "\<And>other. other \<noteq> stream \<Longrightarrow> stream_rows db' other = stream_rows db other"
    and consumers: "durable_consumers db' = durable_consumers db"
    and streams: "map_of (delivery_streams db') = (map_of (delivery_streams db))(stream \<mapsto> ?s)"
    and ok': "delivery_ok db'"
  have "map_of rows n = None" if "n < sr_next_sequence s" for n
    using that new_rows_keys [of _ changes "sr_next_sequence s"] unfolding rows
    by (simp add: map_of_eq_None_iff flip: set_map)
  then have "stream_moves db db' stream s ?s"
    by (auto simp: stream_moves_def new map_add_def split: option.split)
  then show ?thesis
    using delivery_kept_stream [OF s streams _ others consumers] ok' by (simp add: delivery_next_def)
qed

lemma deferred_next: "delivery_ok db \<Longrightarrow> ordered t \<Longrightarrow> delivery_next db (db\<lparr>deferred_changes := t\<rparr>)"
  by (simp add: delivery_next_def delivery_ok_deferred delivery_kept_same stream_rows_def)

lemma release_rows_next:
  "release_rows now i level rows db = (Ok db' :: (_, 'pe store_error) result) \<Longrightarrow> delivery_ok db \<Longrightarrow>
    delivery_next db db'"
proof (induction rows arbitrary: db)
  case Nil
  then show ?case by (simp add: delivery_next_refl)
next
  case (Cons e rows)
  obtain n r where e: "e = (n, r)" by (cases e)
  from Cons.prems(1) obtain sequences db1 where
    a: "append_changes now i (df_stream r) (df_origin r) (df_chain_id r) (df_block r) level
        DirectionApply (df_changes r) (df_sinks r) db = (Ok (sequences, db1) :: (_, 'pe store_error) result)"
    and rest: "release_rows now i level rows (db1\<lparr>deferred_changes := tdel n (deferred_changes db1)\<rparr>)
        = (Ok db' :: (_, 'pe store_error) result)"
    by (auto simp: e)
  have n1: "delivery_next db db1" by (rule append_next [OF a Cons.prems(2)])
  then have ok1: "delivery_ok db1" by (simp add: delivery_next_def)
  have n2: "delivery_next db1 (db1\<lparr>deferred_changes := tdel n (deferred_changes db1)\<rparr>)"
    using delivery_okD(1) [OF ok1] by (intro deferred_next [OF ok1]) (simp add: delivery_ordered_def)
  then have ok2: "delivery_ok (db1\<lparr>deferred_changes := tdel n (deferred_changes db1)\<rparr>)"
    by (simp add: delivery_next_def)
  show ?case by (rule delivery_next_trans [OF delivery_next_trans [OF n1 n2] Cons.IH [OF rest ok2]])
qed

lemma release_loop_rows:
  assumes "release_deferred_changes now i through level db = (Ok (released, db') :: (_, 'pe store_error) result)"
    and "delivery_ok db"
  shows "release_rows now i level (deferred_through db i through) db = (Ok db' :: (_, 'pe store_error) result)"
    and "released = (deferred_through db i through \<noteq> [])"
proof -
  have ord: "ordered (deferred_changes db)"
    using delivery_okD(1) [OF assms(2)] by (simp add: delivery_ordered_def)
  have "(and_then (release_rows now i level (deferred_through db i through) db)
        (\<lambda>db'. Ok (False \<or> deferred_through db i through \<noteq> [], db')) :: (_, 'pe store_error) result) = Ok (released, db')"
    using assms(1) by (auto simp: release_deferred_changes_def release_loop_pass [OF ord])
  then show "release_rows now i level (deferred_through db i through) db = (Ok db' :: (_, 'pe store_error) result)"
    "released = (deferred_through db i through \<noteq> [])" by auto
qed

lemma prune_next:
  assumes "prune_changes_before_in_stream desc stream requested db
      = (Ok (out, db') :: (_, 'pe store_error) result)" and ok: "delivery_ok db"
  shows "delivery_next db db'"
proof (rule prune_effect [OF assms])
  let ?e = "effective_before db stream requested"
  fix s :: stream_row
  let ?s = "s\<lparr>sr_pruned_through := max (sr_pruned_through s) (min ?e (sr_next_sequence s) - 1),
        sr_live_bytes := int (row_change_bytes (stream_rows db' stream))\<rparr>"
  assume s: "map_of (delivery_streams db) stream = Some s"
    and rows: "stream_rows db' stream = filter (\<lambda>(n, _). ?e \<le> n) (stream_rows db stream)"
    and others: "\<And>other. other \<noteq> stream \<Longrightarrow> stream_rows db' other = stream_rows db other"
    and consumers: "durable_consumers db' = durable_consumers db"
    and streams: "map_of (delivery_streams db') = (map_of (delivery_streams db))(stream \<mapsto> ?s)"
    and ok': "delivery_ok db'"
  have kept: "map_of (stream_rows db' stream) n = (if ?e \<le> n then map_of (stream_rows db stream) n else None)" for n
    using map_of_filter_keys [of "\<lambda>n. ?e \<le> n" "stream_rows db stream" n] by (simp add: rows case_prod_unfold)
  have "stream_moves db db' stream s ?s"
    using kept by (auto simp: stream_moves_def)
  then show ?thesis
    using delivery_kept_stream [OF s streams _ others consumers] ok' by (simp add: delivery_next_def)
qed

lemma acknowledge_next:
  assumes "acknowledge_consumer_in_stream_inner now desc stream consumer session sequence db
      = (Ok db' :: (_, 'pe store_error) result)" and ok: "delivery_ok db"
  shows "delivery_next db db'"
  unfolding delivery_next_def
proof
  show "delivery_ok db'" by (rule acknowledge_ok [OF assms])
  from assms(1) show "delivery_kept db db'"
  proof (cases rule: acknowledge_effect)
    case (repeat r)
    then show ?thesis using delivery_next_refl [OF ok] by (simp add: delivery_next_def)
  next
    case (move r work expires)
    then show ?thesis
      using delivery_okD(1) [OF ok]
      by (auto intro!: delivery_kept_consumer simp: consumer_moves_def)
  qed
qed

lemma create_next:
  assumes "create_consumer_inner ch now desc stream consumer role start ttl credential db
      = (Ok db' :: (_, 'pe store_error) result)" and ok: "delivery_ok db"
  shows "delivery_next db db'"
  unfolding delivery_next_def
proof
  show "delivery_ok db'" by (rule create_consumer_ok [OF assms])
  from assms(1) obtain r where fresh: "map_of (durable_consumers db) (stream, consumer) = None"
    and db': "db' = set_consumer stream consumer r db"
    by (auto simp: create_consumer_inner_def set_consumer_def split: if_splits)
  show "delivery_kept db db'"
    unfolding db' using delivery_okD(1) [OF ok] fresh by (intro delivery_kept_consumer) simp_all
qed

lemma ensure_stream_next: "delivery_ok db \<Longrightarrow> delivery_next db (ensure_stream stream i kind db)"
proof -
  assume ok: "delivery_ok db"
  then have ord: "ordered (delivery_streams db)" using delivery_okD(1) by (simp add: delivery_ordered_def)
  have "delivery_kept db (ensure_stream stream i kind db)"
    using ord by (intro delivery_kept_same)
      (auto simp: ensure_stream_def stream_rows_def map_le_def dom_def split: option.splits)
  then show ?thesis using ensure_stream_ok [OF ok] by (simp add: delivery_next_def)
qed

lemma ensure_runtime_next: "delivery_ok db \<Longrightarrow> delivery_next db (ensure_runtime_state i db)"
proof -
  assume ok: "delivery_ok db"
  then have "ordered (runtime_state db)" using delivery_okD(1) by (simp add: delivery_ordered_def)
  then have "delivery_ok (ensure_runtime_state i db)"
    using ok by (auto simp: ensure_runtime_state_def intro!: delivery_ok_runtime split: option.splits)
  moreover have "delivery_kept db (ensure_runtime_state i db)"
    by (intro delivery_kept_same) (auto simp: ensure_runtime_state_def stream_rows_def split: option.splits)
  ultimately show ?thesis by (simp add: delivery_next_def)
qed

lemma park_next:
  "park_changes row db = (Ok db' :: (_, 'pe store_error) result) \<Longrightarrow> delivery_ok db \<Longrightarrow> delivery_next db db'"
  using delivery_okD(1) [of db] by (auto simp: park_changes_def delivery_ordered_def intro!: deferred_next split: if_splits)

lemma prune_policy_cases:
  assumes "prune_delivery_changes_in_stream now terminal desc stream through db
      = (Ok (out, db') :: (_, 'pe store_error) result)"
  obtains "db' = db" "cpo_deleted out = 0"
  | requested where "prune_changes_before_in_stream desc stream requested db = (Ok (out, db') :: (_, 'pe store_error) result)"
  using assms by (auto simp: prune_delivery_changes_in_stream_def Let_def split: if_splits option.splits)

text \<open>The operations on a consumer that leave its acknowledgement alone.\<close>

lemma consumer_ops_next:
  assumes ok: "delivery_ok db"
  shows "acquire_consumer_session_in_stream now desc stream consumer db = (Ok (lease, db') :: (_, 'pe store_error) result)
      \<Longrightarrow> delivery_next db db'"
    and "renew_consumer_session_in_stream now stream consumer generation db = (Ok (lease, db') :: (_, 'pe store_error) result)
      \<Longrightarrow> delivery_next db db'"
    and "record_consumer_delivery_in_stream now stream consumer session sequence db
        = (Ok (recorded, db') :: (_, 'pe store_error) result) \<Longrightarrow> delivery_next db db'"
    and "release_consumer_session_in_stream now stream consumer generation db
        = (Ok (recorded, db') :: (_, 'pe store_error) result) \<Longrightarrow> delivery_next db db'"
    and "renew_consumer_in_stream now desc stream consumer db = (Ok db' :: (_, 'pe store_error) result)
      \<Longrightarrow> delivery_next db db'"
    and "transition_consumer now desc consumer state db = (Ok db' :: (_, 'pe store_error) result) \<Longrightarrow> state \<noteq> Active
      \<Longrightarrow> delivery_next db db'"
proof -
  note refl = delivery_next_refl [OF ok]
  note set = consumer_next [OF ok, unfolded consumer_moves_def]
  show "delivery_next db db'"
    if "acquire_consumer_session_in_stream now desc stream consumer db = (Ok (lease, db') :: (_, 'pe store_error) result)"
    using that by (auto simp: acquire_consumer_session_in_stream_def intro!: set split: option.splits if_splits)
  show "delivery_next db db'"
    if "renew_consumer_session_in_stream now stream consumer generation db = (Ok (lease, db') :: (_, 'pe store_error) result)"
    using that by (auto simp: renew_consumer_session_in_stream_def intro!: set split: option.splits if_splits)
  show "delivery_next db db'"
    if "record_consumer_delivery_in_stream now stream consumer session sequence db
        = (Ok (recorded, db') :: (_, 'pe store_error) result)"
    using that refl by (auto simp: record_consumer_delivery_in_stream_def intro!: set split: option.splits if_splits)
  show "delivery_next db db'"
    if "release_consumer_session_in_stream now stream consumer generation db
        = (Ok (recorded, db') :: (_, 'pe store_error) result)"
    using that refl by (auto simp: release_consumer_session_in_stream_def intro!: set split: option.splits if_splits)
  show "delivery_next db db'"
    if "renew_consumer_in_stream now desc stream consumer db = (Ok db' :: (_, 'pe store_error) result)"
    using that by (auto simp: renew_consumer_in_stream_def intro!: set split: option.splits if_splits)
  show "delivery_next db db'"
    if "transition_consumer now desc consumer state db = (Ok db' :: (_, 'pe store_error) result)" "state \<noteq> Active"
    using that by (auto simp: transition_consumer_def intro!: set split: option.splits)
qed

lemma round_next:
  assumes "consumer_changes_round now desc stream c consumer after limit db
      = (answer :: (_, 'pe store_error) result option, db')" and ok: "delivery_ok db"
  shows "delivery_next db db'"
proof -
  have "delivery_next db (snd (mark_overtaken now stream consumer db))"
    by (auto simp: mark_overtaken_def consumer_moves_def intro!: consumer_next [OF ok] delivery_next_refl [OF ok]
      split: option.splits)
  moreover have "db' = db \<or> db' = snd (mark_overtaken now stream consumer db)"
    using assms(1) by (auto simp: consumer_changes_round_def split: sum.splits option.splits prod.splits bool.splits)
  ultimately show ?thesis using delivery_next_refl [OF ok] by auto
qed


text \<open>The operations on the delivery tables; errors here carry no encoding error.\<close>

type_synonym 'a delivered = "('a, unit store_error) result"

inductive delivery_step :: "(string \<Rightarrow> bytes) \<Rightarrow> delivery_db \<Rightarrow> delivery_db \<Rightarrow> bool" for ch where
  step_stream: "delivery_step ch db (ensure_stream stream i kind db)"
| step_runtime: "delivery_step ch db (ensure_runtime_state i db)"
| step_publish: "append_changes now i stream origin c b level direction changes sinks db
    = (Ok (sequences, db') :: _ delivered) \<Longrightarrow> delivery_step ch db db'"
| step_park: "park_changes row db = (Ok db' :: _ delivered) \<Longrightarrow> delivery_step ch db db'"
| step_release: "release_deferred_changes now i through level db = (Ok (released, db') :: _ delivered)
    \<Longrightarrow> delivery_step ch db db'"
| step_create: "create_consumer_inner ch now desc stream consumer role start ttl credential db
    = (Ok db' :: _ delivered) \<Longrightarrow> delivery_step ch db db'"
| step_acquire: "acquire_consumer_session_in_stream now desc stream consumer db
    = (Ok (lease, db') :: _ delivered) \<Longrightarrow> delivery_step ch db db'"
| step_renew_session: "renew_consumer_session_in_stream now stream consumer generation db
    = (Ok (lease, db') :: _ delivered) \<Longrightarrow> delivery_step ch db db'"
| step_record: "record_consumer_delivery_in_stream now stream consumer session sequence db
    = (Ok (recorded, db') :: _ delivered) \<Longrightarrow> delivery_step ch db db'"
| step_release_session: "release_consumer_session_in_stream now stream consumer generation db
    = (Ok (recorded, db') :: _ delivered) \<Longrightarrow> delivery_step ch db db'"
| step_renew: "renew_consumer_in_stream now desc stream consumer db = (Ok db' :: _ delivered)
    \<Longrightarrow> delivery_step ch db db'"
| step_revoke: "revoke_consumer now desc consumer db = (Ok db' :: _ delivered) \<Longrightarrow> delivery_step ch db db'"
| step_reset: "reset_consumer_required now desc consumer db = (Ok db' :: _ delivered) \<Longrightarrow> delivery_step ch db db'"
| step_read: "consumer_changes_round now desc stream c consumer after limit db
    = (answer :: _ delivered option, db') \<Longrightarrow> delivery_step ch db db'"
| step_acknowledge: "acknowledge_consumer_in_stream now desc stream consumer sequence db
    = (Ok db' :: _ delivered) \<Longrightarrow> delivery_step ch db db'"
| step_acknowledge_session: "acknowledge_consumer_session_in_stream now desc stream consumer generation sequence db
    = (Ok db' :: _ delivered) \<Longrightarrow> delivery_step ch db db'"
| step_prune_before: "prune_changes_before_in_stream desc stream requested db
    = (Ok (out, db') :: _ delivered) \<Longrightarrow> delivery_step ch db db'"
| step_prune_policy: "prune_delivery_changes_in_stream now terminal desc stream through db
    = (Ok (out, db') :: _ delivered) \<Longrightarrow> delivery_step ch db db'"

lemma delivery_step_next:
  assumes "delivery_step ch db db'" and ok: "delivery_ok db"
  shows "delivery_next db db'"
  using assms(1)
proof cases
  case (step_release now i through level released)
  then show ?thesis using release_rows_next [OF release_loop_rows(1)] ok by blast
next
  case (step_prune_policy now terminal desc stream through out)
  then show ?thesis using prune_next [OF _ ok] delivery_next_refl [OF ok] by (blast elim: prune_policy_cases)
qed (use ok in \<open>auto simp: revoke_consumer_def reset_consumer_required_def acknowledge_consumer_in_stream_def
  acknowledge_consumer_session_in_stream_def intro: ensure_stream_next ensure_runtime_next append_next park_next
  create_next consumer_ops_next round_next acknowledge_next prune_next\<close>)

interpretation delivery: kept_invariant "delivery_step ch" "\<lambda>db. delivery_ok db \<and> delivery_kept base db" for ch base
  by unfold_locales (use delivery_step_next delivery_kept_trans in \<open>auto simp: delivery_next_def\<close>)

lemma delivery_run_next: "(delivery_step ch)\<^sup>*\<^sup>* db db' \<Longrightarrow> delivery_ok db \<Longrightarrow> delivery_next db db'"
  using delivery.run_keeps [of ch db db' db] delivery_next_refl [of db] by (simp add: delivery_next_def)

end
