(* ===== verification/Delivery_Props.thy ===== *)
theory Delivery_Props
  imports Delivery_Laws
begin

text \<open>
  What consumers of the delivery log rely on: reachable states, contiguous pages, acknowledgements at
  commit boundaries, sessions that are fenced by their generation, and pruning of whole blocks.
\<close>

section \<open>Reachable states\<close>

text \<open>The tables of a new store.\<close>

definition delivery_new :: delivery_db where
  "delivery_new = \<lparr>delivery_streams = [], change_log = [], last_rowid = 0, sink_outbox = [],
     durable_consumers = [], runtime_state = [], deferred_changes = []\<rparr>"

lemma delivery_new_ok: "delivery_ok delivery_new"
  by (simp add: delivery_ok_def delivery_ordered_def delivery_new_def)

lemma reachable_ok: "(delivery_step ch)\<^sup>*\<^sup>* delivery_new db \<Longrightarrow> delivery_ok db"
  using delivery_run_next delivery_new_ok by (auto simp: delivery_next_def)

lemma unacknowledged_retained:
  assumes "delivery_next db db'" "delivery_ok db"
    and "map_of (durable_consumers db') (stream, consumer) = Some r'" "cr_role r' = RoleRequired" "cr_state r' = Active"
    and "map_of (stream_rows db stream) n = Some row" "cr_acknowledged r' < n"
  shows "map_of (stream_rows db' stream) n = Some row"
proof -
  have ok': "delivery_ok db'" and kept: "delivery_kept db db'"
    using assms(1) by (simp_all add: delivery_next_def)
  have ord: "ordered (change_log db)" using delivery_okD(1) [OF assms(2)] by (simp add: delivery_ordered_def)
  then have log: "map_of (change_log db) (stream, n) = Some row"
    using assms(6) stream_rows_table(2) by metis
  then obtain s where s: "map_of (delivery_streams db) stream = Some s"
    using delivery_okD(3) [OF assms(2)] by (cases "map_of (delivery_streams db) stream") fastforce+
  then have n: "n < sr_next_sequence s"
    using delivery_okD(2) [OF assms(2) s] log unfolding stream_ok_def by (metis option.distinct(1))
  obtain s' where s': "map_of (delivery_streams db') stream = Some s'" "stream_moves db db' stream s s'"
    using delivery_keptD(1) [OF kept s] by blast
  have "sr_pruned_through s' \<le> cr_acknowledged r'"
    using delivery_okD(4) [OF ok' assms(3)] s'(1) assms(4,5) by (auto simp: consumer_ok_def)
  then show ?thesis using s'(2) n assms(6,7) by (auto simp: stream_moves_def)
qed

section \<open>Pages\<close>

lemma decode_change_rows_Ok:
  "decode_change_rows desc c rows = (Ok rs :: (_, 'pe store_error) result) \<Longrightarrow>
    list_all2 (\<lambda>(n, row) rec. rc_sequence rec = n \<and> rc_change rec = cl_change row \<and> rc_block rec = cl_block row
      \<and> rc_direction rec = cl_direction row \<and> rc_finality rec = cl_finality row \<and> rc_origin rec = cl_origin row
      \<and> rc_chain_id rec = c \<and> cl_chain_id row = c) rows rs"
proof (induction rows arbitrary: rs)
  case (Cons e rows)
  then show ?case by (cases e) (auto simp: decode_change_row_def split: if_splits)
qed simp

lemma filter_upt_above: "filter (\<lambda>n. a < n) [p + 1..<m] = [max p a + 1..<m]"
proof (rule sorted_distinct_set_unique)
  show "sorted (filter (\<lambda>n. a < n) [p + 1..<m])" by (rule sorted_wrt_filter) simp
qed auto

lemma rest_keys:
  assumes "delivery_ok db" "map_of (delivery_streams db) stream = Some s" "sr_pruned_through s \<le> after"
  shows "map fst (filter (\<lambda>(n, _). after < n) (stream_rows db stream)) = [after + 1..<sr_next_sequence s]"
proof -
  have "map fst (filter (\<lambda>(n, _). after < n) rows) = filter (\<lambda>n. after < n) (map fst rows)" for rows :: "(nat, change_row) table"
    by (induction rows) auto
  then show ?thesis
    using stream_keys [OF assms(1,2)] filter_upt_above [of after "sr_pruned_through s"] assms(3) by (simp add: max_def)
qed

lemma page_keys:
  assumes "delivery_ok db" "map_of (delivery_streams db) stream = Some s" "sr_pruned_through s \<le> after"
  shows "map fst (take limit (filter (\<lambda>(n, _). after < n) (stream_rows db stream)))
    = [after + 1..<min (after + 1 + limit) (sr_next_sequence s)]"
  using rest_keys [OF assms] by (simp add: take_map [symmetric] take_upt min_def)

lemma round_answers:
  assumes "delivery_ok db"
  shows "fst (consumer_changes_round now desc stream c consumer after limit db
      :: (_, 'pe store_error) result option \<times> _) \<noteq> None"
  using delivery_okD(4) [OF assms, of stream consumer]
  by (auto simp: consumer_changes_round_def read_consumer_page_def consumer_read_is_retained_def mark_overtaken_def
    fetch_stream_def and_then_def split: option.splits sum.splits if_splits)

lemma round_page:
  assumes "consumer_changes_round now desc stream c consumer after limit db
      = (Some (Ok rs :: (_, 'pe store_error) result), db')" and ok: "delivery_ok db"
  obtains r s where "db' = db" "map_of (durable_consumers db) (stream, consumer) = Some r"
    "map_of (delivery_streams db) stream = Some s" "cr_state r = Active"
    "sr_pruned_through s \<le> cr_acknowledged r" "cr_acknowledged r \<le> after"
    "decode_change_rows desc c (take limit (filter (\<lambda>(n, _). after < n) (stream_rows db stream)))
      = (Ok rs :: (_, 'pe store_error) result)"
proof -
  from assms(1) have p: "db' = db" "read_consumer_page desc stream c consumer after limit db
      = (Ok (Some rs) :: (_, 'pe store_error) result)"
    by (auto simp: consumer_changes_round_def mark_overtaken_def and_then_def change_bounds_in_stream_def
      split: sum.splits option.splits prod.splits if_splits bool.splits)
  from p(2) show thesis
    by (auto simp: read_consumer_page_def consumer_read_is_retained_def fetch_stream_def change_page_rows_def
      intro: that [OF p(1)] split: option.splits if_splits)
qed

lemma round_records:
  assumes "consumer_changes_round now desc stream c consumer after limit db
      = (Some (Ok rs :: (_, 'pe store_error) result), db')" and ok: "delivery_ok db"
  shows "db' = db"
    and "\<exists>s r. map_of (delivery_streams db) stream = Some s
      \<and> map_of (durable_consumers db) (stream, consumer) = Some r \<and> cr_acknowledged r \<le> after
      \<and> map rc_sequence rs = [after + 1..<min (after + 1 + limit) (sr_next_sequence s)]"
    and "list_all (\<lambda>rec. \<exists>row. map_of (stream_rows db stream) (rc_sequence rec) = Some row
      \<and> rc_change rec = cl_change row \<and> rc_block rec = cl_block row \<and> rc_direction rec = cl_direction row) rs"
proof -
  let ?rows = "take limit (filter (\<lambda>(n, _). after < n) (stream_rows db stream))"
  obtain r s where same: "db' = db" and r: "map_of (durable_consumers db) (stream, consumer) = Some r"
    and s: "map_of (delivery_streams db) stream = Some s"
    and le: "sr_pruned_through s \<le> cr_acknowledged r" "cr_acknowledged r \<le> after"
    and dec: "decode_change_rows desc c ?rows = (Ok rs :: (_, 'pe store_error) result)"
    by (rule round_page [OF assms])
  show "db' = db" by (rule same)
  note rel = decode_change_rows_Ok [OF dec]
  then have "map rc_sequence rs = map fst ?rows"
    by (induction rule: list_all2_induct) auto
  also have "\<dots> = [after + 1..<min (after + 1 + limit) (sr_next_sequence s)]"
    by (rule page_keys [OF ok s]) (use le in simp)
  finally show "\<exists>s r. map_of (delivery_streams db) stream = Some s
      \<and> map_of (durable_consumers db) (stream, consumer) = Some r \<and> cr_acknowledged r \<le> after
      \<and> map rc_sequence rs = [after + 1..<min (after + 1 + limit) (sr_next_sequence s)]"
    using r s le by blast
  have dist: "distinct (map fst (stream_rows db stream))" unfolding stream_keys [OF ok s] by simp
  have found: "map_of (stream_rows db stream) n = Some row" if "(n, row) \<in> set ?rows" for n row
    using that dist by (intro map_of_is_SomeI) (auto dest: in_set_takeD)
  show "list_all (\<lambda>rec. \<exists>row. map_of (stream_rows db stream) (rc_sequence rec) = Some row
      \<and> rc_change rec = cl_change row \<and> rc_block rec = cl_block row \<and> rc_direction rec = cl_direction row) rs"
    unfolding list_all_length
  proof (intro allI impI)
    fix i assume i: "i < length rs"
    obtain n row where e: "?rows ! i = (n, row)" by (cases "?rows ! i")
    have "i < length ?rows" using i list_all2_lengthD [OF rel] by simp
    then have "(n, row) \<in> set ?rows" using e by (metis nth_mem)
    moreover have "rc_sequence (rs ! i) = n" "rc_change (rs ! i) = cl_change row" "rc_block (rs ! i) = cl_block row"
      "rc_direction (rs ! i) = cl_direction row"
      using list_all2_nthD2 [OF rel i] e by simp_all
    ultimately show "\<exists>row. map_of (stream_rows db stream) (rc_sequence (rs ! i)) = Some row
        \<and> rc_change (rs ! i) = cl_change row \<and> rc_block (rs ! i) = cl_block row
        \<and> rc_direction (rs ! i) = cl_direction row"
      using found by blast
  qed
qed

section \<open>Acknowledgements and sessions\<close>

text \<open>Where a consumer may stop: after a whole commit on a live stream, at a progress boundary on a backfill stream.\<close>

definition boundary_ok :: "delivery_db \<Rightarrow> string \<Rightarrow> stream_row \<Rightarrow> nat \<Rightarrow> bool" where
  "boundary_ok db stream s sequence =
     (case sr_kind s of
        StreamBackfill \<Rightarrow> \<exists>row. map_of (stream_rows db stream) sequence = Some row
          \<and> ch_kind (cl_change row) \<in> {BACKFILL_PROGRESS, BACKFILL_COMPLETE}
      | StreamLive \<Rightarrow> \<forall>row following. map_of (stream_rows db stream) sequence = Some row
          \<and> map_of (stream_rows db stream) (sequence + 1) = Some following \<longrightarrow> \<not> same_commit row following
      | StreamCanonical \<Rightarrow> True)"

lemma following_row:
  assumes ok: "delivery_ok db" and "map_of (stream_rows db stream) sequence = Some row"
  shows "(case filter (\<lambda>(n, _). sequence < n) (stream_rows db stream) of [] \<Rightarrow> None | e # _ \<Rightarrow> Some (snd e))
    = map_of (stream_rows db stream) (sequence + 1)"
proof -
  let ?rest = "filter (\<lambda>(n, _). sequence < n) (stream_rows db stream)"
  have ord: "ordered (change_log db)" using delivery_okD(1) [OF ok] by (simp add: delivery_ordered_def)
  then have log: "map_of (change_log db) (stream, sequence) = Some row" using assms(2) stream_rows_table(2) by metis
  then obtain s where s: "map_of (delivery_streams db) stream = Some s"
    using delivery_okD(3) [OF ok] by (cases "map_of (delivery_streams db) stream") fastforce+
  have "sr_pruned_through s < sequence" "sequence < sr_next_sequence s"
    using delivery_okD(2) [OF ok s] log unfolding stream_ok_def by (metis option.distinct(1))+
  then have keys: "map fst ?rest = [sequence + 1..<sr_next_sequence s]"
    using rest_keys [OF ok s] by simp
  have "map_of ?rest (sequence + 1) = map_of (stream_rows db stream) (sequence + 1)"
    using map_of_filter_keys [of "\<lambda>n. sequence < n" "stream_rows db stream"] by (simp add: case_prod_unfold)
  then show ?thesis
    using keys [symmetric] by (cases ?rest) (auto simp: upt_eq_Cons_conv)
qed

lemma check_boundary_iff:
  assumes ok: "delivery_ok db" and s: "map_of (delivery_streams db) stream = Some s"
  shows "check_boundary db stream r sequence = (Ok () :: (_, 'pe store_error) result) \<longleftrightarrow>
    sequence \<le> (if sr_pruned_through s + 1 < sr_next_sequence s then sr_next_sequence s - 1 else 0)
    \<and> sequence \<le> cr_delivered r \<and> boundary_ok db stream s sequence"
proof -
  let ?h = "if sr_pruned_through s + 1 < sr_next_sequence s then sr_next_sequence s - 1 else 0"
  have head: "(case last_sequence (stream_rows db stream) of None \<Rightarrow> 0 | Some n \<Rightarrow> n) = ?h"
    by (simp add: stream_bounds(1) [OF ok s])
  have small: "sequence < 2 ^ 63" if "sequence \<le> ?h"
    using that delivery_okD(2) [OF ok s] by (auto simp: stream_ok_def split: if_splits)
  define continues where "continues =
        (case (map_of (stream_rows db stream) sequence, filter (\<lambda>(n, _). sequence < n) (stream_rows db stream)) of
           (Some current, (_, following) # _) \<Rightarrow>
             if same_commit current following then Some (number (cl_block current)) else None
         | _ \<Rightarrow> None)"
  have live: "continues = None \<longleftrightarrow> (\<forall>row following. map_of (stream_rows db stream) sequence = Some row
          \<and> map_of (stream_rows db stream) (sequence + 1) = Some following \<longrightarrow> \<not> same_commit row following)"
  proof (cases "map_of (stream_rows db stream) sequence")
    case (Some row)
    then show ?thesis
      using following_row [OF ok Some] by (auto simp: continues_def dest: sym split: list.splits prod.splits)
  qed (simp add: continues_def)
  show ?thesis
  proof (cases "sequence \<le> ?h \<and> sequence \<le> cr_delivered r")
    case True
    then have fits: "usize_i64 sequence field = (Ok sequence :: (_, 'pe store_error) result)" for field
      using small by (simp add: usize_i64_def)
    from True have start: "check_boundary db stream r sequence =
        (case sr_kind s of
             StreamBackfill \<Rightarrow>
               (case map_of (stream_rows db stream) sequence of
                 Some row \<Rightarrow>
                   if ch_kind (cl_change row) \<in> {BACKFILL_PROGRESS, BACKFILL_COMPLETE} then Ok ()
                   else Err (AcknowledgementNotBoundary sequence)
               | None \<Rightarrow> Err (AcknowledgementNotBoundary sequence))
           | StreamLive \<Rightarrow>
               and_then (live_commit_continues_after db stream sequence) (\<lambda>continues.
               (case continues of
                 Some b \<Rightarrow> Err (AcknowledgementMidBlock sequence b)
               | None \<Rightarrow> Ok ()))
           | StreamCanonical \<Rightarrow> (Ok () :: (_, 'pe store_error) result))"
      by (cases "sr_kind s") (simp_all add: check_boundary_def head fetch_stream_def s fits ok_or_def)
    show ?thesis
    proof (cases "sr_kind s")
      case StreamLive
      with True show ?thesis
        unfolding start live_commit_continues_after_def continues_def [symmetric]
        using live by (cases continues) (simp_all add: boundary_ok_def fits)
    qed (use True in \<open>simp_all add: start boundary_ok_def split: option.split\<close>)
  next
    case False
    then show ?thesis by (auto simp: check_boundary_def head Let_def)
  qed
qed

lemma acknowledge_session_cases:
  assumes "map_of (durable_consumers db) (stream, consumer) = Some r" "session_current now g r"
    and "map_of (delivery_streams db) stream = Some s" "sr_instance s = pd_instance desc"
    and "sum_progress (progress_payloads db stream (cr_acknowledged r) sequence) 0 = (Ok work :: (_, 'pe store_error) result)"
    and "cr_work_blocks r + work < 2 ^ 63" "now + cr_ttl_ms r < 2 ^ 63"
    and ok: "delivery_ok db"
  shows "acknowledge_consumer_session_in_stream now desc stream consumer g sequence db =
    (if sequence < cr_acknowledged r then Err (AcknowledgementBackwards sequence (cr_acknowledged r))
     else and_then (if sequence > cr_acknowledged r then check_boundary db stream r sequence else Ok ())
       (\<lambda>_. Ok (set_consumer stream consumer
         (r\<lparr>cr_acknowledged := sequence, cr_delivered := max (cr_delivered r) sequence,
            cr_work_blocks := cr_work_blocks r + work, cr_expires := now + cr_ttl_ms r, cr_updated := now\<rparr>) db))
       :: (_, 'pe store_error) result)"
proof -
  note c = delivery_okD(4) [OF ok assms(1)]
  have next63: "sr_next_sequence s < 2 ^ 63" using delivery_okD(2) [OF ok assms(3)] by (simp add: stream_ok_def)
  have ack: "cr_acknowledged r < 2 ^ 63" using c assms(3) next63 by (auto simp: consumer_ok_def)
  have small: "sequence < 2 ^ 63" if "check_boundary db stream r sequence = (Ok () :: (_, 'pe store_error) result)"
    using that next63 unfolding check_boundary_iff [OF ok assms(3)] by (auto split: if_splits)
  have run: "acknowledge_consumer_session_in_stream now desc stream consumer g sequence db =
      (if sequence < cr_acknowledged r then Err (AcknowledgementBackwards sequence (cr_acknowledged r))
       else and_then (if sequence > cr_acknowledged r then check_boundary db stream r sequence else Ok ()) (\<lambda>_.
         and_then (usize_i64 sequence ''acknowledged delivery sequence'') (\<lambda>_.
         Ok (set_consumer stream consumer
           (r\<lparr>cr_acknowledged := sequence, cr_delivered := max (cr_delivered r) sequence,
              cr_work_blocks := cr_work_blocks r + work, cr_expires := now + cr_ttl_ms r, cr_updated := now\<rparr>) db)))
         :: (_, 'pe store_error) result)"
    using assms ack
    by (simp add: acknowledge_consumer_session_in_stream_def acknowledge_consumer_in_stream_inner_def
      validate_delivery_stream_def session_current_def usize_i64_def expiry_def)
  consider "sequence < cr_acknowledged r" | "sequence = cr_acknowledged r" | "sequence > cr_acknowledged r" by linarith
  then show ?thesis
  proof cases
    case 3
    then show ?thesis
      unfolding run using small
      by (cases "check_boundary db stream r sequence :: (_, 'pe store_error) result") (simp_all add: usize_i64_def)
  qed (use run ack in \<open>simp_all add: usize_i64_def\<close>)
qed

lemma stale_session:
  assumes "delivery_ok db" "map_of (durable_consumers db) (stream, consumer) = Some r" "g < cr_generation r"
    and "(delivery_step ch)\<^sup>*\<^sup>* db db'"
  shows "\<not> consumer_session_is_current_in_stream now stream consumer g db'"
    and "acknowledge_consumer_session_in_stream now desc stream consumer g sequence db' \<noteq> (Ok db'' :: (_, 'pe store_error) result)"
    and "renew_consumer_session_in_stream now stream consumer g db' \<noteq> (Ok lease :: (_, 'pe store_error) result)"
    and "record_consumer_delivery_in_stream now stream consumer (Some g) sequence db' = (Ok (b, db'') :: (_, 'pe store_error) result)
      \<Longrightarrow> \<not> b \<and> db'' = db'"
proof -
  obtain r' where r': "map_of (durable_consumers db') (stream, consumer) = Some r'" "consumer_moves r r'"
    using delivery_run_next [OF assms(4,1)] delivery_keptD(2) [OF _ assms(2)] unfolding delivery_next_def by blast
  then have g: "g \<noteq> cr_generation r'" using assms(3) by (simp add: consumer_moves_def)
  show "\<not> consumer_session_is_current_in_stream now stream consumer g db'"
    "renew_consumer_session_in_stream now stream consumer g db' \<noteq> (Ok lease :: (_, 'pe store_error) result)"
    using g r'(1) by (auto simp: consumer_session_is_current_in_stream_def renew_consumer_session_in_stream_def session_current_def)
  show "acknowledge_consumer_session_in_stream now desc stream consumer g sequence db' \<noteq> (Ok db'' :: (_, 'pe store_error) result)"
    using g r'(1) by (auto simp: acknowledge_consumer_session_in_stream_def acknowledge_consumer_in_stream_inner_def)
  show "\<not> b \<and> db'' = db'"
    if "record_consumer_delivery_in_stream now stream consumer (Some g) sequence db' = (Ok (b, db'') :: (_, 'pe store_error) result)"
    using that g r'(1) by (auto simp: record_consumer_delivery_in_stream_def may_record_def)
qed

lemma acquire_effect:
  assumes "acquire_consumer_session_in_stream now desc stream consumer db = (Ok ((g, expires), db') :: (_, 'pe store_error) result)"
    and "delivery_ok db"
  obtains r where "map_of (durable_consumers db) (stream, consumer) = Some r" "cr_state r = Active"
    "cr_generation r = 0 \<or> cr_expires r \<le> now" "g = cr_generation r + 1" "expires = now + cr_ttl_ms r"
    "map_of (durable_consumers db') (stream, consumer) = Some (r\<lparr>cr_generation := g, cr_expires := expires, cr_updated := now\<rparr>)"
  using assms delivery_okD(1) [OF assms(2)]
  by (auto simp: acquire_consumer_session_in_stream_def expiry_def set_consumer_def delivery_ordered_def not_less
    split: option.splits if_splits)

section \<open>Released rows\<close>

lemma released_rows:
  assumes "release_rows now i level (deferred_through db i through) db = (Ok db' :: (_, 'pe store_error) result)"
    and "ordered (deferred_changes db)"
  shows "deferred_changes db' = filter (\<lambda>(_, r). \<not> (df_instance r = i \<and> number (df_block r) \<le> through)) (deferred_changes db)"
proof -
  let ?Q = "\<lambda>(_ :: nat, r). df_instance r = i \<and> number (df_block r) \<le> through"
  have "fst e \<in> fst ` set (filter ?Q (deferred_changes db)) \<longleftrightarrow> ?Q e" if "e \<in> set (deferred_changes db)" for e
    using that ordered_distinct [OF assms(2)] by (force simp: distinct_map dest: inj_onD)
  then show ?thesis
    unfolding release_rows_deferred [OF assms(1)] by (auto simp: deferred_through_def intro!: filter_cong)
qed

section \<open>Pruning whole blocks\<close>

text \<open>Along a stream whose blocks never go back, pruning cuts between blocks.\<close>

definition blocks_ascend :: "(nat, change_row) table \<Rightarrow> bool" where
  "blocks_ascend rows = (\<forall>n m a b. map_of rows n = Some a \<and> map_of rows m = Some b \<and> n \<le> m
     \<longrightarrow> number (cl_block a) \<le> number (cl_block b))"

lemma ordered_sequences:
  assumes "ordered rows"
  shows "last_sequence rows = Some l \<longleftrightarrow> map_of rows l \<noteq> None \<and> (\<forall>n. map_of rows n \<noteq> None \<longrightarrow> n \<le> l)"
    and "first_sequence rows = Some l \<longleftrightarrow> map_of rows l \<noteq> None \<and> (\<forall>n. map_of rows n \<noteq> None \<longrightarrow> l \<le> n)"
proof -
  let ?ks = "map fst rows"
  have sorted: "sorted ?ks" using assms by (simp add: ordered_def strict_sorted_iff)
  have key: "map_of rows n \<noteq> None \<longleftrightarrow> n \<in> set ?ks" for n by (simp add: map_of_eq_None_iff)
  have "n \<le> last ?ks" if "n \<in> set ?ks" for n
    using that sorted by (metis empty_iff in_set_conv_nth last_conv_nth length_pos_if_in_set list.set(1)
      One_nat_def Suc_pred diff_less less_Suc_eq_le sorted_nth_mono zero_less_one)
  then show "last_sequence rows = Some l \<longleftrightarrow> map_of rows l \<noteq> None \<and> (\<forall>n. map_of rows n \<noteq> None \<longrightarrow> n \<le> l)"
    unfolding last_sequence_keys key by (auto simp: le_antisym simp del: set_map list.map_disc_iff)
  have "hd ?ks \<le> n" if "n \<in> set ?ks" for n
    using that sorted by (cases ?ks) auto
  then show "first_sequence rows = Some l \<longleftrightarrow> map_of rows l \<noteq> None \<and> (\<forall>n. map_of rows n \<noteq> None \<longrightarrow> l \<le> n)"
    unfolding first_sequence_keys key by (auto simp: le_antisym simp del: set_map list.map_disc_iff)
qed

lemma map_of_filter_rows:
  assumes "ordered rows"
  shows "map_of (filter (\<lambda>(n, r). P n r) rows) n = Some r \<longleftrightarrow> map_of rows n = Some r \<and> P n r"
  using ordered_distinct [OF assms]
  by (subst map_of_eq_Some_iff) (auto simp: distinct_map_filter intro: map_of_SomeD)

lemma whole_blocks_cut:
  assumes ord: "ordered rows" and asc: "blocks_ascend rows"
    and n: "map_of rows n = Some a" "n < whole_blocks rows effective"
    and m: "map_of rows m = Some b" "whole_blocks rows effective \<le> m"
  shows "number (cl_block a) \<noteq> number (cl_block b)"
proof
  assume same: "number (cl_block a) = number (cl_block b)"
  let ?below = "filter (\<lambda>(n, _). n < effective) rows"
  let ?blk = "\<lambda>r. number (cl_block r)"
  have lt: "n < effective" using n(2) whole_blocks_le [of rows effective] by simp
  have ordf: "ordered (filter P rows)" for P using ord by simp
  have below: "map_of ?below k = Some r \<longleftrightarrow> map_of rows k = Some r \<and> k < effective" for k r
    using map_of_filter_rows [OF ord, of "\<lambda>n _. n < effective"] by simp
  then obtain t where t: "last_sequence ?below = Some t"
    using n(1) lt by (cases ?below) (auto simp: last_sequence_def)
  then obtain c where c: "map_of rows t = Some c" "t < effective" and top: "\<And>k r. map_of rows k = Some r \<Longrightarrow> k < effective \<Longrightarrow> k \<le> t"
    using below unfolding ordered_sequences(1) [OF ordf] by (metis not_None_eq option.distinct(1))
  let ?same = "filter (\<lambda>(_, r). Some (?blk r) = Some (?blk c)) rows"
  have same_block: "map_of ?same k = Some r \<longleftrightarrow> map_of rows k = Some r \<and> ?blk r = ?blk c" for k r
    using map_of_filter_rows [OF ord, of "\<lambda>_ r. Some (?blk r) = Some (?blk c)"] by simp
  then have "?same \<noteq> []" using c(1) by (metis map_of.simps(1) option.distinct(1))
  then obtain f l where fl: "first_sequence ?same = Some f" "last_sequence ?same = Some l"
    by (cases ?same) (auto simp: first_sequence_def last_sequence_def)
  have f: "\<exists>r. map_of rows f = Some r \<and> ?blk r = ?blk c" "\<And>k r. map_of rows k = Some r \<Longrightarrow> ?blk r = ?blk c \<Longrightarrow> f \<le> k"
    and l: "\<And>k r. map_of rows k = Some r \<Longrightarrow> ?blk r = ?blk c \<Longrightarrow> k \<le> l"
  proof -
    have s: "map_of ?same f \<noteq> None" "\<And>k. map_of ?same k \<noteq> None \<Longrightarrow> f \<le> k" "\<And>k. map_of ?same k \<noteq> None \<Longrightarrow> k \<le> l"
      using fl unfolding ordered_sequences [OF ordf] by blast+
    have in_same: "map_of ?same k \<noteq> None" if "map_of rows k = Some r" "?blk r = ?blk c" for k r
    proof -
      have "map_of ?same k = Some r" using same_block that by blast
      then show ?thesis by (simp only: option.distinct not_False_eq_True)
    qed
    show "\<exists>r. map_of rows f = Some r \<and> ?blk r = ?blk c" using s(1) same_block by blast
    show "f \<le> k" "k \<le> l" if "map_of rows k = Some r" "?blk r = ?blk c" for k r
      using in_same [OF that] s(2,3) by blast+
  qed
  have w: "whole_blocks rows effective = (if l \<ge> effective then min effective f else effective)"
    using t fl c(1) by (simp add: whole_blocks_def Let_def)
  have mono: "map_of rows i = Some x \<Longrightarrow> map_of rows j = Some y \<Longrightarrow> i \<le> j \<Longrightarrow> ?blk x \<le> ?blk y" for i j x y
    using asc unfolding blocks_ascend_def by blast
  show False
  proof (cases "l \<ge> effective")
    case True
    obtain x where x: "map_of rows f = Some x" "?blk x = ?blk c" using f(1) by blast
    have "f \<le> t" using f(2) c(1) by blast
    then have "n < f" "f \<le> m" using n(2) m(2) True c(2) by (simp_all add: w)
    then have "?blk a = ?blk c" using mono [OF n(1) x(1)] mono [OF x(1) m(1)] same x(2) by simp
    then show False using f(2) [OF n(1)] \<open>n < f\<close> by simp
  next
    case False
    then have "effective \<le> m" using m(2) by (simp add: w)
    moreover have "n \<le> t" using top [OF n(1) lt] .
    ultimately have "?blk b = ?blk c" using mono [OF n(1) c(1)] mono [OF c(1) m(1)] same c(2) by simp
    then show False using l [OF m(1)] False \<open>effective \<le> m\<close> by simp
  qed
qed

text \<open>What a pass deletes: the changes before one sequence, which no active required consumer needs and which keeps the newest change.\<close>

lemma prune_cut:
  assumes "prune_changes_before_in_stream desc stream requested db = (Ok (out, db') :: (_, 'pe store_error) result)"
    and ok: "delivery_ok db"
  shows "cpo_effective_before out \<le> requested"
    and "stream_rows db' stream = filter (\<lambda>(n, _). cpo_effective_before out \<le> n) (stream_rows db stream)"
    and "stream_rows db stream \<noteq> [] \<Longrightarrow> last_sequence (stream_rows db' stream) = last_sequence (stream_rows db stream)"
    and "map_of (durable_consumers db) (stream, consumer) = Some r \<Longrightarrow> cr_role r = RoleRequired \<Longrightarrow> cr_state r = Active
      \<Longrightarrow> cpo_effective_before out \<le> cr_acknowledged r + 1"
    and "blocks_ascend (stream_rows db stream) \<Longrightarrow> map_of (stream_rows db stream) n = Some a \<Longrightarrow> n < cpo_effective_before out
      \<Longrightarrow> map_of (stream_rows db stream) m = Some b \<Longrightarrow> cpo_effective_before out \<le> m
      \<Longrightarrow> number (cl_block a) \<noteq> number (cl_block b)"
proof -
  let ?rows = "stream_rows db stream"
  have e: "cpo_effective_before out = effective_before db stream requested"
    and rows: "stream_rows db' stream = filter (\<lambda>(n, _). cpo_effective_before out \<le> n) ?rows"
    by (rule prune_effect [OF assms]; simp)+
  note bounds = effective_before_bounds [of db stream, where requested = requested, folded e]
  show "cpo_effective_before out \<le> requested" by (rule bounds(1))
  show "stream_rows db' stream = filter (\<lambda>(n, _). cpo_effective_before out \<le> n) ?rows" by (rule rows)
  show "last_sequence (stream_rows db' stream) = last_sequence ?rows" if "?rows \<noteq> []"
  proof -
    let ?l = "last ?rows"
    have split: "?rows = butlast ?rows @ [?l]" using that by simp
    have "cpo_effective_before out \<le> fst ?l" by (rule bounds(2)) (use that in \<open>simp add: last_sequence_def\<close>)
    then have "stream_rows db' stream = filter (\<lambda>(n, _). cpo_effective_before out \<le> n) (butlast ?rows) @ [?l]"
      unfolding rows by (subst split) (simp add: case_prod_unfold)
    then show ?thesis using that by (simp add: last_sequence_def)
  qed
  show "cpo_effective_before out \<le> cr_acknowledged r + 1"
    if required: "map_of (durable_consumers db) (stream, consumer) = Some r" "cr_role r = RoleRequired" "cr_state r = Active"
  proof -
    obtain p where "protected_sequence db stream = Some p" "p \<le> cr_acknowledged r + 1"
      using protected_sequence_le [OF required] by blast
    then show ?thesis using bounds(3) [of p] by linarith
  qed
  show "number (cl_block a) \<noteq> number (cl_block b)"
    if asc: "blocks_ascend ?rows" and n: "map_of ?rows n = Some a" "n < cpo_effective_before out"
      and m: "map_of ?rows m = Some b" "cpo_effective_before out \<le> m"
  proof -
    have ord: "ordered ?rows"
      using stream_rows_table(1) delivery_okD(1) [OF ok] by (simp add: delivery_ordered_def)
    have pos: "0 < cpo_effective_before out" using n(2) by simp
    have "\<exists>k. cpo_effective_before out = (if k > 0 then whole_blocks ?rows k else k)"
      unfolding e effective_before_def Let_def by (rule exI) (rule refl)
    then obtain k where k: "cpo_effective_before out = whole_blocks ?rows k"
      using pos by (auto split: if_splits)
    show ?thesis
      by (rule whole_blocks_cut [OF ord asc n(1) _ m(1)]) (use n(2) m(2) in \<open>simp_all only: k\<close>)
  qed
qed

text \<open>
  Blocks that were undone and applied again: the cut is moved to the first change of the block it falls
  into, and that can fall into another block, whose first change is deleted and whose later ones stay.
\<close>

lemma whole_blocks_splits:
  assumes "\<And>n. cl_block (row n) = \<lparr>number = n, hash = 0, parent_hash = 0, timestamp = 0\<rparr>"
  shows "whole_blocks [(1, row 5), (2, row 6), (3, row 6), (4, row 5), (5, row 5)] 3 = 2"
  by (simp add: whole_blocks_def last_sequence_def first_sequence_def Let_def assms)

end
