(* ===== verification/Subscriptions.thy ===== *)
theory Subscriptions
  imports Delivery_Props
begin

text \<open>
  Backfill subscriptions of \<^verbatim>\<open>crates/store-sqlite/src/lib.rs\<close>: the rows of a subscription and its ranges,
  the lifecycle of its state, the progress counters, and the metadata of a completion record with its
  byte encoding.
\<close>

section \<open>Rows\<close>

datatype subscription_mode = FillMissing | Recompute

datatype subscription_state = WaitingForConsumer | SubQueued | SubRunning | Backpressured | Draining
  | CompleteReclaimable | SubCancelled | SubFailed

datatype range_state = RangeQueued | RangeRunning | RangeCommitted | RangeCancelled | RangeFailed

record subscription_range =
  sg_from :: block_number
  sg_to :: block_number
  sg_state :: range_state
  sg_committed :: u64

datatype delivery_compression = CompressionNone | CompressionGzip

record delivery_batch_limits =
  bl_target :: u64
  bl_maximum :: u64
  bl_events :: u64
  bl_blocks :: u64
  bl_delay_ms :: u64
  bl_batches :: u64
  bl_buffered :: u64
  bl_compression :: delivery_compression

text \<open>A row without its times; the ranges are in the order of their ordinals.\<close>

record subscription_row =
  sb_job :: string
  sb_instance :: string
  sb_stream :: string
  sb_mode :: subscription_mode
  sb_revision :: u64
  sb_state :: subscription_state
  sb_from :: block_number
  sb_to :: block_number
  sb_ranges :: "subscription_range list"
  sb_preexisting :: "(block_number \<times> block_number) list"
  sb_block_limit :: u64
  sb_byte_limit :: u64
  sb_resume_ratio :: u64
  sb_processed :: u64
  sb_published :: u64
  sb_completion :: "nat option"
  sb_error :: "string option"
  sb_consumer :: string
  sb_captured :: block_number
  sb_key :: string
  sb_batch_limits :: delivery_batch_limits
  sb_initial :: u64
  sb_live_cut :: "nat option"

datatype job_state = JobQueued | JobRunning | JobStorageBackpressured | JobCompleted | JobFailed | JobCancelled

record job_row =
  jb_kind :: string
  jb_state :: job_state
  jb_payload :: bytes

text \<open>
  The delivery tables with the subscriptions, the jobs and the identities of their requests, the owners of
  covered ranges (by processor, subscription and first block) and the covered blocks, by processor and
  height.
\<close>

record spool =
  sp_delivery :: delivery_db
  sp_subscriptions :: "(string, subscription_row) table"
  sp_jobs :: "(string, job_row) table"
  sp_identities :: "(string, block_hash) table"
  sp_owners :: "(string \<times> string \<times> nat, block_number) table"
  sp_coverage :: "(string \<times> nat, block_hash) table"
  sp_segments :: "(string \<times> nat, block_hash) table"

text \<open>An update of the rows that satisfy a condition.\<close>

definition update_where :: "('r \<Rightarrow> bool) \<Rightarrow> ('r \<Rightarrow> 'r) \<Rightarrow> ('k \<times> 'r) list \<Rightarrow> ('k \<times> 'r) list" where
  "update_where P f t = map (\<lambda>(k, r). (k, if P r then f r else r)) t"

definition any_row :: "('r \<Rightarrow> bool) \<Rightarrow> ('k \<times> 'r) list \<Rightarrow> bool" where
  "any_row P t = list_ex (\<lambda>(_, r). P r) t"

text \<open>The subscription whose history stream this is.\<close>

definition stream_subscription :: "spool \<Rightarrow> string \<Rightarrow> (string \<times> subscription_row) option" where
  "stream_subscription sp stream = find (\<lambda>(_, r). sb_stream r = stream) (sp_subscriptions sp)"

section \<open>Lifecycle\<close>

definition terminal_state :: "subscription_state \<Rightarrow> bool" where
  "terminal_state s = (s = CompleteReclaimable \<or> s = SubCancelled \<or> s = SubFailed)"

text \<open>The sequence of the completion record of a stream.\<close>

definition completion_record :: "delivery_db \<Rightarrow> string \<Rightarrow> nat option" where
  "completion_record db stream =
     last_sequence (filter (\<lambda>(_, r). ch_kind (cl_change r) = BACKFILL_COMPLETE) (stream_rows db stream))"

definition set_backfill_subscription_state ::
  "string \<Rightarrow> subscription_state \<Rightarrow> string option \<Rightarrow> spool \<Rightarrow> bool \<times> spool" where
  "set_backfill_subscription_state job state error sp =
     (let P = (\<lambda>r. sb_job r = job \<and> (\<not> terminal_state (sb_state r) \<or> sb_state r = state))
      in (any_row P (sp_subscriptions sp),
          sp\<lparr>sp_subscriptions := update_where P (\<lambda>r. r
            \<lparr>sb_state := state,
             sb_completion := (if state = Draining
               then (case completion_record (sp_delivery sp) (sb_stream r) of
                   Some n \<Rightarrow> Some n | None \<Rightarrow> sb_completion r)
               else sb_completion r),
             sb_error := error\<rparr>) (sp_subscriptions sp)\<rparr>))"

definition retry_failed_backfill_subscription :: "string \<Rightarrow> string \<Rightarrow> spool \<Rightarrow> bool \<times> spool" where
  "retry_failed_backfill_subscription job outcome sp =
     (let P = (\<lambda>r. sb_job r = job \<and> sb_state r = SubFailed);
          failed = (case map_of (sp_jobs sp) job of
            Some j \<Rightarrow> jb_kind j = ''backfill_subscription_job'' \<and> jb_state j = JobFailed | None \<Rightarrow> False)
      in if \<not> any_row P (sp_subscriptions sp) \<or> \<not> failed then (False, sp)
         else (True, sp\<lparr>
           sp_subscriptions := update_where P (\<lambda>r. r\<lparr>sb_state := SubQueued, sb_error := None\<rparr>) (sp_subscriptions sp),
           sp_jobs := tdel outcome (case map_of (sp_jobs sp) job of
             Some j \<Rightarrow> tput job (j\<lparr>jb_state := JobQueued\<rparr>) (sp_jobs sp) | None \<Rightarrow> sp_jobs sp),
           sp_identities := tdel outcome (sp_identities sp)\<rparr>))"

definition mark_backfill_subscription_reclaimable ::
  "string \<Rightarrow> nat \<Rightarrow> spool \<Rightarrow> (bool \<times> spool, 'pe store_error) result" where
  "mark_backfill_subscription_reclaimable subscription acknowledged sp =
     and_then (usize_i64 acknowledged ''acknowledged completion sequence'') (\<lambda>_.
     case map_of (sp_subscriptions sp) subscription of
       Some r \<Rightarrow>
         if sb_state r = Draining \<and> (case sb_completion r of None \<Rightarrow> False | Some n \<Rightarrow> n \<le> acknowledged)
         then Ok (True, sp\<lparr>sp_subscriptions :=
             tput subscription (r\<lparr>sb_state := CompleteReclaimable\<rparr>) (sp_subscriptions sp)\<rparr>)
         else Ok (False, sp)
     | None \<Rightarrow> Ok (False, sp))"

definition backfill_completion_sequence :: "string \<Rightarrow> spool \<Rightarrow> nat option" where
  "backfill_completion_sequence subscription sp =
     (case map_of (sp_subscriptions sp) subscription of None \<Rightarrow> None | Some r \<Rightarrow> sb_completion r)"

text \<open>The origin of what a subscription's stream carries.\<close>

definition subscription_origin :: "string \<Rightarrow> subscription_row \<Rightarrow> delivery_origin" where
  "subscription_origin subscription r =
     \<lparr>og_kind = (case sb_mode r of FillMissing \<Rightarrow> OriginHistoricalBackfill | Recompute \<Rightarrow> OriginRecompute),
      og_id = subscription, og_publication_revision = sb_revision r\<rparr>"

definition backfill_delivery_origin :: "spool \<Rightarrow> string \<Rightarrow> (delivery_origin, 'pe store_error) result" where
  "backfill_delivery_origin sp stream =
     (case stream_subscription sp stream of
        None \<Rightarrow> Err (Sqlx ''no row'')
      | Some (subscription, r) \<Rightarrow> Ok (subscription_origin subscription r))"

text \<open>
  The progress of a committed block or microbatch. A sum beyond the column's 64 bits becomes a real
  number, which the strict column refuses.
\<close>

definition column_add :: "u64 \<Rightarrow> u64 \<Rightarrow> (u64, 'pe store_error) result" where
  "column_add a b = (if unat a + unat b < 2 ^ 63 then Ok (a + b) else Err (Sqlx ''datatype mismatch''))"

fun commit_ranges ::
  "block_number \<Rightarrow> u64 \<Rightarrow> subscription_range list \<Rightarrow> (subscription_range list, 'pe store_error) result" where
  "commit_ranges b n [] = Ok []"
| "commit_ranges b n (g # gs) =
     and_then (if sg_from g \<le> b \<and> sg_to g \<ge> b
       then and_then (column_add (sg_committed g) n) (\<lambda>c. Ok (g\<lparr>sg_state := RangeRunning, sg_committed := c\<rparr>))
       else Ok g) (\<lambda>g'.
     and_then (commit_ranges b n gs) (\<lambda>gs'. Ok (g' # gs')))"

definition record_backfill_progress ::
  "string \<Rightarrow> block_number \<Rightarrow> u64 \<Rightarrow> u64 \<Rightarrow> spool \<Rightarrow> (spool, 'pe store_error) result" where
  "record_backfill_progress stream through processed published sp =
     and_then (u64_i64 processed ''processed backfill blocks'') (\<lambda>_.
     and_then (u64_i64 published ''published backfill domain changes'') (\<lambda>_.
     case stream_subscription sp stream of
       None \<Rightarrow> and_then (u64_i64 through ''progress through block'') (\<lambda>_. Ok sp)
     | Some (subscription, r) \<Rightarrow>
         and_then (column_add (sb_processed r) processed) (\<lambda>p.
         and_then (column_add (sb_published r) published) (\<lambda>q.
         and_then (u64_i64 through ''progress through block'') (\<lambda>_.
         and_then (commit_ranges through processed (sb_ranges r)) (\<lambda>gs.
         Ok (sp\<lparr>sp_subscriptions := tput subscription
           (r\<lparr>sb_processed := p, sb_published := q, sb_ranges := gs\<rparr>) (sp_subscriptions sp)\<rparr>)))))))"

section \<open>Jobs\<close>

text \<open>
  Saving a job merges its state: a cancelled job stays cancelled, and a finished one is not put back to
  work. Checkpoint and attempts are replaced as they come and are not part of the row here.
\<close>

definition merged_job_state :: "job_state \<Rightarrow> job_state \<Rightarrow> job_state" where
  "merged_job_state stored incoming =
     (if stored = JobCancelled then stored
      else if (stored = JobCompleted \<or> stored = JobFailed) \<and> (incoming = JobQueued \<or> incoming = JobRunning)
      then stored
      else incoming)"

definition save_job :: "string \<Rightarrow> job_row \<Rightarrow> spool \<Rightarrow> (spool, 'pe store_error) result" where
  "save_job job row sp =
     (if job = [] \<or> jb_kind row = [] then Err (StoreInvalidConfig ''job id and kind must not be empty'')
      else Ok (sp\<lparr>sp_jobs := tput job
        (row\<lparr>jb_state := (case map_of (sp_jobs sp) job of
           None \<Rightarrow> jb_state row | Some j \<Rightarrow> merged_job_state (jb_state j) (jb_state row))\<rparr>) (sp_jobs sp)\<rparr>))"

section \<open>Completion metadata\<close>

datatype completion_disposition = PublishedAll | PublishedMissingOnly | AlreadyCoveredNoop

record completion_metadata =
  cm_mode :: subscription_mode
  cm_disposition :: completion_disposition
  cm_requested :: u64
  cm_covered :: u64
  cm_ranges :: "block_range list"
  cm_newly_processed :: u64
  cm_republished :: u64
  cm_domain_changes :: u64

fun checked_total :: "string \<Rightarrow> u64 \<Rightarrow> u64 list \<Rightarrow> (u64, 'pe store_error) result" where
  "checked_total field so_far [] = Ok so_far"
| "checked_total field so_far (x # xs) =
     and_then (ok_or (checked_add so_far x) (Numeric field)) (\<lambda>t. checked_total field t xs)"

fun collect_ok :: "('a, 'e) result list \<Rightarrow> ('a list, 'e) result" where
  "collect_ok [] = Ok []"
| "collect_ok (r # rs) = and_then r (\<lambda>a. and_then (collect_ok rs) (\<lambda>xs. Ok (a # xs)))"

definition invariant_range :: "block_number \<Rightarrow> block_number \<Rightarrow> (block_range, 'pe store_error) result" where
  "invariant_range s e = map_err (\<lambda>_. StoreInvariant ''invalid block range'') (range_new s e)"

text \<open>The sum of a column stays below \<open>2 ^ 63\<close>, or the query fails.\<close>

definition sql_sum :: "int list \<Rightarrow> (int, 'pe store_error) result" where
  "sql_sum xs = (if sum_list xs < 2 ^ 63 then Ok (sum_list xs) else Err (Sqlx ''integer overflow''))"

definition i64_u64 :: "int \<Rightarrow> string \<Rightarrow> (u64, 'pe store_error) result" where
  "i64_u64 v field = (if v < 0 then Err (Numeric field) else Ok (of_int v))"

definition requested_blocks :: "subscription_row \<Rightarrow> (int, 'pe store_error) result" where
  "requested_blocks r =
     (if sb_ranges r = [] then Ok (uint (sb_to r) - uint (sb_from r) + 1)
      else sql_sum (map (\<lambda>g. uint (sg_to g) - uint (sg_from g) + 1) (sb_ranges r)))"

definition complete_counts_are_valid :: "subscription_mode \<Rightarrow> u64 \<Rightarrow> u64 \<Rightarrow> u64 \<Rightarrow> bool" where
  "complete_counts_are_valid mode covered processed requested =
     (case mode of
        FillMissing \<Rightarrow> checked_add covered processed = Some requested
      | Recompute \<Rightarrow> covered = requested \<and> processed = requested)"

fun completion_counts :: "subscription_mode \<Rightarrow> u64 \<Rightarrow> u64 \<Rightarrow> completion_disposition \<times> u64 \<times> u64" where
  "completion_counts Recompute processed requested = (PublishedAll, 0, processed)"
| "completion_counts FillMissing processed requested =
     (if processed = 0 then (AlreadyCoveredNoop, 0, 0)
      else if processed < requested then (PublishedMissingOnly, processed, processed)
      else (PublishedAll, processed, processed))"

definition completion_of :: "subscription_row \<Rightarrow> u64 \<Rightarrow> u64 \<Rightarrow> block_range list \<Rightarrow> completion_metadata" where
  "completion_of r requested covered ranges =
     (let (disposition, newly, republished) = completion_counts (sb_mode r) (min (sb_processed r) requested) requested
      in \<lparr>cm_mode = sb_mode r, cm_disposition = disposition, cm_requested = requested,
          cm_covered = covered, cm_ranges = ranges, cm_newly_processed = newly,
          cm_republished = republished, cm_domain_changes = sb_published r\<rparr>)"

definition backfill_completion_metadata ::
  "spool \<Rightarrow> string \<Rightarrow> string \<Rightarrow> (completion_metadata, 'pe store_error) result" where
  "backfill_completion_metadata sp stream subscription =
     (case map_of (sp_subscriptions sp) subscription of
        None \<Rightarrow> Err (Sqlx ''no row'')
      | Some r \<Rightarrow>
          if sb_stream r \<noteq> stream then Err (Sqlx ''no row'')
          else
            and_then (requested_blocks r) (\<lambda>blocks.
            and_then (i64_u64 blocks ''completion requested blocks'') (\<lambda>requested.
            and_then (collect_ok (map (\<lambda>(s, e). invariant_range s e) (sb_preexisting r))) (\<lambda>ranges.
            and_then (checked_total ''preexisting coverage blocks'' 0 (map range_len ranges)) (\<lambda>covered.
            if \<not> complete_counts_are_valid (sb_mode r) covered (min (sb_processed r) requested) requested
            then Err (StoreInvariant ''backfill cannot complete before its work accounts for every requested block'')
            else Ok (completion_of r requested covered ranges))))))"

text \<open>The byte form. The number of ranges fits its four bytes: creation bounds it.\<close>

definition range_bytes :: "block_range \<Rightarrow> bytes" where
  "range_bytes r = to_be_bytes 8 (range_start r) @ to_be_bytes 8 (range_end r)"

definition encode_backfill_completion_metadata :: "completion_metadata \<Rightarrow> bytes" where
  "encode_backfill_completion_metadata m =
     to_be_bytes 2 (2 :: u16)
     @ [case cm_mode m of FillMissing \<Rightarrow> 0 | Recompute \<Rightarrow> 1]
     @ [case cm_disposition m of PublishedAll \<Rightarrow> 0 | PublishedMissingOnly \<Rightarrow> 1 | AlreadyCoveredNoop \<Rightarrow> 2]
     @ to_be_bytes 8 (cm_requested m) @ to_be_bytes 8 (cm_covered m) @ to_be_bytes 8 (cm_newly_processed m)
     @ to_be_bytes 8 (cm_republished m) @ to_be_bytes 8 (cm_domain_changes m)
     @ to_be_bytes 4 (of_nat (length (cm_ranges m)) :: u32)
     @ concat (map range_bytes (cm_ranges m))"

definition payload_number :: "bytes \<Rightarrow> nat \<Rightarrow> (u64, 'pe store_error) result" where
  "payload_number payload offset =
     (if offset + 8 \<le> length payload then Ok (from_be_bytes (take 8 (drop offset payload)))
      else Err (StoreInvariant ''invalid backfill completion numeric field''))"

definition decode_mode :: "u8 \<Rightarrow> (subscription_mode, 'pe store_error) result" where
  "decode_mode b = (if b = 0 then Ok FillMissing else if b = 1 then Ok Recompute
     else Err (StoreInvariant ''invalid backfill completion mode''))"

definition decode_disposition :: "u8 \<Rightarrow> (completion_disposition, 'pe store_error) result" where
  "decode_disposition b = (if b = 0 then Ok PublishedAll else if b = 1 then Ok PublishedMissingOnly
     else if b = 2 then Ok AlreadyCoveredNoop
     else Err (StoreInvariant ''invalid backfill completion disposition''))"

definition decode_covered_ranges :: "bytes \<Rightarrow> (block_range list, 'pe store_error) result" where
  "decode_covered_ranges payload =
     (let count = unat (from_be_bytes (take 4 (drop 44 payload)) :: u32)
      in if length payload \<noteq> 48 + count * 16
         then Err (StoreInvariant ''invalid backfill completion range payload length'')
         else collect_ok (map (\<lambda>i. and_then (payload_number payload (48 + i * 16)) (\<lambda>s.
                and_then (payload_number payload (48 + i * 16 + 8)) (\<lambda>e. invariant_range s e))) [0..<count]))"

definition decode_backfill_completion_metadata :: "bytes \<Rightarrow> (completion_metadata, 'pe store_error) result" where
  "decode_backfill_completion_metadata payload =
     (if length payload < 44 then Err (StoreInvariant ''invalid backfill completion payload version or length'')
      else
        (let version = from_be_bytes (take 2 payload) :: u16
         in if version = 1 \<and> length payload \<noteq> 44 \<or> version = 2 \<and> length payload < 48 \<or> version \<noteq> 1 \<and> version \<noteq> 2
         then Err (StoreInvariant ''invalid backfill completion payload version or length'')
         else
           and_then (decode_mode (payload ! 2)) (\<lambda>mode.
           and_then (decode_disposition (payload ! 3)) (\<lambda>disposition.
           and_then (if version = 1 then Ok [] else decode_covered_ranges payload) (\<lambda>ranges.
           and_then (payload_number payload 4) (\<lambda>requested.
           and_then (payload_number payload 12) (\<lambda>covered.
           and_then (payload_number payload 20) (\<lambda>newly.
           and_then (payload_number payload 28) (\<lambda>republished.
           and_then (payload_number payload 36) (\<lambda>domain_changes.
           if republished > requested \<or> covered > requested \<or> newly > requested
           then Err (StoreInvariant ''invalid backfill completion counts'')
           else
             and_then (checked_total ''completion covered range blocks'' 0 (map range_len ranges)) (\<lambda>blocks.
             if version = 2 \<and> blocks \<noteq> covered
             then Err (StoreInvariant ''backfill completion covered ranges do not match the covered block count'')
             else Ok \<lparr>cm_mode = mode, cm_disposition = disposition, cm_requested = requested, cm_covered = covered,
                    cm_ranges = ranges, cm_newly_processed = newly, cm_republished = republished,
                    cm_domain_changes = domain_changes\<rparr>)))))))))))"

definition decode_live_gap_notice :: "bytes \<Rightarrow> (block_number \<times> block_number, 'pe store_error) result" where
  "decode_live_gap_notice payload =
     (if length payload < 16 then Err (StoreInvariant ''invalid live gap notice payload'')
      else
        (let s = from_be_bytes (take 8 payload); e = from_be_bytes (take 8 (drop 8 payload))
         in if s > e then Err (StoreInvariant ''invalid live gap notice payload'') else Ok (s, e)))"

end
