(* ===== verification/Admission.thy ===== *)
theory Admission
  imports Subscriptions
begin

text \<open>
  Admission of delivery bytes and the delivery part of applying a block, of
  \<^verbatim>\<open>crates/store-sqlite/src/lib.rs\<close>: the limits of a stream, of a subscription and of the node, what a
  refused admission does to the processor and its consumers, publication or parking of a block's
  changes with the progress record of a backfill stream, and the completion record of a subscription.
  The sizes of the database file and its log are arguments.
\<close>

section \<open>Capacity\<close>

record store_storage_budget =
  ss_maximum_physical :: u64

definition default_storage_budget :: store_storage_budget where
  "default_storage_budget = \<lparr>ss_maximum_physical = word_max\<rparr>"

record delivery_storage_budget =
  ds_maximum_retained :: u64
  ds_maximum_history_retained :: u64

definition default_delivery_budget :: delivery_storage_budget where
  "default_delivery_budget = \<lparr>ds_maximum_retained = word_max, ds_maximum_history_retained = word_max\<rparr>"

record store_limits =
  sl_storage :: store_storage_budget
  sl_delivery :: delivery_storage_budget

record node_delivery_bytes =
  nd_total_retained :: u64
  nd_history_retained :: u64
  nd_physical :: u64

text \<open>A step of a handler whose earlier writes are already committed when a later step fails.\<close>

definition or_stop :: "('a, 'e) result \<Rightarrow> 'd \<Rightarrow> ('a \<Rightarrow> ('b, 'e) result \<times> 'd) \<Rightarrow> ('b, 'e) result \<times> 'd" where
  "or_stop r d f = (case r of Inl e \<Rightarrow> (Err e, d) | Inr a \<Rightarrow> f a)"

definition set_processor_run_state ::
  "string \<Rightarrow> processor_run_state \<Rightarrow> string option \<Rightarrow> delivery_db \<Rightarrow> delivery_db" where
  "set_processor_run_state instance_id state reason db =
     (case map_of (runtime_state db) instance_id of
        None \<Rightarrow> db
      | Some _ \<Rightarrow> db\<lparr>runtime_state := tput instance_id (state, reason) (runtime_state db)\<rparr>)"

text \<open>The retained bytes: published rows and parked rows.\<close>

definition parked_bytes :: "(deferred_row \<Rightarrow> bool) \<Rightarrow> delivery_db \<Rightarrow> int list" where
  "parked_bytes P db = map (\<lambda>(_, r). uint (df_bytes r)) (filter (\<lambda>(_, r). P r) (deferred_changes db))"

definition stream_delivery_bytes :: "delivery_db \<Rightarrow> string \<Rightarrow> (u64, 'pe store_error) result" where
  "stream_delivery_bytes db stream =
     and_then (fetch_stream db stream) (\<lambda>s.
     and_then (i64_u64 (sr_live_bytes s) ''delivery stream bytes'') (\<lambda>current.
     and_then (sql_sum (parked_bytes (\<lambda>r. df_stream r = stream) db)) (\<lambda>parked.
     and_then (i64_u64 parked ''deferred delivery bytes'') (\<lambda>parked.
     ok_or (checked_add current parked) (Numeric ''retained delivery bytes'')))))"

definition node_bytes :: "u64 \<Rightarrow> u64 \<Rightarrow> delivery_db \<Rightarrow> (node_delivery_bytes, 'pe store_error) result" where
  "node_bytes database_bytes wal_bytes db =
     and_then (sql_sum (map (\<lambda>(_, s). sr_live_bytes s) (delivery_streams db))) (\<lambda>total_live.
     and_then (sql_sum (map (\<lambda>(_, s). if sr_kind s = StreamBackfill then sr_live_bytes s else 0)
       (delivery_streams db))) (\<lambda>history.
     and_then (i64_u64 total_live ''total retained delivery bytes'') (\<lambda>total_live.
     and_then (sql_sum (parked_bytes (\<lambda>_. True) db)) (\<lambda>parked.
     and_then (i64_u64 parked ''deferred delivery bytes'') (\<lambda>parked.
     and_then (ok_or (checked_add total_live parked) (Numeric ''total retained delivery bytes'')) (\<lambda>total_retained.
     and_then (i64_u64 history ''history retained delivery bytes'') (\<lambda>history.
     Ok \<lparr>nd_total_retained = total_retained, nd_history_retained = history,
        nd_physical = saturating_add database_bytes wal_bytes\<rparr>)))))))"

definition node_delivery_budget_failure ::
  "store_limits \<Rightarrow> node_delivery_bytes \<Rightarrow> u64 \<Rightarrow> u64 \<Rightarrow> ((string \<times> u64 \<times> u64) option, 'pe store_error) result" where
  "node_delivery_budget_failure lim retained incoming history_bytes =
     and_then (ok_or (checked_add (nd_total_retained retained) incoming)
       (Numeric ''projected total retained delivery bytes'')) (\<lambda>total_retained.
     and_then (ok_or (checked_add (nd_history_retained retained) history_bytes)
       (Numeric ''projected history retained delivery bytes'')) (\<lambda>history.
     and_then (ok_or (checked_add (nd_physical retained) incoming)
       (Numeric ''projected physical store bytes'')) (\<lambda>physical.
     Ok (if history > ds_maximum_history_retained (sl_delivery lim)
         then Some (''node_history_retained'', ds_maximum_history_retained (sl_delivery lim), history)
         else if total_retained > ds_maximum_retained (sl_delivery lim)
         then Some (''node_total_retained'', ds_maximum_retained (sl_delivery lim), total_retained)
         else if physical > ss_maximum_physical (sl_storage lim)
         then Some (''node_physical'', ss_maximum_physical (sl_storage lim), physical)
         else None))))"

text \<open>The work blocks that the slowest active required consumer of a stream has acknowledged.\<close>

definition required_acknowledged_work :: "delivery_db \<Rightarrow> string \<Rightarrow> u64" where
  "required_acknowledged_work db stream =
     (let ws = map (\<lambda>(_, r). cr_work_blocks r)
            (filter (\<lambda>((s, _), r). s = stream \<and> cr_role r = RoleRequired \<and> cr_state r = Active) (durable_consumers db))
      in if ws = [] then 0 else of_nat (Min (set ws)))"

definition admission_limit :: "processor_descriptor \<Rightarrow> subscription_row option \<Rightarrow> u64" where
  "admission_limit desc limits =
     (case limits of
        None \<Rightarrow> dp_max_bytes (lc_delivery (pd_lifecycle desc))
      | Some r \<Rightarrow> min (sb_byte_limit r) (dp_max_bytes (lc_delivery (pd_lifecycle desc))))"

definition blocks_within_limit :: "subscription_row option \<Rightarrow> u64 \<Rightarrow> u64 \<Rightarrow> bool" where
  "blocks_within_limit limits acknowledged incoming_blocks =
     (case limits of
        None \<Rightarrow> True
      | Some r \<Rightarrow> saturating_add (saturating_sub (sb_processed r) acknowledged) incoming_blocks \<le> sb_block_limit r)"

definition below_resume_water :: "subscription_row option \<Rightarrow> u64 \<Rightarrow> u64 \<Rightarrow> bool" where
  "below_resume_water limits acknowledged current =
     (case limits of
        None \<Rightarrow> True
      | Some r \<Rightarrow>
          sb_state r \<noteq> Backpressured
          \<or> current \<le> saturating_mul (sb_byte_limit r) (sb_resume_ratio r) div 1000000
            \<and> saturating_sub (sb_processed r) acknowledged
                \<le> saturating_mul (sb_block_limit r) (sb_resume_ratio r) div 1000000)"

text \<open>What a refused admission does: the policy's action on the consumers and on the processor.\<close>

definition expire_required_consumers :: "int \<Rightarrow> string \<Rightarrow> delivery_db \<Rightarrow> delivery_db" where
  "expire_required_consumers now stream db =
     db\<lparr>durable_consumers := map (\<lambda>((s, c), r). ((s, c),
        if s = stream \<and> cr_role r = RoleRequired \<and> cr_state r = Active
        then r\<lparr>cr_state := ResetRequired, cr_updated := now\<rparr> else r)) (durable_consumers db)\<rparr>"

definition refuse_delivery :: "int \<Rightarrow> processor_descriptor \<Rightarrow> string \<Rightarrow> bool \<Rightarrow> delivery_db \<Rightarrow> delivery_db" where
  "refuse_delivery now desc stream processor_scoped db =
     (let action = dp_on_limit (lc_delivery (pd_lifecycle desc));
          db1 = (if action = LimitExpireAndReset then expire_required_consumers now stream db else db)
      in if processor_scoped
         then set_processor_run_state (pd_instance desc) (if action = LimitFail then RunFailed else RunPaused)
           (Some ''delivery_spool_hard_limit'') db1
         else db1)"

text \<open>The error names the scope of the limit, the limit and the projected bytes.\<close>

fun delivery_limit_error ::
  "string \<Rightarrow> delivery_limit_action \<Rightarrow> string \<times> u64 \<times> u64 \<Rightarrow> u64 \<Rightarrow> 'pe store_error" where
  "delivery_limit_error i action (scope, limit, projected) incoming = DeliveryLimit i action scope limit projected incoming"

text \<open>The decision for a run state, with the limits of the stream's subscription, and the handler that reads them.\<close>

definition admit_delivery ::
  "store_limits \<Rightarrow> u64 \<Rightarrow> u64 \<Rightarrow> int \<Rightarrow> processor_descriptor \<Rightarrow> string \<Rightarrow> bool \<Rightarrow> subscription_row option \<Rightarrow> u64
    \<Rightarrow> processor_run_state \<Rightarrow> u64 \<Rightarrow> u64 \<Rightarrow> delivery_db \<Rightarrow> (unit, 'pe store_error) result \<times> delivery_db" where
  "admit_delivery lim database_bytes wal_bytes now desc stream processor_scoped limits acknowledged state
       incoming incoming_blocks db =
     (let instance_id = pd_instance desc; limit = admission_limit desc limits
      in if state = RunFailed then (Err (ProcessorFailed instance_id), db)
         else or_stop (stream_delivery_bytes db stream) db (\<lambda>current.
           if incoming > limit \<or> (case limits of None \<Rightarrow> False | Some r \<Rightarrow> incoming_blocks > sb_block_limit r)
           then (Err (DeliveryItemTooLarge instance_id incoming limit incoming_blocks (map_option sb_block_limit limits)),
             if processor_scoped
             then set_processor_run_state instance_id RunFailed (Some ''single_block_exceeds_delivery_limit'') db
             else db)
           else if state = RunPaused \<and> current > delivery_resume_mark limit
           then (Err (ProcessorPaused instance_id current (delivery_resume_mark limit)), db)
           else
             (let db1 = (if state = RunPaused then set_processor_run_state instance_id RunRunning None db else db)
              in or_stop (ok_or (checked_add current incoming) (Numeric ''projected delivery bytes'')) db1 (\<lambda>projected.
                 or_stop (node_bytes database_bytes wal_bytes db1) db1 (\<lambda>retained.
                 or_stop (node_delivery_budget_failure lim retained incoming (if processor_scoped then 0 else incoming)) db1
                   (\<lambda>failure.
                 if projected \<le> limit \<and> blocks_within_limit limits acknowledged incoming_blocks
                    \<and> below_resume_water limits acknowledged current \<and> failure = None
                 then (Ok (), db1)
                 else
                   (Err (delivery_limit_error (pd_instance desc) (dp_on_limit (lc_delivery (pd_lifecycle desc)))
                       (case failure of None \<Rightarrow> (''stream'', limit, projected) | Some f \<Rightarrow> f) incoming),
                    refuse_delivery now desc stream processor_scoped db1)))))))"

definition enforce_delivery_capacity ::
  "store_limits \<Rightarrow> u64 \<Rightarrow> u64 \<Rightarrow> int \<Rightarrow> processor_descriptor \<Rightarrow> string \<Rightarrow> u64 \<Rightarrow> u64 \<Rightarrow> spool
    \<Rightarrow> (unit, 'pe store_error) result \<times> delivery_db" where
  "enforce_delivery_capacity lim database_bytes wal_bytes now desc stream incoming incoming_blocks sp =
     (let db = sp_delivery sp
      in or_stop (fetch_stream db stream) db (\<lambda>s.
         (let processor_scoped = (sr_kind s \<noteq> StreamBackfill)
          in or_stop (if processor_scoped
               then and_then (ok_or (map_of (runtime_state db) (pd_instance desc)) (Sqlx ''no row'')) (\<lambda>(state, _). Ok state)
               else Ok RunRunning) db (\<lambda>state.
             admit_delivery lim database_bytes wal_bytes now desc stream processor_scoped
               (if processor_scoped then None else map_option snd (stream_subscription sp stream))
               (required_acknowledged_work db stream) state incoming incoming_blocks db))))"

section \<open>The delivery part of applying a block\<close>

text \<open>The changes whose bytes are admitted, and their size with the progress record of a backfill stream.\<close>

fun incoming_change_bytes :: "u64 \<Rightarrow> domain_change list \<Rightarrow> (u64, 'pe store_error) result" where
  "incoming_change_bytes so_far [] = Ok so_far"
| "incoming_change_bytes so_far (c # cs) =
     (if \<not> change_bytes c < 2 ^ 64 then Err (Numeric ''incoming delivery change bytes'')
      else and_then (ok_or (checked_add so_far (of_nat (change_bytes c))) (Numeric ''incoming delivery change bytes''))
        (\<lambda>t. incoming_change_bytes t cs))"

definition admitted_bytes :: "domain_change list \<Rightarrow> bool \<Rightarrow> (u64, 'pe store_error) result" where
  "admitted_bytes admitted publish_progress =
     and_then (incoming_change_bytes 0 admitted) (\<lambda>bytes.
     if publish_progress then ok_or (checked_add bytes 32) (Numeric ''incoming progress boundary bytes'') else Ok bytes)"

text \<open>The part of the transaction that writes the delivery tables.\<close>

record block_delivery =
  bd_chain :: chain_id
  bd_block :: block_ref
  bd_level :: finality
  bd_changes :: "domain_change list"
  bd_sinks :: "string list"
  bd_publish :: bool
  bd_recovery :: bool

definition delivery_enabled :: "processor_descriptor \<Rightarrow> bool" where
  "delivery_enabled desc = (dp_mode (lc_delivery (pd_lifecycle desc)) \<noteq> DeliveryNone)"

definition defers :: "processor_descriptor \<Rightarrow> block_delivery \<Rightarrow> bool" where
  "defers desc b = (bd_level b < first_level (pd_publication desc) \<and> delivery_enabled desc \<and> bd_publish b)"

definition admitted_changes :: "processor_descriptor \<Rightarrow> block_delivery \<Rightarrow> domain_change list" where
  "admitted_changes desc b = (if delivery_enabled desc \<and> bd_publish b then bd_changes b else [])"

definition published_changes :: "processor_descriptor \<Rightarrow> block_delivery \<Rightarrow> domain_change list" where
  "published_changes desc b = (if defers desc b then [] else admitted_changes desc b)"

definition releases_held :: "processor_descriptor \<Rightarrow> block_delivery \<Rightarrow> bool" where
  "releases_held desc b =
     (first_level (pd_publication desc) > Unattested \<and> pd_delivery_ordering desc = OrderCanonical
      \<and> delivery_enabled desc \<and> bd_publish b \<and> bd_level b \<ge> first_level (pd_publication desc)
      \<and> checked_sub (number (bd_block b)) 1 \<noteq> None)"

definition deliver_block ::
  "int \<Rightarrow> processor_descriptor \<Rightarrow> string \<Rightarrow> delivery_origin \<Rightarrow> bool \<Rightarrow> u64 \<Rightarrow> block_delivery \<Rightarrow> spool
    \<Rightarrow> ((nat \<times> nat) option \<times> spool, 'pe store_error) result" where
  "deliver_block now desc stream origin publish_progress incoming b sp =
     (let db = sp_delivery sp; i = pd_instance desc in
     and_then (if defers desc b
       then park_changes \<lparr>df_instance = i, df_stream = stream, df_chain_id = bd_chain b, df_block = bd_block b,
         df_origin = origin, df_changes = bd_changes b, df_sinks = bd_sinks b, df_bytes = incoming\<rparr> db
       else Ok db) (\<lambda>db1.
     and_then (if releases_held desc b
       then and_then (release_deferred_changes now i (number (bd_block b) - 1) (bd_level b) db1) (\<lambda>(_, d). Ok d)
       else Ok db1) (\<lambda>db2.
     and_then (if delivery_enabled desc
       then append_changes now i stream origin (bd_chain b) (bd_block b) (bd_level b) DirectionApply
         (published_changes desc b) (bd_sinks b) db2
       else Ok (None, db2)) (\<lambda>(sequences, db3).
     if \<not> publish_progress then Ok (sequences, sp\<lparr>sp_delivery := db3\<rparr>)
     else
       and_then (append_changes now i stream origin (bd_chain b) (bd_block b) Finalized DirectionApply
         [backfill_progress_change (number (bd_block b)) (number (bd_block b)) 1] [] db3) (\<lambda>(progress, db4).
       and_then (record_backfill_progress stream (number (bd_block b)) 1
         (of_nat (length (published_changes desc b))) (sp\<lparr>sp_delivery := db4\<rparr>)) (\<lambda>sp'.
       Ok (case (sequences, progress) of
            (Some (f, _), Some (_, l)) \<Rightarrow> Some (f, l)
          | (Some q, None) \<Rightarrow> Some q
          | (None, q) \<Rightarrow> q, sp')))))))"

definition publish_block ::
  "store_limits \<Rightarrow> u64 \<Rightarrow> u64 \<Rightarrow> int \<Rightarrow> processor_descriptor \<Rightarrow> string \<Rightarrow> block_delivery \<Rightarrow> spool
    \<Rightarrow> ((nat \<times> nat) option, 'pe store_error) result \<times> spool" where
  "publish_block lim database_bytes wal_bytes now desc stream b sp =
     or_stop (if delivery_enabled desc then delivery_stream_is_backfill (sp_delivery sp) stream else Ok False) sp
       (\<lambda>publish_progress.
     or_stop (admitted_bytes (admitted_changes desc b) publish_progress) sp (\<lambda>incoming.
     (let (admitted, db) = (if delivery_enabled desc
            then enforce_delivery_capacity lim database_bytes wal_bytes now desc stream incoming
              (if publish_progress then 1 else 0) sp
            else (Ok (), sp_delivery sp));
          sp1 = sp\<lparr>sp_delivery := db\<rparr>
      in or_stop admitted sp1 (\<lambda>_.
         or_stop (if publish_progress then backfill_delivery_origin sp1 stream
           else if bd_recovery b then Ok (origin_live_recovery (pd_instance desc))
           else Ok (origin_live (pd_instance desc))) sp1 (\<lambda>origin.
         or_stop (deliver_block now desc stream origin publish_progress incoming b sp1) sp1 (\<lambda>(sequences, sp2).
         (Ok sequences, sp2)))))))"

section \<open>Completing a subscription\<close>

definition covered_hash :: "spool \<Rightarrow> string \<Rightarrow> block_number \<Rightarrow> block_hash option" where
  "covered_hash sp i n =
     (case map_of (sp_coverage sp) (i, unat n) of
        Some h \<Rightarrow> Some h
      | None \<Rightarrow> map_of (sp_segments sp) (i, unat n))"

text \<open>The parent and the time of a block, from the row of it with the highest row number.\<close>

definition stored_block :: "delivery_db \<Rightarrow> string \<Rightarrow> block_number \<Rightarrow> block_hash \<Rightarrow> block_hash \<times> u64" where
  "stored_block db i n h =
     (let rows = filter (\<lambda>(_, r). cl_instance r = i \<and> number (cl_block r) = n \<and> hash (cl_block r) = h) (change_log db)
      in if rows = [] then (0, 0)
         else (let r = snd (last (sort_key (\<lambda>(_, r). cl_physical r) rows))
               in (parent_hash (cl_block r), timestamp (cl_block r))))"

definition publish_completion ::
  "int \<Rightarrow> string \<Rightarrow> string \<Rightarrow> chain_id \<Rightarrow> string \<Rightarrow> block_number \<Rightarrow> delivery_origin \<Rightarrow> spool
    \<Rightarrow> (nat \<times> delivery_db, 'pe store_error) result" where
  "publish_completion now i stream c subscription through origin sp =
     (let db = sp_delivery sp in
     and_then (backfill_completion_metadata sp stream subscription) (\<lambda>metadata.
     and_then (u64_i64 through ''completion block number'') (\<lambda>_.
     and_then (ok_or (covered_hash sp i through)
       (StoreInvariant ''cannot complete backfill before the block is covered'')) (\<lambda>h.
     (let (parent, time) = stored_block db i through h;
          boundary = \<lparr>number = through, hash = h, parent_hash = parent, timestamp = time\<rparr>
      in and_then (if cm_disposition metadata = AlreadyCoveredNoop
             \<and> \<not> list_ex (\<lambda>(_, r). ch_kind (cl_change r) = BACKFILL_PROGRESS) (stream_rows db stream)
           then (case map_of (sp_subscriptions sp) subscription of
               None \<Rightarrow> Err (Sqlx ''null column'')
             | Some r \<Rightarrow>
                 if sb_ranges r = [] then Err (Sqlx ''null column'')
                 else and_then (append_changes now i stream origin c boundary Finalized DirectionApply
                   [backfill_progress_change (Min (set (map sg_from (sb_ranges r)))) through 0] [] db)
                   (\<lambda>(_, d). Ok d))
           else Ok db) (\<lambda>db1.
         and_then (append_changes now i stream origin c boundary Finalized DirectionApply
           [\<lparr>ch_kind = BACKFILL_COMPLETE, ch_key = map of_char subscription, ch_operation = Upsert,
             ch_payload = encode_backfill_completion_metadata metadata\<rparr>] [] db1) (\<lambda>(sequences, db2).
         case sequences of
           None \<Rightarrow> Err (StoreInvariant ''completion record was not appended'')
         | Some (_, l) \<Rightarrow> Ok (l, db2))))))))"

definition append_backfill_completion_transaction ::
  "int \<Rightarrow> string \<Rightarrow> string \<Rightarrow> chain_id \<Rightarrow> string \<Rightarrow> block_number \<Rightarrow> spool \<Rightarrow> (nat \<times> spool, 'pe store_error) result" where
  "append_backfill_completion_transaction now i stream c subscription through sp =
     (case map_of (sp_subscriptions sp) subscription of
        None \<Rightarrow> Err (Sqlx ''no row'')
      | Some r \<Rightarrow>
          if sb_stream r \<noteq> stream then Err (Sqlx ''no row'')
          else
            and_then (case completion_record (sp_delivery sp) stream of
                Some n \<Rightarrow> Ok (n, sp_delivery sp)
              | None \<Rightarrow> publish_completion now i stream c subscription through (subscription_origin subscription r) sp)
              (\<lambda>(sequence, db).
            Ok (sequence, sp\<lparr>sp_delivery := db,
              sp_subscriptions := tput subscription
                ((if terminal_state (sb_state r) then r
                  else r\<lparr>sb_state := Draining, sb_completion := Some sequence, sb_error := None\<rparr>)
                 \<lparr>sb_ranges := map (\<lambda>g. g\<lparr>sg_state := RangeCommitted\<rparr>) (sb_ranges r)\<rparr>) (sp_subscriptions sp),
              sp_jobs := (case map_of (sp_jobs sp) (sb_job r) of
                Some j \<Rightarrow> if jb_state j = JobFailed \<or> jb_state j = JobCancelled then sp_jobs sp
                  else tput (sb_job r) (j\<lparr>jb_state := JobCompleted\<rparr>) (sp_jobs sp)
              | None \<Rightarrow> sp_jobs sp)\<rparr>)))"

text \<open>The bytes that a completion is admitted with.\<close>

definition completion_bytes :: "string \<Rightarrow> subscription_row \<Rightarrow> (u64, 'pe store_error) result" where
  "completion_bytes subscription r =
     and_then (ok_or (checked_add 48 (saturating_mul (of_nat (length (sb_preexisting r))) 16))
       (Numeric ''backfill completion bytes'')) (\<lambda>payload.
     and_then (ok_or (checked_add (of_nat (length subscription)) payload) (Numeric ''backfill completion bytes'')) (\<lambda>bytes.
     ok_or (checked_add bytes (if sb_processed r = 0 then 32 else 0)) (Numeric ''backfill completion bytes'')))"

text \<open>The handler. The subscription is the one that the row of the stream names.\<close>

definition append_backfill_completion ::
  "store_limits \<Rightarrow> u64 \<Rightarrow> u64 \<Rightarrow> int \<Rightarrow> processor_descriptor \<Rightarrow> string \<Rightarrow> chain_id \<Rightarrow> string \<Rightarrow> block_number \<Rightarrow> spool
    \<Rightarrow> (nat, 'pe store_error) result \<times> spool" where
  "append_backfill_completion lim database_bytes wal_bytes now desc stream c subscription through sp =
     or_stop (validate_delivery_stream (sp_delivery sp) (pd_instance desc) stream) sp (\<lambda>_.
     or_stop (fetch_stream (sp_delivery sp) stream) sp (\<lambda>s.
     if sr_kind s \<noteq> StreamBackfill
     then (Err (StoreInvalidConfig ''backfill completion requires a backfill delivery stream''), sp)
     else
       (let (admitted, sp1) = (if completion_record (sp_delivery sp) stream = None
          then (case (and_then (ok_or (map_of (sp_subscriptions sp) subscription) (Sqlx ''no row''))
                  (completion_bytes subscription) :: (u64, 'pe store_error) result) of
               Inl e \<Rightarrow> (Err e, sp)
             | Inr bytes \<Rightarrow>
                 (let (a, db) = enforce_delivery_capacity lim database_bytes wal_bytes now desc stream bytes 0 sp
                  in (a, sp\<lparr>sp_delivery := db\<rparr>)))
          else (Ok (), sp))
        in or_stop admitted sp1 (\<lambda>_.
           or_stop (append_backfill_completion_transaction now (pd_instance desc) stream c subscription through sp1) sp1
             (\<lambda>(sequence, sp2). (Ok sequence, sp2))))))"

end
