(* ===== verification/Subscription_Jobs.thy ===== *)
theory Subscription_Jobs
  imports Subscriptions Ranges
begin

text \<open>
  Creating a backfill subscription with its job, and reading one back
  (\<^verbatim>\<open>create_backfill_subscription_job\<close>, \<^verbatim>\<open>backfill_subscription_for_job\<close> and
  \<^verbatim>\<open>backfill_subscription_range_progress\<close> of \<^verbatim>\<open>crates/store-sqlite/src/lib.rs\<close>).
\<close>

section \<open>Requests\<close>

record subscription_record =
  su_id :: string
  su_job :: string
  su_instance :: string
  su_stream :: string
  su_mode :: subscription_mode
  su_revision :: u64
  su_state :: subscription_state
  su_error :: "string option"
  su_consumer :: string
  su_ranges :: "block_range list"
  su_range :: block_range
  su_preexisting :: "block_range list"
  su_captured :: block_number
  su_key :: string
  su_block_limit :: u64
  su_byte_limit :: u64
  su_resume_ratio :: u32
  su_batch_limits :: delivery_batch_limits
  su_initial :: u64
  su_completion :: "u64 option"
  su_processed :: u64

definition config_range :: "('a, block_range_error) result \<Rightarrow> ('a, 'pe store_error) result" where
  "config_range r = map_err (\<lambda>_. StoreInvalidConfig ''invalid block range'') r"

definition normalized_subscription_ranges :: "subscription_record \<Rightarrow> (block_range list, 'pe store_error) result" where
  "normalized_subscription_ranges q =
     and_then (config_range (normalize_ranges (if su_ranges q = [] then [su_range q] else su_ranges q))) (\<lambda>ns.
     case ns of
       [] \<Rightarrow> Err (StoreInvalidConfig ''backfill subscription range set must not be empty'')
     | first # _ \<Rightarrow>
         and_then (config_range (range_new (range_start first) (range_end (last ns)))) (\<lambda>bounding.
         if bounding \<noteq> su_range q
         then Err (StoreInvalidConfig ''backfill subscription bounding range does not match its range set'')
         else Ok ns))"

definition batch_limits_valid :: "delivery_batch_limits \<Rightarrow> bool" where
  "batch_limits_valid b =
     (bl_target b \<noteq> 0 \<and> bl_maximum b \<ge> bl_target b \<and> bl_events b \<noteq> 0 \<and> bl_blocks b \<noteq> 0 \<and> bl_delay_ms b \<noteq> 0
      \<and> bl_batches b \<noteq> 0 \<and> bl_buffered b \<ge> bl_maximum b)"

definition subscription_valid :: "subscription_record \<Rightarrow> string \<Rightarrow> block_range list \<Rightarrow> bool" where
  "subscription_valid q job ranges =
     (su_id q \<noteq> [] \<and> su_job q = job
      \<and> (ranges = [] \<or> range_end (last ranges) \<le> su_captured q)
      \<and> su_revision q = 0 \<and> su_block_limit q \<noteq> 0 \<and> su_byte_limit q \<noteq> 0
      \<and> su_resume_ratio q \<noteq> 0 \<and> su_resume_ratio q < 1000000 \<and> batch_limits_valid (su_batch_limits q))"

text \<open>Every value given its field's name that must fit a column; the first that does not is the error.\<close>

fun fit_columns :: "(u64 \<times> string) list \<Rightarrow> (unit, 'pe store_error) result" where
  "fit_columns [] = Ok ()"
| "fit_columns ((v, field) # vs) = and_then (u64_i64 v field) (\<lambda>_. fit_columns vs)"

definition subscription_columns :: "subscription_record \<Rightarrow> u64 \<Rightarrow> (u64 \<times> string) list" where
  "subscription_columns q revision =
     [(revision, ''subscription publication revision''), (su_initial q, ''initial subscription sequence''),
      (range_start (su_range q), ''subscription start block''), (range_end (su_range q), ''subscription end block''),
      (su_captured q, ''captured finalized target''), (su_block_limit q, ''subscription block limit''),
      (su_byte_limit q, ''subscription byte limit''),
      (bl_target (su_batch_limits q), ''delivery target encoded bytes''),
      (bl_maximum (su_batch_limits q), ''delivery maximum encoded bytes''),
      (bl_events (su_batch_limits q), ''delivery maximum events''),
      (bl_blocks (su_batch_limits q), ''delivery maximum processed blocks''),
      (bl_delay_ms (su_batch_limits q), ''delivery maximum delay''),
      (bl_batches (su_batch_limits q), ''delivery maximum buffered batches''),
      (bl_buffered (su_batch_limits q), ''delivery maximum buffered bytes'')]
     @ (case su_completion q of None \<Rightarrow> [] | Some n \<Rightarrow> [(n, ''completion sequence'')])
     @ [(su_processed q, ''processed subscription blocks'')]"

section \<open>Creation\<close>

definition live_stream :: "string \<Rightarrow> string" where
  "live_stream i = i @ '':live''"

definition new_revision :: "subscription_record \<Rightarrow> spool \<Rightarrow> (u64, 'pe store_error) result" where
  "new_revision q sp =
     (if su_mode q = Recompute
      then ok_or (checked_add (foldr max (map (\<lambda>(_, r). sb_revision r)
          (filter (\<lambda>(_, r). sb_instance r = su_instance q) (sp_subscriptions sp))) 0) 1)
        (Numeric ''next publication revision'')
      else Ok 0)"

definition new_subscription_row :: "subscription_record \<Rightarrow> u64 \<Rightarrow> nat option \<Rightarrow> subscription_row" where
  "new_subscription_row q revision live_cut =
     \<lparr>sb_job = su_job q, sb_instance = su_instance q, sb_stream = su_stream q, sb_mode = su_mode q,
      sb_revision = revision, sb_state = su_state q, sb_from = range_start (su_range q), sb_to = range_end (su_range q),
      sb_ranges = [], sb_preexisting = [], sb_block_limit = su_block_limit q, sb_byte_limit = su_byte_limit q,
      sb_resume_ratio = ucast (su_resume_ratio q), sb_processed = su_processed q, sb_published = 0,
      sb_completion = map_option unat (su_completion q), sb_error = su_error q, sb_consumer = su_consumer q,
      sb_captured = su_captured q, sb_key = su_key q, sb_batch_limits = su_batch_limits q,
      sb_initial = su_initial q, sb_live_cut = live_cut\<rparr>"

text \<open>The insertion does nothing where a unique key is taken; a new row must name an existing live stream.\<close>

definition insert_subscription :: "subscription_record \<Rightarrow> u64 \<Rightarrow> nat option \<Rightarrow> spool
    \<Rightarrow> ((string, subscription_row) table, 'pe store_error) result" where
  "insert_subscription q revision live_cut sp =
     (if list_ex (\<lambda>(k, r). k = su_id q \<or> sb_job r = su_job q \<or> sb_stream r = su_stream q
          \<or> sb_instance r = su_instance q \<and> sb_key r = su_key q) (sp_subscriptions sp)
      then Ok (sp_subscriptions sp)
      else if map_of (delivery_streams (sp_delivery sp)) (live_stream (su_instance q)) = None
      then Err (Sqlx ''FOREIGN KEY constraint failed'')
      else Ok (tput (su_id q) (new_subscription_row q revision live_cut) (sp_subscriptions sp)))"

definition same_subscription :: "subscription_record \<Rightarrow> string \<times> subscription_row \<Rightarrow> bool" where
  "same_subscription q = (\<lambda>(k, r). k = su_id q \<and> sb_job r = su_job q \<and> sb_stream r = su_stream q
     \<and> sb_mode r = su_mode q \<and> sb_consumer r = su_consumer q \<and> sb_from r = range_start (su_range q)
     \<and> sb_to r = range_end (su_range q) \<and> sb_block_limit r = su_block_limit q \<and> sb_byte_limit r = su_byte_limit q
     \<and> sb_resume_ratio r = ucast (su_resume_ratio q) \<and> sb_batch_limits r = su_batch_limits q)"

definition range_bounds :: "block_range \<Rightarrow> block_number \<times> block_number" where
  "range_bounds g = (range_start g, range_end g)"

text \<open>Rows for the ordinals that have none.\<close>

definition insert_ordinals :: "'a list \<Rightarrow> 'a list \<Rightarrow> 'a list" where
  "insert_ordinals stored new = stored @ drop (length stored) new"

definition queued_range :: "block_range \<Rightarrow> subscription_range" where
  "queued_range g = \<lparr>sg_from = range_start g, sg_to = range_end g, sg_state = RangeQueued, sg_committed = 0\<rparr>"

definition own_ranges :: "subscription_record \<Rightarrow> block_range list
    \<Rightarrow> (string \<times> string \<times> nat, block_number) table \<Rightarrow> (string \<times> string \<times> nat, block_number) table" where
  "own_ranges q = fold (\<lambda>g t. let k = (su_instance q, su_id q, unat (range_start g))
     in tput k (case map_of t k of None \<Rightarrow> range_end g | Some e \<Rightarrow> max e (range_end g)) t)"

text \<open>The transaction after the lookup of the job's identity.\<close>

definition store_subscription :: "subscription_record \<Rightarrow> block_range list \<Rightarrow> block_range list \<Rightarrow> string \<Rightarrow> job_row
    \<Rightarrow> block_hash \<Rightarrow> nat option \<Rightarrow> spool \<Rightarrow> (spool, 'pe store_error) result" where
  "store_subscription q ranges preexisting job row identity live_cut sp =
     and_then (new_revision q sp) (\<lambda>revision.
     and_then (fit_columns (subscription_columns q revision)) (\<lambda>_.
     and_then (insert_subscription q revision live_cut sp) (\<lambda>subscriptions.
     case find (\<lambda>(_, r). sb_instance r = su_instance q \<and> sb_key r = su_key q) subscriptions of
       None \<Rightarrow> Err (StoreInvalidConfig ''backfill idempotency key is already used by another subscription'')
     | Some (k, r) \<Rightarrow>
         if \<not> same_subscription q (k, r)
         then Err (StoreInvalidConfig ''backfill idempotency key is already used by another subscription'')
         else
           and_then (fit_columns (concat (map (\<lambda>g. [(range_start g, ''subscription range start''),
             (range_end g, ''subscription range end'')]) ranges))) (\<lambda>_.
           (let gs = insert_ordinals (sb_ranges r) (map queued_range ranges)
            in if map (\<lambda>g. (sg_from g, sg_to g)) gs \<noteq> map range_bounds ranges
            then Err (StoreInvalidConfig ''backfill idempotency key is already used by another range set'')
            else
              and_then (fit_columns (concat (map (\<lambda>g. [(range_start g, ''preexisting range start''),
                (range_end g, ''preexisting range end'')]) preexisting))) (\<lambda>_.
              (let ps = insert_ordinals (sb_preexisting r) (map range_bounds preexisting)
               in if ps \<noteq> map range_bounds preexisting
               then Err (StoreInvalidConfig
                 ''backfill idempotency key is already used by another preexisting coverage snapshot'')
               else
                 (let jobs = (if map_of (sp_jobs sp) job = None then tput job row (sp_jobs sp) else sp_jobs sp);
                      ids = (if map_of (sp_identities sp) job = None then tput job identity (sp_identities sp)
                        else sp_identities sp)
                  in if map_option (\<lambda>j. (jb_kind j, jb_payload j)) (map_of jobs job) \<noteq> Some (jb_kind row, jb_payload row)
                  then Err (StoreInvalidConfig ''backfill job identity conflicts with an existing job'')
                  else if map_of ids job \<noteq> Some identity
                  then Err (StoreInvalidConfig ''backfill idempotency key is already used by another unresolved request'')
                  else Ok (sp\<lparr>sp_subscriptions := tput k (r\<lparr>sb_ranges := gs, sb_preexisting := ps\<rparr>) subscriptions,
                    sp_owners := own_ranges q ranges (sp_owners sp), sp_jobs := jobs, sp_identities := ids\<rparr>)))))))))"

text \<open>The job with its identity, where both are stored.\<close>

definition job_identity :: "spool \<Rightarrow> string \<Rightarrow> (string \<times> block_hash) option" where
  "job_identity sp job =
     (case (map_of (sp_jobs sp) job, map_of (sp_identities sp) job) of
        (Some j, Some h) \<Rightarrow> Some (jb_kind j, h)
      | _ \<Rightarrow> None)"

definition create_backfill_subscription_job :: "subscription_record \<Rightarrow> string \<Rightarrow> job_row \<Rightarrow> block_hash \<Rightarrow> spool
    \<Rightarrow> (job_row \<times> spool, 'pe store_error) result" where
  "create_backfill_subscription_job q job row identity sp =
     and_then (normalized_subscription_ranges q) (\<lambda>ranges.
     and_then (config_range (normalize_ranges (su_preexisting q))) (\<lambda>preexisting.
     if list_ex (\<lambda>c. \<not> list_ex (\<lambda>g. range_start g \<le> range_start c \<and> range_end g \<ge> range_end c) ranges) preexisting
     then Err (StoreInvalidConfig ''preexisting subscription coverage must be contained in requested ranges'')
     else if \<not> subscription_valid q job ranges
     then Err (StoreInvalidConfig ''invalid durable backfill subscription identity or limits'')
     else if \<not> (su_state q = WaitingForConsumer \<or> su_state q = SubQueued) \<or> jb_state row \<noteq> JobQueued
     then Err (StoreInvalidConfig ''new backfill subscriptions and jobs must start queued or waiting for a consumer'')
     else if map_option sr_instance (map_of (delivery_streams (sp_delivery sp)) (su_stream q)) \<noteq> Some (su_instance q)
     then Err (StoreInvalidConfig ''backfill history stream does not belong to the subscription processor'')
     else if map_option cr_role (map_of (durable_consumers (sp_delivery sp)) (su_stream q, su_consumer q)) \<noteq> Some RoleRequired
     then Err (StoreInvalidConfig ''backfill subscription requires its durable consumer before scheduling'')
     else
       case job_identity sp job of
         Some (kind, stored) \<Rightarrow>
           if kind \<noteq> jb_kind row \<or> stored \<noteq> identity
           then Err (StoreInvalidConfig ''backfill idempotency key is already used by another unresolved request'')
           else and_then (ok_or (map_of (sp_jobs sp) job) (StoreInvariant ''idempotent backfill job disappeared''))
             (\<lambda>j. Ok (j, sp))
       | None \<Rightarrow>
           and_then (store_subscription q ranges preexisting job row identity
             (last_sequence (stream_rows (sp_delivery sp) (live_stream (su_instance q)))) sp) (\<lambda>sp'.
           and_then (ok_or (map_of (sp_jobs sp') job) (StoreInvariant ''created backfill job disappeared''))
             (\<lambda>j. Ok (j, sp')))))"

section \<open>Reading a subscription\<close>

definition stored_range :: "block_number \<times> block_number \<Rightarrow> (block_range, 'pe store_error) result" where
  "stored_range = (\<lambda>(s, e). invariant_range s e)"

definition decode_backfill_subscription :: "string \<Rightarrow> subscription_row \<Rightarrow> (subscription_record, 'pe store_error) result" where
  "decode_backfill_subscription k r =
     and_then (invariant_range (sb_from r) (sb_to r)) (\<lambda>bounding.
     if \<not> sb_resume_ratio r < 2 ^ 32 then Err (Numeric ''subscription resume ratio'')
     else Ok \<lparr>su_id = k, su_job = sb_job r, su_instance = sb_instance r, su_stream = sb_stream r, su_mode = sb_mode r,
        su_revision = sb_revision r, su_state = sb_state r, su_error = sb_error r, su_consumer = sb_consumer r,
        su_ranges = [], su_range = bounding, su_preexisting = [], su_captured = sb_captured r, su_key = sb_key r,
        su_block_limit = sb_block_limit r, su_byte_limit = sb_byte_limit r, su_resume_ratio = ucast (sb_resume_ratio r),
        su_batch_limits = sb_batch_limits r, su_initial = sb_initial r,
        su_completion = map_option of_nat (sb_completion r), su_processed = sb_processed r\<rparr>)"

definition backfill_subscription_for_job :: "string \<Rightarrow> spool \<Rightarrow> (subscription_record option, 'pe store_error) result" where
  "backfill_subscription_for_job job sp =
     (case find (\<lambda>(_, r). sb_job r = job) (sp_subscriptions sp) of
        None \<Rightarrow> Ok None
      | Some (k, r) \<Rightarrow>
          and_then (decode_backfill_subscription k r) (\<lambda>q.
          and_then (collect_ok (map (\<lambda>g. stored_range (sg_from g, sg_to g)) (sb_ranges r))) (\<lambda>ranges.
          and_then (collect_ok (map stored_range (sb_preexisting r))) (\<lambda>preexisting.
          Ok (Some (q\<lparr>su_ranges := (if ranges = [] then [su_range q] else ranges), su_preexisting := preexisting\<rparr>))))))"

definition backfill_subscription_range_progress ::
  "string \<Rightarrow> spool \<Rightarrow> ((block_range \<times> u64) list option, 'pe store_error) result" where
  "backfill_subscription_range_progress job sp =
     (case find (\<lambda>(_, r). sb_job r = job) (sp_subscriptions sp) of
        None \<Rightarrow> Ok None
      | Some (_, r) \<Rightarrow>
          and_then (collect_ok (map (\<lambda>g. and_then (stored_range (sg_from g, sg_to g)) (\<lambda>b. Ok (b, sg_committed g)))
            (sb_ranges r))) (\<lambda>ps. Ok (Some ps)))"

end
