(* ===== verification/Subscription_Laws.thy ===== *)
theory Subscription_Laws
  imports Subscriptions Ranges "HOL-Library.Sublist"
begin

text \<open>
  The laws of backfill subscriptions: a completion record decodes to the metadata it was made from, its
  counts account for every requested block, and no transition revives a reclaimable or cancelled
  subscription.
\<close>

section \<open>Sums and lists of results\<close>

lemma checked_total_Ok:
  "checked_total field a xs = (Ok t :: (_, 'pe store_error) result) \<longleftrightarrow>
    unat t = unat a + sum_list (map unat xs)"
proof (induction xs arbitrary: a)
  case Nil
  then show ?case by (auto simp: word_eq_nat)
next
  case (Cons x xs)
  show ?case
  proof (cases "checked_add a x")
    case None
    then have "2 ^ 64 \<le> unat a + unat x" by (simp add: checked_add_def split: if_splits)
    moreover have "unat t < 2 ^ 64" using unat_less_power [of t] by simp
    ultimately show ?thesis using None by (simp add: ok_or_def)
  next
    case (Some b)
    then have "unat b = unat a + unat x"
      by (simp add: word_nat)
    with Some Cons.IH [of b] show ?thesis by (simp add: ok_or_def add.assoc)
  qed
qed

lemma collect_ok_map:
  "(\<And>x. x \<in> set xs \<Longrightarrow> f x = Ok (g x)) \<Longrightarrow> collect_ok (map f xs) = Ok (map g xs)"
  by (induction xs) simp_all

lemma collect_ok_Ok: "collect_ok rs = Ok xs \<longleftrightarrow> rs = map Ok xs"
proof (induction rs arbitrary: xs)
  case (Cons r rs)
  then show ?case by (cases xs) auto
qed auto

section \<open>Bytes of a completion record\<close>

lemma payload_number_at:
  "payload_number (pre @ to_be_bytes 8 w @ post) (length pre) = (Ok w :: (_, 'pe store_error) result)"
  by (simp add: payload_number_def from_to_be_bytes)

lemma length_range_bytes [simp]: "length (concat (map range_bytes rs)) = 16 * length rs"
  by (induction rs) (simp_all add: range_bytes_def)

lemma range_bytes_nth:
  "i < length rs \<Longrightarrow> concat (map range_bytes rs)
    = concat (map range_bytes (take i rs)) @ range_bytes (rs ! i) @ concat (map range_bytes (drop (Suc i) rs))"
  by (subst id_take_nth_drop) simp_all

definition completion_header :: "completion_metadata \<Rightarrow> bytes" where
  "completion_header m =
     to_be_bytes 2 (2 :: u16)
     @ [case cm_mode m of FillMissing \<Rightarrow> 0 | Recompute \<Rightarrow> 1]
     @ [case cm_disposition m of PublishedAll \<Rightarrow> 0 | PublishedMissingOnly \<Rightarrow> 1 | AlreadyCoveredNoop \<Rightarrow> 2]"

lemma completion_encoding:
  "encode_backfill_completion_metadata m = completion_header m
     @ to_be_bytes 8 (cm_requested m) @ to_be_bytes 8 (cm_covered m) @ to_be_bytes 8 (cm_newly_processed m)
     @ to_be_bytes 8 (cm_republished m) @ to_be_bytes 8 (cm_domain_changes m)
     @ to_be_bytes 4 (of_nat (length (cm_ranges m)) :: u32)
     @ concat (map range_bytes (cm_ranges m))"
  "length (completion_header m) = 4"
  by (simp_all add: encode_backfill_completion_metadata_def completion_header_def)

lemma completion_numbers:
  fixes m :: completion_metadata
  defines "p \<equiv> encode_backfill_completion_metadata m"
  shows "payload_number p 4 = (Ok (cm_requested m) :: (_, 'pe store_error) result)"
    and "payload_number p 12 = (Ok (cm_covered m) :: (_, 'pe store_error) result)"
    and "payload_number p 20 = (Ok (cm_newly_processed m) :: (_, 'pe store_error) result)"
    and "payload_number p 28 = (Ok (cm_republished m) :: (_, 'pe store_error) result)"
    and "payload_number p 36 = (Ok (cm_domain_changes m) :: (_, 'pe store_error) result)"
    and "from_be_bytes (take 2 p) = (2 :: u16)"
    and "decode_mode (p ! 2) = (Ok (cm_mode m) :: (_, 'pe store_error) result)"
    and "decode_disposition (p ! 3) = (Ok (cm_disposition m) :: (_, 'pe store_error) result)"
    and "from_be_bytes (take 4 (drop 44 p)) = (of_nat (length (cm_ranges m)) :: u32)"
    and "length p = 48 + 16 * length (cm_ranges m)"
  by (simp_all add: p_def completion_encoding payload_number_def from_to_be_bytes completion_header_def
    nth_append decode_mode_def decode_disposition_def split: subscription_mode.split completion_disposition.split)

lemma decode_covered_ranges_encoded:
  assumes "length (cm_ranges m) < 2 ^ 32" "list_all range_ok (cm_ranges m)"
  shows "decode_covered_ranges (encode_backfill_completion_metadata m)
    = (Ok (cm_ranges m) :: (_, 'pe store_error) result)"
proof -
  let ?p = "encode_backfill_completion_metadata m" and ?rs = "cm_ranges m"
  have count: "unat (of_nat (length ?rs) :: u32) = length ?rs"
    using assms(1) by (simp add: unat_of_nat)
  have "payload_number ?p (48 + i * 16) = (Ok (range_start (?rs ! i)) :: (_, 'pe store_error) result)"
    "payload_number ?p (48 + i * 16 + 8) = (Ok (range_end (?rs ! i)) :: (_, 'pe store_error) result)"
    if i: "i < length ?rs" for i
  proof -
    define pre where "pre = completion_header m
     @ to_be_bytes 8 (cm_requested m) @ to_be_bytes 8 (cm_covered m) @ to_be_bytes 8 (cm_newly_processed m)
     @ to_be_bytes 8 (cm_republished m) @ to_be_bytes 8 (cm_domain_changes m)
     @ to_be_bytes 4 (of_nat (length ?rs) :: u32) @ concat (map range_bytes (take i ?rs))"
    define post where "post = concat (map range_bytes (drop (Suc i) ?rs))"
    have len: "length pre = 48 + i * 16" using i by (simp add: pre_def completion_encoding(2))
    have p: "?p = pre @ to_be_bytes 8 (range_start (?rs ! i)) @ to_be_bytes 8 (range_end (?rs ! i)) @ post"
      unfolding completion_encoding(1) range_bytes_nth [OF i] pre_def post_def by (simp add: range_bytes_def)
    show "payload_number ?p (48 + i * 16) = (Ok (range_start (?rs ! i)) :: (_, 'pe store_error) result)"
      unfolding p len [symmetric] by (rule payload_number_at)
    have p': "?p = (pre @ to_be_bytes 8 (range_start (?rs ! i))) @ to_be_bytes 8 (range_end (?rs ! i)) @ post"
      by (simp add: p)
    have len': "length (pre @ to_be_bytes 8 (range_start (?rs ! i))) = 48 + i * 16 + 8" using len by simp
    show "payload_number ?p (48 + i * 16 + 8) = (Ok (range_end (?rs ! i)) :: (_, 'pe store_error) result)"
      unfolding p' len' [symmetric] by (rule payload_number_at)
  qed
  moreover have "invariant_range (range_start (?rs ! i)) (range_end (?rs ! i)) = (Ok (?rs ! i) :: (_, 'pe store_error) result)"
    if "i < length ?rs" for i
    using assms(2) that by (simp add: invariant_range_def range_new_Ok list_all_length range_ok_def)
  ultimately have "collect_ok (map (\<lambda>i. and_then (payload_number ?p (48 + i * 16)) (\<lambda>s.
      and_then (payload_number ?p (48 + i * 16 + 8)) (\<lambda>e. invariant_range s e))) [0..<length ?rs])
    = (Ok (map (\<lambda>i. ?rs ! i) [0..<length ?rs]) :: (_, 'pe store_error) result)"
    by (intro collect_ok_map) simp
  then show ?thesis
    by (simp add: decode_covered_ranges_def completion_numbers(9,10) count map_nth Let_def mult.commute)
qed

text \<open>What the encoder is given: ranges that are intervals, whose blocks are counted, and counts within the request.\<close>

definition metadata_ok :: "completion_metadata \<Rightarrow> bool" where
  "metadata_ok m =
     (list_all range_ok (cm_ranges m)
      \<and> unat (cm_covered m) = sum_list (map (\<lambda>r. unat (range_len r)) (cm_ranges m))
      \<and> cm_republished m \<le> cm_requested m \<and> cm_covered m \<le> cm_requested m \<and> cm_newly_processed m \<le> cm_requested m)"

lemma decode_encode_metadata:
  assumes "metadata_ok m" "length (cm_ranges m) < 2 ^ 32"
  shows "decode_backfill_completion_metadata (encode_backfill_completion_metadata m)
    = (Ok m :: (_, 'pe store_error) result)"
proof -
  have "list_all range_ok (cm_ranges m)" using assms(1) by (simp add: metadata_ok_def)
  note ranges = decode_covered_ranges_encoded [OF assms(2) this]
  have sum: "checked_total field 0 (map range_len (cm_ranges m)) = (Ok (cm_covered m) :: (_, 'pe store_error) result)" for field
    using assms(1) by (simp add: checked_total_Ok metadata_ok_def o_def)
  show ?thesis
    unfolding decode_backfill_completion_metadata_def
    using assms(1) by (simp add: completion_numbers ranges sum metadata_ok_def not_less)
qed

section \<open>Completion metadata\<close>

text \<open>
  The metadata of a completion: every requested block was covered before or processed since; in a
  recompute all were both.
\<close>

lemma completion_metadata_Ok:
  assumes "backfill_completion_metadata sp stream subscription = (Ok m :: (_, 'pe store_error) result)"
  obtains r where "map_of (sp_subscriptions sp) subscription = Some r" "sb_stream r = stream"
    "cm_mode m = sb_mode r" "cm_domain_changes m = sb_published r"
    "map (\<lambda>g. (range_start g, range_end g)) (cm_ranges m) = sb_preexisting r"
    "\<exists>blocks. requested_blocks r = (Ok blocks :: (_, 'pe store_error) result) \<and> 0 \<le> blocks \<and> cm_requested m = of_int blocks"
    "case sb_mode r of
       FillMissing \<Rightarrow> unat (cm_covered m) + min (unat (sb_processed r)) (unat (cm_requested m)) = unat (cm_requested m)
         \<and> cm_newly_processed m = min (sb_processed r) (cm_requested m)
     | Recompute \<Rightarrow> cm_covered m = cm_requested m \<and> cm_requested m \<le> sb_processed r \<and> cm_newly_processed m = 0
         \<and> cm_republished m = cm_requested m"
    "metadata_ok m"
proof -
  from assms obtain r blocks requested ranges covered where r: "map_of (sp_subscriptions sp) subscription = Some r" "sb_stream r = stream"
    and b: "requested_blocks r = (Ok blocks :: (_, 'pe store_error) result)"
    and q: "i64_u64 blocks ''completion requested blocks'' = (Ok requested :: (_, 'pe store_error) result)"
    and g: "collect_ok (map (\<lambda>(s, e). invariant_range s e) (sb_preexisting r)) = (Ok ranges :: (_, 'pe store_error) result)"
    and c: "checked_total ''preexisting coverage blocks'' 0 (map range_len ranges) = (Ok covered :: (_, 'pe store_error) result)"
    and v: "complete_counts_are_valid (sb_mode r) covered (min (sb_processed r) requested) requested"
    and m: "m = completion_of r requested covered ranges"
    unfolding backfill_completion_metadata_def by (auto split: option.splits if_splits)
  have blocks: "0 \<le> blocks" "requested = of_int blocks"
    using q by (auto simp: i64_u64_def split: if_splits)
  have list: "map (\<lambda>(s, e). invariant_range s e :: (_, 'pe store_error) result) (sb_preexisting r) = map Ok ranges"
    using g by (simp add: collect_ok_Ok)
  have one: "e = (range_start g, range_end g) \<and> range_ok g"
    if "(\<lambda>(s, e). invariant_range s e) e = (Ok g :: (_, 'pe store_error) result)" for e g
    using that by (cases e) (auto simp: invariant_range_def range_new_Ok range_ok_def)
  have len: "length ranges = length (sb_preexisting r)" using arg_cong [OF list, of length] by simp
  have each: "sb_preexisting r ! i = (range_start (ranges ! i), range_end (ranges ! i)) \<and> range_ok (ranges ! i)"
    if "i < length ranges" for i
    using one [of "sb_preexisting r ! i" "ranges ! i"] arg_cong [OF list, of "\<lambda>xs. xs ! i"] that len by simp
  have pre: "map (\<lambda>g. (range_start g, range_end g)) ranges = sb_preexisting r"
    using each len by (intro nth_equalityI) simp_all
  have ok: "list_all range_ok ranges" using each by (simp add: list_all_length)
  have sum: "unat covered = sum_list (map (\<lambda>g. unat (range_len g)) ranges)"
    using c by (simp add: checked_total_Ok o_def)
  have fields: "cm_mode m = sb_mode r" "cm_domain_changes m = sb_published r" "cm_ranges m = ranges"
    "cm_requested m = requested" "cm_covered m = covered"
    unfolding m by (simp_all add: completion_of_def split: prod.split)
  have pm: "unat (min (sb_processed r) requested) = min (unat (sb_processed r)) (unat requested)"
    by (simp add: min_def word_le_nat_alt)
  show thesis
  proof (cases "sb_mode r")
    case FillMissing
    have v: "unat requested = unat covered + min (unat (sb_processed r)) (unat requested)"
      using v by (simp add: complete_counts_are_valid_def FillMissing checked_add_Some pm)
    have new: "cm_newly_processed m = min (sb_processed r) requested" "cm_republished m = min (sb_processed r) requested"
      unfolding m by (auto simp: completion_of_def FillMissing)
    have "metadata_ok m"
      using ok sum v new by (simp add: metadata_ok_def fields word_le_nat_alt pm)
    then show thesis
      using r pre b blocks v new by (intro that [of r]) (auto simp: fields FillMissing)
  next
    case Recompute
    have new: "cm_newly_processed m = 0" "cm_republished m = requested" and le: "requested \<le> sb_processed r" "covered = requested"
      using v unfolding m by (auto simp: completion_of_def complete_counts_are_valid_def Recompute min_def split: if_splits)
    have "metadata_ok m"
      using ok sum new le by (simp add: metadata_ok_def fields)
    then show thesis
      using r pre b blocks le new by (intro that [of r]) (auto simp: fields Recompute)
  qed
qed

section \<open>Lifecycle\<close>

lemma update_where_table:
  "map_of (update_where P f t) k = map_option (\<lambda>r. if P r then f r else r) (map_of t k)"
  "fst ` set (update_where P f t) = fst ` set t"
  "ordered t \<Longrightarrow> ordered (update_where P f t)"
proof -
  have "map fst (update_where P f t) = map fst t" by (induction t) (auto simp: update_where_def)
  then show "fst ` set (update_where P f t) = fst ` set t" "ordered t \<Longrightarrow> ordered (update_where P f t)"
    by (simp_all add: ordered_def flip: set_map)
  show "map_of (update_where P f t) k = map_option (\<lambda>r. if P r then f r else r) (map_of t k)"
    by (induction t) (auto simp: update_where_def)
qed

lemma any_row_iff: "any_row P t \<longleftrightarrow> (\<exists>k r. (k, r) \<in> set t \<and> P r)"
  by (auto simp: any_row_def list_ex_iff)

text \<open>
  What no operation takes back: the identity and limits of a subscription, its progress, and the
  states reclaimable and cancelled; a failed one can only be queued again.
\<close>

definition fixed_fields where
  "fixed_fields (r :: subscription_row) =
     ((sb_job r, sb_instance r, sb_stream r, sb_mode r, sb_revision r), (sb_from r, sb_to r),
      (sb_block_limit r, sb_byte_limit r, sb_resume_ratio r, sb_batch_limits r),
      (sb_consumer r, sb_captured r, sb_key r, sb_initial r, sb_live_cut r))"

text \<open>A completed and reclaimable or a cancelled subscription stays as it is; a failed one may be retried.\<close>

definition state_moves :: "subscription_state \<Rightarrow> subscription_state \<Rightarrow> bool" where
  "state_moves s s' = (s = CompleteReclaimable \<or> s = SubCancelled \<longrightarrow> s' = s)"

text \<open>
  A sound row: its ranges are in normal form and span its bounds, what was covered before lies within
  them, and no more blocks are committed over its ranges than were processed.
\<close>

definition row_requested :: "subscription_row \<Rightarrow> block_range list" where
  "row_requested r = map (\<lambda>g. \<lparr>range_start = sg_from g, range_end = sg_to g\<rparr>) (sb_ranges r)"

definition row_covered :: "subscription_row \<Rightarrow> block_range list" where
  "row_covered r = map (\<lambda>(s, e). \<lparr>range_start = s, range_end = e\<rparr>) (sb_preexisting r)"

definition committed :: "subscription_range list \<Rightarrow> nat" where
  "committed gs = sum_list (map (\<lambda>g. unat (sg_committed g)) gs)"

definition subscription_sound :: "subscription_row \<Rightarrow> bool" where
  "subscription_sound r =
     (ranges_normal (row_requested r) \<and> row_requested r \<noteq> [] \<and> range_start (hd (row_requested r)) = sb_from r
      \<and> range_end (last (row_requested r)) = sb_to r \<and> unat (sb_to r) < 2 ^ 63
      \<and> ranges_normal (row_covered r) \<and> blocks_of (row_covered r) \<subseteq> blocks_of (row_requested r)
      \<and> committed (sb_ranges r) \<le> unat (sb_processed r))"

lemma sound_update [simp]:
  "subscription_sound (r\<lparr>sb_state := s\<rparr>) = subscription_sound r"
  "subscription_sound (r\<lparr>sb_completion := n\<rparr>) = subscription_sound r"
  "subscription_sound (r\<lparr>sb_error := e\<rparr>) = subscription_sound r"
  by (simp_all add: subscription_sound_def row_requested_def row_covered_def)

lemma requested_keys: "row_requested r = map (\<lambda>(s, e). \<lparr>range_start = s, range_end = e\<rparr>) (map (\<lambda>g. (sg_from g, sg_to g)) (sb_ranges r))"
  by (simp add: row_requested_def)

definition subscription_moves :: "subscription_row \<Rightarrow> subscription_row \<Rightarrow> bool" where
  "subscription_moves r r' =
     (fixed_fields r' = fixed_fields r
      \<and> prefix (row_requested r) (row_requested r') \<and> prefix (row_covered r) (row_covered r')
      \<and> sb_processed r \<le> sb_processed r' \<and> sb_published r \<le> sb_published r'
      \<and> state_moves (sb_state r) (sb_state r')
      \<and> (sb_completion r \<noteq> None \<longrightarrow> sb_completion r' \<noteq> None)
      \<and> (subscription_sound r \<longrightarrow> subscription_sound r'))"

lemma span_update [simp]:
  "row_requested (r\<lparr>sb_state := s\<rparr>) = row_requested r" "row_covered (r\<lparr>sb_state := s\<rparr>) = row_covered r"
  "row_requested (r\<lparr>sb_completion := n\<rparr>) = row_requested r" "row_covered (r\<lparr>sb_completion := n\<rparr>) = row_covered r"
  "row_requested (r\<lparr>sb_error := e\<rparr>) = row_requested r" "row_covered (r\<lparr>sb_error := e\<rparr>) = row_covered r"
  by (simp_all add: row_requested_def row_covered_def)

text \<open>Rows stay and only move forward; a new row is sound.\<close>

definition subscriptions_kept :: "(string, subscription_row) table \<Rightarrow> (string, subscription_row) table \<Rightarrow> bool" where
  "subscriptions_kept t t' =
     (ordered t' \<and> (\<forall>k r. map_of t k = Some r \<longrightarrow> (\<exists>r'. map_of t' k = Some r' \<and> subscription_moves r r'))
      \<and> (\<forall>k r'. map_of t k = None \<longrightarrow> map_of t' k = Some r' \<longrightarrow> subscription_sound r'))"

lemma subscription_moves_refl [simp]: "subscription_moves r r"
  by (simp add: subscription_moves_def state_moves_def)

lemma subscription_moves_trans:
  "subscription_moves r r' \<Longrightarrow> subscription_moves r' r'' \<Longrightarrow> subscription_moves r r''"
  unfolding subscription_moves_def state_moves_def by (auto intro: order_trans prefix_order.trans)

lemma subscriptions_kept_refl: "ordered t \<Longrightarrow> subscriptions_kept t t"
  by (simp add: subscriptions_kept_def)

lemma subscriptions_kept_trans:
  "subscriptions_kept t t' \<Longrightarrow> subscriptions_kept t' t'' \<Longrightarrow> subscriptions_kept t t''"
proof -
  assume a: "subscriptions_kept t t'" and b: "subscriptions_kept t' t''"
  have "subscription_sound r''" if "map_of t k = None" "map_of t'' k = Some r''" for k r''
  proof (cases "map_of t' k")
    case None
    then show ?thesis using b that by (simp add: subscriptions_kept_def)
  next
    case (Some r')
    then have "subscription_sound r'" using a that by (auto simp: subscriptions_kept_def)
    moreover have "\<exists>r2. map_of t'' k = Some r2 \<and> subscription_moves r' r2"
      using b Some unfolding subscriptions_kept_def by blast
    then have "subscription_moves r' r''" using that by simp
    ultimately have "subscription_sound r'" "subscription_moves r' r''" by blast+
    then show ?thesis by (simp add: subscription_moves_def)
  qed
  moreover have "\<exists>r''. map_of t'' k = Some r'' \<and> subscription_moves r r''" if "map_of t k = Some r" for k r
    using a b that subscription_moves_trans unfolding subscriptions_kept_def by meson
  ultimately show ?thesis using b by (simp add: subscriptions_kept_def)
qed

lemma subscriptions_kept_where:
  assumes "ordered t" "\<And>r. P r \<Longrightarrow> subscription_moves r (f r)"
  shows "subscriptions_kept t (update_where P f t)"
  using assms by (auto simp: subscriptions_kept_def update_where_table)

lemma subscriptions_kept_put:
  assumes "ordered t" "map_of t k = Some r" "subscription_moves r r'"
  shows "subscriptions_kept t (tput k r' t)"
  using assms by (auto simp: subscriptions_kept_def split: if_splits)

lemma set_state_kept:
  "ordered (sp_subscriptions sp) \<Longrightarrow> set_backfill_subscription_state job state error sp = (changed, sp') \<Longrightarrow>
    subscriptions_kept (sp_subscriptions sp) (sp_subscriptions sp') \<and> sp_delivery sp' = sp_delivery sp"
  by (auto simp: set_backfill_subscription_state_def subscription_moves_def fixed_fields_def state_moves_def terminal_state_def Let_def
    intro!: subscriptions_kept_where split: option.splits)

lemma retry_kept:
  "ordered (sp_subscriptions sp) \<Longrightarrow> retry_failed_backfill_subscription job outcome sp = (changed, sp') \<Longrightarrow>
    subscriptions_kept (sp_subscriptions sp) (sp_subscriptions sp') \<and> sp_delivery sp' = sp_delivery sp"
  by (auto simp: retry_failed_backfill_subscription_def subscription_moves_def fixed_fields_def state_moves_def Let_def
    intro!: subscriptions_kept_where subscriptions_kept_refl split: if_splits)

lemma mark_reclaimable_kept:
  "ordered (sp_subscriptions sp) \<Longrightarrow>
    mark_backfill_subscription_reclaimable subscription acknowledged sp = (Ok (changed, sp') :: (_, 'pe store_error) result) \<Longrightarrow>
    subscriptions_kept (sp_subscriptions sp) (sp_subscriptions sp') \<and> sp_delivery sp' = sp_delivery sp"
  by (auto simp: mark_backfill_subscription_reclaimable_def subscription_moves_def fixed_fields_def state_moves_def
    intro!: subscriptions_kept_put subscriptions_kept_refl split: option.splits if_splits)

lemma column_add_Ok:
  "column_add a b = (Ok c :: (_, 'pe store_error) result) \<longleftrightarrow> unat c = unat a + unat b \<and> unat c < 2 ^ 63"
proof -
  have "unat (a + b) = unat a + unat b" if "unat a + unat b < 2 ^ 63"
    using that by (intro unat_plus_no_overflow) simp
  then show ?thesis by (auto simp: column_add_def word_eq_nat)
qed

lemma commit_ranges_keys:
  "commit_ranges b n gs = (Ok gs' :: (_, 'pe store_error) result) \<Longrightarrow>
    map (\<lambda>g. (sg_from g, sg_to g)) gs' = map (\<lambda>g. (sg_from g, sg_to g)) gs"
  by (induction gs arbitrary: gs') (auto split: if_splits)

text \<open>A block lies in one range of a normal set at most, so its count is added once.\<close>

lemma commit_ranges_outside:
  "commit_ranges b n gs = (Ok gs' :: (_, 'pe store_error) result) \<Longrightarrow>
    (\<forall>g \<in> set gs. \<not> (sg_from g \<le> b \<and> sg_to g \<ge> b)) \<Longrightarrow> gs' = gs"
  by (induction gs arbitrary: gs') (auto split: if_splits)

lemma commit_ranges_sum:
  "commit_ranges b n gs = (Ok gs' :: (_, 'pe store_error) result) \<Longrightarrow>
    ranges_normal (map (\<lambda>g. \<lparr>range_start = sg_from g, range_end = sg_to g\<rparr>) gs) \<Longrightarrow>
    committed gs' \<le> committed gs + unat n"
proof (induction gs arbitrary: gs')
  case (Cons g gs)
  have normal: "ranges_normal (map (\<lambda>g. \<lparr>range_start = sg_from g, range_end = sg_to g\<rparr>) gs)"
    using Cons.prems(2) by (simp add: ranges_normal_def)
  show ?case
  proof (cases "sg_from g \<le> b \<and> sg_to g \<ge> b")
    case True
    with Cons.prems(1) obtain c gs1 where c: "column_add (sg_committed g) n = (Ok c :: (_, 'pe store_error) result)"
      and rest: "commit_ranges b n gs = (Ok gs1 :: (_, 'pe store_error) result)"
      and gs': "gs' = g\<lparr>sg_state := RangeRunning, sg_committed := c\<rparr> # gs1" by auto
    have "\<not> (sg_from h \<le> b \<and> sg_to h \<ge> b)" if "h \<in> set gs" for h
      using Cons.prems(2) that True by (auto simp: ranges_normal_def gaps_apart_def word_nat)
    then have "gs1 = gs" using commit_ranges_outside [OF rest] by blast
    then show ?thesis using c by (simp add: gs' committed_def column_add_Ok)
  next
    case False
    then obtain gs1 where "commit_ranges b n gs = (Ok gs1 :: (_, 'pe store_error) result)" "gs' = g # gs1"
      using Cons.prems(1) by auto
    then show ?thesis using Cons.IH [OF _ normal, of gs1] by (simp add: committed_def)
  qed
qed (simp add: committed_def)

lemma stream_subscription_Some:
  assumes "stream_subscription sp stream = Some (k, r)" "ordered (sp_subscriptions sp)"
  shows "map_of (sp_subscriptions sp) k = Some r" "sb_stream r = stream"
  using assms ordered_distinct [OF assms(2)]
  by (auto simp: stream_subscription_def find_Some_iff intro!: map_of_is_SomeI) (metis nth_mem)

lemma record_progress_kept:
  assumes "record_backfill_progress stream through processed published sp = (Ok sp' :: (_, 'pe store_error) result)"
    and ord: "ordered (sp_subscriptions sp)"
  shows "subscriptions_kept (sp_subscriptions sp) (sp_subscriptions sp')" "sp_delivery sp' = sp_delivery sp"
proof -
  show "sp_delivery sp' = sp_delivery sp"
    using assms(1) by (auto simp: record_backfill_progress_def split: option.splits)
  show "subscriptions_kept (sp_subscriptions sp) (sp_subscriptions sp')"
  proof (cases "stream_subscription sp stream")
    case None
    then show ?thesis using assms by (auto simp: record_backfill_progress_def intro: subscriptions_kept_refl)
  next
    case (Some e)
    obtain k r where e: "e = (k, r)" by (cases e)
    from assms(1) obtain p q gs where
      s: "column_add (sb_processed r) processed = (Ok p :: (_, 'pe store_error) result)"
        "column_add (sb_published r) published = (Ok q :: (_, 'pe store_error) result)"
        "commit_ranges through processed (sb_ranges r) = (Ok gs :: (_, 'pe store_error) result)"
      and sp': "sp' = sp\<lparr>sp_subscriptions := tput k (r\<lparr>sb_processed := p, sb_published := q, sb_ranges := gs\<rparr>)
        (sp_subscriptions sp)\<rparr>"
      by (auto simp: record_backfill_progress_def Some e)
    have "subscription_moves r (r\<lparr>sb_processed := p, sb_published := q, sb_ranges := gs\<rparr>)"
      (is "subscription_moves r ?r")
    proof -
      have keys: "row_requested ?r = row_requested r" "row_covered ?r = row_covered r"
        using commit_ranges_keys [OF s(3)] by (simp_all add: requested_keys row_covered_def)
      have "committed gs \<le> unat p" if "subscription_sound r"
        using commit_ranges_sum [OF s(3)] that s(1)
        by (simp add: subscription_sound_def row_requested_def column_add_Ok)
      then show ?thesis
        using s(1,2) by (auto simp: subscription_moves_def fixed_fields_def state_moves_def column_add_Ok word_le_nat_alt
          keys subscription_sound_def)
    qed
    then show ?thesis
      using subscriptions_kept_put [OF ord stream_subscription_Some(1) [OF Some [unfolded e] ord]] by (simp add: sp')
  qed
qed

end
