(* ===== verification/Subscription_Job_Laws.thy ===== *)
theory Subscription_Job_Laws
  imports Subscription_Jobs Subscription_Laws
begin

text \<open>
  Laws of creating subscriptions: the stored ranges are the requested ones in normal form, a repeated
  request finds the same job and changes nothing, new rows are sound, revisions grow, and a stored
  subscription reads back. A sound row's counts are numbers of blocks.
\<close>

section \<open>Counting blocks\<close>

lemma range_bounds_inverse: "(\<lambda>(s, e). \<lparr>range_start = s, range_end = e\<rparr>) (range_bounds g) = g"
  by (simp add: range_bounds_def)

lemma range_eta [simp]: "map (\<lambda>g. \<lparr>range_start = range_start g, range_end = range_end g\<rparr>) (rs :: block_range list) = rs"
  by (rule map_idI) simp

lemma normal_tail: "ranges_normal (g # gs) \<Longrightarrow> ranges_normal gs \<and> range_ok g"
  by (simp add: ranges_normal_def)

lemma normal_disjoint:
  assumes "ranges_normal (g # gs)"
  shows "range_blocks g \<inter> blocks_of gs = {}"
proof -
  have "\<forall>h \<in> set gs. gaps_apart g h" using assms by (simp add: ranges_normal_def)
  then show ?thesis by (fastforce simp: blocks_of_def range_blocks_def gaps_apart_def word_nat)
qed

lemma int_sum_list: "int (sum_list (map f xs)) = sum_list (map (\<lambda>x. int (f x)) xs)"
  by (induction xs) simp_all

lemma finite_blocks: "finite (blocks_of rs)"
  by (rule finite_subset [OF subset_UNIV]) simp

lemma normal_card: "ranges_normal rs \<Longrightarrow> card (blocks_of rs) = sum_list (map (\<lambda>g. card (range_blocks g)) rs)"
proof (induction rs)
  case (Cons g gs)
  have "blocks_of (g # gs) = range_blocks g \<union> blocks_of gs" by (simp add: blocks_of_def)
  moreover have "card (range_blocks g \<union> blocks_of gs) = card (range_blocks g) + card (blocks_of gs)"
    using normal_disjoint [OF Cons.prems] finite_blocks
    by (intro card_Un_disjoint) (simp_all add: range_blocks_def finite_subset [OF subset_UNIV])
  ultimately show ?case using Cons.IH normal_tail [OF Cons.prems] by simp
qed (simp add: blocks_of_def)

section \<open>Normal forms of a request\<close>

text \<open>What the type of ranges guarantees: each is an interval.\<close>

definition request_ok :: "subscription_record \<Rightarrow> bool" where
  "request_ok q = (list_all range_ok (su_ranges q) \<and> range_ok (su_range q) \<and> list_all range_ok (su_preexisting q))"

definition asked_blocks :: "subscription_record \<Rightarrow> block_number set" where
  "asked_blocks q = blocks_of (if su_ranges q = [] then [su_range q] else su_ranges q)"

lemma config_range_Ok [simp]: "config_range r = Ok v \<longleftrightarrow> r = Ok v"
  by (cases r) (auto simp: config_range_def)

lemma normalize_Ok:
  assumes "list_all range_ok rs" "normalize_ranges rs = Ok ns"
  shows "ranges_normal ns" "blocks_of ns = blocks_of rs"
  using normalize_ranges_Ok [of rs] assms by (auto simp: list_all_iff)

lemma normalized_subscription_Ok:
  assumes "normalized_subscription_ranges q = (Ok ns :: (_, 'pe store_error) result)" and ok: "request_ok q"
  shows "ranges_normal ns" "blocks_of ns = asked_blocks q" "ns \<noteq> []"
    "range_start (hd ns) = range_start (su_range q)" "range_end (last ns) = range_end (su_range q)"
proof -
  let ?rs = "if su_ranges q = [] then [su_range q] else su_ranges q"
  from assms(1) obtain a where a: "normalize_ranges ?rs = Ok a"
    and rest: "(case a of
       [] \<Rightarrow> Err (StoreInvalidConfig ''backfill subscription range set must not be empty'')
     | first # _ \<Rightarrow>
         and_then (config_range (range_new (range_start first) (range_end (last a)))) (\<lambda>bounding.
         if bounding \<noteq> su_range q
         then Err (StoreInvalidConfig ''backfill subscription bounding range does not match its range set'')
         else Ok a)) = (Ok ns :: (_, 'pe store_error) result)"
    by (auto simp: normalized_subscription_ranges_def)
  obtain first more where cons: "a = first # more" using rest by (cases a) auto
  have b': "range_new (range_start first) (range_end (last a)) = Ok (su_range q)" and "ns = a"
    using rest unfolding cons list.case and_then_Ok config_range_Ok by (auto split: if_splits)
  then have ne: "ns \<noteq> []" and b: "range_new (range_start (hd ns)) (range_end (last ns)) = Ok (su_range q)"
    using cons by simp_all
  from \<open>ns = a\<close> have n: "normalize_ranges ?rs = Ok ns" using a by simp
  have "list_all range_ok ?rs" using ok by (simp add: request_ok_def)
  from normalize_Ok [OF this n] show "ranges_normal ns" "blocks_of ns = asked_blocks q" by (simp_all add: asked_blocks_def)
  show "ns \<noteq> []" "range_start (hd ns) = range_start (su_range q)" "range_end (last ns) = range_end (su_range q)"
    using ne b by (auto simp: range_new_Ok)
qed

section \<open>Storing\<close>

lemma fit_columns_Ok: "fit_columns vs = (Ok u :: (_, 'pe store_error) result) \<longleftrightarrow> (\<forall>(v, f) \<in> set vs. unat v < 2 ^ 63)"
  by (induction vs rule: fit_columns.induct) (auto simp: u64_i64_def)

lemma insert_subscription_Ok:
  assumes "insert_subscription q revision mark sp = (Ok t :: (_, 'pe store_error) result)" "ordered (sp_subscriptions sp)"
  shows "ordered t" "\<And>k. k \<noteq> su_id q \<Longrightarrow> map_of t k = map_of (sp_subscriptions sp) k"
    "t = sp_subscriptions sp \<or> map_of (sp_subscriptions sp) (su_id q) = None
       \<and> map_of t (su_id q) = Some (new_subscription_row q revision mark)"
  using assms by (auto simp: insert_subscription_def list_ex_iff map_of_eq_None_iff split: if_splits)

lemma store_subscription_Ok:
  assumes "store_subscription q ranges preexisting job row identity mark sp = (Ok sp' :: (_, 'pe store_error) result)"
  obtains revision t r where
    "new_revision q sp = (Ok revision :: (_, 'pe store_error) result)"
    "fit_columns (subscription_columns q revision) = (Ok () :: (_, 'pe store_error) result)"
    "insert_subscription q revision mark sp = (Ok t :: (_, 'pe store_error) result)"
    "find (\<lambda>(_, r). sb_instance r = su_instance q \<and> sb_key r = su_key q) t = Some (su_id q, r)"
    "same_subscription q (su_id q, r)"
    "map (\<lambda>g. (sg_from g, sg_to g)) (insert_ordinals (sb_ranges r) (map queued_range ranges)) = map range_bounds ranges"
    "insert_ordinals (sb_preexisting r) (map range_bounds preexisting) = map range_bounds preexisting"
    "sp' = sp\<lparr>sp_subscriptions := tput (su_id q) (r\<lparr>sb_ranges := insert_ordinals (sb_ranges r) (map queued_range ranges),
         sb_preexisting := map range_bounds preexisting\<rparr>) t,
       sp_owners := own_ranges q ranges (sp_owners sp),
       sp_jobs := if map_of (sp_jobs sp) job = None then tput job row (sp_jobs sp) else sp_jobs sp,
       sp_identities := if map_of (sp_identities sp) job = None then tput job identity (sp_identities sp) else sp_identities sp\<rparr>"
    "map_option (\<lambda>j. (jb_kind j, jb_payload j)) (map_of (sp_jobs sp') job) = Some (jb_kind row, jb_payload row)"
    "map_of (sp_identities sp') job = Some identity"
proof -
  define jobs where "jobs = (if map_of (sp_jobs sp) job = None then tput job row (sp_jobs sp) else sp_jobs sp)"
  define ids where "ids = (if map_of (sp_identities sp) job = None then tput job identity (sp_identities sp) else sp_identities sp)"
  define gs where "gs r = insert_ordinals (sb_ranges r) (map queued_range ranges)" for r :: subscription_row
  define ps where "ps r = insert_ordinals (sb_preexisting r) (map range_bounds preexisting)" for r :: subscription_row
  note shape = assms [unfolded store_subscription_def Let_def, folded jobs_def ids_def gs_def ps_def, unfolded and_then_Ok]
  from shape obtain revision t where v: "new_revision q sp = (Ok revision :: (_, 'pe store_error) result)"
    and f: "fit_columns (subscription_columns q revision) = (Ok () :: (_, 'pe store_error) result)"
    and t: "insert_subscription q revision mark sp = (Ok t :: (_, 'pe store_error) result)"
    and rest: "(case find (\<lambda>(_, r). sb_instance r = su_instance q \<and> sb_key r = su_key q) t of
       None \<Rightarrow> Err (StoreInvalidConfig ''backfill idempotency key is already used by another subscription'')
     | Some (k, r) \<Rightarrow>
         if \<not> same_subscription q (k, r)
         then Err (StoreInvalidConfig ''backfill idempotency key is already used by another subscription'')
         else
           and_then (fit_columns (concat (map (\<lambda>g. [(range_start g, ''subscription range start''),
             (range_end g, ''subscription range end'')]) ranges))) (\<lambda>_.
           (if map (\<lambda>g. (sg_from g, sg_to g)) (gs r) \<noteq> map range_bounds ranges
            then Err (StoreInvalidConfig ''backfill idempotency key is already used by another range set'')
            else
              and_then (fit_columns (concat (map (\<lambda>g. [(range_start g, ''preexisting range start''),
                (range_end g, ''preexisting range end'')]) preexisting))) (\<lambda>_.
              (if ps r \<noteq> map range_bounds preexisting
               then Err (StoreInvalidConfig
                 ''backfill idempotency key is already used by another preexisting coverage snapshot'')
               else
                 (if map_option (\<lambda>j. (jb_kind j, jb_payload j)) (map_of jobs job) \<noteq> Some (jb_kind row, jb_payload row)
                  then Err (StoreInvalidConfig ''backfill job identity conflicts with an existing job'')
                  else if map_of ids job \<noteq> Some identity
                  then Err (StoreInvalidConfig ''backfill idempotency key is already used by another unresolved request'')
                  else Ok (sp\<lparr>sp_subscriptions := tput k (r\<lparr>sb_ranges := gs r, sb_preexisting := ps r\<rparr>) t,
                    sp_owners := own_ranges q ranges (sp_owners sp), sp_jobs := jobs, sp_identities := ids\<rparr>)))))))
      = (Ok sp' :: (_, 'pe store_error) result)"
    by auto
  from rest obtain k r where k: "find (\<lambda>(_, r). sb_instance r = su_instance q \<and> sb_key r = su_key q) t = Some (k, r)"
    and same: "same_subscription q (k, r)" and g: "map (\<lambda>g. (sg_from g, sg_to g)) (gs r) = map range_bounds ranges"
    and p: "ps r = map range_bounds preexisting"
    and j: "map_option (\<lambda>j. (jb_kind j, jb_payload j)) (map_of jobs job) = Some (jb_kind row, jb_payload row)"
    and i: "map_of ids job = Some identity"
    and sp': "sp' = sp\<lparr>sp_subscriptions := tput k (r\<lparr>sb_ranges := gs r, sb_preexisting := ps r\<rparr>) t,
        sp_owners := own_ranges q ranges (sp_owners sp), sp_jobs := jobs, sp_identities := ids\<rparr>"
    by (auto simp del: map_option_eq_Some split: option.splits if_splits)
  have "k = su_id q" using same by (simp add: same_subscription_def)
  then show thesis
    using that [OF v f t] k same g p sp' j i unfolding gs_def ps_def jobs_def ids_def by simp
qed

lemma create_Ok:
  assumes "create_backfill_subscription_job q job row identity sp = (Ok (j, sp') :: (_, 'pe store_error) result)"
  obtains ranges preexisting where
    "normalized_subscription_ranges q = (Ok ranges :: (_, 'pe store_error) result)"
    "normalize_ranges (su_preexisting q) = Ok preexisting"
    "list_all (\<lambda>c. list_ex (\<lambda>g. range_start g \<le> range_start c \<and> range_end g \<ge> range_end c) ranges) preexisting"
    "subscription_valid q job ranges" "su_state q = WaitingForConsumer \<or> su_state q = SubQueued" "jb_state row = JobQueued"
    "map_option sr_instance (map_of (delivery_streams (sp_delivery sp)) (su_stream q)) = Some (su_instance q)"
    "map_option cr_role (map_of (durable_consumers (sp_delivery sp)) (su_stream q, su_consumer q)) = Some RoleRequired"
    "job_identity sp job = Some (jb_kind row, identity) \<and> sp' = sp \<and> map_of (sp_jobs sp) job = Some j
     \<or> job_identity sp job = None \<and> map_of (sp_jobs sp') job = Some j
       \<and> store_subscription q ranges preexisting job row identity
           (last_sequence (stream_rows (sp_delivery sp) (live_stream (su_instance q)))) sp
           = (Ok sp' :: (_, 'pe store_error) result)"
proof -
  from assms obtain ranges preexisting where
    r: "normalized_subscription_ranges q = (Ok ranges :: (_, 'pe store_error) result)"
    and p: "normalize_ranges (su_preexisting q) = Ok preexisting"
    and g: "\<not> list_ex (\<lambda>c. \<not> list_ex (\<lambda>g. range_start g \<le> range_start c \<and> range_end g \<ge> range_end c) ranges) preexisting"
      "subscription_valid q job ranges" "su_state q = WaitingForConsumer \<or> su_state q = SubQueued" "jb_state row = JobQueued"
      "map_option sr_instance (map_of (delivery_streams (sp_delivery sp)) (su_stream q)) = Some (su_instance q)"
      "map_option cr_role (map_of (durable_consumers (sp_delivery sp)) (su_stream q, su_consumer q)) = Some RoleRequired"
    and rest: "(case job_identity sp job of
         Some (kind, stored) \<Rightarrow>
           if kind \<noteq> jb_kind row \<or> stored \<noteq> identity
           then Err (StoreInvalidConfig ''backfill idempotency key is already used by another unresolved request'')
           else and_then (ok_or (map_of (sp_jobs sp) job) (StoreInvariant ''idempotent backfill job disappeared''))
             (\<lambda>j. Ok (j, sp))
       | None \<Rightarrow>
           and_then (store_subscription q ranges preexisting job row identity
             (last_sequence (stream_rows (sp_delivery sp) (live_stream (su_instance q)))) sp) (\<lambda>sp'.
           and_then (ok_or (map_of (sp_jobs sp') job) (StoreInvariant ''created backfill job disappeared''))
             (\<lambda>j. Ok (j, sp')))) = (Ok (j, sp') :: (_, 'pe store_error) result)"
    unfolding create_backfill_subscription_job_def and_then_Ok config_range_Ok if_Err_eq_Ok by blast
  have "list_all (\<lambda>c. list_ex (\<lambda>g. range_start g \<le> range_start c \<and> range_end g \<ge> range_end c) ranges) preexisting"
    using g(1) by (simp add: list_all_iff list_ex_iff)
  moreover have "job_identity sp job = Some (jb_kind row, identity) \<and> sp' = sp \<and> map_of (sp_jobs sp) job = Some j
     \<or> job_identity sp job = None \<and> map_of (sp_jobs sp') job = Some j
       \<and> store_subscription q ranges preexisting job row identity
           (last_sequence (stream_rows (sp_delivery sp) (live_stream (su_instance q)))) sp
           = (Ok sp' :: (_, 'pe store_error) result)"
    using rest by (cases "job_identity sp job") (auto split: if_splits)
  ultimately show thesis using that r p g(2-) by blast
qed

text \<open>What is stored: the requested ranges, what was covered, the job and its identity.\<close>

lemma contained_blocks:
  assumes "list_all (\<lambda>c. list_ex (\<lambda>g. range_start g \<le> range_start c \<and> range_end g \<ge> range_end c) ranges) preexisting"
  shows "blocks_of preexisting \<subseteq> blocks_of ranges"
proof
  fix b assume "b \<in> blocks_of preexisting"
  then obtain c where c: "c \<in> set preexisting" "range_start c \<le> b" "b \<le> range_end c"
    by (auto simp: blocks_of_def range_blocks_def)
  then obtain g where "g \<in> set ranges" "range_start g \<le> range_start c" "range_end g \<ge> range_end c"
    using assms by (auto simp: list_all_iff list_ex_iff)
  moreover have "range_start g \<le> b" "b \<le> range_end g" using calculation(2,3) c(2,3) by (auto intro: order_trans)
  ultimately show "b \<in> blocks_of ranges" by (auto simp: blocks_of_def range_blocks_def)
qed

lemma stored_subscription:
  assumes run: "store_subscription q ranges preexisting job row identity mark sp = (Ok sp' :: (_, 'pe store_error) result)"
    and ok: "ordered (sp_subscriptions sp)"
    and ranges: "ranges_normal ranges" "ranges \<noteq> []" "range_start (hd ranges) = range_start (su_range q)"
      "range_end (last ranges) = range_end (su_range q)"
    and pre: "ranges_normal preexisting" "blocks_of preexisting \<subseteq> blocks_of ranges"
  obtains r where "map_of (sp_subscriptions sp') (su_id q) = Some r" "row_requested r = ranges" "row_covered r = preexisting"
    "same_subscription q (su_id q, r)" "subscriptions_kept (sp_subscriptions sp) (sp_subscriptions sp')"
    "sp_delivery sp' = sp_delivery sp" "job_identity sp' job = Some (jb_kind row, identity)"
    "\<And>k. k \<noteq> su_id q \<Longrightarrow> map_of (sp_subscriptions sp') k = map_of (sp_subscriptions sp) k"
    "ordered (sp_subscriptions sp')"
    "map_of (sp_subscriptions sp) (su_id q) = None \<Longrightarrow>
      \<exists>revision. new_revision q sp = (Ok revision :: (_, 'pe store_error) result)
        \<and> r = (new_subscription_row q revision mark)\<lparr>sb_ranges := map queued_range ranges,
            sb_preexisting := map range_bounds preexisting\<rparr>"
proof (rule store_subscription_Ok [OF run])
  fix revision t and r :: subscription_row
  let ?gs = "insert_ordinals (sb_ranges r) (map queued_range ranges)"
  let ?r = "r\<lparr>sb_ranges := ?gs, sb_preexisting := map range_bounds preexisting\<rparr>"
  assume v: "new_revision q sp = (Ok revision :: (_, 'pe store_error) result)"
    and f: "fit_columns (subscription_columns q revision) = (Ok () :: (_, 'pe store_error) result)"
    and t: "insert_subscription q revision mark sp = (Ok t :: (_, 'pe store_error) result)"
    and found: "find (\<lambda>(_, r). sb_instance r = su_instance q \<and> sb_key r = su_key q) t = Some (su_id q, r)"
    and same: "same_subscription q (su_id q, r)"
    and g: "map (\<lambda>g. (sg_from g, sg_to g)) ?gs = map range_bounds ranges"
    and p: "insert_ordinals (sb_preexisting r) (map range_bounds preexisting) = map range_bounds preexisting"
    and sp': "sp' = sp\<lparr>sp_subscriptions := tput (su_id q) ?r t,
       sp_owners := own_ranges q ranges (sp_owners sp),
       sp_jobs := if map_of (sp_jobs sp) job = None then tput job row (sp_jobs sp) else sp_jobs sp,
       sp_identities := if map_of (sp_identities sp) job = None then tput job identity (sp_identities sp) else sp_identities sp\<rparr>"
    and j: "map_option (\<lambda>j. (jb_kind j, jb_payload j)) (map_of (sp_jobs sp') job) = Some (jb_kind row, jb_payload row)"
    and i: "map_of (sp_identities sp') job = Some identity"
  note t = insert_subscription_Ok [OF t ok]
  have r: "map_of t (su_id q) = Some r"
    using found ordered_distinct [OF t(1)] by (auto simp: find_Some_iff intro!: map_of_is_SomeI) (metis nth_mem)
  have req: "row_requested ?r = ranges"
    using arg_cong [OF g, of "map (\<lambda>(s, e). \<lparr>range_start = s, range_end = e\<rparr>)"]
    by (simp add: row_requested_def o_def case_prod_unfold range_bounds_def)
  have cov: "row_covered ?r = preexisting"
    by (simp add: row_covered_def o_def range_bounds_inverse)
  have "prefix (sb_preexisting r) (map range_bounds preexisting)"
    using p unfolding insert_ordinals_def by (rule prefixI [OF sym])
  then have "prefix (row_covered r) (row_covered ?r)" by (simp add: row_covered_def map_mono_prefix del: map_map)
  moreover have "prefix (row_requested r) (row_requested ?r)" by (simp add: row_requested_def insert_ordinals_def)
  ultimately have prefixes: "prefix (row_requested r) (row_requested ?r)" "prefix (row_covered r) (row_covered ?r)" by blast+
  have bounds: "sb_from r = range_start (su_range q)" "sb_to r = range_end (su_range q)" "unat (sb_to r) < 2 ^ 63"
    using same f by (auto simp: same_subscription_def fit_columns_Ok subscription_columns_def)
  have sum: "committed ?gs = committed (sb_ranges r)"
    by (simp add: committed_def insert_ordinals_def drop_map o_def queued_range_def)
  have sound: "subscription_sound ?r" if "committed (sb_ranges r) \<le> unat (sb_processed r)"
    using that sum ranges pre bounds by (simp add: subscription_sound_def req cov)
  have moves: "subscription_moves r ?r"
    using sound prefixes by (auto simp: subscription_moves_def fixed_fields_def state_moves_def subscription_sound_def)
  have delivery: "sp_delivery sp' = sp_delivery sp" by (simp add: sp')
  have same': "same_subscription q (su_id q, ?r)" using same by (simp add: same_subscription_def)
  have jid: "job_identity sp' job = Some (jb_kind row, identity)"
    using j i by (auto simp: job_identity_def)
  have stored: "map_of (sp_subscriptions sp') (su_id q) = Some ?r" using t(1) by (simp add: sp')
  have others: "map_of (sp_subscriptions sp') k = map_of (sp_subscriptions sp) k" if "k \<noteq> su_id q" for k
    using t(1,2) that by (simp add: sp')
  have ord: "ordered (sp_subscriptions sp')" using t(1) by (simp add: sp')
  show thesis
  proof (cases "map_of (sp_subscriptions sp) (su_id q)")
    case None
    then have fresh: "r = new_subscription_row q revision mark" using t(3) r by auto
    have "subscription_sound ?r" using sound by (simp add: fresh new_subscription_row_def committed_def)
    then have "subscriptions_kept (sp_subscriptions sp) (sp_subscriptions sp')"
      using t None by (auto simp: subscriptions_kept_def sp' split: if_splits)
    then show thesis
      using that [OF stored req cov same' _ delivery jid others ord] v fresh
      by (auto simp: insert_ordinals_def new_subscription_row_def)
  next
    case (Some r0)
    then have "t = sp_subscriptions sp" using t(3) by simp
    then have "subscriptions_kept (sp_subscriptions sp) (sp_subscriptions sp')"
      using subscriptions_kept_put [OF ok _ moves] r by (simp add: sp')
    then show thesis using that [OF stored req cov same' _ delivery jid others ord] Some by simp
  qed
qed

section \<open>Revisions\<close>

lemma foldr_max_above: "x \<in> set xs \<Longrightarrow> x \<le> foldr max xs (0 :: u64)"
  by (induction xs) (auto simp: le_max_iff_disj)

lemma new_revision_above:
  assumes "new_revision q sp = (Ok revision :: (_, 'pe store_error) result)" "su_mode q = Recompute"
    and "map_of (sp_subscriptions sp) k = Some r" "sb_instance r = su_instance q"
  shows "sb_revision r < revision"
proof -
  let ?m = "foldr max (map (\<lambda>(_, r). sb_revision r)
    (filter (\<lambda>(_, r). sb_instance r = su_instance q) (sp_subscriptions sp))) 0"
  have "sb_revision r \<le> ?m"
    using map_of_SomeD [OF assms(3)] assms(4) by (intro foldr_max_above) force
  moreover have "unat revision = unat ?m + 1"
    using assms(1,2) by (auto simp: new_revision_def checked_add_Some)
  ultimately show ?thesis by (simp add: word_nat)
qed

section \<open>Creating\<close>

lemma create_kept:
  assumes "create_backfill_subscription_job q job row identity sp = (Ok (j, sp') :: (_, 'pe store_error) result)"
    and "request_ok q" "ordered (sp_subscriptions sp)"
  shows "subscriptions_kept (sp_subscriptions sp) (sp_subscriptions sp')" "sp_delivery sp' = sp_delivery sp"
proof -
  have "subscriptions_kept (sp_subscriptions sp) (sp_subscriptions sp') \<and> sp_delivery sp' = sp_delivery sp"
  proof (rule create_Ok [OF assms(1)])
    fix ranges preexisting
    let ?mark = "last_sequence (stream_rows (sp_delivery sp) (live_stream (su_instance q)))"
    assume n: "normalized_subscription_ranges q = (Ok ranges :: (_, 'pe store_error) result)"
      and p: "normalize_ranges (su_preexisting q) = Ok preexisting"
      and c: "list_all (\<lambda>c. list_ex (\<lambda>g. range_start g \<le> range_start c \<and> range_end g \<ge> range_end c) ranges) preexisting"
      and r: "job_identity sp job = Some (jb_kind row, identity) \<and> sp' = sp \<and> map_of (sp_jobs sp) job = Some j
     \<or> job_identity sp job = None \<and> map_of (sp_jobs sp') job = Some j
       \<and> store_subscription q ranges preexisting job row identity ?mark sp = (Ok sp' :: (_, 'pe store_error) result)"
    note ns = normalized_subscription_Ok [OF n assms(2)]
    have ps: "ranges_normal preexisting" using normalize_Ok(1) [OF _ p] assms(2) by (simp add: request_ok_def)
    show ?thesis
    proof (cases "sp' = sp")
      case True
      then show ?thesis using assms(3) by (simp add: subscriptions_kept_refl)
    next
      case False
      then have "store_subscription q ranges preexisting job row identity ?mark sp = (Ok sp' :: (_, 'pe store_error) result)"
        using r by blast
      from stored_subscription [OF this assms(3) ns(1,3-5) ps contained_blocks [OF c]] show ?thesis by metis
    qed
  qed
  then show "subscriptions_kept (sp_subscriptions sp) (sp_subscriptions sp')" "sp_delivery sp' = sp_delivery sp" by blast+
qed

text \<open>The stored subscription of a request that is not known yet.\<close>

lemma create_stores:
  assumes run: "create_backfill_subscription_job q job row identity sp = (Ok (j, sp') :: (_, 'pe store_error) result)"
    and q: "request_ok q" and ok: "ordered (sp_subscriptions sp)" and new: "job_identity sp job = None"
  obtains r where "map_of (sp_subscriptions sp') (su_id q) = Some r" "same_subscription q (su_id q, r)"
    "ranges_normal (row_requested r)" "blocks_of (row_requested r) = asked_blocks q"
    "ranges_normal (row_covered r)" "blocks_of (row_covered r) = blocks_of (su_preexisting q)"
    "blocks_of (row_covered r) \<subseteq> blocks_of (row_requested r)"
    "map_of (sp_jobs sp') job = Some j" "job_identity sp' job = Some (jb_kind row, identity)"
    "map_of (sp_subscriptions sp) (su_id q) = None \<Longrightarrow>
      sb_state r = su_state q \<and> (sb_mode r = Recompute \<longrightarrow> (\<forall>k r0. map_of (sp_subscriptions sp) k = Some r0 \<longrightarrow>
        sb_instance r0 = su_instance q \<longrightarrow> sb_revision r0 < sb_revision r))"
proof (rule create_Ok [OF run])
  fix ranges preexisting
  let ?mark = "last_sequence (stream_rows (sp_delivery sp) (live_stream (su_instance q)))"
  assume n: "normalized_subscription_ranges q = (Ok ranges :: (_, 'pe store_error) result)"
    and p: "normalize_ranges (su_preexisting q) = Ok preexisting"
    and c: "list_all (\<lambda>c. list_ex (\<lambda>g. range_start g \<le> range_start c \<and> range_end g \<ge> range_end c) ranges) preexisting"
    and r: "job_identity sp job = Some (jb_kind row, identity) \<and> sp' = sp \<and> map_of (sp_jobs sp) job = Some j
     \<or> job_identity sp job = None \<and> map_of (sp_jobs sp') job = Some j
       \<and> store_subscription q ranges preexisting job row identity ?mark sp = (Ok sp' :: (_, 'pe store_error) result)"
  note ns = normalized_subscription_Ok [OF n q]
  note ps = normalize_Ok [OF _ p]
  have ps: "ranges_normal preexisting" "blocks_of preexisting = blocks_of (su_preexisting q)"
    using ps q by (simp_all add: request_ok_def)
  from r new have s: "store_subscription q ranges preexisting job row identity ?mark sp = (Ok sp' :: (_, 'pe store_error) result)"
    and j: "map_of (sp_jobs sp') job = Some j" by auto
  show thesis
  proof (rule stored_subscription [OF s ok ns(1,3-5) ps(1) contained_blocks [OF c]])
    fix r
    assume row: "map_of (sp_subscriptions sp') (su_id q) = Some r" "row_requested r = ranges" "row_covered r = preexisting"
      "same_subscription q (su_id q, r)"
      and jid: "job_identity sp' job = Some (jb_kind row, identity)"
      and fresh: "map_of (sp_subscriptions sp) (su_id q) = None \<Longrightarrow>
      \<exists>revision. new_revision q sp = (Ok revision :: (_, 'pe store_error) result)
        \<and> r = (new_subscription_row q revision ?mark)\<lparr>sb_ranges := map queued_range ranges,
            sb_preexisting := map range_bounds preexisting\<rparr>"
    have "sb_state r = su_state q \<and> (sb_mode r = Recompute \<longrightarrow> (\<forall>k r0. map_of (sp_subscriptions sp) k = Some r0 \<longrightarrow>
        sb_instance r0 = su_instance q \<longrightarrow> sb_revision r0 < sb_revision r))"
      if none: "map_of (sp_subscriptions sp) (su_id q) = None"
    proof -
      obtain revision where v: "new_revision q sp = (Ok revision :: (_, 'pe store_error) result)"
        and r: "r = (new_subscription_row q revision ?mark)\<lparr>sb_ranges := map queued_range ranges,
            sb_preexisting := map range_bounds preexisting\<rparr>" using fresh [OF none] by blast
      have "sb_revision r0 < revision" if "map_of (sp_subscriptions sp) k = Some r0" "sb_instance r0 = su_instance q"
        "su_mode q = Recompute" for k r0
        using new_revision_above [OF v that(3) that(1,2)] .
      then show ?thesis by (auto simp: r new_subscription_row_def)
    qed
    then show thesis
      using that [OF row(1,4)] row(2,3) ns(1,2) ps contained_blocks [OF c] j jid by simp
  qed
qed

text \<open>A repeated request finds the job and changes nothing.\<close>

lemma create_repeated:
  assumes run: "create_backfill_subscription_job q job row identity sp = (Ok (j, sp') :: (_, 'pe store_error) result)"
    and q: "request_ok q" and ok: "ordered (sp_subscriptions sp)"
  shows "create_backfill_subscription_job q job row identity sp' = (Ok (j, sp') :: (_, 'pe store_error) result)"
proof (rule create_Ok [OF run])
  fix ranges preexisting
  assume a: "normalized_subscription_ranges q = (Ok ranges :: (_, 'pe store_error) result)"
    "normalize_ranges (su_preexisting q) = Ok preexisting"
    "list_all (\<lambda>c. list_ex (\<lambda>g. range_start g \<le> range_start c \<and> range_end g \<ge> range_end c) ranges) preexisting"
    "subscription_valid q job ranges" "su_state q = WaitingForConsumer \<or> su_state q = SubQueued" "jb_state row = JobQueued"
    "map_option sr_instance (map_of (delivery_streams (sp_delivery sp)) (su_stream q)) = Some (su_instance q)"
    "map_option cr_role (map_of (durable_consumers (sp_delivery sp)) (su_stream q, su_consumer q)) = Some RoleRequired"
  have d: "sp_delivery sp' = sp_delivery sp" by (rule create_kept(2) [OF run q ok])
  have "job_identity sp' job = Some (jb_kind row, identity) \<and> map_of (sp_jobs sp') job = Some j"
  proof (cases "job_identity sp job")
    case None
    then show ?thesis using create_stores [OF run q ok] by metis
  next
    case (Some e)
    then show ?thesis using create_Ok [OF run] by (metis option.distinct(1))
  qed
  moreover have "\<not> list_ex (\<lambda>c. \<not> list_ex (\<lambda>g. range_start g \<le> range_start c \<and> range_end g \<ge> range_end c) ranges) preexisting"
    using a(3) by (simp add: list_all_iff list_ex_iff)
  ultimately show ?thesis
    unfolding create_backfill_subscription_job_def and_then_Ok config_range_Ok if_Err_eq_Ok d
    using a by (simp add: ok_or_def)
qed

section \<open>Reading back\<close>

lemma find_unique:
  assumes "(k, r) \<in> set t" "P (k, r)" "\<And>k' r'. (k', r') \<in> set t \<Longrightarrow> P (k', r') \<Longrightarrow> (k', r') = (k, r)"
  shows "find P t = Some (k, r)"
proof (cases "find P t")
  case None
  then show ?thesis using assms(1,2) by (auto simp: find_None_iff)
next
  case (Some e)
  obtain k' r' where e: "e = (k', r')" by (cases e)
  have "(k', r') \<in> set t" "P (k', r')" using Some by (auto simp: e find_Some_iff)
  then show ?thesis using assms(3) Some e by blast
qed

lemma widened: "(ucast (x :: u32) :: u64) < 2 ^ 32" "ucast (ucast (x :: u32) :: u64) = x"
  by (transfer; simp add: take_bit_eq_mod)+

lemma stored_range_bounds [simp]: "range_ok g \<Longrightarrow> stored_range (range_bounds g) = (Ok g :: (_, 'pe store_error) result)"
  by (simp add: stored_range_def range_bounds_def invariant_range_def range_new_def range_ok_def)

lemma create_reads_back:
  assumes run: "create_backfill_subscription_job q job row identity sp = (Ok (j, sp') :: (_, 'pe store_error) result)"
    and q: "request_ok q" and ok: "ordered (sp_subscriptions sp)" and new: "job_identity sp job = None"
    and fresh: "\<And>k r. map_of (sp_subscriptions sp) k = Some r \<Longrightarrow> k \<noteq> su_id q \<and> sb_job r \<noteq> job"
  obtains ns ps revision where "normalized_subscription_ranges q = (Ok ns :: (_, 'pe store_error) result)"
    "normalize_ranges (su_preexisting q) = Ok ps"
    "backfill_subscription_for_job job sp'
      = (Ok (Some (q\<lparr>su_ranges := ns, su_preexisting := ps, su_revision := revision\<rparr>)) :: (_, 'pe store_error) result)"
    "backfill_subscription_range_progress job sp' = (Ok (Some (map (\<lambda>g. (g, 0)) ns)) :: (_, 'pe store_error) result)"
proof (rule create_Ok [OF run])
  fix ranges preexisting
  let ?mark = "last_sequence (stream_rows (sp_delivery sp) (live_stream (su_instance q)))"
  assume n: "normalized_subscription_ranges q = (Ok ranges :: (_, 'pe store_error) result)"
    and p: "normalize_ranges (su_preexisting q) = Ok preexisting"
    and c: "list_all (\<lambda>c. list_ex (\<lambda>g. range_start g \<le> range_start c \<and> range_end g \<ge> range_end c) ranges) preexisting"
    and valid: "subscription_valid q job ranges"
    and r: "job_identity sp job = Some (jb_kind row, identity) \<and> sp' = sp \<and> map_of (sp_jobs sp) job = Some j
     \<or> job_identity sp job = None \<and> map_of (sp_jobs sp') job = Some j
       \<and> store_subscription q ranges preexisting job row identity ?mark sp = (Ok sp' :: (_, 'pe store_error) result)"
  note ns = normalized_subscription_Ok [OF n q]
  have ps: "ranges_normal preexisting" using normalize_Ok(1) [OF _ p] q by (simp add: request_ok_def)
  from r new have s: "store_subscription q ranges preexisting job row identity ?mark sp = (Ok sp' :: (_, 'pe store_error) result)"
    by auto
  have job: "su_job q = job" using valid by (simp add: subscription_valid_def)
  show thesis
  proof (rule stored_subscription [OF s ok ns(1,3-5) ps contained_blocks [OF c]])
    fix r
    assume row: "map_of (sp_subscriptions sp') (su_id q) = Some r"
      and others: "\<And>k. k \<noteq> su_id q \<Longrightarrow> map_of (sp_subscriptions sp') k = map_of (sp_subscriptions sp) k"
      and ord: "ordered (sp_subscriptions sp')"
      and fresh': "map_of (sp_subscriptions sp) (su_id q) = None \<Longrightarrow>
      \<exists>revision. new_revision q sp = (Ok revision :: (_, 'pe store_error) result)
        \<and> r = (new_subscription_row q revision ?mark)\<lparr>sb_ranges := map queued_range ranges,
            sb_preexisting := map range_bounds preexisting\<rparr>"
    have "map_of (sp_subscriptions sp) (su_id q) = None" using fresh by (cases "map_of (sp_subscriptions sp) (su_id q)") auto
    then obtain revision where r: "r = (new_subscription_row q revision ?mark)\<lparr>sb_ranges := map queued_range ranges,
            sb_preexisting := map range_bounds preexisting\<rparr>" using fresh' by blast
    have found: "find (\<lambda>(_, r). sb_job r = job) (sp_subscriptions sp') = Some (su_id q, r)"
    proof (rule find_unique)
      show "(su_id q, r) \<in> set (sp_subscriptions sp')" by (rule map_of_SomeD [OF row])
      show "case (su_id q, r) of (_, r) \<Rightarrow> sb_job r = job" using job by (simp add: r new_subscription_row_def)
      fix k' r' assume m: "(k', r') \<in> set (sp_subscriptions sp')" and "case (k', r') of (_, r) \<Rightarrow> sb_job r = job"
      then have "map_of (sp_subscriptions sp') k' = Some r'" "sb_job r' = job"
        using ordered_distinct [OF ord] by simp_all
      then show "(k', r') = (su_id q, r)" using others [of k'] fresh [of k' r'] row by (cases "k' = su_id q") auto
    qed
    have ok: "list_all range_ok ranges" "list_all range_ok preexisting"
      using ns(1) ps by (simp_all add: ranges_normal_def list_all_iff)
    have range: "invariant_range (range_start (su_range q)) (range_end (su_range q)) = (Ok (su_range q) :: (_, 'pe store_error) result)"
      using q by (simp add: request_ok_def invariant_range_def range_new_def range_ok_def)
    have ratio: "su_resume_ratio q < 1000000" using valid by (simp add: subscription_valid_def)
    have small: "(ucast (su_resume_ratio q) :: u64) < 2 ^ 32"
      by (rule widened(1))
    have collect1: "collect_ok (map (\<lambda>g. stored_range (sg_from g, sg_to g)) (map queued_range ranges))
        = (Ok ranges :: (_, 'pe store_error) result)"
      using ok(1) by (simp add: collect_ok_Ok queued_range_def list_all_iff flip: range_bounds_def)
    have collect2: "collect_ok (map stored_range (map range_bounds preexisting)) = (Ok preexisting :: (_, 'pe store_error) result)"
      using ok(2) by (simp add: collect_ok_Ok list_all_iff)
    have collect3: "collect_ok (map (\<lambda>g. and_then (stored_range (sg_from g, sg_to g)) (\<lambda>b. Ok (b, sg_committed g)))
        (map queued_range ranges)) = (Ok (map (\<lambda>g. (g, 0)) ranges) :: (_, 'pe store_error) result)"
      using ok(1) by (simp add: collect_ok_Ok queued_range_def list_all_iff flip: range_bounds_def)
    have "backfill_subscription_for_job job sp'
      = (Ok (Some (q\<lparr>su_ranges := ranges, su_preexisting := preexisting, su_revision := revision\<rparr>)) :: (_, 'pe store_error) result)"
      unfolding backfill_subscription_for_job_def found
      using collect1 collect2 range small ns(3)
      by (simp add: r decode_backfill_subscription_def new_subscription_row_def o_def option.map_comp option.map_ident
        widened(2))
    moreover have "backfill_subscription_range_progress job sp' = (Ok (Some (map (\<lambda>g. (g, 0)) ranges)) :: (_, 'pe store_error) result)"
      unfolding backfill_subscription_range_progress_def found using collect3 by (simp add: r)
    ultimately show thesis using that n p by blast
  qed
qed

section \<open>Counts are numbers of blocks\<close>

text \<open>The accounts of a completion of a sound subscription count the blocks themselves.\<close>

lemma blocks_below:
  assumes "ranges_normal rs" "blocks_of rs \<subseteq> {..m}"
  shows "card (blocks_of rs) \<le> unat (m :: u64) + 1"
proof -
  have "card (blocks_of rs) \<le> card {..m}" using assms(2) by (intro card_mono) simp_all
  also have "{..m} = range_blocks \<lparr>range_start = 0, range_end = m\<rparr>" by (auto simp: range_blocks_def)
  finally show ?thesis using unat_card_blocks [of "\<lparr>range_start = 0, range_end = m\<rparr>"] by (simp add: range_ok_def)
qed

lemma sound_blocks_below:
  assumes "subscription_sound r"
  shows "blocks_of (row_requested r) \<subseteq> {..sb_to r}"
proof
  fix b assume "b \<in> blocks_of (row_requested r)"
  then obtain g where g: "g \<in> set (row_requested r)" "b \<le> range_end g" by (auto simp: blocks_of_def range_blocks_def)
  have normal: "ranges_normal (row_requested r)" "row_requested r \<noteq> []" and last: "range_end (last (row_requested r)) = sb_to r"
    using assms by (simp_all add: subscription_sound_def)
  have "g = last (row_requested r) \<or> gaps_apart g (last (row_requested r))"
    using normal g(1) by (cases "row_requested r" rule: rev_cases) (auto simp: ranges_normal_snoc)
  moreover have "range_ok (last (row_requested r))" using normal by (auto simp: ranges_normal_def)
  ultimately have "range_end g \<le> sb_to r" using last by (auto simp: gaps_apart_def range_ok_def word_nat)
  then show "b \<in> {..sb_to r}" using g(2) by simp
qed

lemma requested_blocks_card:
  assumes "subscription_sound r" "requested_blocks r = (Ok n :: (_, 'pe store_error) result)"
  shows "n = int (card (blocks_of (row_requested r)))" "n < 2 ^ 63"
proof -
  have ne: "sb_ranges r \<noteq> []" and normal: "ranges_normal (row_requested r)"
    using assms(1) by (auto simp: subscription_sound_def row_requested_def)
  have ok: "range_ok g" if "g \<in> set (row_requested r)" for g using normal that by (simp add: ranges_normal_def)
  let ?len = "\<lambda>g. uint (sg_to g) - uint (sg_from g) + 1"
  have "?len g = int (card (range_blocks \<lparr>range_start = sg_from g, range_end = sg_to g\<rparr>))" if "g \<in> set (sb_ranges r)" for g
  proof -
    have g: "range_ok \<lparr>range_start = sg_from g, range_end = sg_to g\<rparr>" using that by (intro ok) (auto simp: row_requested_def)
    then have "unat (sg_from g) \<le> unat (sg_to g)" by (simp add: range_ok_def word_le_nat_alt)
    moreover have "card (range_blocks \<lparr>range_start = sg_from g, range_end = sg_to g\<rparr>) = unat (sg_to g) - unat (sg_from g) + 1"
      using unat_card_blocks [OF g] by simp
    ultimately show ?thesis by (simp only: uint_nat of_nat_add of_nat_diff of_nat_1)
  qed
  then have "sum_list (map ?len (sb_ranges r)) = sum_list (map (\<lambda>g. int (card (range_blocks g))) (row_requested r))"
    by (simp add: row_requested_def o_def cong: map_cong)
  also have "\<dots> = int (card (blocks_of (row_requested r)))"
    by (simp add: normal_card [OF normal] int_sum_list)
  finally have sum: "sum_list (map ?len (sb_ranges r)) = int (card (blocks_of (row_requested r)))" .
  from assms(2) show "n = int (card (blocks_of (row_requested r)))" "n < 2 ^ 63"
    using ne sum by (auto simp: requested_blocks_def sql_sum_def split: if_splits)
qed

lemma completion_counts_blocks:
  assumes sound: "subscription_sound r"
    and r: "map_of (sp_subscriptions sp) subscription = Some r"
    and m: "backfill_completion_metadata sp stream subscription = (Ok m :: (_, 'pe store_error) result)"
  shows "unat (cm_requested m) = card (blocks_of (row_requested r))"
    and "unat (cm_covered m) = (if sb_mode r = Recompute then card (blocks_of (row_requested r)) else card (blocks_of (row_covered r)))"
    and "sb_mode r = FillMissing \<Longrightarrow> unat (cm_newly_processed m) = card (blocks_of (row_requested r) - blocks_of (row_covered r))"
    and "sb_mode r = Recompute \<Longrightarrow> unat (cm_republished m) = card (blocks_of (row_requested r))"
    and "card (blocks_of (row_requested r) - (if sb_mode r = Recompute then {} else blocks_of (row_covered r))) \<le> unat (sb_processed r)"
proof -
  obtain r0 where r0: "map_of (sp_subscriptions sp) subscription = Some r0"
    "map (\<lambda>g. (range_start g, range_end g)) (cm_ranges m) = sb_preexisting r0"
    "\<exists>blocks. requested_blocks r0 = (Ok blocks :: (_, 'pe store_error) result) \<and> 0 \<le> blocks \<and> cm_requested m = of_int blocks"
    "case sb_mode r0 of
       FillMissing \<Rightarrow> unat (cm_covered m) + min (unat (sb_processed r0)) (unat (cm_requested m)) = unat (cm_requested m)
         \<and> cm_newly_processed m = min (sb_processed r0) (cm_requested m)
     | Recompute \<Rightarrow> cm_covered m = cm_requested m \<and> cm_requested m \<le> sb_processed r0 \<and> cm_newly_processed m = 0
         \<and> cm_republished m = cm_requested m"
    and ok: "metadata_ok m"
    by (rule completion_metadata_Ok [OF m])
  have "r0 = r" using r0(1) r by simp
  note ranges = r0(2) [unfolded this] and c = r0(4) [unfolded this]
  obtain blocks where b: "requested_blocks r = (Ok blocks :: (_, 'pe store_error) result)" "0 \<le> blocks"
    "cm_requested m = of_int blocks"
    using r0(3) unfolding \<open>r0 = r\<close> by blast
  note n = requested_blocks_card [OF sound b(1)]
  show req: "unat (cm_requested m) = card (blocks_of (row_requested r))"
    using n b(3) by (simp add: unat_of_nat)
  have cov: "cm_ranges m = row_covered r"
    using arg_cong [OF ranges, of "map (\<lambda>(s, e). \<lparr>range_start = s, range_end = e\<rparr>)"]
    by (simp add: row_covered_def o_def)
  have normal: "ranges_normal (row_covered r)" and sub: "blocks_of (row_covered r) \<subseteq> blocks_of (row_requested r)"
    and small: "unat (sb_to r) < 2 ^ 63"
    using sound by (simp_all add: subscription_sound_def)
  have len: "unat (range_len g) = card (range_blocks g)" if "g \<in> set (row_covered r)" for g
  proof -
    have g: "range_ok g" using normal that by (simp add: ranges_normal_def)
    have "range_end g \<in> range_blocks g" using g by (simp add: range_blocks_def range_ok_def)
    then have "range_end g \<le> sb_to r"
      using that sub sound_blocks_below [OF sound] by (auto simp: blocks_of_def)
    then have "card (range_blocks g) \<le> 2 ^ 63"
      using unat_card_blocks [OF g] small by (simp add: word_le_nat_alt)
    then show ?thesis using range_len_card [OF g] by simp
  qed
  have "unat (cm_covered m) = sum_list (map (\<lambda>g. unat (range_len g)) (row_covered r))"
    using ok by (simp add: metadata_ok_def cov)
  also have "\<dots> = card (blocks_of (row_covered r))"
    using len by (simp add: normal_card [OF normal] cong: map_cong)
  finally have row_covered: "unat (cm_covered m) = card (blocks_of (row_covered r))" .
  have diff: "card (blocks_of (row_requested r) - blocks_of (row_covered r)) = card (blocks_of (row_requested r)) - card (blocks_of (row_covered r))"
    using sub by (intro card_Diff_subset) (simp_all add: finite_blocks)
  have mins: "unat (min (sb_processed r) (cm_requested m)) = min (unat (sb_processed r)) (unat (cm_requested m))"
    by (simp add: min_def word_le_nat_alt)
  show "unat (cm_covered m) = (if sb_mode r = Recompute then card (blocks_of (row_requested r)) else card (blocks_of (row_covered r)))"
    using c row_covered req by (cases "sb_mode r") simp_all
  show "unat (cm_newly_processed m) = card (blocks_of (row_requested r) - blocks_of (row_covered r))" if "sb_mode r = FillMissing"
    using c row_covered req that mins unfolding diff by simp linarith
  show "unat (cm_republished m) = card (blocks_of (row_requested r))" if "sb_mode r = Recompute"
    using c req that by simp
  show "card (blocks_of (row_requested r) - (if sb_mode r = Recompute then {} else blocks_of (row_covered r))) \<le> unat (sb_processed r)"
    using c row_covered req diff by (cases "sb_mode r"; simp add: word_le_nat_alt; linarith)
qed

end
