(* ===== verification/Admission_Laws.thy ===== *)
theory Admission_Laws
  imports Admission Subscription_Job_Laws
begin

text \<open>
  The laws of admission: what is admitted fits the limits of the stream, the subscription and the node,
  what is published afterwards adds exactly the admitted bytes, a refusal only stops the processor or
  resets its readers, and every operation keeps the delivery invariant and the subscriptions' lifecycle.
\<close>

section \<open>Handlers with committed writes\<close>

lemma or_stop_simps [simp]:
  "or_stop (Err e) d f = (Err e, d)"
  "or_stop (Ok a) d f = f a"
  by (simp_all add: or_stop_def)

lemma or_stop_Ok: "or_stop r d f = (Ok b, d') \<longleftrightarrow> (\<exists>a. r = Ok a \<and> f a = (Ok b, d'))"
  by (cases r) auto

lemma or_stop_snd:
  assumes "P d" "\<And>a. r = Ok a \<Longrightarrow> P (snd (f a))"
  shows "P (snd (or_stop r d f))"
  using assms by (cases r) auto

section \<open>The run state and expired readers\<close>

lemma set_run_state_next:
  assumes "delivery_ok db"
  shows "delivery_next db (set_processor_run_state i state reason db)"
proof -
  have ord: "ordered (runtime_state db)" using delivery_okD(1) [OF assms] by (simp add: delivery_ordered_def)
  have "delivery_ok (set_processor_run_state i state reason db)"
    using delivery_ok_runtime [OF assms] ord assms by (simp add: set_processor_run_state_def split: option.split)
  moreover have "delivery_kept db (set_processor_run_state i state reason db)"
    by (intro delivery_kept_same) (simp_all add: set_processor_run_state_def stream_rows_def split: option.split)
  ultimately show ?thesis by (simp add: delivery_next_def)
qed

lemma map_of_map_pairs:
  "map_of (map (\<lambda>((s, c), r). ((s, c), f s c r)) t) (s, c) = map_option (f s c) (map_of t (s, c))"
  by (induction t) auto

lemma expire_next:
  assumes "delivery_ok db"
  shows "delivery_next db (expire_required_consumers now stream db)"
proof -
  let ?db = "expire_required_consumers now stream db"
  let ?f = "\<lambda>s (c :: string) (r :: consumer_row). if s = stream \<and> cr_role r = RoleRequired \<and> cr_state r = Active
        then r\<lparr>cr_state := ResetRequired, cr_updated := now\<rparr> else r"
  have cons: "map_of (durable_consumers ?db) (s, c) = map_option (?f s c) (map_of (durable_consumers db) (s, c))" for s c
    using map_of_map_pairs [of ?f] by (simp add: expire_required_consumers_def)
  have "map fst (durable_consumers ?db) = map fst (durable_consumers db)"
    by (auto simp: expire_required_consumers_def)
  then have ord: "delivery_ordered ?db"
    using delivery_okD(1) [OF assms] by (simp add: delivery_ordered_def ordered_def) (simp add: expire_required_consumers_def)
  have rows: "stream_rows ?db st = stream_rows db st" "delivery_streams ?db = delivery_streams db" "change_log ?db = change_log db" for st
    by (simp_all add: expire_required_consumers_def stream_rows_def)
  have "\<exists>s'. map_of (delivery_streams ?db) s = Some s' \<and> consumer_ok s' r'"
    if found: "map_of (durable_consumers ?db) (s, c) = Some r'" for s c r'
  proof -
    obtain r where r: "map_of (durable_consumers db) (s, c) = Some r" "r' = ?f s c r" using found unfolding cons by blast
    then show ?thesis using delivery_okD(4) [OF assms r(1)] by (auto simp: rows consumer_ok_def)
  qed
  moreover have "stream_ok ?db st s = stream_ok db st s" for st s by (simp add: stream_ok_def rows)
  ultimately have "delivery_ok ?db"
    using ord assms unfolding delivery_ok_def rows by blast
  moreover have "delivery_kept db ?db"
    unfolding delivery_kept_def
  proof (intro conjI allI impI)
    fix st s assume "map_of (delivery_streams db) st = Some s"
    then show "\<exists>s'. map_of (delivery_streams ?db) st = Some s' \<and> stream_moves db ?db st s s'"
      using stream_moves_same rows by auto
  next
    fix k r assume "map_of (durable_consumers db) k = Some r"
    then show "\<exists>r'. map_of (durable_consumers ?db) k = Some r' \<and> consumer_moves r r'"
      by (cases k) (auto simp: cons consumer_moves_def)
  qed
  ultimately show ?thesis by (simp add: delivery_next_def)
qed

lemma refuse_next:
  assumes "delivery_ok db"
  shows "delivery_next db (refuse_delivery now desc stream scoped db)"
proof -
  let ?db1 = "if dp_on_limit (lc_delivery (pd_lifecycle desc)) = LimitExpireAndReset
    then expire_required_consumers now stream db else db"
  have n: "delivery_next db ?db1" using expire_next [OF assms] delivery_next_refl [OF assms] by simp
  then have "delivery_ok ?db1" by (simp add: delivery_next_def)
  from delivery_next_trans [OF n set_run_state_next [OF this]] n show ?thesis
    by (simp add: refuse_delivery_def Let_def)
qed

section \<open>Capacity\<close>

lemma admit_next:
  assumes ok: "delivery_ok db"
  shows "delivery_next db (snd (admit_delivery lim dbytes wbytes now desc stream scoped limits acknowledged state
      incoming blocks db :: (unit, 'pe store_error) result \<times> _))"
proof -
  let ?i = "pd_instance desc"
  note refl = delivery_next_refl [OF ok]
  note set = set_run_state_next [OF ok]
  have refuse: "delivery_next db (refuse_delivery now desc stream scoped db)" for scoped
    by (rule refuse_next [OF ok])
  have resumed: "delivery_next db (refuse_delivery now desc stream scoped (set_processor_run_state ?i RunRunning None db))"
    for scoped
  proof -
    have "delivery_ok (set_processor_run_state ?i RunRunning None db)" using set by (simp add: delivery_next_def)
    from delivery_next_trans [OF set refuse_next [OF this]] show ?thesis .
  qed
  show ?thesis
    unfolding admit_delivery_def Let_def
    by (auto simp: refl set refuse resumed intro!: or_stop_snd [where P = "delivery_next db"] split: prod.splits)
qed

lemma enforce_next:
  assumes ok: "delivery_ok (sp_delivery sp)"
  shows "delivery_next (sp_delivery sp)
    (snd (enforce_delivery_capacity lim dbytes wbytes now desc stream incoming blocks sp
      :: (unit, 'pe store_error) result \<times> _))"
  unfolding enforce_delivery_capacity_def Let_def
  by (intro or_stop_snd [where P = "delivery_next (sp_delivery sp)"] delivery_next_refl [OF ok] admit_next [OF ok])

lemma admit_Ok:
  assumes "admit_delivery lim dbytes wbytes now desc stream scoped limits acknowledged state incoming blocks db
      = (Ok () :: (unit, 'pe store_error) result, db')"
  obtains current projected retained where
    "stream_delivery_bytes db stream = (Ok current :: (_, 'pe store_error) result)"
    "state = RunPaused \<Longrightarrow> current \<le> delivery_resume_mark (admission_limit desc limits)"
    "db' = (if state = RunPaused then set_processor_run_state (pd_instance desc) RunRunning None db else db)"
    "checked_add current incoming = Some projected" "projected \<le> admission_limit desc limits"
    "node_bytes dbytes wbytes db' = (Ok retained :: (_, 'pe store_error) result)"
    "node_delivery_budget_failure lim retained incoming (if scoped then 0 else incoming) = (Ok None :: (_, 'pe store_error) result)"
    "blocks_within_limit limits acknowledged blocks" "below_resume_water limits acknowledged current"
  using assms unfolding admit_delivery_def Let_def or_stop_Ok
  by (auto simp: or_stop_Ok not_less simp del: not_None_eq split: if_splits)

lemma budget_fits:
  assumes "node_delivery_budget_failure lim retained incoming h = (Ok None :: (_, 'pe store_error) result)"
  shows "unat (nd_total_retained retained) + unat incoming \<le> unat (ds_maximum_retained (sl_delivery lim))"
    and "unat (nd_history_retained retained) + unat h \<le> unat (ds_maximum_history_retained (sl_delivery lim))"
    and "unat (nd_physical retained) + unat incoming \<le> unat (ss_maximum_physical (sl_storage lim))"
proof -
  from assms obtain t u v where "checked_add (nd_total_retained retained) incoming = Some t"
    "checked_add (nd_history_retained retained) h = Some u" "checked_add (nd_physical retained) incoming = Some v"
    and "\<not> u > ds_maximum_history_retained (sl_delivery lim)" "\<not> t > ds_maximum_retained (sl_delivery lim)"
    "\<not> v > ss_maximum_physical (sl_storage lim)"
    by (auto simp: node_delivery_budget_failure_def split: if_splits)
  then show "unat (nd_total_retained retained) + unat incoming \<le> unat (ds_maximum_retained (sl_delivery lim))"
    "unat (nd_history_retained retained) + unat h \<le> unat (ds_maximum_history_retained (sl_delivery lim))"
    "unat (nd_physical retained) + unat incoming \<le> unat (ss_maximum_physical (sl_storage lim))"
    by (simp_all add: word_nat not_less)
qed

lemma enforce_admits:
  assumes "enforce_delivery_capacity lim dbytes wbytes now desc stream incoming blocks sp
      = (Ok () :: (unit, 'pe store_error) result, db')"
  obtains s current retained limits where
    "map_of (delivery_streams (sp_delivery sp)) stream = Some s"
    "limits = (if sr_kind s \<noteq> StreamBackfill then None else map_option snd (stream_subscription sp stream))"
    "stream_delivery_bytes (sp_delivery sp) stream = (Ok current :: (_, 'pe store_error) result)"
    "unat current + unat incoming \<le> unat (admission_limit desc limits)"
    "node_bytes dbytes wbytes db' = (Ok retained :: (_, 'pe store_error) result)"
    "unat (nd_total_retained retained) + unat incoming \<le> unat (ds_maximum_retained (sl_delivery lim))"
    "sr_kind s = StreamBackfill \<Longrightarrow>
      unat (nd_history_retained retained) + unat incoming \<le> unat (ds_maximum_history_retained (sl_delivery lim))"
    "unat (nd_physical retained) + unat incoming \<le> unat (ss_maximum_physical (sl_storage lim))"
    "blocks_within_limit limits (required_acknowledged_work (sp_delivery sp) stream) blocks"
    "below_resume_water limits (required_acknowledged_work (sp_delivery sp) stream) current"
    "db' = sp_delivery sp \<or> current \<le> delivery_resume_mark (admission_limit desc limits)
       \<and> (\<exists>reason. map_of (runtime_state (sp_delivery sp)) (pd_instance desc) = Some (RunPaused, reason))
       \<and> db' = set_processor_run_state (pd_instance desc) RunRunning None (sp_delivery sp)"
proof -
  let ?db = "sp_delivery sp" and ?i = "pd_instance desc"
  let ?limits = "\<lambda>s. if sr_kind s \<noteq> StreamBackfill then None else map_option snd (stream_subscription sp stream)"
  from assms obtain s state where s: "map_of (delivery_streams ?db) stream = Some s"
    and state: "(if sr_kind s \<noteq> StreamBackfill
       then and_then (ok_or (map_of (runtime_state ?db) ?i) (Sqlx ''no row'')) (\<lambda>(state, _). Ok state)
       else Ok RunRunning) = (Ok state :: (_, 'pe store_error) result)"
    and run: "admit_delivery lim dbytes wbytes now desc stream (sr_kind s \<noteq> StreamBackfill) (?limits s)
       (required_acknowledged_work ?db stream) state incoming blocks ?db = (Ok () :: (unit, 'pe store_error) result, db')"
    unfolding enforce_delivery_capacity_def Let_def or_stop_Ok fetch_stream_def ok_or_Ok by blast
  have paused: "\<exists>reason. map_of (runtime_state ?db) ?i = Some (RunPaused, reason)" if "state = RunPaused"
    using state that by (auto split: if_splits)
  show thesis
  proof (rule admit_Ok [OF run])
    fix current projected retained
    assume a:
    "stream_delivery_bytes ?db stream = (Ok current :: (_, 'pe store_error) result)"
    "state = RunPaused \<Longrightarrow> current \<le> delivery_resume_mark (admission_limit desc (?limits s))"
    "db' = (if state = RunPaused then set_processor_run_state ?i RunRunning None ?db else ?db)"
    "checked_add current incoming = Some projected" "projected \<le> admission_limit desc (?limits s)"
    "node_bytes dbytes wbytes db' = (Ok retained :: (_, 'pe store_error) result)"
    "node_delivery_budget_failure lim retained incoming (if sr_kind s \<noteq> StreamBackfill then 0 else incoming)
      = (Ok None :: (_, 'pe store_error) result)"
    "blocks_within_limit (?limits s) (required_acknowledged_work ?db stream) blocks"
    "below_resume_water (?limits s) (required_acknowledged_work ?db stream) current"
    have "unat current + unat incoming \<le> unat (admission_limit desc (?limits s))"
      using a(4,5) by (simp add: word_nat)
    moreover have "unat (nd_history_retained retained) + unat incoming \<le> unat (ds_maximum_history_retained (sl_delivery lim))"
      if "sr_kind s = StreamBackfill"
      using budget_fits(2) [OF a(7)] that by simp
    moreover have "db' = ?db \<or> current \<le> delivery_resume_mark (admission_limit desc (?limits s))
       \<and> (\<exists>reason. map_of (runtime_state ?db) ?i = Some (RunPaused, reason))
       \<and> db' = set_processor_run_state ?i RunRunning None ?db"
      using a(2,3) paused by (cases "state = RunPaused") simp_all
    ultimately show ?thesis
      using that [OF s refl a(1) _ a(6) budget_fits(1) [OF a(7)] _ budget_fits(3) [OF a(7)] a(8,9)] by blast
  qed
qed

section \<open>Bytes of a stream\<close>

definition changes_bytes :: "domain_change list \<Rightarrow> nat" where
  "changes_bytes cs = sum_list (map change_bytes cs)"

text \<open>What a set of streams holds against its limit: the published and the parked bytes.\<close>

definition retained_in :: "(string \<Rightarrow> bool) \<Rightarrow> delivery_db \<Rightarrow> int" where
  "retained_in P db =
     sum_list (map (\<lambda>(_, s). sr_live_bytes s) (filter (\<lambda>(st, _). P st) (delivery_streams db)))
     + sum_list (parked_bytes (\<lambda>r. P (df_stream r)) db)"

definition stream_retained :: "delivery_db \<Rightarrow> string \<Rightarrow> int" where
  "stream_retained db stream = retained_in (\<lambda>st. st = stream) db"

definition total_retained :: "delivery_db \<Rightarrow> int" where
  "total_retained db = retained_in (\<lambda>_. True) db"

lemma filter_key:
  "ordered t \<Longrightarrow> filter (\<lambda>(k', _). k' = k) t = (case map_of t k of None \<Rightarrow> [] | Some v \<Rightarrow> [(k, v)])"
proof (induction t)
  case (Cons e t)
  have "filter (\<lambda>(k', _). k' = k) t = []" if "fst e = k"
    using Cons.prems that by (auto simp: filter_empty_conv)
  with Cons show ?case by (cases e) auto
qed simp

lemma sum_list_tput:
  fixes f :: "'v \<Rightarrow> int"
  shows "ordered t \<Longrightarrow> map_of t k = Some v \<Longrightarrow>
    sum_list (map (\<lambda>(_, r). f r) (filter (\<lambda>(k, _). P k) (tput k w t)))
      = sum_list (map (\<lambda>(_, r). f r) (filter (\<lambda>(k, _). P k) t)) + (if P k then f w - f v else 0)"
proof (induction t)
  case (Cons e t)
  show ?case
  proof (cases "fst e = k")
    case True
    then show ?thesis using Cons.prems by (cases e) simp
  next
    case False
    then have found: "map_of t k = Some v" using Cons.prems by (cases e) simp
    then have "fst e < k" using Cons.prems(1) map_of_SomeD [OF found] by (cases e) force
    then show ?thesis using Cons found by (cases e) auto
  qed
qed simp

text \<open>A parked row was charged with the size of its changes.\<close>

definition parked_exact :: "delivery_db \<Rightarrow> bool" where
  "parked_exact db = (\<forall>(n, r) \<in> set (deferred_changes db). uint (df_bytes r) = int (changes_bytes (df_changes r)))"

lemma row_bytes_new: "row_change_bytes (new_rows template cs n physical) = changes_bytes cs"
proof -
  have "map (\<lambda>(_, r). change_bytes (cl_change r)) (new_rows template cs n physical) = map change_bytes cs"
    using arg_cong [OF new_rows_changes, of "map change_bytes"] by (simp add: case_prod_unfold o_def)
  then show ?thesis by (simp add: row_change_bytes_def changes_bytes_def)
qed

lemma parked_bytes_same: "deferred_changes db' = deferred_changes db \<Longrightarrow> parked_bytes P db' = parked_bytes P db"
  by (simp add: parked_bytes_def)

lemma append_retained:
  assumes "append_changes now i stream origin c b level direction changes sinks db
      = (Ok (sequences, db') :: (_, 'pe store_error) result)" and ok: "delivery_ok db"
  shows "retained_in P db' = retained_in P db + (if P stream then int (changes_bytes changes) else 0)"
    and "deferred_changes db' = deferred_changes db"
proof -
  show d: "deferred_changes db' = deferred_changes db" by (rule append_changes_effect [OF assms])
  show "retained_in P db' = retained_in P db + (if P stream then int (changes_bytes changes) else 0)"
  proof (rule append_changes_effect [OF assms])
    fix s :: stream_row and rows
    let ?s = "s\<lparr>sr_next_sequence := sr_next_sequence s + length changes,
        sr_live_bytes := sr_live_bytes s + int (row_change_bytes rows)\<rparr>"
    assume s: "map_of (delivery_streams db) stream = Some s"
      and rows: "rows = new_rows (change_template now i origin c b level direction) changes (sr_next_sequence s) (last_rowid db)"
      and m: "map_of (delivery_streams db') = (map_of (delivery_streams db))(stream \<mapsto> ?s)" and ok': "delivery_ok db'"
    have ord: "ordered (delivery_streams db)" "ordered (delivery_streams db')"
      using delivery_okD(1) [OF ok] delivery_okD(1) [OF ok'] by (simp_all add: delivery_ordered_def)
    have "delivery_streams db' = tput stream ?s (delivery_streams db)"
      using ord m by (intro ordered_map_of_eq) simp_all
    then show ?thesis
      using sum_list_tput [OF ord(1) s, of sr_live_bytes P ?s]
      by (simp add: retained_in_def parked_bytes_same [OF d] rows row_bytes_new)
  qed
qed

lemma tput_last: "\<forall>e \<in> set t. fst e < k \<Longrightarrow> tput k v t = t @ [(k, v)]"
  by (induction t) auto

lemma park_retained:
  assumes "park_changes row db = (Ok db' :: (_, 'pe store_error) result)" and ok: "delivery_ok db"
  shows "retained_in P db' = retained_in P db + (if P (df_stream row) then uint (df_bytes row) else 0)"
    and "set (deferred_changes db') = insert (if deferred_changes db = [] then 1 else fst (last (deferred_changes db)) + 1, row)
      (set (deferred_changes db))"
proof -
  let ?t = "deferred_changes db"
  let ?k = "if ?t = [] then 1 else fst (last ?t) + 1"
  from assms(1) have db': "db' = db\<lparr>deferred_changes := tput ?k row ?t\<rparr>"
    by (auto simp: park_changes_def)
  have "ordered ?t" using delivery_okD(1) [OF ok] by (simp add: delivery_ordered_def)
  then have "fst e \<le> fst (last ?t)" if "e \<in> set ?t" for e
    using that by (cases ?t rule: rev_cases) (auto simp: ordered_def sorted_wrt_append)
  then have "tput ?k row ?t = ?t @ [(?k, row)]"
    by (intro tput_last) (auto simp: less_Suc_eq_le)
  then show "retained_in P db' = retained_in P db + (if P (df_stream row) then uint (df_bytes row) else 0)"
    "set (deferred_changes db') = insert (?k, row) (set ?t)"
    by (auto simp: db' retained_in_def parked_bytes_def)
qed

lemma sum_list_tdel:
  fixes f :: "'v \<Rightarrow> int"
  assumes "distinct (map fst t)" "(k, v) \<in> set t"
  shows "sum_list (map (\<lambda>(_, r). f r) (filter (\<lambda>(_, r). P r) t))
    = sum_list (map (\<lambda>(_, r). f r) (filter (\<lambda>(_, r). P r) (tdel k t))) + (if P v then f v else 0)"
  using assms
proof (induction t)
  case (Cons e t)
  show ?case
  proof (cases "e = (k, v)")
    case True
    then have "k \<notin> fst ` set t" using Cons.prems(1) by simp
    then have "tdel k t = t" unfolding tdel_def by (intro filter_True) auto
    then show ?thesis using True by (simp add: tdel_def)
  next
    case False
    then have "(k, v) \<in> set t" "fst e \<noteq> k" using Cons.prems by (auto simp: image_iff)
    with Cons show ?thesis by (cases e) (simp add: tdel_def)
  qed
qed simp

lemma release_retained:
  "release_rows now i level rows db = (Ok db' :: (_, 'pe store_error) result) \<Longrightarrow> delivery_ok db \<Longrightarrow>
    parked_exact db \<Longrightarrow> distinct (map fst rows) \<Longrightarrow> set rows \<subseteq> set (deferred_changes db) \<Longrightarrow>
    retained_in P db' = retained_in P db \<and> parked_exact db'"
proof (induction rows arbitrary: db)
  case (Cons e rows)
  obtain n r where e: "e = (n, r)" by (cases e)
  from Cons.prems(1) obtain sequences db1 where
    a: "append_changes now i (df_stream r) (df_origin r) (df_chain_id r) (df_block r) level
        DirectionApply (df_changes r) (df_sinks r) db = (Ok (sequences, db1) :: (_, 'pe store_error) result)"
    and rest: "release_rows now i level rows (db1\<lparr>deferred_changes := tdel n (deferred_changes db1)\<rparr>)
        = (Ok db' :: (_, 'pe store_error) result)"
    by (auto simp: e)
  let ?db2 = "db1\<lparr>deferred_changes := tdel n (deferred_changes db1)\<rparr>"
  note ret = append_retained [OF a Cons.prems(2)]
  have ok1: "delivery_ok db1" using append_next [OF a Cons.prems(2)] by (simp add: delivery_next_def)
  have ord: "ordered (deferred_changes db1)" using delivery_okD(1) [OF ok1] by (simp add: delivery_ordered_def)
  have ok2: "delivery_ok ?db2" using ord by (intro delivery_ok_deferred [OF ok1]) simp
  have member: "(n, r) \<in> set (deferred_changes db1)" using Cons.prems(5) by (simp add: ret(2) e)
  have exact: "uint (df_bytes r) = int (changes_bytes (df_changes r))"
    using Cons.prems(3) member by (auto simp: parked_exact_def ret(2))
  have "retained_in P ?db2 = retained_in P db1 - (if P (df_stream r) then uint (df_bytes r) else 0)"
    using sum_list_tdel [OF ordered_distinct [OF ord] member, of "\<lambda>r. uint (df_bytes r)" "\<lambda>r. P (df_stream r)"]
    by (simp add: retained_in_def parked_bytes_def)
  then have same: "retained_in P ?db2 = retained_in P db" using ret(1) exact by simp
  have "parked_exact ?db2" using Cons.prems(3) by (auto simp: parked_exact_def tdel_def ret(2))
  moreover have "set rows \<subseteq> set (deferred_changes ?db2)"
  proof
    fix x assume x: "x \<in> set rows"
    then have "fst x \<noteq> n" using Cons.prems(4) by (auto simp: e)
    then show "x \<in> set (deferred_changes ?db2)" using x Cons.prems(5) by (auto simp: tdel_def ret(2))
  qed
  ultimately show ?case
    using Cons.IH [OF rest ok2] Cons.prems(4) same by simp
qed simp

lemma release_deferred_retained:
  assumes "release_deferred_changes now i through level db = (Ok (released, db') :: (_, 'pe store_error) result)"
    and ok: "delivery_ok db" and "parked_exact db"
  shows "retained_in P db' = retained_in P db" "parked_exact db'"
proof -
  have "ordered (deferred_changes db)" using delivery_okD(1) [OF ok] by (simp add: delivery_ordered_def)
  then show "retained_in P db' = retained_in P db" "parked_exact db'"
    using release_retained [OF release_loop_rows(1) [OF assms(1) ok] ok assms(3) deferred_through_distinct]
    by (auto simp: deferred_through_def)
qed

section \<open>Publishing an admitted block\<close>

lemma incoming_change_bytes_Ok:
  "incoming_change_bytes a cs = (Ok t :: (_, 'pe store_error) result) \<Longrightarrow> unat t = unat a + changes_bytes cs"
proof (induction cs arbitrary: a)
  case (Cons c cs)
  from Cons.prems obtain b where small: "change_bytes c < 2 ^ 64" and b: "checked_add a (of_nat (change_bytes c)) = Some b"
    and rest: "incoming_change_bytes b cs = (Ok t :: (_, 'pe store_error) result)"
    by (auto simp: if_Err_eq_Ok)
  have "unat b = unat a + change_bytes c" using b small by (simp add: checked_add_Some unat_of_nat)
  then show ?case using Cons.IH [OF rest] by (simp add: changes_bytes_def)
qed (simp add: changes_bytes_def)

lemma admitted_bytes_Ok:
  assumes "admitted_bytes cs progress = (Ok t :: (_, 'pe store_error) result)"
  shows "unat t = changes_bytes cs + (if progress then 32 else 0)"
proof -
  from assms obtain b where b: "incoming_change_bytes 0 cs = (Ok b :: (_, 'pe store_error) result)"
    and t: "if progress then checked_add b 32 = Some t else b = t"
    by (auto simp: admitted_bytes_def split: if_splits)
  show ?thesis using incoming_change_bytes_Ok [OF b] t by (auto simp: checked_add_Some split: if_splits)
qed

lemma progress_bytes [simp]: "changes_bytes [backfill_progress_change a b c] = 32"
  by (simp add: changes_bytes_def change_bytes_def backfill_progress_change_def)

text \<open>One step of the transaction: it keeps the invariants and adds bytes to one stream.\<close>

definition delivers :: "string \<Rightarrow> int \<Rightarrow> delivery_db \<Rightarrow> delivery_db \<Rightarrow> bool" where
  "delivers stream bytes db db' =
     (delivery_next db db' \<and> parked_exact db'
      \<and> (\<forall>P. retained_in P db' = retained_in P db + (if P stream then bytes else 0)))"

lemma delivers_trans: "delivers stream a db db' \<Longrightarrow> delivers stream b db' db'' \<Longrightarrow> delivers stream (a + b) db db''"
  using delivery_next_trans by (auto simp: delivers_def)

lemma delivers_refl: "delivery_ok db \<Longrightarrow> parked_exact db \<Longrightarrow> delivers stream 0 db db"
  by (simp add: delivers_def delivery_next_refl)

lemma delivers_ok: "delivers stream a db db' \<Longrightarrow> delivery_ok db' \<and> parked_exact db'"
  by (simp add: delivers_def delivery_next_def)

lemma append_delivers:
  assumes "append_changes now i stream origin c b level direction changes sinks db
      = (Ok (sequences, db') :: (_, 'pe store_error) result)" and "delivery_ok db" "parked_exact db"
  shows "delivers stream (int (changes_bytes changes)) db db'"
  using append_next [OF assms(1,2)] append_retained [OF assms(1,2)] assms(3)
  by (simp add: delivers_def parked_exact_def)

lemma park_delivers:
  assumes "park_changes row db = (Ok db' :: (_, 'pe store_error) result)" and "delivery_ok db" "parked_exact db"
    and "uint (df_bytes row) = int (changes_bytes (df_changes row))"
  shows "delivers (df_stream row) (uint (df_bytes row)) db db'"
  using park_next [OF assms(1,2)] park_retained [OF assms(1,2)] assms(3,4)
  by (simp add: delivers_def parked_exact_def)

lemma release_delivers:
  assumes "release_deferred_changes now i through level db = (Ok (released, db') :: (_, 'pe store_error) result)"
    and "delivery_ok db" "parked_exact db"
  shows "delivers stream 0 db db'"
  using release_rows_next [OF release_loop_rows(1) [OF assms(1,2)] assms(2)] release_deferred_retained [OF assms]
  by (simp add: delivers_def)

lemma deliver_block_parts:
  assumes run: "deliver_block now desc stream origin progress incoming b sp
      = (Ok (sequences, sp') :: (_, 'pe store_error) result)"
  obtains db1 db2 db3 seqs where
    "(if defers desc b then park_changes \<lparr>df_instance = pd_instance desc, df_stream = stream,
         df_chain_id = bd_chain b, df_block = bd_block b, df_origin = origin, df_changes = bd_changes b,
         df_sinks = bd_sinks b, df_bytes = incoming\<rparr> (sp_delivery sp)
      else Ok (sp_delivery sp)) = (Ok db1 :: (_, 'pe store_error) result)"
    "if releases_held desc b
     then \<exists>released. release_deferred_changes now (pd_instance desc) (number (bd_block b) - 1) (bd_level b) db1
       = (Ok (released, db2) :: (_, 'pe store_error) result)
     else db2 = db1"
    "(if delivery_enabled desc
       then append_changes now (pd_instance desc) stream origin (bd_chain b) (bd_block b) (bd_level b) DirectionApply
         (published_changes desc b) (bd_sinks b) db2
       else Ok (None, db2)) = (Ok (seqs, db3) :: (_, 'pe store_error) result)"
    "if \<not> progress then sp' = sp\<lparr>sp_delivery := db3\<rparr>
       else \<exists>q db4. append_changes now (pd_instance desc) stream origin (bd_chain b) (bd_block b) Finalized DirectionApply
         [backfill_progress_change (number (bd_block b)) (number (bd_block b)) 1] [] db3
           = (Ok (q, db4) :: (_, 'pe store_error) result)
         \<and> record_backfill_progress stream (number (bd_block b)) 1
             (of_nat (length (published_changes desc b))) (sp\<lparr>sp_delivery := db4\<rparr>)
           = (Ok sp' :: (_, 'pe store_error) result)"
proof -
  let ?db = "sp_delivery sp" and ?i = "pd_instance desc"
  let ?row = "\<lparr>df_instance = ?i, df_stream = stream, df_chain_id = bd_chain b, df_block = bd_block b,
         df_origin = origin, df_changes = bd_changes b, df_sinks = bd_sinks b, df_bytes = incoming\<rparr>"
  let ?progress = "backfill_progress_change (number (bd_block b)) (number (bd_block b)) 1"
  define parked where "parked = (if defers desc b then park_changes ?row ?db else (Ok ?db :: (_, 'pe store_error) result))"
  define held where "held db1 = (if releases_held desc b
       then and_then (release_deferred_changes now ?i (number (bd_block b) - 1) (bd_level b) db1) (\<lambda>(_, d). Ok d)
       else (Ok db1 :: (_, 'pe store_error) result))" for db1
  define own where "own db2 = (if delivery_enabled desc
       then append_changes now ?i stream origin (bd_chain b) (bd_block b) (bd_level b) DirectionApply
         (published_changes desc b) (bd_sinks b) db2
       else (Ok (None, db2) :: (_, 'pe store_error) result))" for db2
  have shape: "(deliver_block now desc stream origin progress incoming b sp :: (_, 'pe store_error) result)
    = and_then parked (\<lambda>db1. and_then (held db1) (\<lambda>db2. and_then (own db2) (\<lambda>(seqs, db3).
      if \<not> progress then Ok (seqs, sp\<lparr>sp_delivery := db3\<rparr>)
      else and_then (append_changes now ?i stream origin (bd_chain b) (bd_block b) Finalized DirectionApply
         [?progress] [] db3) (\<lambda>(q, db4).
       and_then (record_backfill_progress stream (number (bd_block b)) 1
         (of_nat (length (published_changes desc b))) (sp\<lparr>sp_delivery := db4\<rparr>)) (\<lambda>sp'.
       Ok (case (seqs, q) of
            (Some (f, _), Some (_, l)) \<Rightarrow> Some (f, l)
          | (Some q, None) \<Rightarrow> Some q
          | (None, q) \<Rightarrow> q, sp'))))))"
    unfolding deliver_block_def Let_def parked_def held_def own_def ..
  from run [unfolded shape] obtain db1 db2 db3 seqs where parked: "parked = Ok db1" and held: "held db1 = Ok db2"
    and own: "own db2 = Ok (seqs, db3)"
    and rest: "if \<not> progress then sp' = sp\<lparr>sp_delivery := db3\<rparr>
       else \<exists>q db4. append_changes now ?i stream origin (bd_chain b) (bd_block b) Finalized DirectionApply
         [?progress] [] db3 = (Ok (q, db4) :: (_, 'pe store_error) result)
         \<and> record_backfill_progress stream (number (bd_block b)) 1
             (of_nat (length (published_changes desc b))) (sp\<lparr>sp_delivery := db4\<rparr>) = (Ok sp' :: (_, 'pe store_error) result)"
    by (cases progress) auto
  have "if releases_held desc b
     then \<exists>released. release_deferred_changes now ?i (number (bd_block b) - 1) (bd_level b) db1
       = (Ok (released, db2) :: (_, 'pe store_error) result)
     else db2 = db1"
    using held by (auto simp: held_def)
  from that [OF parked [unfolded parked_def] this own [unfolded own_def] rest] show thesis .
qed

lemma deliver_block_bytes:
  assumes run: "deliver_block now desc stream origin progress incoming b sp
      = (Ok (sequences, sp') :: (_, 'pe store_error) result)"
    and ok: "delivery_ok (sp_delivery sp)" "parked_exact (sp_delivery sp)" "ordered (sp_subscriptions sp)"
    and bytes: "unat incoming = changes_bytes (admitted_changes desc b) + (if progress then 32 else 0)"
    and final: "progress \<Longrightarrow> bd_level b = Finalized"
  shows "delivers stream (uint incoming) (sp_delivery sp) (sp_delivery sp')"
    and "subscriptions_kept (sp_subscriptions sp) (sp_subscriptions sp')"
proof -
  let ?db = "sp_delivery sp" and ?i = "pd_instance desc"
  let ?row = "\<lparr>df_instance = ?i, df_stream = stream, df_chain_id = bd_chain b, df_block = bd_block b,
         df_origin = origin, df_changes = bd_changes b, df_sinks = bd_sinks b, df_bytes = incoming\<rparr>"
  let ?p = "int (changes_bytes (published_changes desc b))"
  obtain db1 db2 db3 seqs where
    parked: "(if defers desc b then park_changes ?row ?db else Ok ?db) = (Ok db1 :: (_, 'pe store_error) result)"
    and held: "if releases_held desc b
     then \<exists>released. release_deferred_changes now ?i (number (bd_block b) - 1) (bd_level b) db1
       = (Ok (released, db2) :: (_, 'pe store_error) result)
     else db2 = db1"
    and own: "(if delivery_enabled desc
       then append_changes now ?i stream origin (bd_chain b) (bd_block b) (bd_level b) DirectionApply
         (published_changes desc b) (bd_sinks b) db2
       else Ok (None, db2)) = (Ok (seqs, db3) :: (_, 'pe store_error) result)"
    and rest: "if \<not> progress then sp' = sp\<lparr>sp_delivery := db3\<rparr>
       else \<exists>q db4. append_changes now ?i stream origin (bd_chain b) (bd_block b) Finalized DirectionApply
         [backfill_progress_change (number (bd_block b)) (number (bd_block b)) 1] [] db3
           = (Ok (q, db4) :: (_, 'pe store_error) result)
         \<and> record_backfill_progress stream (number (bd_block b)) 1
             (of_nat (length (published_changes desc b))) (sp\<lparr>sp_delivery := db4\<rparr>)
           = (Ok sp' :: (_, 'pe store_error) result)"
    by (rule deliver_block_parts [OF run])
  have nodefer: "progress \<Longrightarrow> \<not> defers desc b"
    using final finality_le_Finalized by (auto simp: defers_def not_less)
  have exact: "uint incoming = int (changes_bytes (bd_changes b))" if "defers desc b"
    using that bytes nodefer by (auto simp: defers_def admitted_changes_def uint_nat)
  have d1: "delivers stream (if defers desc b then uint incoming else 0) ?db db1"
    using parked park_delivers [of ?row ?db db1] exact ok delivers_refl by (auto split: if_splits)
  have d2: "delivers stream 0 db1 db2"
  proof (cases "releases_held desc b")
    case True
    with held obtain released where "release_deferred_changes now ?i (number (bd_block b) - 1) (bd_level b) db1
        = (Ok (released, db2) :: (_, 'pe store_error) result)"
      by auto
    then show ?thesis using release_delivers delivers_ok [OF d1] by blast
  qed (use held delivers_refl delivers_ok [OF d1] in \<open>auto\<close>)
  have none: "published_changes desc b = []" if "\<not> delivery_enabled desc"
    using that by (simp add: published_changes_def admitted_changes_def)
  have d3: "delivers stream ?p db2 db3"
  proof (cases "delivery_enabled desc")
    case True
    then show ?thesis using own append_delivers delivers_ok [OF d2] by auto
  qed (use own delivers_refl delivers_ok [OF d2] none in \<open>auto simp: changes_bytes_def\<close>)
  have total: "(if defers desc b then uint incoming else 0) + 0 + ?p + (if progress then 32 else 0) = uint incoming"
    using nodefer bytes by (auto simp: published_changes_def changes_bytes_def uint_nat)
  note d = delivers_trans [OF delivers_trans [OF d1 d2] d3]
  have "delivers stream (uint incoming) ?db (sp_delivery sp') \<and> subscriptions_kept (sp_subscriptions sp) (sp_subscriptions sp')"
  proof (cases progress)
    case False
    then show ?thesis using rest d total ok(3) by (simp add: subscriptions_kept_refl)
  next
    case True
    then obtain q db4 where a: "append_changes now ?i stream origin (bd_chain b) (bd_block b) Finalized DirectionApply
         [backfill_progress_change (number (bd_block b)) (number (bd_block b)) 1] [] db3 = (Ok (q, db4) :: (_, 'pe store_error) result)"
      and r: "record_backfill_progress stream (number (bd_block b)) 1
             (of_nat (length (published_changes desc b))) (sp\<lparr>sp_delivery := db4\<rparr>) = (Ok sp' :: (_, 'pe store_error) result)"
      using rest by auto
    have p: "delivers stream 32 db3 db4" using append_delivers [OF a] delivers_ok [OF d] by simp
    show ?thesis
      using delivers_trans [OF d p] total True record_progress_kept [OF r] ok(3) by simp
  qed
  then show "delivers stream (uint incoming) ?db (sp_delivery sp')"
    "subscriptions_kept (sp_subscriptions sp) (sp_subscriptions sp')" by blast+
qed

text \<open>The invariants of the delivery state: the tables, the charges of parked rows, the order of subscriptions.\<close>

definition spool_ok :: "spool \<Rightarrow> bool" where
  "spool_ok sp = (delivery_ok (sp_delivery sp) \<and> parked_exact (sp_delivery sp) \<and> ordered (sp_subscriptions sp))"

lemma run_state_bytes:
  "stream_rows (set_processor_run_state i state reason db) st = stream_rows db st"
  "retained_in P (set_processor_run_state i state reason db) = retained_in P db"
  "parked_exact (set_processor_run_state i state reason db) = parked_exact db"
  by (simp_all add: set_processor_run_state_def stream_rows_def retained_in_def parked_bytes_def parked_exact_def
    split: option.split)

lemma i64_u64_exact:
  assumes "i64_u64 v field = (Ok w :: (_, 'pe store_error) result)" "v < 2 ^ 63"
  shows "int (unat w) = v"
  using assms by (auto simp: i64_u64_def uint_word_of_int not_less simp flip: uint_nat split: if_splits)

lemma stream_delivery_bytes_Ok:
  assumes "stream_delivery_bytes db stream = (Ok current :: (_, 'pe store_error) result)" and ok: "delivery_ok db"
  shows "stream_retained db stream = int (unat current)"
proof -
  from assms(1) obtain s a b parked where s: "map_of (delivery_streams db) stream = Some s"
    and a: "i64_u64 (sr_live_bytes s) ''delivery stream bytes'' = (Ok a :: (_, 'pe store_error) result)"
    and p: "sql_sum (parked_bytes (\<lambda>r. df_stream r = stream) db) = (Ok parked :: (_, 'pe store_error) result)"
    and b: "i64_u64 parked ''deferred delivery bytes'' = (Ok b :: (_, 'pe store_error) result)"
    and c: "checked_add a b = Some current"
    by (auto simp: stream_delivery_bytes_def fetch_stream_def)
  have live: "sr_live_bytes s < 2 ^ 63"
    using delivery_okD(2) [OF ok s] by (auto simp: stream_ok_def)
  have sum: "parked = sum_list (parked_bytes (\<lambda>r. df_stream r = stream) db)" "parked < 2 ^ 63"
    using p by (auto simp: sql_sum_def split: if_splits)
  have "ordered (delivery_streams db)" using delivery_okD(1) [OF ok] by (simp add: delivery_ordered_def)
  from filter_key [OF this, of stream] show ?thesis
    using i64_u64_exact [OF a live] i64_u64_exact [OF b sum(2)] c s sum(1)
    by (simp add: stream_retained_def retained_in_def checked_add_Some)
qed

section \<open>The handlers as runs\<close>

text \<open>What a handler does to the delivery tables inside its transaction is a run of their operations.\<close>

lemma deliver_block_run:
  assumes "deliver_block now desc stream origin progress incoming b sp = (Ok (sequences, sp') :: _ delivered)"
  shows "(delivery_step ch)\<^sup>*\<^sup>* (sp_delivery sp) (sp_delivery sp')"
proof (rule deliver_block_parts [OF assms])
  let ?db = "sp_delivery sp" and ?i = "pd_instance desc"
  fix db1 db2 db3 seqs
  assume parked: "(if defers desc b then park_changes \<lparr>df_instance = ?i, df_stream = stream,
         df_chain_id = bd_chain b, df_block = bd_block b, df_origin = origin, df_changes = bd_changes b,
         df_sinks = bd_sinks b, df_bytes = incoming\<rparr> ?db
      else Ok ?db) = (Ok db1 :: _ delivered)"
    and held: "if releases_held desc b
     then \<exists>released. release_deferred_changes now ?i (number (bd_block b) - 1) (bd_level b) db1
       = (Ok (released, db2) :: _ delivered)
     else db2 = db1"
    and own: "(if delivery_enabled desc
       then append_changes now ?i stream origin (bd_chain b) (bd_block b) (bd_level b) DirectionApply
         (published_changes desc b) (bd_sinks b) db2
       else Ok (None, db2)) = (Ok (seqs, db3) :: _ delivered)"
    and rest: "if \<not> progress then sp' = sp\<lparr>sp_delivery := db3\<rparr>
       else \<exists>q db4. append_changes now ?i stream origin (bd_chain b) (bd_block b) Finalized DirectionApply
         [backfill_progress_change (number (bd_block b)) (number (bd_block b)) 1] [] db3 = (Ok (q, db4) :: _ delivered)
         \<and> record_backfill_progress stream (number (bd_block b)) 1
             (of_nat (length (published_changes desc b))) (sp\<lparr>sp_delivery := db4\<rparr>) = (Ok sp' :: _ delivered)"
  let ?run = "(delivery_step ch)\<^sup>*\<^sup>*"
  have "?run ?db db1" using parked step_park by (cases "defers desc b") auto
  moreover have "?run db1 db2" using held step_release by (cases "releases_held desc b") auto
  moreover have "?run db2 db3" using own step_publish by (cases "delivery_enabled desc") auto
  moreover have "?run db3 (sp_delivery sp')"
  proof (cases progress)
    case True
    then obtain q db4 where "append_changes now ?i stream origin (bd_chain b) (bd_block b) Finalized DirectionApply
         [backfill_progress_change (number (bd_block b)) (number (bd_block b)) 1] [] db3 = (Ok (q, db4) :: _ delivered)"
      and "record_backfill_progress stream (number (bd_block b)) 1
             (of_nat (length (published_changes desc b))) (sp\<lparr>sp_delivery := db4\<rparr>) = (Ok sp' :: _ delivered)"
      using rest by auto
    then have "delivery_step ch db3 db4" "sp_delivery sp' = db4"
      by (auto intro: step_publish simp: record_backfill_progress_def split: option.splits)
    then show ?thesis by auto
  qed (use rest in simp)
  ultimately show ?thesis by (meson rtranclp_trans)
qed

section \<open>Completing a subscription\<close>

lemma append_one:
  assumes "append_changes now i stream origin c b level direction [change] sinks db
      = (Ok (sequences, db') :: (_, 'pe store_error) result)" and "delivery_ok db"
  obtains n row where "sequences = Some (n, n)" "stream_rows db' stream = stream_rows db stream @ [(n, row)]"
    "cl_change row = change" "cl_block row = b" "cl_origin row = origin" "cl_finality row = level" "delivery_ok db'"
  by (rule append_changes_effect [OF assms]) (auto simp: new_rows_def change_template_def)

lemma last_sequence_append: "last_sequence (rows @ [(n, row)]) = Some n"
  by (simp add: last_sequence_def)

text \<open>A new completion: an optional empty progress record, then the record of the accounts.\<close>

lemma publish_completion_effect:
  assumes "publish_completion now i stream c subscription through origin sp = (Ok (l, db') :: (_, 'pe store_error) result)"
    and ok: "delivery_ok (sp_delivery sp)"
  obtains m row db1 where "backfill_completion_metadata sp stream subscription = (Ok m :: (_, 'pe store_error) result)"
    and "\<exists>o' a b' sequences. db1 = sp_delivery sp \<or>
      append_changes now i stream o' c b' Finalized DirectionApply [backfill_progress_change a through 0] [] (sp_delivery sp)
        = (Ok (sequences, db1) :: (_, 'pe store_error) result)"
    and "delivery_ok db1"
    and "\<exists>b'. append_changes now i stream origin c b' Finalized DirectionApply [cl_change row] [] db1
        = (Ok (Some (l, l), db') :: (_, 'pe store_error) result)"
    and "stream_rows db' stream = stream_rows db1 stream @ [(l, row)]"
    and "cl_change row = \<lparr>ch_kind = BACKFILL_COMPLETE, ch_key = map of_char subscription, ch_operation = Upsert,
             ch_payload = encode_backfill_completion_metadata m\<rparr>"
    and "cl_origin row = origin" "number (cl_block row) = through"
    and "covered_hash sp i through = Some (hash (cl_block row))"
    and "completion_record db' stream = Some l" "delivery_ok db'"
proof -
  let ?db = "sp_delivery sp"
  let ?change = "\<lambda>m. \<lparr>ch_kind = BACKFILL_COMPLETE, ch_key = map of_char subscription, ch_operation = Upsert,
             ch_payload = encode_backfill_completion_metadata m\<rparr>"
  define first where "first m boundary = (if cm_disposition m = AlreadyCoveredNoop
             \<and> \<not> list_ex (\<lambda>(_, r). ch_kind (cl_change r) = BACKFILL_PROGRESS) (stream_rows ?db stream)
           then (case map_of (sp_subscriptions sp) subscription of
               None \<Rightarrow> Err (Sqlx ''null column'')
             | Some r \<Rightarrow>
                 if sb_ranges r = [] then Err (Sqlx ''null column'')
                 else and_then (append_changes now i stream origin c boundary Finalized DirectionApply
                   [backfill_progress_change (Min (set (map sg_from (sb_ranges r)))) through 0] [] ?db)
                   (\<lambda>(_, d). Ok d))
           else (Ok ?db :: (_, 'pe store_error) result))" for m :: completion_metadata and boundary
  have "(publish_completion now i stream c subscription through origin sp :: (_, 'pe store_error) result)
    = and_then (backfill_completion_metadata sp stream subscription) (\<lambda>m.
     and_then (u64_i64 through ''completion block number'') (\<lambda>_.
     and_then (ok_or (covered_hash sp i through)
       (StoreInvariant ''cannot complete backfill before the block is covered'')) (\<lambda>h.
     (case stored_block ?db i through h of (parent, time) \<Rightarrow>
       and_then (first m \<lparr>number = through, hash = h, parent_hash = parent, timestamp = time\<rparr>) (\<lambda>db1.
         and_then (append_changes now i stream origin c
             \<lparr>number = through, hash = h, parent_hash = parent, timestamp = time\<rparr> Finalized DirectionApply
             [?change m] [] db1) (\<lambda>(sequences, db2).
         case sequences of
           None \<Rightarrow> Err (StoreInvariant ''completion record was not appended'')
         | Some (_, l) \<Rightarrow> Ok (l, db2)))))))"
    unfolding publish_completion_def Let_def first_def ..
  note shape = assms(1) [unfolded this, unfolded and_then_Ok ok_or_Ok]
  from shape obtain m h where
    m: "backfill_completion_metadata sp stream subscription = (Ok m :: (_, 'pe store_error) result)"
    and h: "covered_hash sp i through = Some h"
    and tail: "(case stored_block ?db i through h of (parent, time) \<Rightarrow>
       and_then (first m \<lparr>number = through, hash = h, parent_hash = parent, timestamp = time\<rparr>) (\<lambda>db1.
         and_then (append_changes now i stream origin c
             \<lparr>number = through, hash = h, parent_hash = parent, timestamp = time\<rparr> Finalized DirectionApply
             [?change m] [] db1) (\<lambda>(sequences, db2).
         case sequences of
           None \<Rightarrow> Err (StoreInvariant ''completion record was not appended'')
         | Some (_, l) \<Rightarrow> Ok (l, db2)))) = (Ok (l, db') :: (_, 'pe store_error) result)"
    by blast
  define b where "b = \<lparr>number = through, hash = h, parent_hash = fst (stored_block ?db i through h),
    timestamp = snd (stored_block ?db i through h)\<rparr>"
  from tail obtain db1 sequences where f: "first m b = Ok db1"
    and fin: "append_changes now i stream origin c b Finalized DirectionApply [?change m] [] db1
        = (Ok (sequences, db') :: (_, 'pe store_error) result)"
    and l: "\<exists>f. sequences = Some (f, l)"
    unfolding case_prod_unfold b_def [symmetric] by (auto split: option.splits)
  have db1: "db1 = ?db \<or> (\<exists>a sequences. append_changes now i stream origin c b Finalized DirectionApply
        [backfill_progress_change a through 0] [] ?db = (Ok (sequences, db1) :: (_, 'pe store_error) result))"
    using f unfolding first_def by (auto split: if_splits option.splits)
  have b: "number b = through" "hash b = h" by (simp_all add: b_def)
  have ok1: "delivery_ok db1"
    using db1 ok append_changes_effect by blast
  from append_one [OF fin ok1] obtain n row where n: "sequences = Some (n, n)"
    and rows: "stream_rows db' stream = stream_rows db1 stream @ [(n, row)]"
    and row: "cl_change row = ?change m" "cl_block row = b" "cl_origin row = origin" and ok': "delivery_ok db'" .
  have "n = l" using n l by simp
  moreover have "completion_record db' stream = Some n"
    by (simp add: completion_record_def rows row last_sequence_append)
  ultimately show thesis
    using that [OF m _ ok1 _ rows [unfolded \<open>n = l\<close>] row(1,3)] db1 fin n h b row ok' by metis
qed

lemma publish_completion_run:
  assumes "publish_completion now i stream c subscription through origin sp = (Ok (l, db') :: _ delivered)"
    and ok: "delivery_ok (sp_delivery sp)"
  shows "(delivery_step ch)\<^sup>*\<^sup>* (sp_delivery sp) db'"
proof (rule publish_completion_effect [OF assms])
  fix db1 and row :: change_row
  assume "\<exists>o' a b' sequences. db1 = sp_delivery sp \<or>
      append_changes now i stream o' c b' Finalized DirectionApply [backfill_progress_change a through 0] [] (sp_delivery sp)
        = (Ok (sequences, db1) :: _ delivered)"
    and "\<exists>b'. append_changes now i stream origin c b' Finalized DirectionApply [cl_change row] [] db1
        = (Ok (Some (l, l), db') :: _ delivered)"
  then have "db1 = sp_delivery sp \<or> delivery_step ch (sp_delivery sp) db1" "delivery_step ch db1 db'"
    by (auto intro: step_publish)
  then show ?thesis by (auto intro: converse_rtranclp_into_rtranclp)
qed

text \<open>The row of a subscription and of its job after a completion.\<close>

definition completed_row :: "nat \<Rightarrow> subscription_row \<Rightarrow> subscription_row" where
  "completed_row l r = (if terminal_state (sb_state r) then r
      else r\<lparr>sb_state := Draining, sb_completion := Some l, sb_error := None\<rparr>)
     \<lparr>sb_ranges := map (\<lambda>g. g\<lparr>sg_state := RangeCommitted\<rparr>) (sb_ranges r)\<rparr>"

lemma completed_row_moves: "subscription_moves r (completed_row l r)"
proof -
  have "row_requested (completed_row l r) = row_requested r" "row_covered (completed_row l r) = row_covered r"
    "committed (sb_ranges (completed_row l r)) = committed (sb_ranges r)"
    by (simp_all add: completed_row_def row_requested_def row_covered_def committed_def o_def)
  moreover have "fixed_fields (completed_row l r) = fixed_fields r" "sb_processed (completed_row l r) = sb_processed r"
    "sb_published (completed_row l r) = sb_published r" "sb_from (completed_row l r) = sb_from r"
    "sb_to (completed_row l r) = sb_to r"
    by (simp_all add: completed_row_def fixed_fields_def)
  moreover have "state_moves (sb_state r) (sb_state (completed_row l r))"
    "sb_completion r \<noteq> None \<longrightarrow> sb_completion (completed_row l r) \<noteq> None"
    by (auto simp: completed_row_def state_moves_def terminal_state_def)
  ultimately show ?thesis by (simp add: subscription_moves_def subscription_sound_def)
qed

lemma completion_transaction_Ok:
  assumes "append_backfill_completion_transaction now i stream c subscription through sp
      = (Ok (l, sp') :: (_, 'pe store_error) result)"
  obtains r where "map_of (sp_subscriptions sp) subscription = Some r" "sb_stream r = stream"
    and "case completion_record (sp_delivery sp) stream of
        Some n \<Rightarrow> l = n \<and> sp_delivery sp' = sp_delivery sp
      | None \<Rightarrow> publish_completion now i stream c subscription through (subscription_origin subscription r) sp
          = (Ok (l, sp_delivery sp') :: (_, 'pe store_error) result)"
    and "sp_subscriptions sp' = tput subscription (completed_row l r) (sp_subscriptions sp)"
    and "sp_coverage sp' = sp_coverage sp" "sp_segments sp' = sp_segments sp"
  using assms unfolding append_backfill_completion_transaction_def
  by (cases "completion_record (sp_delivery sp) stream")
    (auto simp: completed_row_def split: option.splits if_splits)

lemma completion_transaction_run:
  assumes "append_backfill_completion_transaction now i stream c subscription through sp = (Ok (l, sp') :: _ delivered)"
    and ok: "delivery_ok (sp_delivery sp)" "ordered (sp_subscriptions sp)"
  shows "(delivery_step ch)\<^sup>*\<^sup>* (sp_delivery sp) (sp_delivery sp')"
    and "subscriptions_kept (sp_subscriptions sp) (sp_subscriptions sp')"
proof -
  obtain r where r: "map_of (sp_subscriptions sp) subscription = Some r"
    and c: "case completion_record (sp_delivery sp) stream of
        Some n \<Rightarrow> l = n \<and> sp_delivery sp' = sp_delivery sp
      | None \<Rightarrow> publish_completion now i stream c subscription through (subscription_origin subscription r) sp
          = (Ok (l, sp_delivery sp') :: _ delivered)"
    and s: "sp_subscriptions sp' = tput subscription (completed_row l r) (sp_subscriptions sp)"
    using completion_transaction_Ok [OF assms(1)] by metis
  show "subscriptions_kept (sp_subscriptions sp) (sp_subscriptions sp')"
    unfolding s by (rule subscriptions_kept_put [OF ok(2) r completed_row_moves])
  show "(delivery_step ch)\<^sup>*\<^sup>* (sp_delivery sp) (sp_delivery sp')"
    using c publish_completion_run [OF _ ok(1)] by (cases "completion_record (sp_delivery sp) stream") auto
qed

section \<open>Steps of the spool\<close>

text \<open>What every operation keeps of the delivery tables and of the subscriptions.\<close>

definition spool_next :: "spool \<Rightarrow> spool \<Rightarrow> bool" where
  "spool_next sp sp' = (delivery_next (sp_delivery sp) (sp_delivery sp')
     \<and> subscriptions_kept (sp_subscriptions sp) (sp_subscriptions sp'))"

lemma spool_next_refl: "delivery_ok (sp_delivery sp) \<Longrightarrow> ordered (sp_subscriptions sp) \<Longrightarrow> spool_next sp sp"
  by (simp add: spool_next_def delivery_next_refl subscriptions_kept_refl)

lemma spool_next_trans: "spool_next sp sp' \<Longrightarrow> spool_next sp' sp'' \<Longrightarrow> spool_next sp sp''"
  unfolding spool_next_def using delivery_next_trans subscriptions_kept_trans by blast

lemma spool_next_ok: "spool_next sp sp' \<Longrightarrow> delivery_ok (sp_delivery sp') \<and> ordered (sp_subscriptions sp')"
  by (simp add: spool_next_def delivery_next_def subscriptions_kept_def)

lemma spool_next_delivery:
  "delivery_next (sp_delivery sp) db \<Longrightarrow> ordered (sp_subscriptions sp) \<Longrightarrow> spool_next sp (sp\<lparr>sp_delivery := db\<rparr>)"
  by (simp add: spool_next_def subscriptions_kept_refl)

lemma enforce_spool_next:
  assumes "delivery_ok (sp_delivery sp)" "ordered (sp_subscriptions sp)"
    and "enforce_delivery_capacity lim dbytes wbytes now desc stream incoming blocks sp
      = (answer :: (unit, 'pe store_error) result, db)"
  shows "spool_next sp (sp\<lparr>sp_delivery := db\<rparr>)"
  using enforce_next [OF assms(1)] assms(2,3) by (metis snd_conv spool_next_delivery)

lemma deliver_block_next:
  assumes "deliver_block now desc stream origin progress incoming b sp = (Ok (sequences, sp') :: _ delivered)"
    and ok: "delivery_ok (sp_delivery sp)" "ordered (sp_subscriptions sp)"
  shows "spool_next sp sp'"
proof -
  have "subscriptions_kept (sp_subscriptions sp) (sp_subscriptions sp')"
  proof (rule deliver_block_parts [OF assms(1)])
    fix db3
    assume "if \<not> progress then sp' = sp\<lparr>sp_delivery := db3\<rparr>
       else \<exists>q db4. append_changes now (pd_instance desc) stream origin (bd_chain b) (bd_block b) Finalized DirectionApply
         [backfill_progress_change (number (bd_block b)) (number (bd_block b)) 1] [] db3 = (Ok (q, db4) :: _ delivered)
         \<and> record_backfill_progress stream (number (bd_block b)) 1
             (of_nat (length (published_changes desc b))) (sp\<lparr>sp_delivery := db4\<rparr>) = (Ok sp' :: _ delivered)"
    then show ?thesis
      using record_progress_kept(1) ok(2) by (cases progress) (fastforce simp: subscriptions_kept_refl)+
  qed
  then show ?thesis
    using delivery_run_next [OF deliver_block_run [OF assms(1)] ok(1)] by (simp add: spool_next_def)
qed

text \<open>The decision writes no record: only run states and the readers' states.\<close>

definition same_records :: "delivery_db \<Rightarrow> delivery_db \<Rightarrow> bool" where
  "same_records db db' = (change_log db' = change_log db \<and> delivery_streams db' = delivery_streams db
     \<and> deferred_changes db' = deferred_changes db \<and> sink_outbox db' = sink_outbox db)"

lemma same_records_simps [simp]:
  "same_records db db"
  "same_records db (set_processor_run_state i state reason db') = same_records db db'"
  "same_records db (refuse_delivery now desc stream scoped db') = same_records db db'"
  by (simp_all add: same_records_def set_processor_run_state_def refuse_delivery_def expire_required_consumers_def Let_def
    split: option.split)

lemma same_records_retained: "same_records db db' \<Longrightarrow> retained_in P db' = retained_in P db \<and> parked_exact db' = parked_exact db"
  by (simp add: same_records_def retained_in_def parked_bytes_def parked_exact_def)

lemma enforce_same_records:
  assumes "enforce_delivery_capacity lim dbytes wbytes now desc stream incoming blocks sp
      = (answer :: (unit, 'pe store_error) result, db)"
  shows "same_records (sp_delivery sp) db"
proof -
  have "same_records db (snd (admit_delivery lim dbytes wbytes now desc stream scoped limits acknowledged state
      incoming blocks db :: (unit, 'pe store_error) result \<times> _))" for db scoped limits acknowledged state
    unfolding admit_delivery_def Let_def
    by (auto intro!: or_stop_snd [where P = "same_records db"] split: prod.splits)
  then have "same_records (sp_delivery sp) (snd (enforce_delivery_capacity lim dbytes wbytes now desc stream incoming blocks sp
      :: (unit, 'pe store_error) result \<times> _))"
    unfolding enforce_delivery_capacity_def Let_def
    by (intro or_stop_snd [where P = "same_records (sp_delivery sp)"]) simp_all
  then show ?thesis by (simp add: assms)
qed

section \<open>Publishing a block\<close>

lemma publish_block_cases:
  assumes "publish_block lim dbytes wbytes now desc stream b sp = (answer :: (_, 'pe store_error) result, sp')"
  obtains (early) e where "answer = Err e" "sp' = sp"
  | (refused) e db progress incoming reply where "answer = Err e" "sp' = sp\<lparr>sp_delivery := db\<rparr>" "delivery_enabled desc"
      "enforce_delivery_capacity lim dbytes wbytes now desc stream incoming (if progress then 1 else 0) sp
        = (reply :: (unit, 'pe store_error) result, db)"
  | (published) progress incoming db origin sequences where
      "if delivery_enabled desc then delivery_stream_is_backfill (sp_delivery sp) stream = (Ok progress :: (_, 'pe store_error) result)
       else \<not> progress"
      "admitted_bytes (admitted_changes desc b) progress = (Ok incoming :: (_, 'pe store_error) result)"
      "if delivery_enabled desc
       then enforce_delivery_capacity lim dbytes wbytes now desc stream incoming (if progress then 1 else 0) sp
         = (Ok () :: (unit, 'pe store_error) result, db)
       else db = sp_delivery sp"
      "(if progress then backfill_delivery_origin (sp\<lparr>sp_delivery := db\<rparr>) stream
        else if bd_recovery b then Ok (origin_live_recovery (pd_instance desc))
        else Ok (origin_live (pd_instance desc))) = (Ok origin :: (_, 'pe store_error) result)"
      "deliver_block now desc stream origin progress incoming b (sp\<lparr>sp_delivery := db\<rparr>)
        = (Ok (sequences, sp') :: (_, 'pe store_error) result)" "answer = Ok sequences"
proof -
  define enforce where "enforce incoming progress = (if delivery_enabled desc
            then enforce_delivery_capacity lim dbytes wbytes now desc stream incoming (if progress then 1 else 0) sp
            else (Ok () :: (unit, 'pe store_error) result, sp_delivery sp))" for incoming progress
  define start where "start = (if delivery_enabled desc then delivery_stream_is_backfill (sp_delivery sp) stream
    else (Ok False :: (bool, 'pe store_error) result))"
  define src where "src progress sp1 = (if progress then backfill_delivery_origin sp1 stream
           else if bd_recovery b then Ok (origin_live_recovery (pd_instance desc))
           else (Ok (origin_live (pd_instance desc)) :: (_, 'pe store_error) result))" for progress sp1
  define finish where "finish progress incoming sp1 = or_stop (src progress sp1) sp1 (\<lambda>origin.
       or_stop (deliver_block now desc stream origin progress incoming b sp1) sp1 (\<lambda>(sequences, sp2).
       (Ok sequences :: (_, 'pe store_error) result, sp2)))" for progress incoming sp1
  have shape: "(publish_block lim dbytes wbytes now desc stream b sp :: (_, 'pe store_error) result \<times> _)
    = or_stop start sp (\<lambda>progress. or_stop (admitted_bytes (admitted_changes desc b) progress) sp (\<lambda>incoming.
      case enforce incoming progress of (admitted, db) \<Rightarrow>
        or_stop admitted (sp\<lparr>sp_delivery := db\<rparr>) (\<lambda>_. finish progress incoming (sp\<lparr>sp_delivery := db\<rparr>))))"
    unfolding publish_block_def Let_def enforce_def start_def src_def finish_def ..
  show thesis
  proof (cases start)
    case (Inl e)
    then show thesis using assms shape early [of e] by auto
  next
    case start: (Inr progress)
    show thesis
    proof (cases "admitted_bytes (admitted_changes desc b) progress :: (u64, 'pe store_error) result")
      case (Inl e)
      then show thesis using assms shape start early [of e] by auto
    next
      case bytes: (Inr incoming)
      obtain reply db where reply: "enforce incoming progress = (reply, db)" by (cases "enforce incoming progress")
      let ?sp = "sp\<lparr>sp_delivery := db\<rparr>"
      have run: "(answer, sp') = or_stop reply ?sp (\<lambda>_. finish progress incoming ?sp)"
        using assms shape start bytes reply by simp
      have stop: thesis if "answer = Err e" "sp' = ?sp" for e
      proof (cases "delivery_enabled desc")
        case True
        then show thesis using refused that reply by (simp add: enforce_def)
      next
        case False
        then have "db = sp_delivery sp" using reply by (simp add: enforce_def)
        then show thesis using early that by simp
      qed
      show thesis
      proof (cases reply)
        case (Inl e)
        then show thesis using run stop [of e] by auto
      next
        case (Inr u)
        then have run: "(answer, sp') = finish progress incoming ?sp" and ok: "reply = Ok ()" using run by simp_all
        show thesis
        proof (cases "src progress ?sp")
          case (Inl e)
          then show thesis using run stop [of e] by (auto simp: finish_def)
        next
          case origin: (Inr origin)
          show thesis
          proof (cases "deliver_block now desc stream origin progress incoming b ?sp :: (_, 'pe store_error) result")
            case (Inl e)
            then show thesis using run stop [of e] origin by (auto simp: finish_def)
          next
            case (Inr out)
            then obtain sequences sp2 where out: "deliver_block now desc stream origin progress incoming b ?sp
              = (Ok (sequences, sp2) :: (_, 'pe store_error) result)" by (cases out) simp
            then have final: "answer = Ok sequences" "sp' = sp2" using run origin by (simp_all add: finish_def)
            have kind: "if delivery_enabled desc
                then delivery_stream_is_backfill (sp_delivery sp) stream = (Ok progress :: (_, 'pe store_error) result)
                else \<not> progress"
              using start by (simp add: start_def split: if_splits)
            have admitted: "if delivery_enabled desc
                then enforce_delivery_capacity lim dbytes wbytes now desc stream incoming (if progress then 1 else 0) sp
                  = (Ok () :: (unit, 'pe store_error) result, db)
                else db = sp_delivery sp"
              using reply ok by (simp add: enforce_def split: if_splits)
            show thesis
              by (rule published [OF kind bytes admitted origin [unfolded src_def] out [folded final(2)] final(1)])
          qed
        qed
      qed
    qed
  qed
qed

lemma publish_block_next:
  assumes run: "publish_block lim dbytes wbytes now desc stream b sp = (answer :: _ delivered, sp')"
    and ok: "delivery_ok (sp_delivery sp)" "ordered (sp_subscriptions sp)"
  shows "spool_next sp sp'"
proof (rule publish_block_cases [OF run])
  fix e assume "sp' = sp"
  then show ?thesis using spool_next_refl [OF ok] by simp
next
  fix db incoming progress and reply :: "unit delivered"
  assume "sp' = sp\<lparr>sp_delivery := db\<rparr>"
    and "enforce_delivery_capacity lim dbytes wbytes now desc stream incoming (if progress then 1 else 0) sp = (reply, db)"
  then show ?thesis using enforce_spool_next [OF ok] by blast
next
  fix progress incoming db origin sequences
  assume e: "if delivery_enabled desc
       then enforce_delivery_capacity lim dbytes wbytes now desc stream incoming (if progress then 1 else 0) sp
         = (Ok () :: unit delivered, db)
       else db = sp_delivery sp"
    and d: "deliver_block now desc stream origin progress incoming b (sp\<lparr>sp_delivery := db\<rparr>)
        = (Ok (sequences, sp') :: _ delivered)"
  have n: "spool_next sp (sp\<lparr>sp_delivery := db\<rparr>)"
    using e enforce_spool_next [OF ok] spool_next_refl [OF ok] by (cases "delivery_enabled desc") auto
  have "spool_next (sp\<lparr>sp_delivery := db\<rparr>) sp'"
    using deliver_block_next [OF d] spool_next_ok [OF n] by blast
  with n show ?thesis by (rule spool_next_trans)
qed

text \<open>A refused or failed publication leaves every record, stream position and subscription as it was.\<close>

lemma publish_block_refused:
  assumes "publish_block lim dbytes wbytes now desc stream b sp = (Err e :: (_, 'pe store_error) result, sp')"
  shows "same_records (sp_delivery sp) (sp_delivery sp')" "sp' = sp\<lparr>sp_delivery := sp_delivery sp'\<rparr>"
proof (rule_tac [!] publish_block_cases [OF assms])
  fix db incoming progress and reply :: "(unit, 'pe store_error) result"
  assume "sp' = sp\<lparr>sp_delivery := db\<rparr>"
    and "enforce_delivery_capacity lim dbytes wbytes now desc stream incoming (if progress then 1 else 0) sp = (reply, db)"
  then show "same_records (sp_delivery sp) (sp_delivery sp')"
    using enforce_same_records by simp
qed simp_all

lemma node_bytes_Ok:
  assumes "node_bytes dbytes wbytes db = (Ok retained :: (_, 'pe store_error) result)"
  shows "total_retained db = int (unat (nd_total_retained retained))"
proof -
  from assms obtain live parked a c where
    l: "sql_sum (map (\<lambda>(_, s). sr_live_bytes s) (delivery_streams db)) = (Ok live :: (_, 'pe store_error) result)"
    and a: "i64_u64 live ''total retained delivery bytes'' = (Ok a :: (_, 'pe store_error) result)"
    and p: "sql_sum (parked_bytes (\<lambda>_. True) db) = (Ok parked :: (_, 'pe store_error) result)"
    and c: "i64_u64 parked ''deferred delivery bytes'' = (Ok c :: (_, 'pe store_error) result)"
    and t: "checked_add a c = Some (nd_total_retained retained)"
    by (auto simp: node_bytes_def)
  have "live = sum_list (map (\<lambda>(_, s). sr_live_bytes s) (delivery_streams db))" "live < 2 ^ 63"
    "parked = sum_list (parked_bytes (\<lambda>_. True) db)" "parked < 2 ^ 63"
    using l p by (auto simp: sql_sum_def split: if_splits)
  then show ?thesis
    using i64_u64_exact [OF a] i64_u64_exact [OF c] t
    by (simp add: total_retained_def retained_in_def checked_add_Some case_prod_unfold)
qed

text \<open>
  A published block: the stream holds exactly the admitted bytes more, within its limit, and the node
  holds no more than its budget.
\<close>

lemma publish_block_admitted:
  assumes run: "publish_block lim dbytes wbytes now desc stream b sp = (Ok sequences :: (_, 'pe store_error) result, sp')"
    and ok: "spool_ok sp" and enabled: "delivery_enabled desc"
    and s: "map_of (delivery_streams (sp_delivery sp)) stream = Some s"
    and final: "sr_kind s = StreamBackfill \<Longrightarrow> bd_level b = Finalized"
  shows "retained_in P (sp_delivery sp') = retained_in P (sp_delivery sp)
      + (if P stream then int (changes_bytes (admitted_changes desc b)) + (if sr_kind s = StreamBackfill then 32 else 0) else 0)"
    and "stream_retained (sp_delivery sp') stream \<le> int (unat (admission_limit desc
      (if sr_kind s = StreamBackfill then map_option snd (stream_subscription sp stream) else None)))"
    and "total_retained (sp_delivery sp') \<le> int (unat (ds_maximum_retained (sl_delivery lim)))"
    and "spool_ok sp'"
proof -
  let ?db = "sp_delivery sp" and ?bytes = "changes_bytes (admitted_changes desc b) + (if sr_kind s = StreamBackfill then 32 else 0)"
  let ?limits = "if sr_kind s = StreamBackfill then map_option snd (stream_subscription sp stream) else None"
  note okd = ok [unfolded spool_ok_def]
  have "retained_in P (sp_delivery sp') = retained_in P ?db + (if P stream then int ?bytes else 0)
      \<and> stream_retained (sp_delivery sp') stream \<le> int (unat (admission_limit desc ?limits))
      \<and> total_retained (sp_delivery sp') \<le> int (unat (ds_maximum_retained (sl_delivery lim)))
      \<and> spool_ok sp'"
  proof (rule publish_block_cases [OF run])
    fix progress incoming db origin and sequences' :: "(nat \<times> nat) option"
    assume "if delivery_enabled desc then delivery_stream_is_backfill ?db stream = (Ok progress :: (_, 'pe store_error) result)
       else \<not> progress"
      and bytes: "admitted_bytes (admitted_changes desc b) progress = (Ok incoming :: (_, 'pe store_error) result)"
      and "if delivery_enabled desc
       then enforce_delivery_capacity lim dbytes wbytes now desc stream incoming (if progress then 1 else 0) sp
         = (Ok () :: (unit, 'pe store_error) result, db)
       else db = ?db"
      and d: "deliver_block now desc stream origin progress incoming b (sp\<lparr>sp_delivery := db\<rparr>)
        = (Ok (sequences', sp') :: (_, 'pe store_error) result)"
    then have e: "enforce_delivery_capacity lim dbytes wbytes now desc stream incoming (if progress then 1 else 0) sp
         = (Ok () :: (unit, 'pe store_error) result, db)" and progress: "progress = (sr_kind s = StreamBackfill)"
      using enabled s by (auto simp: delivery_stream_is_backfill_def fetch_stream_def)
    have incoming: "unat incoming = ?bytes" using admitted_bytes_Ok [OF bytes] progress by simp
    have same: "same_records ?db db"
      by (rule enforce_same_records [OF e])
    have db: "delivery_ok db" "parked_exact db"
      using spool_next_ok [OF enforce_spool_next [OF _ _ e]] okd same_records_retained [OF same] by simp_all
    have dl: "delivers stream (uint incoming) db (sp_delivery sp')"
      and subs: "subscriptions_kept (sp_subscriptions sp) (sp_subscriptions sp')"
      using deliver_block_bytes [OF d] db okd incoming progress final
      by (simp_all add: admitted_changes_def)
    have after: "retained_in P (sp_delivery sp') = retained_in P ?db + (if P stream then int ?bytes else 0)" for P
      using dl same_records_retained [OF same, of P] incoming by (simp add: delivers_def uint_nat)
    show ?thesis
    proof (rule enforce_admits [OF e])
      fix s' current retained limits
      assume s': "map_of (delivery_streams ?db) stream = Some s'"
        and limits: "limits = (if sr_kind s' \<noteq> StreamBackfill then None else map_option snd (stream_subscription sp stream))"
        and c: "stream_delivery_bytes ?db stream = (Ok current :: (_, 'pe store_error) result)"
        and room: "unat current + unat incoming \<le> unat (admission_limit desc limits)"
        and n: "node_bytes dbytes wbytes db = (Ok retained :: (_, 'pe store_error) result)"
        and total: "unat (nd_total_retained retained) + unat incoming \<le> unat (ds_maximum_retained (sl_delivery lim))"
      have "limits = ?limits" using limits s s' by simp
      with room have "int (unat current) + int ?bytes \<le> int (unat (admission_limit desc ?limits))"
        by (simp only: incoming flip: of_nat_add)
      moreover have "stream_retained (sp_delivery sp') stream = int (unat current) + int ?bytes"
        using after [of "\<lambda>st. st = stream"] stream_delivery_bytes_Ok [OF c] okd
        by (simp only: stream_retained_def if_True refl)
      ultimately have "stream_retained (sp_delivery sp') stream \<le> int (unat (admission_limit desc ?limits))" by (simp only:)
      moreover have "total_retained (sp_delivery sp') = int (unat (nd_total_retained retained)) + int ?bytes"
        using after [of "\<lambda>_. True"] node_bytes_Ok [OF n] same_records_retained [OF same, of "\<lambda>_. True"]
        by (simp only: total_retained_def if_True)
      then have "total_retained (sp_delivery sp') \<le> int (unat (ds_maximum_retained (sl_delivery lim)))"
        using total by (simp only: incoming of_nat_le_iff flip: of_nat_add)
      moreover have "spool_ok sp'"
        using dl subs by (simp add: spool_ok_def delivers_def delivery_next_def subscriptions_kept_def)
      ultimately show ?thesis using after by blast
    qed
  qed simp_all
  then show "retained_in P (sp_delivery sp') = retained_in P ?db
      + (if P stream then int (changes_bytes (admitted_changes desc b)) + (if sr_kind s = StreamBackfill then 32 else 0) else 0)"
    "stream_retained (sp_delivery sp') stream \<le> int (unat (admission_limit desc ?limits))"
    "total_retained (sp_delivery sp') \<le> int (unat (ds_maximum_retained (sl_delivery lim)))" "spool_ok sp'"
    by auto
qed

section \<open>Completing through admission\<close>

lemma append_completion_cases:
  assumes "append_backfill_completion lim dbytes wbytes now desc stream c subscription through sp
      = (answer :: (nat, 'pe store_error) result, sp')"
  obtains (failed) e where "answer = Err e" "sp' = sp"
  | (refused) e db bytes reply where "answer = Err e" "sp' = sp\<lparr>sp_delivery := db\<rparr>"
      "enforce_delivery_capacity lim dbytes wbytes now desc stream bytes 0 sp = (reply :: (unit, 'pe store_error) result, db)"
  | (completed) l db where "answer = Ok l"
      "if completion_record (sp_delivery sp) stream = None
       then \<exists>bytes. enforce_delivery_capacity lim dbytes wbytes now desc stream bytes 0 sp
         = (Ok () :: (unit, 'pe store_error) result, db)
       else db = sp_delivery sp"
      "append_backfill_completion_transaction now (pd_instance desc) stream c subscription through (sp\<lparr>sp_delivery := db\<rparr>)
        = (Ok (l, sp') :: (_, 'pe store_error) result)"
proof -
  define admit where "admit = (if completion_record (sp_delivery sp) stream = None
          then (case (and_then (ok_or (map_of (sp_subscriptions sp) subscription) (Sqlx ''no row''))
                  (completion_bytes subscription) :: (u64, 'pe store_error) result) of
               Inl e \<Rightarrow> (Err e, sp)
             | Inr bytes \<Rightarrow>
                 (let (a, db) = enforce_delivery_capacity lim dbytes wbytes now desc stream bytes 0 sp
                  in (a, sp\<lparr>sp_delivery := db\<rparr>)))
          else (Ok () :: (unit, 'pe store_error) result, sp))"
  obtain reply sp1 where reply: "admit = (reply, sp1)" by (cases admit)
  have admitted: "sp1 = sp \<and> (completion_record (sp_delivery sp) stream = None \<longrightarrow> (\<exists>e. reply = Err e))
      \<or> completion_record (sp_delivery sp) stream = None \<and> (\<exists>bytes db. sp1 = sp\<lparr>sp_delivery := db\<rparr>
         \<and> enforce_delivery_capacity lim dbytes wbytes now desc stream bytes 0 sp = (reply, db))"
    using reply by (auto simp: admit_def split: if_splits sum.splits prod.splits)
  have run: "(answer, sp') = or_stop reply sp1 (\<lambda>_.
           or_stop (append_backfill_completion_transaction now (pd_instance desc) stream c subscription through sp1) sp1
             (\<lambda>(sequence, sp2). (Ok sequence, sp2)))" if "\<not> (\<exists>e. answer = Err e \<and> sp' = sp)"
    using assms that unfolding append_backfill_completion_def admit_def [symmetric] reply
    by (auto simp: or_stop_def split: sum.splits if_splits)
  show thesis
  proof (cases "\<exists>e. answer = Err e \<and> sp' = sp")
    case True
    then show thesis using failed by blast
  next
    case other: False
    then have run: "(answer, sp') = or_stop reply sp1 (\<lambda>_.
           or_stop (append_backfill_completion_transaction now (pd_instance desc) stream c subscription through sp1) sp1
             (\<lambda>(sequence, sp2). (Ok sequence, sp2)))"
      using run by blast
    show thesis
    proof (cases answer)
      case (Inl e)
      then have "sp' = sp1" using run by (auto simp: or_stop_def split: sum.splits prod.splits)
      then show thesis using refused Inl admitted other by blast
    next
      case (Inr l)
      then have r: "reply = Ok ()" and t: "append_backfill_completion_transaction now (pd_instance desc) stream c
          subscription through sp1 = (Ok (l, sp') :: (_, 'pe store_error) result)"
        using run by (auto simp: or_stop_def split: sum.splits prod.splits)
      have sp1: "sp1 = sp\<lparr>sp_delivery := sp_delivery sp1\<rparr>" using admitted by auto
      have "if completion_record (sp_delivery sp) stream = None
         then \<exists>bytes. enforce_delivery_capacity lim dbytes wbytes now desc stream bytes 0 sp
           = (Ok () :: (unit, 'pe store_error) result, sp_delivery sp1)
         else sp_delivery sp1 = sp_delivery sp"
        using admitted r by auto
      then show thesis
        by (rule completed [OF Inr _ t [unfolded arg_cong [OF sp1, of "append_backfill_completion_transaction now
          (pd_instance desc) stream c subscription through"]]])
    qed
  qed
qed

lemma append_completion_next:
  assumes run: "append_backfill_completion lim dbytes wbytes now desc stream c subscription through sp
      = (answer :: nat delivered, sp')"
    and ok: "delivery_ok (sp_delivery sp)" "ordered (sp_subscriptions sp)"
  shows "spool_next sp sp'"
proof (rule append_completion_cases [OF run])
  fix e assume "sp' = sp"
  then show ?thesis using spool_next_refl [OF ok] by simp
next
  fix db bytes and reply :: "unit delivered"
  assume "sp' = sp\<lparr>sp_delivery := db\<rparr>" "enforce_delivery_capacity lim dbytes wbytes now desc stream bytes 0 sp = (reply, db)"
  then show ?thesis using enforce_spool_next [OF ok] by blast
next
  fix l db
  assume e: "if completion_record (sp_delivery sp) stream = None
       then \<exists>bytes. enforce_delivery_capacity lim dbytes wbytes now desc stream bytes 0 sp = (Ok () :: unit delivered, db)
       else db = sp_delivery sp"
    and t: "append_backfill_completion_transaction now (pd_instance desc) stream c subscription through (sp\<lparr>sp_delivery := db\<rparr>)
        = (Ok (l, sp') :: _ delivered)"
  have n: "spool_next sp (sp\<lparr>sp_delivery := db\<rparr>)"
    using e enforce_spool_next [OF ok] spool_next_refl [OF ok] by (auto split: if_splits)
  note okn = spool_next_ok [OF n]
  have "spool_next (sp\<lparr>sp_delivery := db\<rparr>) sp'"
    using completion_transaction_run [OF t] delivery_run_next [OF completion_transaction_run(1) [OF t]] okn
    unfolding spool_next_def by blast
  with n show ?thesis by (rule spool_next_trans)
qed

text \<open>
  The operations on the spool; errors carry no encoding error. The covered blocks are written by the
  canonical store's coverage bookkeeping: here they may change in any way.
\<close>

inductive spool_step :: "(string \<Rightarrow> bytes) \<Rightarrow> spool \<Rightarrow> spool \<Rightarrow> bool" for ch where
  spool_delivery: "delivery_step ch (sp_delivery sp) db \<Longrightarrow> spool_step ch sp (sp\<lparr>sp_delivery := db\<rparr>)"
| spool_publish: "publish_block lim database_bytes wal_bytes now desc stream b sp = (answer :: _ delivered, sp')
    \<Longrightarrow> spool_step ch sp sp'"
| spool_complete: "append_backfill_completion lim database_bytes wal_bytes now desc stream c subscription through sp
    = (reply :: _ delivered, sp') \<Longrightarrow> spool_step ch sp sp'"
| spool_state: "set_backfill_subscription_state job state error sp = (changed, sp') \<Longrightarrow> spool_step ch sp sp'"
| spool_retry: "retry_failed_backfill_subscription job outcome sp = (changed, sp') \<Longrightarrow> spool_step ch sp sp'"
| spool_reclaim: "mark_backfill_subscription_reclaimable subscription acknowledged sp = (Ok (changed, sp') :: _ delivered)
    \<Longrightarrow> spool_step ch sp sp'"
| spool_create: "create_backfill_subscription_job q job row identity sp = (Ok (j, sp') :: _ delivered) \<Longrightarrow> request_ok q
    \<Longrightarrow> spool_step ch sp sp'"
| spool_coverage: "spool_step ch sp (sp\<lparr>sp_coverage := coverage, sp_segments := segments\<rparr>)"
| spool_job: "save_job job row sp = (Ok sp' :: _ delivered) \<Longrightarrow> spool_step ch sp sp'"

lemma spool_step_next:
  assumes "spool_step ch sp sp'" and ok: "delivery_ok (sp_delivery sp)" "ordered (sp_subscriptions sp)"
  shows "spool_next sp sp'"
  using assms(1)
proof cases
  case (spool_delivery db)
  then show ?thesis using spool_next_delivery delivery_step_next ok by blast
next
  case (spool_publish lim database_bytes wal_bytes now desc stream b answer)
  then show ?thesis using publish_block_next ok by blast
next
  case (spool_complete lim database_bytes wal_bytes now desc stream c subscription through reply)
  then show ?thesis using append_completion_next ok by blast
next
  case (spool_state job state error changed)
  then show ?thesis using set_state_kept [OF ok(2)] delivery_next_refl [OF ok(1)] by (auto simp: spool_next_def)
next
  case (spool_retry job outcome changed)
  then show ?thesis using retry_kept [OF ok(2)] delivery_next_refl [OF ok(1)] by (auto simp: spool_next_def)
next
  case (spool_reclaim subscription acknowledged changed)
  then show ?thesis using mark_reclaimable_kept [OF ok(2)] delivery_next_refl [OF ok(1)] by (auto simp: spool_next_def)
next
  case (spool_create q job row identity j)
  from create_kept [OF this ok(2)] show ?thesis using delivery_next_refl [OF ok(1)] by (simp add: spool_next_def)
next
  case (spool_coverage coverage segments)
  then show ?thesis using spool_next_refl [OF ok] by (simp add: spool_next_def)
next
  case (spool_job job row)
  then show ?thesis using spool_next_refl [OF ok] by (auto simp: save_job_def spool_next_def split: if_splits)
qed

interpretation spool: kept_invariant "spool_step ch" "spool_next base" for ch base
  by unfold_locales (use spool_step_next spool_next_trans spool_next_ok in blast)

lemma spool_run_next:
  "(spool_step ch)\<^sup>*\<^sup>* sp sp' \<Longrightarrow> delivery_ok (sp_delivery sp) \<Longrightarrow> ordered (sp_subscriptions sp) \<Longrightarrow> spool_next sp sp'"
  using spool.run_keeps [of ch sp sp' sp] spool_next_refl [of sp] by simp

section \<open>The record of a completion\<close>

lemma completion_metadata_delivery [simp]:
  "backfill_completion_metadata (sp\<lparr>sp_delivery := db\<rparr>) stream subscription = backfill_completion_metadata sp stream subscription"
  by (simp add: backfill_completion_metadata_def)

lemma completion_record_same: "same_records db db' \<Longrightarrow> completion_record db' stream = completion_record db stream"
  by (simp add: same_records_def completion_record_def stream_rows_def)

text \<open>The first completion writes the accounts; the row of the subscription names the record.\<close>

lemma completion_recorded:
  assumes run: "append_backfill_completion lim dbytes wbytes now desc stream c subscription through sp
      = (Ok l :: (nat, 'pe store_error) result, sp')"
    and ok: "delivery_ok (sp_delivery sp)" "ordered (sp_subscriptions sp)"
    and new: "completion_record (sp_delivery sp) stream = None"
  obtains r m row where "map_of (sp_subscriptions sp) subscription = Some r" "sb_stream r = stream"
    "backfill_completion_metadata sp stream subscription = (Ok m :: (_, 'pe store_error) result)"
    "map_of (stream_rows (sp_delivery sp') stream) l = Some row"
    "cl_change row = \<lparr>ch_kind = BACKFILL_COMPLETE, ch_key = map of_char subscription, ch_operation = Upsert,
       ch_payload = encode_backfill_completion_metadata m\<rparr>"
    "cl_origin row = subscription_origin subscription r" "number (cl_block row) = through"
    "completion_record (sp_delivery sp') stream = Some l"
    "map_of (sp_subscriptions sp') subscription = Some (completed_row l r)"
proof (rule append_completion_cases [OF run])
  fix l' db
  assume "(Ok l :: (nat, 'pe store_error) result) = Ok l'"
    and e: "if completion_record (sp_delivery sp) stream = None
       then \<exists>bytes. enforce_delivery_capacity lim dbytes wbytes now desc stream bytes 0 sp
         = (Ok () :: (unit, 'pe store_error) result, db)
       else db = sp_delivery sp"
    and t: "append_backfill_completion_transaction now (pd_instance desc) stream c subscription through
      (sp\<lparr>sp_delivery := db\<rparr>) = (Ok (l', sp') :: (_, 'pe store_error) result)"
  then have l: "l' = l" by simp
  obtain bytes where e: "enforce_delivery_capacity lim dbytes wbytes now desc stream bytes 0 sp
      = (Ok () :: (unit, 'pe store_error) result, db)" using e new by auto
  have db: "delivery_ok db" using spool_next_ok [OF enforce_spool_next [OF ok e]] by simp
  have none: "completion_record db stream = None"
    using completion_record_same [OF enforce_same_records [OF e]] new by simp
  obtain r where r: "map_of (sp_subscriptions sp) subscription = Some r" "sb_stream r = stream"
    and p: "publish_completion now (pd_instance desc) stream c subscription through (subscription_origin subscription r)
        (sp\<lparr>sp_delivery := db\<rparr>) = (Ok (l, sp_delivery sp') :: (_, 'pe store_error) result)"
    and s: "sp_subscriptions sp' = tput subscription (completed_row l r) (sp_subscriptions sp)"
    by (rule completion_transaction_Ok [OF t]) (auto simp: none l)
  have db': "delivery_ok (sp_delivery (sp\<lparr>sp_delivery := db\<rparr>))" using db by simp
  show thesis
  proof (rule publish_completion_effect [OF p db'])
    fix m and row :: change_row and db1
    assume m: "backfill_completion_metadata (sp\<lparr>sp_delivery := db\<rparr>) stream subscription
        = (Ok m :: (_, 'pe store_error) result)"
      and rows: "stream_rows (sp_delivery sp') stream = stream_rows db1 stream @ [(l, row)]"
      and row: "cl_change row = \<lparr>ch_kind = BACKFILL_COMPLETE, ch_key = map of_char subscription, ch_operation = Upsert,
        ch_payload = encode_backfill_completion_metadata m\<rparr>"
        "cl_origin row = subscription_origin subscription r" "number (cl_block row) = through"
      and c: "completion_record (sp_delivery sp') stream = Some l" and ok': "delivery_ok (sp_delivery sp')"
    have "ordered (stream_rows (sp_delivery sp') stream)"
      using delivery_okD(1) [OF ok'] stream_rows_table(1) by (simp add: delivery_ordered_def)
    then have "map_of (stream_rows (sp_delivery sp') stream) l = Some row"
      by (intro map_of_is_SomeI ordered_distinct) (simp_all add: rows)
    moreover have "map_of (sp_subscriptions sp') subscription = Some (completed_row l r)"
      using ok(2) by (simp add: s)
    ultimately show thesis using that r m row c by simp
  qed
qed simp_all

text \<open>A further call returns the same record and publishes nothing.\<close>

lemma completion_repeated:
  assumes r: "map_of (sp_subscriptions sp) subscription = Some r" "sb_stream r = stream"
    and s: "map_of (delivery_streams (sp_delivery sp)) stream = Some s" "sr_kind s = StreamBackfill"
      "sr_instance s = pd_instance desc"
    and l: "completion_record (sp_delivery sp) stream = Some l"
  obtains sp' where "append_backfill_completion lim dbytes wbytes now desc stream c subscription through sp
      = (Ok l :: (nat, 'pe store_error) result, sp')" "sp_delivery sp' = sp_delivery sp"
    "sp_subscriptions sp' = tput subscription (completed_row l r) (sp_subscriptions sp)"
  using r s l that by (simp add: append_backfill_completion_def validate_delivery_stream_def fetch_stream_def ok_or_def
    append_backfill_completion_transaction_def completed_row_def)

lemma append_completion_stream:
  assumes run: "append_backfill_completion lim dbytes wbytes now desc stream c subscription through sp
      = (Ok l :: (nat, 'pe store_error) result, sp')"
  obtains s where "map_of (delivery_streams (sp_delivery sp)) stream = Some s" "sr_kind s = StreamBackfill"
    "sr_instance s = pd_instance desc"
  using run by (auto simp: append_backfill_completion_def validate_delivery_stream_def fetch_stream_def
    or_stop_def split: sum.splits option.splits if_splits)

text \<open>A subscription becomes reclaimable when its reader has acknowledged the completion record, and only then.\<close>

lemma reclaimable_iff:
  assumes "mark_backfill_subscription_reclaimable subscription acknowledged sp = (Ok (changed, sp') :: (_, 'pe store_error) result)"
    and "ordered (sp_subscriptions sp)"
  shows "changed \<longleftrightarrow> (\<exists>r n. map_of (sp_subscriptions sp) subscription = Some r \<and> sb_state r = Draining
      \<and> sb_completion r = Some n \<and> n \<le> acknowledged)"
    and "sp_delivery sp' = sp_delivery sp"
    and "map_of (sp_subscriptions sp') = (if changed then (map_of (sp_subscriptions sp))(subscription \<mapsto>
      (the (map_of (sp_subscriptions sp) subscription))\<lparr>sb_state := CompleteReclaimable\<rparr>) else map_of (sp_subscriptions sp))"
  using assms by (auto simp: mark_backfill_subscription_reclaimable_def split: option.splits if_splits)

section \<open>Reachable states\<close>

text \<open>An empty store; subscriptions only come from creation.\<close>

definition spool_new :: spool where
  "spool_new = \<lparr>sp_delivery = delivery_new, sp_subscriptions = [], sp_jobs = [], sp_identities = [], sp_owners = [],
     sp_coverage = [], sp_segments = []\<rparr>"

lemma spool_reachable_next: "(spool_step ch)\<^sup>*\<^sup>* spool_new sp \<Longrightarrow> spool_next spool_new sp"
  using spool_run_next [of ch spool_new sp] delivery_new_ok by (simp add: spool_new_def)

lemma spool_reachable_sound:
  assumes "(spool_step ch)\<^sup>*\<^sup>* spool_new sp" "map_of (sp_subscriptions sp) k = Some r"
  shows "subscription_sound r"
  using spool_reachable_next [OF assms(1)] assms(2) by (simp add: spool_next_def subscriptions_kept_def spool_new_def)

lemma spool_reachable_ok:
  "(spool_step ch)\<^sup>*\<^sup>* spool_new sp \<Longrightarrow> delivery_ok (sp_delivery sp) \<and> ordered (sp_subscriptions sp)"
  by (rule spool_next_ok [OF spool_reachable_next])

end
