(* ===== verification/Blob_Fees.thy ===== *)
theory Blob_Fees
  imports Deltas Complex_Main
begin

text \<open>
  The fee arithmetic of the blobs processor, \<^verbatim>\<open>crates/processor-blobs/src/math.rs\<close>: the integer
  expansion of the exponential that EIP-4844 prescribes, in checked 256-bit steps, and the fees
  computed with it. The specification is the same expansion over the natural numbers.
\<close>

section \<open>The expansion\<close>

type_synonym u256 = "256 word"

definition BLOB_GAS_PER_BLOB :: u64 where
  "BLOB_GAS_PER_BLOB = 131072"

definition MIN_BLOB_BASE_FEE :: u64 where
  "MIN_BLOB_BASE_FEE = 1"

definition BLOB_BASE_COST :: u64 where
  "BLOB_BASE_COST = 8192"

definition checked_times :: "'a::len word \<Rightarrow> 'a word \<Rightarrow> 'a word option" where
  "checked_times a b = (if unat a * unat b < 2 ^ LENGTH('a) then Some (a * b) else None)"

lemma checked_times_Some:
  "checked_times a b = Some c \<longleftrightarrow> unat (c :: 'a::len word) = unat a * unat b"
proof (cases "unat a * unat b < 2 ^ LENGTH('a)")
  case True
  then show ?thesis by (auto simp: checked_times_def word_eq_nat unat_word_ariths)
next
  case False
  moreover have "unat c \<noteq> unat a * unat b" using unat_less_power [of c] False by linarith
  ultimately show ?thesis by (simp add: checked_times_def)
qed

lemma checked_times_None: "checked_times a b = None \<longleftrightarrow> 2 ^ LENGTH('a) \<le> unat (a :: 'a::len word) * unat b"
  by (auto simp: checked_times_def)

text \<open>
  The loop of \<^verbatim>\<open>fake_exponential\<close>. It ends because the iteration grows until the divisor exceeds the
  numerator, and from then on the accumulator shrinks.
\<close>

definition fee_overflow :: processor_error where
  "fee_overflow = InvariantError ''blob fee overflow''"

function fee_loop :: "u256 \<Rightarrow> u256 \<Rightarrow> u256 \<Rightarrow> u256 \<Rightarrow> u256 \<Rightarrow> (u256, processor_error) result" where
  "fee_loop numerator denominator output_sum accumulator iteration =
     (if accumulator = 0 then Ok output_sum
      else case checked_add output_sum accumulator of
        None \<Rightarrow> Err fee_overflow
      | Some next_output \<Rightarrow>
          (case checked_times denominator iteration of
             None \<Rightarrow> Err fee_overflow
           | Some divisor \<Rightarrow>
               (case checked_times accumulator numerator of
                  None \<Rightarrow> Err fee_overflow
                | Some product \<Rightarrow>
                    (case checked_add iteration 1 of
                       None \<Rightarrow> Err fee_overflow
                     | Some next_iteration \<Rightarrow>
                         fee_loop numerator denominator next_output (product div divisor) next_iteration))))"
  by pat_completeness auto

lemma fee_loop_shrinks:
  fixes acc d i n :: u256
  assumes "acc \<noteq> 0" "checked_times d i = Some divisor" "checked_times acc n = Some product" "checked_add i 1 = Some next_i"
  shows "Suc (unat n) - unat d * unat next_i < Suc (unat n) - unat d * unat i
    \<or> Suc (unat n) - unat d * unat next_i = Suc (unat n) - unat d * unat i \<and> unat (product div divisor) < unat acc"
proof -
  have sizes: "unat divisor = unat d * unat i" "unat product = unat acc * unat n" "unat next_i = Suc (unat i)"
    using assms(2-4) by (simp_all add: checked_times_Some checked_add_Some)
  have acc: "0 < unat acc" using assms(1) by (simp add: unat_gt_0)
  show ?thesis
  proof (cases "unat d * unat i \<le> unat n \<and> 0 < unat d")
    case True
    then have "unat d * unat i < unat d * unat next_i" by (simp add: sizes)
    with True show ?thesis by linarith
  next
    case False
    have "unat (product div divisor) < unat acc"
    proof (cases "unat d = 0")
      case True
      then show ?thesis using acc by (simp add: unat_div sizes)
    next
      case nz: False
      with False have "unat n < unat divisor" by (simp add: sizes)
      then have "unat acc * unat n < unat acc * unat divisor" using acc by simp
      then show ?thesis by (simp add: unat_div sizes less_mult_imp_div_less mult.commute)
    qed
    moreover have "Suc (unat n) - unat d * unat next_i = Suc (unat n) - unat d * unat i" using False by (auto simp: sizes)
    ultimately show ?thesis by simp
  qed
qed

termination fee_loop
  by (relation "measures [\<lambda>(n, d, out, acc, i). Suc (unat n) - unat d * unat i, \<lambda>(n, d, out, acc, i). unat acc]")
    (use fee_loop_shrinks in auto)

declare fee_loop.simps [simp del]

definition fake_exponential :: "u256 \<Rightarrow> u256 \<Rightarrow> u256 \<Rightarrow> (u256, processor_error) result" where
  "fake_exponential factor numerator denominator =
     (if denominator = 0 then Err (InvariantError ''blob fee denominator is zero'')
      else case checked_times factor denominator of
        None \<Rightarrow> Err fee_overflow
      | Some accumulator \<Rightarrow>
          and_then (fee_loop numerator denominator 0 accumulator 1) (\<lambda>out. Ok (out div denominator)))"

definition get_blob_base_fee :: "u64 \<Rightarrow> u64 \<Rightarrow> (u256, processor_error) result" where
  "get_blob_base_fee excess_blob_gas update_fraction =
     fake_exponential (ucast MIN_BLOB_BASE_FEE) (ucast excess_blob_gas) (ucast update_fraction)"

definition calculate_eip7918_floor :: "u256 \<Rightarrow> (u256, processor_error) result" where
  "calculate_eip7918_floor execution_base_fee =
     (case checked_times execution_base_fee (ucast BLOB_BASE_COST) of
        None \<Rightarrow> Err (InvariantError ''reserve fee overflow'')
      | Some v \<Rightarrow> Ok (v div ucast BLOB_GAS_PER_BLOB))"

definition checked_mul :: "u256 \<Rightarrow> u256 \<Rightarrow> (u256, processor_error) result" where
  "checked_mul a b = ok_or (checked_times a b) (InvariantError ''wei multiplication overflow'')"

section \<open>The expansion over the natural numbers\<close>

text \<open>The terms of the expansion; once a term is zero all later ones are.\<close>

fun fee_term :: "nat \<Rightarrow> nat \<Rightarrow> nat \<Rightarrow> nat \<Rightarrow> nat" where
  "fee_term factor numerator denominator 0 = factor * denominator"
| "fee_term factor numerator denominator (Suc k) =
     fee_term factor numerator denominator k * numerator div (denominator * Suc k)"

definition fee_sum :: "nat \<Rightarrow> nat \<Rightarrow> nat \<Rightarrow> nat \<Rightarrow> nat" where
  "fee_sum f n d k = (\<Sum>j<k. fee_term f n d j)"

text \<open>An expansion of so many terms whose intermediate values fit in 256 bits.\<close>

definition fee_fits :: "nat \<Rightarrow> nat \<Rightarrow> nat \<Rightarrow> nat \<Rightarrow> bool" where
  "fee_fits f n d k =
     (f * d < 2 ^ 256 \<and> fee_term f n d k = 0 \<and> (\<forall>j<k. fee_term f n d j \<noteq> 0)
      \<and> fee_sum f n d k < 2 ^ 256 \<and> k + 1 < 2 ^ 256
      \<and> (\<forall>j<k. fee_term f n d j * n < 2 ^ 256 \<and> d * Suc j < 2 ^ 256))"

lemma fee_sum_Suc: "fee_sum f n d (Suc k) = fee_sum f n d k + fee_term f n d k"
  by (simp add: fee_sum_def)

lemma fee_sum_mono: "j \<le> k \<Longrightarrow> fee_sum f n d j \<le> fee_sum f n d k"
  by (simp add: fee_sum_def sum_mono2)

lemma fee_term_zero: "fee_term f n d k = 0 \<Longrightarrow> k \<le> j \<Longrightarrow> fee_term f n d j = 0"
  by (rule dec_induct [of k j "\<lambda>j. fee_term f n d j = 0"]) simp_all

section \<open>The code computes the expansion\<close>

text \<open>From the state after \<open>k\<close> rounds the loop returns exactly when the remaining rounds fit.\<close>

definition fee_rounds :: "nat \<Rightarrow> nat \<Rightarrow> nat \<Rightarrow> nat \<Rightarrow> nat \<Rightarrow> bool" where
  "fee_rounds f n d k l =
     (k \<le> l \<and> fee_term f n d l = 0 \<and> fee_sum f n d l < 2 ^ 256 \<and> l + 1 < 2 ^ 256
      \<and> (\<forall>j. k \<le> j \<and> j < l \<longrightarrow> fee_term f n d j \<noteq> 0 \<and> fee_term f n d j * n < 2 ^ 256 \<and> d * Suc j < 2 ^ 256))"

lemma fee_rounds_stop:
  "fee_term f n d k = 0 \<Longrightarrow> fee_rounds f n d k l \<longleftrightarrow> l = k \<and> fee_sum f n d k < 2 ^ 256 \<and> k + 1 < 2 ^ 256"
  by (auto simp: fee_rounds_def) (use le_neq_implies_less in blast)

lemma fee_rounds_step:
  "fee_term f n d k \<noteq> 0 \<Longrightarrow> fee_rounds f n d k l \<longleftrightarrow>
    fee_sum f n d (Suc k) < 2 ^ 256 \<and> d * Suc k < 2 ^ 256 \<and> fee_term f n d k * n < 2 ^ 256 \<and> Suc k + 1 < 2 ^ 256
      \<and> fee_rounds f n d (Suc k) l"
  (is "?nz \<Longrightarrow> ?L \<longleftrightarrow> ?R")
proof
  assume nz: "fee_term f n d k \<noteq> 0"
  {
    assume L: ?L
    then have "k < l" using nz by (auto simp: fee_rounds_def le_less)
    with L show ?R
      using fee_sum_mono [of "Suc k" l f n d] by (fastforce simp: fee_rounds_def)
  }
  {
    assume R: ?R
    then show ?L
      using nz unfolding fee_rounds_def by (metis Suc_leI Suc_leD le_neq_implies_less)
  }
qed

lemma fee_loop_exact:
  assumes "unat acc = fee_term f (unat n) (unat d) k" "unat out = fee_sum f (unat n) (unat d) k" "unat i = Suc k"
  shows "fee_loop n d out acc i = Ok v \<longleftrightarrow>
    (\<exists>l. fee_rounds f (unat n) (unat d) k l \<and> unat v = fee_sum f (unat n) (unat d) l)"
  using assms
proof (induction n d out acc i arbitrary: k rule: fee_loop.induct)
  case (1 n d out acc i)
  let ?t = "fee_term f (unat n) (unat d)" and ?s = "fee_sum f (unat n) (unat d)"
  have bound: "unat (x :: u256) < 2 ^ 256" for x using unat_less_power [of x] by simp
  show ?case
  proof (cases "acc = 0")
    case True
    then have "?t k = 0" using "1.prems"(1) by simp
    then show ?thesis
      using True "1.prems" bound [of out] bound [of i]
      by (auto simp: fee_loop.simps [of n d out acc i] fee_rounds_stop word_eq_nat)
  next
    case False
    then have nz: "?t k \<noteq> 0" using "1.prems"(1) by (metis unat_eq_0)
    note step = fee_rounds_step [OF nz]
    consider (out) "checked_add out acc = None" | (div) "checked_times d i = None" | (mul) "checked_times acc n = None"
      | (it) "checked_add i 1 = None"
      | (go) o' dv p i' where "checked_add out acc = Some o'" "checked_times d i = Some dv" "checked_times acc n = Some p"
          "checked_add i 1 = Some i'"
      by (metis option.exhaust)
    then show ?thesis
    proof cases
      case go
      have next_state: "unat (p div dv) = ?t (Suc k)" "unat o' = ?s (Suc k)" "unat i' = Suc (Suc k)"
        using go "1.prems" by (simp_all add: checked_add_Some checked_times_Some unat_div fee_sum_Suc)
      have fits: "?s (Suc k) < 2 ^ 256" "unat d * Suc k < 2 ^ 256" "?t k * unat n < 2 ^ 256" "Suc k + 1 < 2 ^ 256"
        using bound [of o'] bound [of dv] bound [of p] bound [of i'] go "1.prems" next_state
        by (simp_all add: checked_times_Some)
      have "fee_loop n d out acc i = fee_loop n d o' (p div dv) i'"
        using False go by (simp add: fee_loop.simps [of n d out acc i])
      then show ?thesis
        using "1.IH" [OF False go next_state] fits by (simp add: step)
    next
      case out
      then have "\<not> ?s (Suc k) < 2 ^ 256" using "1.prems" by (simp add: checked_add_None fee_sum_Suc)
      then show ?thesis using False out by (simp add: fee_loop.simps [of n d out acc i] step)
    next
      case div
      then have "\<not> unat d * Suc k < 2 ^ 256" using "1.prems" by (simp add: checked_times_None)
      then show ?thesis using False div by (simp add: fee_loop.simps [of n d out acc i] step split: option.splits)
    next
      case mul
      then have "\<not> ?t k * unat n < 2 ^ 256" using "1.prems" by (simp add: checked_times_None)
      then show ?thesis using False mul by (simp add: fee_loop.simps [of n d out acc i] step split: option.splits)
    next
      case it
      then have "\<not> Suc k + 1 < 2 ^ 256" using "1.prems" by (simp add: checked_add_None)
      then show ?thesis using False it by (simp add: fee_loop.simps [of n d out acc i] step split: option.splits)
    qed
  qed
qed

lemma fee_loop_error: "fee_loop n d out acc i = Err e \<Longrightarrow> e = fee_overflow"
  by (induction n d out acc i rule: fee_loop.induct)
    (subst (asm) fee_loop.simps, auto split: if_splits option.splits)

lemma fake_exponential_exact:
  "fake_exponential f n d = Ok v \<longleftrightarrow>
    d \<noteq> 0 \<and> (\<exists>l. fee_fits (unat f) (unat n) (unat d) l \<and> unat v = fee_sum (unat f) (unat n) (unat d) l div unat d)"
proof (cases "d = 0 \<or> checked_times f d = None")
  case True
  then show ?thesis by (auto simp: fake_exponential_def checked_times_def fee_fits_def split: if_splits)
next
  case False
  then obtain acc where acc: "checked_times f d = Some acc" "d \<noteq> 0" by blast
  then have start: "unat acc = fee_term (unat f) (unat n) (unat d) 0" by (simp add: checked_times_Some)
  have "fake_exponential f n d = Ok v \<longleftrightarrow> (\<exists>out. fee_loop n d 0 acc 1 = Ok out \<and> out div d = v)"
    using acc by (auto simp: fake_exponential_def)
  also have "\<dots> \<longleftrightarrow> (\<exists>out l. fee_rounds (unat f) (unat n) (unat d) 0 l \<and> unat out = fee_sum (unat f) (unat n) (unat d) l
      \<and> out div d = v)"
    using fee_loop_exact [OF start, of 0 1] by (auto simp: fee_sum_def)
  also have "\<dots> \<longleftrightarrow> (\<exists>l. fee_rounds (unat f) (unat n) (unat d) 0 l \<and> unat v = fee_sum (unat f) (unat n) (unat d) l div unat d)"
    (is "?L \<longleftrightarrow> ?R")
  proof
    show "?L \<Longrightarrow> ?R" by (auto simp: unat_div)
    assume ?R
    then obtain l where l: "fee_rounds (unat f) (unat n) (unat d) 0 l" "unat v = fee_sum (unat f) (unat n) (unat d) l div unat d"
      by blast
    have "unat (of_nat (fee_sum (unat f) (unat n) (unat d) l) :: u256) = fee_sum (unat f) (unat n) (unat d) l"
      using l(1) by (simp add: fee_rounds_def unat_of_nat)
    with l show ?L by (intro exI [of _ "of_nat (fee_sum (unat f) (unat n) (unat d) l)"] exI [of _ l])
      (simp add: word_eq_nat unat_div)
  qed
  also have "\<dots> \<longleftrightarrow> (\<exists>l. fee_fits (unat f) (unat n) (unat d) l \<and> unat v = fee_sum (unat f) (unat n) (unat d) l div unat d)"
    using acc(1) unat_less_power [of acc] by (auto simp: fee_rounds_def fee_fits_def start)
  finally show ?thesis using acc(2) by simp
qed


lemma fake_exponential_error:
  "fake_exponential f n d = Err e \<Longrightarrow> d \<noteq> 0 \<Longrightarrow> e = fee_overflow"
  by (auto simp: fake_exponential_def and_then_def split: option.splits sum.splits dest: fee_loop_error)

section \<open>What the fee is\<close>

lemma fee_fits_unique: "fee_fits f n d k \<Longrightarrow> fee_fits f n d l \<Longrightarrow> k = l"
  by (metis fee_fits_def nat_neq_iff)

text \<open>The terms below the ideal ones of the exponential series.\<close>

lemma fee_term_below: "0 < d \<Longrightarrow> real (fee_term f n d k) \<le> real f * real d * ((real n / real d) ^ k / fact k)"
proof (induction k)
  case 0
  then show ?case by simp
next
  case (Suc k)
  have "real (fee_term f n d (Suc k)) \<le> real (fee_term f n d k) * real n / (real d * real (Suc k))"
    using of_nat_div_le_of_nat [where 'a = real, of "fee_term f n d k * n" "d * Suc k"]
    by (simp add: algebra_simps)
  also have "\<dots> = real (fee_term f n d k) * (real n / real d / real (Suc k))" by simp
  also have "\<dots> \<le> (real f * real d * ((real n / real d) ^ k / fact k)) * (real n / real d / real (Suc k))"
    using Suc by (intro mult_right_mono) simp_all
  also have "\<dots> = real f * real d * ((real n / real d) ^ Suc k / fact (Suc k))" by (simp add: mult.commute)
  finally show ?case .
qed

lemma fee_sum_below: "0 < d \<Longrightarrow> real (fee_sum f n d k) \<le> real f * real d * exp (real n / real d)"
proof -
  assume d: "0 < d"
  let ?x = "real n / real d"
  have "real (fee_sum f n d k) \<le> (\<Sum>j<k. real f * real d * (?x ^ j / fact j))"
    unfolding fee_sum_def of_nat_sum by (intro sum_mono fee_term_below d)
  also have "\<dots> = real f * real d * (\<Sum>j<k. ?x ^ j / fact j)" by (simp add: sum_distrib_left)
  also have "(\<Sum>j<k. ?x ^ j / fact j) \<le> exp ?x"
  proof -
    have "(\<Sum>j<k. ?x ^ j / fact j) = (\<Sum>j<k. inverse (fact j) * ?x ^ j)" by (simp add: divide_inverse mult.commute)
    also have "\<dots> \<le> (\<Sum>j. inverse (fact j) * ?x ^ j)"
      by (rule sum_le_suminf) (use summable_exp [of ?x] in simp_all)
    finally show ?thesis by (simp add: exp_def divide_inverse mult.commute)
  qed
  finally show ?thesis using mult_left_mono by fastforce
qed

lemma fee_quotient_below: "0 < d \<Longrightarrow> real (fee_sum f n d k div d) \<le> real f * exp (real n / real d)"
proof -
  assume d: "0 < d"
  have "real (fee_sum f n d k div d) \<le> real (fee_sum f n d k) / real d" by (rule of_nat_div_le_of_nat)
  also have "\<dots> \<le> real f * real d * exp (real n / real d) / real d"
    by (intro divide_right_mono fee_sum_below d) simp
  finally show ?thesis using d by simp
qed

lemma fee_term_mono: "0 < d \<Longrightarrow> n \<le> m \<Longrightarrow> fee_term f n d k \<le> fee_term f m d k"
  by (induction k) (simp_all add: div_le_mono mult_le_mono)

lemma fee_sum_beyond: "fee_term f n d k = 0 \<Longrightarrow> k \<le> l \<Longrightarrow> fee_sum f n d l = fee_sum f n d k"
  by (rotate_tac 1, induction rule: dec_induct) (simp_all add: fee_sum_Suc fee_term_zero)


lemma unat_widened: "unat (ucast (w :: u64) :: u256) = unat w"
proof -
  have "unat w < 2 ^ 256" by (rule less_le_trans [OF unat_less_power]) simp
  then show ?thesis by (simp add: unsigned_ucast_eq take_bit_nat_eq_self)
qed

lemma fee_facts:
  assumes "get_blob_base_fee e u = Ok fee"
  obtains l where "0 < unat u" "fee_fits 1 (unat e) (unat u) l" "unat fee = fee_sum 1 (unat e) (unat u) l div unat u"
proof -
  have "fake_exponential (ucast MIN_BLOB_BASE_FEE) (ucast e) (ucast u) = Ok fee"
    using assms by (simp add: get_blob_base_fee_def)
  then have u: "(ucast u :: u256) \<noteq> 0" and l: "\<exists>l. fee_fits 1 (unat e) (unat u) l \<and> unat fee = fee_sum 1 (unat e) (unat u) l div unat u"
    unfolding fake_exponential_exact unat_widened by (simp_all add: MIN_BLOB_BASE_FEE_def)
  have "0 < unat u" using u unat_widened [of u] by (metis neq0_conv unat_eq_0)
  with l that show ?thesis by blast
qed

lemma fee_bounds:
  assumes "get_blob_base_fee e u = Ok fee"
  shows "1 \<le> unat fee" "real (unat fee) \<le> exp (real (unat e) / real (unat u))"
proof -
  obtain l where u: "0 < unat u" and l: "fee_fits 1 (unat e) (unat u) l"
    and fee: "unat fee = fee_sum 1 (unat e) (unat u) l div unat u"
    by (rule fee_facts [OF assms])
  have "l \<noteq> 0" using l u by (auto simp: fee_fits_def intro: ccontr)
  then have "fee_sum 1 (unat e) (unat u) 1 \<le> fee_sum 1 (unat e) (unat u) l" by (intro fee_sum_mono) simp
  then have "unat u \<le> fee_sum 1 (unat e) (unat u) l" by (simp add: fee_sum_def)
  then show "1 \<le> unat fee" using u div_le_mono [of "unat u" "fee_sum 1 (unat e) (unat u) l" "unat u"] by (simp add: fee)
  show "real (unat fee) \<le> exp (real (unat e) / real (unat u))"
    unfolding fee using fee_quotient_below [OF u, of 1 "unat e" l] by (simp del: of_nat_unat)
qed

lemma fee_monotone:
  assumes "get_blob_base_fee e u = Ok fee" and "get_blob_base_fee e' u = Ok fee'" and "e \<le> e'"
  shows "fee \<le> fee'"
proof -
  obtain l where u: "0 < unat u" and l: "fee_fits 1 (unat e) (unat u) l"
    and fee: "unat fee = fee_sum 1 (unat e) (unat u) l div unat u"
    by (rule fee_facts [OF assms(1)])
  obtain l' where l': "fee_fits 1 (unat e') (unat u) l'" and fee': "unat fee' = fee_sum 1 (unat e') (unat u) l' div unat u"
    by (rule fee_facts [OF assms(2)])
  have "fee_term 1 (unat e) (unat u) l' = 0"
    using fee_term_mono [of "unat u" "unat e" "unat e'" 1 l'] u l' assms(3) by (simp add: fee_fits_def word_le_nat_alt)
  then have "l \<le> l'" using l by (metis fee_fits_def not_le)
  then have "fee_sum 1 (unat e) (unat u) l \<le> fee_sum 1 (unat e) (unat u) l'" by (rule fee_sum_mono)
  also have "\<dots> \<le> fee_sum 1 (unat e') (unat u) l'"
    unfolding fee_sum_def using u assms(3) by (intro sum_mono fee_term_mono) (simp_all add: word_le_nat_alt)
  finally show ?thesis by (simp add: word_le_nat_alt fee fee' div_le_mono)
qed

lemma eip7918_floor_exact:
  "calculate_eip7918_floor base = Ok v \<longleftrightarrow> unat base * 8192 < 2 ^ 256 \<and> unat v = unat base div 16"
proof -
  have sizes: "unat (ucast BLOB_BASE_COST :: u256) = 8192" "unat (ucast BLOB_GAS_PER_BLOB :: u256) = 131072"
    by (simp_all add: BLOB_BASE_COST_def BLOB_GAS_PER_BLOB_def)
  have quotient: "unat base * 8192 div 131072 = unat base div 16"
    using div_mult_mult2 [of 8192 "unat base" 16] by simp
  show ?thesis
  proof (cases "checked_times base (ucast BLOB_BASE_COST)")
    case None
    then show ?thesis by (auto simp: calculate_eip7918_floor_def checked_times_def sizes split: if_splits)
  next
    case (Some p)
    then have "unat p = unat base * 8192" "unat base * 8192 < 2 ^ 256"
      using unat_less_power [of p] by (simp_all add: checked_times_Some sizes)
    then show ?thesis using Some by (auto simp: calculate_eip7918_floor_def word_eq_nat unat_div sizes quotient)
  qed
qed

lemma checked_mul_Ok [simp]: "checked_mul a b = Ok c \<longleftrightarrow> unat c = unat a * unat b"
  by (simp add: checked_mul_def checked_times_Some)

end
