(* ===== verification/Processor_Runs.thy ===== *)
theory Processor_Runs
  imports Reducer_Laws "HOL-Library.Multiset"
begin

text \<open>
  A processor's reduction inside the store, \<^verbatim>\<open>crates/store-sqlite/src/lib.rs\<close>: the part of
  \<^verbatim>\<open>apply_with_origin_to_stream\<close> that checks a delta and its cursor, reduces the delta into a new
  overlay and applies the batch to the processor tables, and its repetition over the blocks of
  a run. The interface \<open>ordered_processor\<close> is what an ordered-state processor promises of one
  reduction; its lemmas carry that over a run of committed blocks.
\<close>

section \<open>Reducing a block\<close>

type_synonym reducer =
  "processor_db \<Rightarrow> processor_cursor \<Rightarrow> encoded_delta \<Rightarrow> reducer_overlay
    \<Rightarrow> (domain_change list \<times> reducer_overlay, processor_error) result"

definition retains_processor_output :: "processor_descriptor \<Rightarrow> bool" where
  "retains_processor_output desc = (op_mode (lc_output (pd_lifecycle desc)) \<noteq> OutputNone)"

text \<open>The check each processor makes of its delta and cursor.\<close>

definition validate_delta_cursor ::
  "(encoded_delta, 'pe, 'he) codec \<Rightarrow> processor_descriptor \<Rightarrow> processor_cursor \<Rightarrow> encoded_delta
    \<Rightarrow> (unit, processor_error) result" where
  "validate_delta_cursor c desc cursor delta =
     and_then (delta_validate c delta desc) (\<lambda>_.
     if pc_processor_id cursor \<noteq> pd_id desc \<or> pc_processor_version cursor \<noteq> pd_version desc
        \<or> pc_chain_id cursor \<noteq> ed_chain_id delta \<or> pc_block_number cursor \<noteq> number (ed_block delta)
        \<or> pc_block_hash cursor \<noteq> hash (ed_block delta)
     then Err CursorMismatch else Ok ())"

definition reduce_block ::
  "(encoded_delta, 'pe, 'he) codec \<Rightarrow> processor_descriptor \<Rightarrow> reducer \<Rightarrow> int \<times> processor_cursor \<times> encoded_delta
    \<Rightarrow> processor_db \<Rightarrow> (domain_change list \<times> processor_db, 'pe store_error) result" where
  "reduce_block c desc reduce = (\<lambda>(now, cursor, delta) db.
     and_then (map_err StoreProcessor (delta_validate c delta desc)) (\<lambda>_.
     and_then (map_err StoreProcessor (validate_cursor cursor desc delta)) (\<lambda>_.
     and_then (map_err StoreProcessor (reduce db cursor delta (overlay_new (pd_instance desc)))) (\<lambda>(returned, ov).
     if returned \<noteq> rv_changes ov
     then Err (StoreInvariant ''processor returned changes that differ from emitted changes'')
     else
       (let batch = into_batch ov in
       and_then (apply_mutations (pd_instance desc) (mb_mutations batch) False (retains_processor_output desc)
         (ed_block delta) (pc_finality cursor) now db) (\<lambda>db'.
       Ok (mb_changes batch, db')))))))"

fun reduce_blocks ::
  "(encoded_delta, 'pe, 'he) codec \<Rightarrow> processor_descriptor \<Rightarrow> reducer \<Rightarrow> (int \<times> processor_cursor \<times> encoded_delta) list
    \<Rightarrow> processor_db \<Rightarrow> (processor_db, 'pe store_error) result" where
  "reduce_blocks c desc reduce [] db = Ok db"
| "reduce_blocks c desc reduce (b # bs) db =
     and_then (reduce_block c desc reduce b db) (\<lambda>(_, db'). reduce_blocks c desc reduce bs db')"

section \<open>Writes of a reducer\<close>

lemma index_put_view:
  "overlay_ok db ov \<Longrightarrow> index_view db (index_put db name ik ek ov) = (index_view db ov)((name, ik, ek) := True)"
  by (simp add: views index_put_def load_index_def Let_def stored_base overlay)

lemma other_views [simp]:
  "index_view db (entity_put db collection key v ov) = index_view db ov"
  "state_view db (entity_put db collection key v ov) = state_view db ov"
  "entity_view db (index_put db name ik ek ov) = entity_view db ov"
  "entity_view db (state_put db collection key v ov) = entity_view db ov"
  "state_view db (emit change ov) = state_view db ov"
  "entity_view db (emit change ov) = entity_view db ov"
  "index_view db (emit change ov) = index_view db ov"
  by (simp_all add: views entity_put_def index_put_def state_put_def load_entity_def load_index_def load_state_def
    emit_def Let_def)

lemma other_changes [simp]:
  "rv_changes (entity_put db collection key v ov) = rv_changes ov" "rv_changes (index_put db name ik ek ov) = rv_changes ov"
  "rv_changes (state_put db collection key v ov) = rv_changes ov" "rv_changes (emit change ov) = rv_changes ov @ [change]"
  "rv_changes (snd (state_get db collection key ov)) = rv_changes ov"
  by (simp_all add: entity_put_def index_put_def state_put_def state_get_def load_entity_def load_index_def load_state_def
    emit_def Let_def)

lemma emit_ok [simp]: "overlay_ok db (emit change ov) = overlay_ok db ov"
  by (simp add: views emit_def)

lemmas entity_put_laws = reducer_entities.put_view [of _ _ "(c, k)" for c k, unfolded split]
  reducer_entities.put_inv [of _ _ "(c, k)" for c k, unfolded split]

lemmas state_put_laws = reducer_state.put_view [of _ _ "(c, k)" for c k, unfolded split]
  reducer_state.put_inv [of _ _ "(c, k)" for c k, unfolded split]

lemmas state_get_laws = reducer_state.get_value [of _ _ "(c, k)" for c k, unfolded split]
  reducer_state.get_view [of _ _ "(c, k)" for c k, unfolded split]
  reducer_state.get_inv [of _ _ "(c, k)" for c k, unfolded split]

lemmas entity_get_laws = reducer_entities.get_value [of _ _ "(c, k)" for c k, unfolded split]
  reducer_entities.get_view [of _ _ "(c, k)" for c k, unfolded split]
  reducer_entities.get_inv [of _ _ "(c, k)" for c k, unfolded split]

lemma same_instance [simp]:
  "rv_instance (entity_put db collection key v ov) = rv_instance ov"
  "rv_instance (state_put db collection key v ov) = rv_instance ov"
  "rv_instance (index_put db collection ik ek ov) = rv_instance ov"
  "rv_instance (emit change ov) = rv_instance ov"
  "rv_instance (snd (state_get db collection key ov)) = rv_instance ov"
  "rv_instance (snd (entity_get db collection key ov)) = rv_instance ov"
  by (simp_all add: entity_put_def state_put_def index_put_def emit_def state_get_def entity_get_def
    load_entity_def load_state_def load_index_def Let_def)

section \<open>Runs of blocks\<close>

lemma sum_list_sort_key: "sum_list (map g (sort_key k xs)) = (sum_list (map g xs) :: 'a::comm_monoid_add)"
  by (metis mset_map mset_sort sum_mset_sum_list)

text \<open>A new overlay shows the committed values, and the committed batch leaves what the overlay showed.\<close>

lemma new_views:
  "state_view db (overlay_new i) = state_base db i" "entity_view db (overlay_new i) = entity_base db i"
  by (auto simp: views overlay_new_def seen_def)

lemma full_view_state: "full_view db ov (StateAt ns k) = state_view db ov (ns, k)"
  by simp

lemma reduce_block_state:
  assumes run: "reduce_block c desc reduce (now, cursor, delta) db = (Ok (changes, db') :: (_, 'pe store_error) result)"
    and ok: "tables_ordered db"
    and keeps: "\<And>returned ov. reduce db cursor delta (overlay_new (pd_instance desc)) = Ok (returned, ov) \<Longrightarrow>
      overlay_ok db ov \<and> rv_instance ov = pd_instance desc"
  obtains ov where "reduce db cursor delta (overlay_new (pd_instance desc)) = Ok (changes, ov)" "tables_ordered db'"
    "state_base db' (pd_instance desc) = state_view db ov"
    "\<And>i. i \<noteq> pd_instance desc \<Longrightarrow> contents db' i = contents db i"
    "retains_processor_output desc \<Longrightarrow> entity_base db' (pd_instance desc) = entity_view db ov"
proof -
  let ?i = "pd_instance desc"
  obtain ov where ov: "reduce db cursor delta (overlay_new ?i) = Ok (changes, ov)"
    and app: "apply_mutations ?i (mb_mutations (into_batch ov)) False (retains_processor_output desc)
      (ed_block delta) (pc_finality cursor) now db = (Ok db' :: (_, 'pe store_error) result)"
    using run by (auto simp: reduce_block_def Let_def into_batch_def split: if_splits prod.splits)
  have inv: "overlay_ok db ov" "rv_instance ov = ?i" using keeps [OF ov] by simp_all
  note after = batch_applied [OF inv(1) ok app [folded inv(2)]]
  have other: "contents db' i = contents db i" if "i \<noteq> ?i" for i
    using after(2) [of i] that inv(2) by auto
  have state: "state_base db' ?i (ns, k) = state_view db ov (ns, k)" for ns k
    using after(2) [of ?i "StateAt ns k"] inv(2) by (simp add: state_base_def)
  have entity: "entity_base db' ?i (ns, k) = entity_view db ov (ns, k)" if "retains_processor_output desc" for ns k
    using after(2) [of ?i "EntityAt ns k"] inv(2) that by (simp add: entity_base_def)
  show thesis
    by (rule that [OF ov after(1)]) (use state entity other in auto)
qed

text \<open>
  An ordered-state processor: its reducer takes the state that an observed map stands for one
  step further, whatever else it does. Then a run of committed blocks folds the steps.
\<close>

locale ordered_processor =
  fixes reduce :: reducer
    and abs :: "(string \<times> bytes \<Rightarrow> bytes option) \<Rightarrow> 's"
    and step :: "processor_cursor \<times> encoded_delta \<Rightarrow> 's \<Rightarrow> 's"
  assumes reduce_inv: "overlay_ok db ov \<Longrightarrow> reduce db cursor delta ov = Ok (changes, ov') \<Longrightarrow>
      overlay_ok db ov' \<and> rv_instance ov' = rv_instance ov"
    and reduce_step: "overlay_ok db ov \<Longrightarrow> reduce db cursor delta ov = Ok (changes, ov') \<Longrightarrow>
      abs (state_view db ov') = step (cursor, delta) (abs (state_view db ov))"
begin

lemma keeps_new:
  "reduce db cursor delta (overlay_new i) = Ok (returned, ov) \<Longrightarrow> overlay_ok db ov \<and> rv_instance ov = i"
  using reduce_inv [OF overlay_new_ok] by (auto simp: overlay_new_def)

lemma block_step:
  assumes "reduce_block c desc reduce (now, cursor, delta) db = (Ok (changes, db') :: (_, 'pe store_error) result)"
    and "tables_ordered db"
  shows "tables_ordered db'"
    and "abs (state_base db' (pd_instance desc)) = step (cursor, delta) (abs (state_base db (pd_instance desc)))"
    and "i \<noteq> pd_instance desc \<Longrightarrow> contents db' i = contents db i"
proof -
  obtain ov where ov: "reduce db cursor delta (overlay_new (pd_instance desc)) = Ok (changes, ov)"
    and ok: "tables_ordered db'" and state: "state_base db' (pd_instance desc) = state_view db ov"
    and other: "\<And>i. i \<noteq> pd_instance desc \<Longrightarrow> contents db' i = contents db i"
    by (rule reduce_block_state [OF assms]) (use keeps_new in blast)+
  show "tables_ordered db'" by (rule ok)
  show "abs (state_base db' (pd_instance desc)) = step (cursor, delta) (abs (state_base db (pd_instance desc)))"
    using reduce_step [OF overlay_new_ok ov] by (simp add: state new_views)
  show "i \<noteq> pd_instance desc \<Longrightarrow> contents db' i = contents db i" by (rule other)
qed

lemma run_steps:
  "reduce_blocks c desc reduce bs db = (Ok db' :: (_, 'pe store_error) result) \<Longrightarrow> tables_ordered db \<Longrightarrow>
    tables_ordered db'
    \<and> abs (state_base db' (pd_instance desc)) = fold (step \<circ> snd) bs (abs (state_base db (pd_instance desc)))
    \<and> (\<forall>i. i \<noteq> pd_instance desc \<longrightarrow> contents db' i = contents db i)"
proof (induction bs arbitrary: db)
  case Nil
  then show ?case by simp
next
  case (Cons b bs)
  obtain now cursor delta where b: "b = (now, cursor, delta)" by (cases b)
  obtain changes db1 where first: "reduce_block c desc reduce (now, cursor, delta) db
      = (Ok (changes, db1) :: (_, 'pe store_error) result)"
    and rest: "reduce_blocks c desc reduce bs db1 = (Ok db' :: (_, 'pe store_error) result)"
    using Cons.prems(1) by (auto simp: b)
  note one = block_step [OF first Cons.prems(2)]
  show ?case using Cons.IH [OF rest one(1)] one by (simp add: b)
qed

lemma blocks_keep:
  assumes keep: "\<And>db ov cursor delta changes ov'. overlay_ok db ov \<Longrightarrow> reduce db cursor delta ov = Ok (changes, ov') \<Longrightarrow>
      P (abs (state_view db ov)) \<Longrightarrow> P (abs (state_view db ov'))"
  shows "reduce_blocks c desc reduce bs db = (Ok db' :: (_, 'pe store_error) result) \<Longrightarrow> tables_ordered db \<Longrightarrow>
    P (abs (state_base db (pd_instance desc))) \<Longrightarrow> P (abs (state_base db' (pd_instance desc)))"
proof (induction bs arbitrary: db)
  case Nil
  then show ?case by simp
next
  case (Cons b bs)
  obtain now cursor delta where b: "b = (now, cursor, delta)" by (cases b)
  obtain changes db1 where first: "reduce_block c desc reduce (now, cursor, delta) db
      = (Ok (changes, db1) :: (_, 'pe store_error) result)"
    and rest: "reduce_blocks c desc reduce bs db1 = (Ok db' :: (_, 'pe store_error) result)"
    using Cons.prems(1) by (auto simp: b)
  obtain ov where ov: "reduce db cursor delta (overlay_new (pd_instance desc)) = Ok (changes, ov)"
    and ok: "tables_ordered db1" and state: "state_base db1 (pd_instance desc) = state_view db ov"
    by (rule reduce_block_state [OF first Cons.prems(2)]) (use keeps_new in blast)+
  have "P (abs (state_base db1 (pd_instance desc)))"
    using keep [OF overlay_new_ok ov] Cons.prems(3) by (simp add: state new_views)
  then show ?case by (rule Cons.IH [OF rest ok])
qed

end

end
