(* ===== verification/Blobs.thy ===== *)
theory Blobs
  imports Blob_Fees Processor_Runs
begin

text \<open>
  The blobs processor, \<^verbatim>\<open>crates/processor-blobs\<close> (\<^verbatim>\<open>schedule.rs\<close>, \<^verbatim>\<open>model.rs\<close>, \<^verbatim>\<open>processor.rs\<close>): the fork
  schedule, the delta it derives from a frame, and its reduction into the overlay of the
  store. The postcard encodings of the schedule and of the delta with its entities are the
  fields of the parameter \<open>blobs_wire\<close>; hashing and hexadecimal text come with the codec of deltas.
\<close>

section \<open>The schedule\<close>

record blob_fork =
  bf_name :: string
  bf_activation_block :: u64
  bf_activation_timestamp :: u64
  bf_fork_id :: string
  bf_target_blobs :: u32
  bf_max_blobs :: u32
  bf_update_fraction :: u64
  bf_eip7918 :: bool

record blob_parameters =
  bp_target_blobs :: u32
  bp_max_blobs :: u32
  bp_target_blob_gas :: u64
  bp_max_blob_gas :: u64
  bp_update_fraction :: u64
  bp_eip7918 :: bool

record blob_schedule =
  bs_chain_id :: u64
  bs_network :: string
  bs_forks :: "blob_fork list"

definition mainnet_schedule :: blob_schedule where
  "mainnet_schedule = \<lparr>bs_chain_id = 1, bs_network = ''mainnet'', bs_forks = [
     \<lparr>bf_name = ''dencun'', bf_activation_block = 19426589, bf_activation_timestamp = 1710338135,
       bf_fork_id = ''9f3d2254'', bf_target_blobs = 3, bf_max_blobs = 6, bf_update_fraction = 3338477, bf_eip7918 = False\<rparr>,
     \<lparr>bf_name = ''pectra'', bf_activation_block = 22431084, bf_activation_timestamp = 1746612311,
       bf_fork_id = ''c376cf8b'', bf_target_blobs = 6, bf_max_blobs = 9, bf_update_fraction = 5007716, bf_eip7918 = False\<rparr>,
     \<lparr>bf_name = ''fusaka'', bf_activation_block = 23935694, bf_activation_timestamp = 1764798551,
       bf_fork_id = ''5167e2a6'', bf_target_blobs = 6, bf_max_blobs = 9, bf_update_fraction = 5007716, bf_eip7918 = True\<rparr>,
     \<lparr>bf_name = ''bpo1'', bf_activation_block = 23975778, bf_activation_timestamp = 1765290071,
       bf_fork_id = ''cba2a1c0'', bf_target_blobs = 10, bf_max_blobs = 15, bf_update_fraction = 8346193, bf_eip7918 = True\<rparr>,
     \<lparr>bf_name = ''bpo2'', bf_activation_block = 24179383, bf_activation_timestamp = 1767747671,
       bf_fork_id = ''07c9462e'', bf_target_blobs = 14, bf_max_blobs = 21, bf_update_fraction = 11684671, bf_eip7918 = True\<rparr>]\<rparr>"

definition lower_hex_digit :: "char \<Rightarrow> bool" where
  "lower_hex_digit c = (CHR ''0'' \<le> c \<and> c \<le> CHR ''9'' \<or> CHR ''a'' \<le> c \<and> c \<le> CHR ''f'')"

definition fork_malformed :: "u64 option \<Rightarrow> u64 option \<Rightarrow> blob_fork \<Rightarrow> bool" where
  "fork_malformed previous_block previous_timestamp g =
     (bf_name g = [] \<or> bf_activation_block g = 0 \<or> bf_activation_timestamp g = 0 \<or> length (bf_fork_id g) \<noteq> 8
      \<or> \<not> list_all lower_hex_digit (bf_fork_id g) \<or> bf_target_blobs g = 0 \<or> bf_max_blobs g < bf_target_blobs g
      \<or> bf_update_fraction g = 0
      \<or> is_some_and previous_block (\<lambda>b. bf_activation_block g \<le> b)
      \<or> is_some_and previous_timestamp (\<lambda>t. bf_activation_timestamp g \<le> t))"

fun validate_forks :: "u64 option \<Rightarrow> u64 option \<Rightarrow> blob_fork list \<Rightarrow> (unit, string) result" where
  "validate_forks previous_block previous_timestamp [] = Ok ()"
| "validate_forks previous_block previous_timestamp (g # gs) =
     (if fork_malformed previous_block previous_timestamp g then Err ''blob forks must be valid and strictly ordered''
      else validate_forks (Some (bf_activation_block g)) (Some (bf_activation_timestamp g)) gs)"

definition schedule_validate :: "blob_schedule \<Rightarrow> (unit, string) result" where
  "schedule_validate s =
     (if bs_chain_id s = 0 \<or> bs_network s = [] \<or> bs_forks s = [] then Err ''schedule identity and forks are required''
      else validate_forks None None (bs_forks s))"

definition first_block :: "blob_schedule \<Rightarrow> u64" where
  "first_block s = (case bs_forks s of [] \<Rightarrow> 0 | g # _ \<Rightarrow> bf_activation_block g)"

definition fork_at_block :: "blob_schedule \<Rightarrow> u64 \<Rightarrow> blob_fork option" where
  "fork_at_block s n = find (\<lambda>g. n \<ge> bf_activation_block g) (rev (bs_forks s))"

definition fork_at_timestamp :: "blob_schedule \<Rightarrow> u64 \<Rightarrow> blob_fork option" where
  "fork_at_timestamp s t = find (\<lambda>g. t \<ge> bf_activation_timestamp g) (rev (bs_forks s))"

definition parameters_at_timestamp :: "blob_schedule \<Rightarrow> u64 \<Rightarrow> blob_parameters option" where
  "parameters_at_timestamp s t =
     map_option (\<lambda>g. \<lparr>bp_target_blobs = bf_target_blobs g, bp_max_blobs = bf_max_blobs g,
         bp_target_blob_gas = saturating_mul (ucast (bf_target_blobs g)) BLOB_GAS_PER_BLOB,
         bp_max_blob_gas = saturating_mul (ucast (bf_max_blobs g)) BLOB_GAS_PER_BLOB,
         bp_update_fraction = bf_update_fraction g, bp_eip7918 = bf_eip7918 g\<rparr>) (fork_at_timestamp s t)"

text \<open>In a valid schedule the forks ascend by block and by time, so a lookup finds the latest that is active.\<close>

lemma validate_forks_ordered:
  "validate_forks pb pt gs = Ok () \<Longrightarrow>
    sorted_wrt (\<lambda>g h. bf_activation_block g < bf_activation_block h \<and> bf_activation_timestamp g < bf_activation_timestamp h) gs
    \<and> (\<forall>g \<in> set gs. bf_update_fraction g \<noteq> 0 \<and> bf_target_blobs g \<le> bf_max_blobs g
        \<and> is_none_or pb (\<lambda>b. b < bf_activation_block g) \<and> is_none_or pt (\<lambda>t. t < bf_activation_timestamp g))"
proof (induction gs arbitrary: pb pt)
  case Nil
  then show ?case by simp
next
  case (Cons g gs)
  then have ok: "\<not> fork_malformed pb pt g"
    and rest: "validate_forks (Some (bf_activation_block g)) (Some (bf_activation_timestamp g)) gs = Ok ()"
    by (simp_all split: if_splits)
  have "is_none_or pb (\<lambda>b. b < bf_activation_block g)" "is_none_or pt (\<lambda>t. t < bf_activation_timestamp g)"
    using ok by (auto simp: fork_malformed_def is_some_and_def is_none_or_def not_le split: option.splits)
  then show ?case
    using Cons.IH [OF rest] ok by (auto simp: fork_malformed_def is_none_or_def not_less split: option.splits)
qed

lemma find_rev_latest:
  assumes "sorted_wrt (\<lambda>g h. key g < key h) gs"
  shows "find (\<lambda>g. (t :: 'a::linorder) \<ge> key g) (rev gs) = Some g
    \<longleftrightarrow> g \<in> set gs \<and> key g \<le> t \<and> (\<forall>h \<in> set gs. key h \<le> t \<longrightarrow> key h \<le> key g)"
  using assms
proof (induction gs rule: rev_induct)
  case Nil
  then show ?case by simp
next
  case (snoc x xs)
  then have below: "\<And>y. y \<in> set xs \<Longrightarrow> key y < key x" by (auto simp: sorted_wrt_append)
  show ?case
  proof (cases "key x \<le> t")
    case True
    then show ?thesis using below by (auto simp: order.strict_implies_order dest: below leD)
  next
    case False
    then show ?thesis using snoc below by (auto simp: sorted_wrt_append)
  qed
qed

lemma fork_lookup:
  assumes "schedule_validate s = Ok ()"
  shows "fork_at_timestamp s t = Some g \<longleftrightarrow> g \<in> set (bs_forks s) \<and> bf_activation_timestamp g \<le> t
      \<and> (\<forall>h \<in> set (bs_forks s). bf_activation_timestamp h \<le> t \<longrightarrow> bf_activation_timestamp h \<le> bf_activation_timestamp g)"
    and "fork_at_block s n = Some g \<longleftrightarrow> g \<in> set (bs_forks s) \<and> bf_activation_block g \<le> n
      \<and> (\<forall>h \<in> set (bs_forks s). bf_activation_block h \<le> n \<longrightarrow> bf_activation_block h \<le> bf_activation_block g)"
proof -
  have "validate_forks None None (bs_forks s) = Ok ()" using assms by (simp add: schedule_validate_def split: if_splits)
  from validate_forks_ordered [OF this]
  have "sorted_wrt (\<lambda>g h. bf_activation_timestamp g < bf_activation_timestamp h) (bs_forks s)"
    "sorted_wrt (\<lambda>g h. bf_activation_block g < bf_activation_block h) (bs_forks s)"
    by (auto elim: sorted_wrt_mono_rel [rotated])
  from find_rev_latest [OF this(1)] find_rev_latest [OF this(2)]
  show "fork_at_timestamp s t = Some g \<longleftrightarrow> g \<in> set (bs_forks s) \<and> bf_activation_timestamp g \<le> t
      \<and> (\<forall>h \<in> set (bs_forks s). bf_activation_timestamp h \<le> t \<longrightarrow> bf_activation_timestamp h \<le> bf_activation_timestamp g)"
    and "fork_at_block s n = Some g \<longleftrightarrow> g \<in> set (bs_forks s) \<and> bf_activation_block g \<le> n
      \<and> (\<forall>h \<in> set (bs_forks s). bf_activation_block h \<le> n \<longrightarrow> bf_activation_block h \<le> bf_activation_block g)"
    by (simp_all add: fork_at_timestamp_def fork_at_block_def)
qed

section \<open>Entities\<close>

record blobs_block =
  bb_network :: string
  bb_block_number :: u64
  bb_block_hash :: block_hash
  bb_parent_hash :: block_hash
  bb_timestamp :: u64
  bb_finality :: finality
  bb_size_bytes :: u64
  bb_blob_count :: u32
  bb_blob_gas_used :: u64
  bb_excess_blob_gas :: u64
  bb_blob_base_fee :: quantity
  bb_execution_base_fee :: quantity
  bb_gas_used :: u64
  bb_gas_limit :: u64
  bb_execution_burn :: quantity
  bb_blob_burn :: "quantity option"
  bb_reserve_fee :: "quantity option"
  bb_transaction_count :: u32
  bb_target_blobs :: u32
  bb_max_blobs :: u32
  bb_transform_version :: u16

record blob_transaction =
  bt_network :: string
  bt_block_number :: u64
  bt_block_hash :: block_hash
  bt_transaction_hash :: transaction_hash
  bt_transaction_index :: u32
  bt_sender :: address
  bt_to :: address
  bt_versioned_hashes :: "block_hash list"
  bt_blob_count :: u32
  bt_total_burn :: quantity
  bt_execution_burn :: quantity
  bt_blob_burn :: quantity

record blobs_delta =
  bd_entity :: blobs_block
  bd_transactions :: "blob_transaction list"

definition TRANSFORM_VERSION :: u16 where
  "TRANSFORM_VERSION = 4"

section \<open>Derivation\<close>

definition required_value :: "'a option \<Rightarrow> string \<Rightarrow> ('a, processor_error) result" where
  "required_value v field = ok_or v (InputError (field @ '' is required''))"

fun accepted_material :: "'a material \<Rightarrow> string \<Rightarrow> ('a, processor_error) result" where
  "accepted_material (Complete v) label = Ok v"
| "accepted_material (Filtered v scope Partial) label = Err (InputError (label @ '' projection is only partial''))"
| "accepted_material (Filtered v scope _) label = Ok v"
| "accepted_material (Missing reason) label = Err (InputError (label @ '' material is missing''))"

fun validate_transaction_projection :: "transaction_envelope list material \<Rightarrow> (unit, processor_error) result" where
  "validate_transaction_projection (Filtered v scope c) =
     (if scope_transaction_types scope \<noteq> [3] then Err (InputError ''filtered transactions must declare exactly type 3'')
      else Ok ())"
| "validate_transaction_projection _ = Ok ()"

fun receipt_map ::
  "(transaction_hash, receipt_envelope) table \<Rightarrow> receipt_envelope list
    \<Rightarrow> ((transaction_hash, receipt_envelope) table, processor_error) result" where
  "receipt_map output [] = Ok output"
| "receipt_map output (r # rs) =
     (if map_of output (rc_transaction_hash r) \<noteq> None then Err (InvariantError ''duplicate projected receipt'')
      else receipt_map (tput (rc_transaction_hash r) r output) rs)"

definition map_transaction ::
  "block_frame \<Rightarrow> transaction_envelope \<Rightarrow> receipt_envelope \<Rightarrow> u256 \<Rightarrow> u256 \<Rightarrow> string
    \<Rightarrow> (blob_transaction, processor_error) result" where
  "map_transaction f tx rc blob_base_fee execution_base_fee network =
     (if tx_hash tx \<noteq> rc_transaction_hash rc \<or> tx_index tx \<noteq> rc_transaction_index rc \<or> rc_transaction_type rc \<noteq> 3
      then Err (InvariantError ''transaction/receipt identity mismatch'')
      else
        and_then (required_value (tx_from tx) ''transaction.from'') (\<lambda>sender.
        and_then (required_value (tx_to tx) ''transaction.to'') (\<lambda>recipient.
        if \<not> length (tx_blob_versioned_hashes tx) < 2 ^ 32
        then Err (InvariantError ''transaction blob count overflows u32'')
        else
          (let blob_count = of_nat (length (tx_blob_versioned_hashes tx)) :: u32
           in if blob_count = 0 then Err (InvariantError ''type-3 transaction has no blob hashes'')
           else
             (let expected_blob_gas = saturating_mul (ucast blob_count) BLOB_GAS_PER_BLOB
              in if is_some_and (rc_blob_gas_used rc) (\<lambda>actual. actual \<noteq> expected_blob_gas)
              then Err (InvariantError ''transaction blob gas disagrees with hash count'')
              else
                and_then (required_value (rc_gas_used rc) ''receipt.gas_used'') (\<lambda>receipt_gas_used.
                and_then (checked_mul execution_base_fee (ucast receipt_gas_used)) (\<lambda>execution_burn.
                and_then (checked_mul blob_base_fee (ucast expected_blob_gas)) (\<lambda>blob_burn.
                and_then (ok_or (checked_add execution_burn blob_burn) (InvariantError ''transaction burn overflow''))
                  (\<lambda>total_burn.
                Ok \<lparr>bt_network = network, bt_block_number = number (fr_block f), bt_block_hash = hash (fr_block f),
                  bt_transaction_hash = tx_hash tx, bt_transaction_index = tx_index tx, bt_sender = sender, bt_to = recipient,
                  bt_versioned_hashes = tx_blob_versioned_hashes tx, bt_blob_count = blob_count,
                  bt_total_burn = total_burn, bt_execution_burn = execution_burn, bt_blob_burn = blob_burn\<rparr>)))))))))"

text \<open>The loop over the type-3 transactions, with the entities so far and their blobs.\<close>

fun map_transactions ::
  "block_frame \<Rightarrow> (transaction_hash, receipt_envelope) table \<Rightarrow> u256 \<Rightarrow> u256 \<Rightarrow> string \<Rightarrow> transaction_envelope list
    \<Rightarrow> u32 \<Rightarrow> blob_transaction list \<Rightarrow> (u32 \<times> blob_transaction list, processor_error) result" where
  "map_transactions f receipts blob_fee base_fee network [] counted done_so_far = Ok (counted, done_so_far)"
| "map_transactions f receipts blob_fee base_fee network (tx # txs) counted done_so_far =
     and_then (ok_or (map_of receipts (tx_hash tx)) (InputError ''missing projected receipt'')) (\<lambda>rc.
     and_then (map_transaction f tx rc blob_fee base_fee network) (\<lambda>entity.
     and_then (ok_or (checked_add counted (bt_blob_count entity)) (InvariantError ''blob count overflow'')) (\<lambda>counted'.
     map_transactions f receipts blob_fee base_fee network txs counted' (done_so_far @ [entity]))))"

definition optional :: "bool \<Rightarrow> ('a, 'e) result \<Rightarrow> ('a option, 'e) result" where
  "optional c r = (if c then and_then r (\<lambda>v. Ok (Some v)) else Ok None)"

definition derive ::
  "blob_schedule \<Rightarrow> processor_descriptor \<Rightarrow> block_frame \<Rightarrow> (blobs_delta, processor_error) result" where
  "derive s desc f =
     and_then (map_err InputError (validate_frame (hd (pd_requirements desc)) f)) (\<lambda>_.
     if fr_chain_id f \<noteq> bs_chain_id s then Err (InputError ''blob schedule is for another chain'')
     else
       and_then (ok_or (parameters_at_timestamp s (timestamp (fr_block f))) (InputError ''block predates blob activation''))
         (\<lambda>parameters.
       and_then (accepted_material (fr_header f) ''header'') (\<lambda>header.
       and_then (accepted_material (fr_transactions f) ''transactions'') (\<lambda>transactions.
       and_then (accepted_material (fr_receipts f) ''receipts'') (\<lambda>receipts.
       and_then (validate_transaction_projection (fr_transactions f)) (\<lambda>_.
       and_then (required_value (hd_gas_limit header) ''header.gas_limit'') (\<lambda>gas_limit.
       and_then (required_value (hd_gas_used header) ''header.gas_used'') (\<lambda>gas_used.
       and_then (required_value (hd_base_fee_per_gas header) ''header.base_fee_per_gas'') (\<lambda>base_fee.
       and_then (required_value (hd_blob_gas_used header) ''header.blob_gas_used'') (\<lambda>blob_gas_used.
       and_then (required_value (hd_excess_blob_gas header) ''header.excess_blob_gas'') (\<lambda>excess_blob_gas.
       and_then (required_value (hd_size_bytes header) ''header.size_bytes'') (\<lambda>size_bytes.
       and_then (required_value (hd_transaction_count header) ''header.transaction_count'') (\<lambda>transaction_count.
       if blob_gas_used mod BLOB_GAS_PER_BLOB \<noteq> 0
       then Err (InvariantError ''block blob gas is not a whole blob count'')
       else if \<not> unat (blob_gas_used div BLOB_GAS_PER_BLOB) < 2 ^ 32
       then Err (InvariantError ''blob count overflows u32'')
       else
         (let blob_count = ucast (blob_gas_used div BLOB_GAS_PER_BLOB) :: u32
          in if blob_count > bp_max_blobs parameters
          then Err (InvariantError ''block exceeds configured maximum blobs'')
          else
            and_then (get_blob_base_fee excess_blob_gas (bp_update_fraction parameters)) (\<lambda>blob_base_fee.
            and_then (optional (bp_eip7918 parameters) (calculate_eip7918_floor base_fee)) (\<lambda>reserve_fee.
            and_then (checked_mul base_fee (ucast gas_used)) (\<lambda>execution_burn.
            and_then (optional (blob_gas_used > 0) (checked_mul blob_base_fee (ucast blob_gas_used))) (\<lambda>blob_burn.
            and_then (receipt_map [] receipts) (\<lambda>by_hash.
            and_then (map_transactions f by_hash blob_base_fee base_fee (bs_network s)
              (filter (\<lambda>tx. tx_type tx = 3) transactions) 0 []) (\<lambda>(projected, entities).
            if projected \<noteq> blob_count
            then Err (InvariantError ''projected transactions do not contain the blobs that the header declares'')
            else Ok \<lparr>bd_entity =
                \<lparr>bb_network = bs_network s, bb_block_number = number (fr_block f), bb_block_hash = hash (fr_block f),
                 bb_parent_hash = parent_hash (fr_block f), bb_timestamp = timestamp (fr_block f), bb_finality = fr_finality f,
                 bb_size_bytes = size_bytes, bb_blob_count = blob_count, bb_blob_gas_used = blob_gas_used,
                 bb_excess_blob_gas = excess_blob_gas, bb_blob_base_fee = blob_base_fee, bb_execution_base_fee = base_fee,
                 bb_gas_used = gas_used, bb_gas_limit = gas_limit, bb_execution_burn = execution_burn,
                 bb_blob_burn = blob_burn, bb_reserve_fee = reserve_fee, bb_transaction_count = transaction_count,
                 bb_target_blobs = bp_target_blobs parameters, bb_max_blobs = bp_max_blobs parameters,
                 bb_transform_version = TRANSFORM_VERSION\<rparr>,
               bd_transactions = sort_key bt_transaction_hash entities\<rparr>))))))))))))))))))))"

section \<open>What an accepted frame yields\<close>

lemma required_value_Ok [simp]: "required_value v field = Ok x \<longleftrightarrow> v = Some x"
  by (simp add: required_value_def)

lemma optional_Ok: "optional c r = Ok v \<longleftrightarrow> (if c then \<exists>x. r = Ok x \<and> v = Some x else v = None)"
  by (auto simp: optional_def)

lemma accepted_material_Ok: "accepted_material m label = Ok v \<Longrightarrow> as_present m = Some v"
  by (induction m label rule: accepted_material.induct) simp_all

lemma receipt_map_Ok:
  "receipt_map t rs = Ok t' \<Longrightarrow> ordered t \<Longrightarrow> ordered t' \<and> distinct (map rc_transaction_hash rs)
    \<and> (\<forall>r \<in> set rs. map_of t (rc_transaction_hash r) = None)
    \<and> (\<forall>h r. map_of t' h = Some r \<longleftrightarrow> map_of t h = Some r \<or> r \<in> set rs \<and> rc_transaction_hash r = h)"
proof (induction t rs rule: receipt_map.induct)
  case (1 t)
  then show ?case by simp
next
  case (2 t r rs)
  then have "map_of t (rc_transaction_hash r) = None" by (simp split: if_splits)
  with 2 show ?case by (fastforce split: if_splits)
qed

lemma blob_gas_exact: "unat (saturating_mul (ucast (n :: u32)) BLOB_GAS_PER_BLOB) = unat n * 131072"
proof -
  have n: "unat n < 2 ^ 32" using unat_less_power [of n] by simp
  then have "unat (ucast n :: u64) = unat n" by (simp add: unsigned_ucast_eq take_bit_nat_eq_self)
  with n show ?thesis by (simp add: unat_saturating_mul BLOB_GAS_PER_BLOB_def)
qed

lemma map_transaction_Ok:
  assumes "map_transaction f tx rc blob_fee base_fee network = Ok e"
  shows "bt_transaction_hash e = tx_hash tx" "bt_versioned_hashes e = tx_blob_versioned_hashes tx"
    "unat (bt_blob_count e) = length (tx_blob_versioned_hashes tx)" "bt_versioned_hashes e \<noteq> []"
    "rc_transaction_hash rc = tx_hash tx" "rc_transaction_type rc = 3"
    "unat (bt_blob_burn e) = unat blob_fee * (131072 * length (tx_blob_versioned_hashes tx))"
    "\<exists>gas. rc_gas_used rc = Some gas \<and> unat (bt_execution_burn e) = unat base_fee * unat gas"
    "unat (bt_total_burn e) = unat (bt_execution_burn e) + unat (bt_blob_burn e)"
    "bt_block_hash e = hash (fr_block f)" "tx_from tx = Some (bt_sender e)" "tx_to tx = Some (bt_to e)"
proof -
  let ?n = "of_nat (length (tx_blob_versioned_hashes tx)) :: u32"
  obtain sender recipient gas x b t where e:
    "tx_hash tx = rc_transaction_hash rc" "rc_transaction_type rc = 3"
    "tx_from tx = Some sender" "tx_to tx = Some recipient" "length (tx_blob_versioned_hashes tx) < 2 ^ 32" "?n \<noteq> 0"
    "rc_gas_used rc = Some gas" "unat x = unat base_fee * unat (ucast gas :: u256)"
    "unat b = unat blob_fee * unat (ucast (saturating_mul (ucast ?n) BLOB_GAS_PER_BLOB :: u64) :: u256)"
    "checked_add x b = Some t"
    "e = \<lparr>bt_network = network, bt_block_number = number (fr_block f), bt_block_hash = hash (fr_block f),
        bt_transaction_hash = tx_hash tx, bt_transaction_index = tx_index tx, bt_sender = sender, bt_to = recipient,
        bt_versioned_hashes = tx_blob_versioned_hashes tx, bt_blob_count = ?n,
        bt_total_burn = t, bt_execution_burn = x, bt_blob_burn = b\<rparr>"
    using assms by (auto simp: map_transaction_def Let_def split: if_splits)
  have n: "unat ?n = length (tx_blob_versioned_hashes tx)" using e(5) by (simp add: unat_of_nat)
  show "bt_transaction_hash e = tx_hash tx" "bt_versioned_hashes e = tx_blob_versioned_hashes tx"
    "unat (bt_blob_count e) = length (tx_blob_versioned_hashes tx)"
    "rc_transaction_hash rc = tx_hash tx" "rc_transaction_type rc = 3"
    "bt_block_hash e = hash (fr_block f)" "tx_from tx = Some (bt_sender e)" "tx_to tx = Some (bt_to e)"
    using e n by simp_all
  show "bt_versioned_hashes e \<noteq> []" using e(6,11) by auto
  show "unat (bt_blob_burn e) = unat blob_fee * (131072 * length (tx_blob_versioned_hashes tx))"
    using e(9,11) by (simp add: unat_widened blob_gas_exact n mult.commute)
  show "\<exists>gas. rc_gas_used rc = Some gas \<and> unat (bt_execution_burn e) = unat base_fee * unat gas"
    using e(7,8,11) by (simp add: unat_widened)
  show "unat (bt_total_burn e) = unat (bt_execution_burn e) + unat (bt_blob_burn e)"
    using e(10,11) by (simp add: checked_add_Some)
qed

lemma map_transactions_Ok:
  "map_transactions f receipts blob_fee base_fee network txs c so_far = Ok (n, es) \<Longrightarrow>
    \<exists>new. es = so_far @ new \<and> unat n = unat c + (\<Sum>e\<leftarrow>new. unat (bt_blob_count e))
      \<and> list_all2 (\<lambda>tx e. \<exists>rc. map_of receipts (tx_hash tx) = Some rc
          \<and> map_transaction f tx rc blob_fee base_fee network = Ok e) txs new"
proof (induction f receipts blob_fee base_fee network txs c so_far rule: map_transactions.induct)
  case (1 f receipts blob_fee base_fee network c so_far)
  then show ?case by simp
next
  case (2 f receipts blob_fee base_fee network tx txs c so_far)
  then obtain rc e c' where step: "map_of receipts (tx_hash tx) = Some rc"
    "map_transaction f tx rc blob_fee base_fee network = Ok e" "checked_add c (bt_blob_count e) = Some c'"
    "map_transactions f receipts blob_fee base_fee network txs c' (so_far @ [e]) = Ok (n, es)"
    by auto
  from "2.IH" [OF step(4)] obtain new where
    "es = (so_far @ [e]) @ new" "unat n = unat c' + (\<Sum>e\<leftarrow>new. unat (bt_blob_count e))"
    "list_all2 (\<lambda>tx e. \<exists>rc. map_of receipts (tx_hash tx) = Some rc
       \<and> map_transaction f tx rc blob_fee base_fee network = Ok e) txs new"
    by (auto simp: ok_or_def)
  with step show ?case by (intro exI [of _ "e # new"]) (simp add: checked_add_Some)
qed

text \<open>The parts of an accepted frame and what the delta says of them.\<close>

lemma derive_Ok:
  assumes "derive s desc f = Ok d"
  obtains parameters header txs receipts by_hash entities where
    "validate_frame (hd (pd_requirements desc)) f = Ok ()" "fr_chain_id f = bs_chain_id s"
    "parameters_at_timestamp s (timestamp (fr_block f)) = Some parameters"
    "as_present (fr_header f) = Some header" "as_present (fr_transactions f) = Some txs"
    "as_present (fr_receipts f) = Some receipts"
    "hd_gas_used header = Some (bb_gas_used (bd_entity d))" "hd_blob_gas_used header = Some (bb_blob_gas_used (bd_entity d))"
    "hd_excess_blob_gas header = Some (bb_excess_blob_gas (bd_entity d))"
    "hd_base_fee_per_gas header = Some (bb_execution_base_fee (bd_entity d))"
    "unat (bb_blob_gas_used (bd_entity d)) = unat (bb_blob_count (bd_entity d)) * 131072"
    "bb_blob_count (bd_entity d) \<le> bp_max_blobs parameters"
    "bb_max_blobs (bd_entity d) = bp_max_blobs parameters"
    "get_blob_base_fee (bb_excess_blob_gas (bd_entity d)) (bp_update_fraction parameters) = Ok (bb_blob_base_fee (bd_entity d))"
    "optional (bp_eip7918 parameters) (calculate_eip7918_floor (bb_execution_base_fee (bd_entity d))) = Ok (bb_reserve_fee (bd_entity d))"
    "unat (bb_execution_burn (bd_entity d)) = unat (bb_execution_base_fee (bd_entity d)) * unat (bb_gas_used (bd_entity d))"
    "optional (bb_blob_gas_used (bd_entity d) > 0) (checked_mul (bb_blob_base_fee (bd_entity d)) (ucast (bb_blob_gas_used (bd_entity d))))
      = Ok (bb_blob_burn (bd_entity d))"
    "receipt_map [] receipts = Ok by_hash"
    "map_transactions f by_hash (bb_blob_base_fee (bd_entity d)) (bb_execution_base_fee (bd_entity d)) (bs_network s)
      (filter (\<lambda>tx. tx_type tx = 3) txs) 0 [] = Ok (bb_blob_count (bd_entity d), entities)"
    "bd_transactions d = sort_key bt_transaction_hash entities"
    "bb_block_number (bd_entity d) = number (fr_block f)" "bb_block_hash (bd_entity d) = hash (fr_block f)"
    "bb_timestamp (bd_entity d) = timestamp (fr_block f)" "bb_finality (bd_entity d) = fr_finality f"
proof -
  have count: "unat (w :: u64) = unat (ucast (w div BLOB_GAS_PER_BLOB) :: u32) * 131072"
    if multiple: "BLOB_GAS_PER_BLOB dvd w" and small: "unat (w div BLOB_GAS_PER_BLOB) < 4294967296" for w
  proof -
    obtain k where k: "w = BLOB_GAS_PER_BLOB * k" using multiple by (rule dvdE)
    have "unat (ucast (w div BLOB_GAS_PER_BLOB) :: u32) = unat (w div BLOB_GAS_PER_BLOB)"
      using small by (simp add: unsigned_ucast_eq take_bit_nat_eq_self)
    moreover from k have "unat w mod 131072 = 0" by (simp add: BLOB_GAS_PER_BLOB_def unat_word_ariths dvd_mod)
    ultimately show ?thesis by (simp add: unat_div BLOB_GAS_PER_BLOB_def) (metis div_mult_mod_eq add.right_neutral)
  qed
  from assms show thesis
    unfolding derive_def Let_def and_then_Ok if_Err_eq_Ok map_err_Ok ok_or_Ok required_value_Ok checked_mul_Ok
    apply (elim exE conjE)
    apply (clarsimp split: prod.splits if_splits)
    by (rule that; (assumption | erule accepted_material_Ok | simp add: unat_widened count not_less)?)
qed


text \<open>The amounts of a block and of its transactions account for each other.\<close>

lemma derive_accounts:
  assumes "derive s desc f = Ok d"
  shows "unat (bb_blob_gas_used (bd_entity d)) = 131072 * unat (bb_blob_count (bd_entity d))"
    "unat (bb_blob_count (bd_entity d)) = (\<Sum>e\<leftarrow>bd_transactions d. length (bt_versioned_hashes e))"
    "(case bb_blob_burn (bd_entity d) of None \<Rightarrow> 0 | Some b \<Rightarrow> unat b) = (\<Sum>e\<leftarrow>bd_transactions d. unat (bt_blob_burn e))"
    "\<forall>e \<in> set (bd_transactions d). unat (bt_total_burn e) = unat (bt_execution_burn e) + unat (bt_blob_burn e)"
    "\<exists>txs. as_present (fr_transactions f) = Some txs
      \<and> mset (map bt_transaction_hash (bd_transactions d)) = mset (map tx_hash (filter (\<lambda>tx. tx_type tx = 3) txs))"
proof -
  let ?b = "bd_entity d"
  obtain parameters header txs receipts by_hash entities where
    gas: "unat (bb_blob_gas_used ?b) = unat (bb_blob_count ?b) * 131072"
    and burn: "optional (bb_blob_gas_used ?b > 0) (checked_mul (bb_blob_base_fee ?b) (ucast (bb_blob_gas_used ?b)))
      = Ok (bb_blob_burn ?b)"
    and run: "map_transactions f by_hash (bb_blob_base_fee ?b) (bb_execution_base_fee ?b) (bs_network s)
      (filter (\<lambda>tx. tx_type tx = 3) txs) 0 [] = Ok (bb_blob_count ?b, entities)"
    and es: "bd_transactions d = sort_key bt_transaction_hash entities"
    and txs: "as_present (fr_transactions f) = Some txs"
    by (rule derive_Ok [OF assms])
  from map_transactions_Ok [OF run]
  have count: "unat (bb_blob_count ?b) = (\<Sum>e\<leftarrow>entities. unat (bt_blob_count e))"
    and each: "list_all2 (\<lambda>tx e. \<exists>rc. map_of by_hash (tx_hash tx) = Some rc
      \<and> map_transaction f tx rc (bb_blob_base_fee ?b) (bb_execution_base_fee ?b) (bs_network s) = Ok e)
      (filter (\<lambda>tx. tx_type tx = 3) txs) entities"
    by auto
  have each': "unat (bt_blob_count e) = length (bt_versioned_hashes e)"
    "unat (bt_blob_burn e) = unat (bb_blob_base_fee ?b) * (131072 * unat (bt_blob_count e))"
    "unat (bt_total_burn e) = unat (bt_execution_burn e) + unat (bt_blob_burn e)" if "e \<in> set entities" for e
  proof -
    from each that obtain tx rc where
      e: "map_transaction f tx rc (bb_blob_base_fee ?b) (bb_execution_base_fee ?b) (bs_network s) = Ok e"
      by (auto simp: list_all2_conv_all_nth in_set_conv_nth)
    show "unat (bt_blob_count e) = length (bt_versioned_hashes e)"
      "unat (bt_blob_burn e) = unat (bb_blob_base_fee ?b) * (131072 * unat (bt_blob_count e))"
      "unat (bt_total_burn e) = unat (bt_execution_burn e) + unat (bt_blob_burn e)"
      using map_transaction_Ok [OF e] by simp_all
  qed
  show "unat (bb_blob_gas_used ?b) = 131072 * unat (bb_blob_count ?b)" using gas by simp
  have "map (\<lambda>e. unat (bt_blob_count e)) entities = map (\<lambda>e. length (bt_versioned_hashes e)) entities"
    using each'(1) by simp
  then show "unat (bb_blob_count ?b) = (\<Sum>e\<leftarrow>bd_transactions d. length (bt_versioned_hashes e))"
    by (simp only: count es sum_list_sort_key)
  show "\<forall>e \<in> set (bd_transactions d). unat (bt_total_burn e) = unat (bt_execution_burn e) + unat (bt_blob_burn e)"
    using each'(3) by (simp add: es)
  have "map (\<lambda>e. unat (bt_blob_burn e)) entities
      = map (\<lambda>e. unat (bb_blob_base_fee ?b) * 131072 * unat (bt_blob_count e)) entities"
    using each'(2) by simp
  then have "(\<Sum>e\<leftarrow>entities. unat (bt_blob_burn e)) = unat (bb_blob_base_fee ?b) * unat (bb_blob_gas_used ?b)"
    by (simp only: sum_list_const_mult gas count)
  then show "(case bb_blob_burn ?b of None \<Rightarrow> 0 | Some b \<Rightarrow> unat b) = (\<Sum>e\<leftarrow>bd_transactions d. unat (bt_blob_burn e))"
    using burn by (auto simp: es sum_list_sort_key optional_Ok unat_widened word_gt_0 split: if_splits)
  have "map bt_transaction_hash entities = map tx_hash (filter (\<lambda>tx. tx_type tx = 3) txs)"
    using each map_transaction_Ok(1) by (auto simp: list_all2_conv_all_nth intro!: nth_equalityI)
  then have "mset (map bt_transaction_hash entities) = mset (map tx_hash (filter (\<lambda>tx. tx_type tx = 3) txs))" by simp
  then show "\<exists>txs. as_present (fr_transactions f) = Some txs
      \<and> mset (map bt_transaction_hash (bd_transactions d)) = mset (map tx_hash (filter (\<lambda>tx. tx_type tx = 3) txs))"
    using txs by (simp add: es)
qed

section \<open>The processor\<close>

record 'pe blobs_wire =
  bw_schedule :: "blob_schedule \<Rightarrow> (bytes, 'pe) result"
  bw_delta :: "blobs_delta \<Rightarrow> (bytes, 'pe) result"
  bw_delta_from :: "bytes \<Rightarrow> (blobs_delta, 'pe) result"
  bw_block :: "blobs_block \<Rightarrow> (bytes, 'pe) result"
  bw_transaction :: "blob_transaction \<Rightarrow> (bytes, 'pe) result"

text \<open>Postcard decodes what it encoded.\<close>

definition blobs_wire_ok :: "'pe blobs_wire \<Rightarrow> bool" where
  "blobs_wire_ok w = (\<forall>d p. bw_delta w d = Ok p \<longrightarrow> bw_delta_from w p = Ok d)"

definition BLOCK_COLLECTION :: string where
  "BLOCK_COLLECTION = ''blobs.blocks''"

definition TRANSACTION_COLLECTION :: string where
  "TRANSACTION_COLLECTION = ''blobs.transactions''"

definition TRANSACTION_BLOCK_INDEX :: string where
  "TRANSACTION_BLOCK_INDEX = ''blobs.transactions.by_block''"

definition blobs_requirement :: data_requirement where
  "blobs_requirement =
     \<lparr>dr_capabilities = cap_with (cap_with (cap_with (cap_with (cap_with (cap_of Header) Body) Senders) BlobFields)
        BlockSize) ReceiptOutcome,
      dr_log_fields = lf_none, dr_allow_filtered = True,
      dr_filter = default_scope\<lparr>scope_transaction_types := [3]\<rparr>, dr_minimum_finality = Unattested\<rparr>"

definition blobs_new_at ::
  "(encoded_delta, 'pe, 'he) codec \<Rightarrow> 'pe blobs_wire \<Rightarrow> blob_schedule \<Rightarrow> block_number
    \<Rightarrow> (processor_descriptor, processor_error) result" where
  "blobs_new_at c w schedule start =
     and_then (map_err InputError (schedule_validate schedule)) (\<lambda>_.
     if start < first_block schedule then Err (InputError ''blob processor start predates activation'')
     else
       and_then (map_err (\<lambda>_. InputError ''postcard'') (bw_schedule w schedule)) (\<lambda>encoded.
       let config_hash = from_be_bytes (blake3 c encoded) in
       and_then (map_err InputError (processor_id_new ''blobs-money'')) (\<lambda>processor_id.
       and_then (map_err InputError (processor_instance_id_legacy processor_id ''1.6.0''
         (hex_encode c (to_be_bytes 32 config_hash)))) (\<lambda>instance_id.
       Ok \<lparr>pd_id = processor_id, pd_instance = instance_id, pd_version = ''1.6.0'',
         pd_code_hash = from_be_bytes (blake3 c (as_bytes ''leani/blobs-processor/1.6.0'')),
         pd_config_hash = config_hash, pd_start = StartBlock start, pd_requirements = [blobs_requirement],
         pd_mode = BlockLocal, pd_delivery_ordering = OrderBlockVersionedIdempotent, pd_publication = PublishAttested,
         pd_lifecycle = lifecycle_from_legacy FullOutputHistory,
         pd_schemas = \<lparr>ps_delta_version = 3, ps_entity_schema = ''blobs.entity.v4'',
           ps_change_schema = ''blobs.block-bundle.v1''\<rparr>\<rparr>))))"

definition blobs_map ::
  "(encoded_delta, 'pe, 'he) codec \<Rightarrow> 'pe blobs_wire \<Rightarrow> blob_schedule \<Rightarrow> processor_descriptor \<Rightarrow> block_frame
    \<Rightarrow> (encoded_delta, processor_error) result" where
  "blobs_map c w s desc f =
     and_then (derive s desc f) (\<lambda>d.
     and_then (map_err (\<lambda>_. DeltaPayload ''postcard'') (bw_delta w d)) (\<lambda>payload.
     Ok (delta_new c desc (fr_chain_id f) (fr_block f) payload)))"

text \<open>The checksums a delta has under each finality.\<close>

fun variant_checksums ::
  "(encoded_delta, 'pe, 'he) codec \<Rightarrow> 'pe blobs_wire \<Rightarrow> processor_descriptor \<Rightarrow> encoded_delta \<Rightarrow> blobs_delta
    \<Rightarrow> finality list \<Rightarrow> (block_hash list, processor_error) result" where
  "variant_checksums c w desc delta d [] = Ok []"
| "variant_checksums c w desc delta d (level # levels) =
     and_then (map_err (\<lambda>_. DeltaPayload ''postcard'') (bw_delta w (d\<lparr>bd_entity := (bd_entity d)\<lparr>bb_finality := level\<rparr>\<rparr>)))
       (\<lambda>payload.
     and_then (variant_checksums c w desc delta d levels) (\<lambda>rest.
     Ok (ed_checksum (delta_new c desc (ed_chain_id delta) (ed_block delta) payload) # rest)))"

definition blobs_variant_checksums ::
  "(encoded_delta, 'pe, 'he) codec \<Rightarrow> 'pe blobs_wire \<Rightarrow> processor_descriptor \<Rightarrow> encoded_delta
    \<Rightarrow> (block_hash list, processor_error) result" where
  "blobs_variant_checksums c w desc delta =
     and_then (delta_validate c delta desc) (\<lambda>_.
     and_then (map_err (\<lambda>_. DeltaPayload ''postcard'') (bw_delta_from w (ed_payload delta))) (\<lambda>d.
     and_then (variant_checksums c w desc delta d [Unattested, Attested, Finalized]) (\<lambda>checksums.
     Ok (remdups_adj (sort checksums)))))"

fun put_transactions ::
  "'pe blobs_wire \<Rightarrow> processor_db \<Rightarrow> bytes \<Rightarrow> blob_transaction list \<Rightarrow> reducer_overlay
    \<Rightarrow> (reducer_overlay, processor_error) result" where
  "put_transactions w db block_key [] ov = Ok ov"
| "put_transactions w db block_key (e # es) ov =
     (let key = to_be_bytes 32 (bt_transaction_hash e) in
     and_then (map_err (\<lambda>_. StateError ''postcard'') (bw_transaction w e)) (\<lambda>payload.
     put_transactions w db block_key es
       (index_put db TRANSACTION_BLOCK_INDEX block_key key (entity_put db TRANSACTION_COLLECTION key payload ov))))"

definition blobs_reduce ::
  "(encoded_delta, 'pe, 'he) codec \<Rightarrow> 'pe blobs_wire \<Rightarrow> processor_descriptor \<Rightarrow> processor_db \<Rightarrow> processor_cursor
    \<Rightarrow> encoded_delta \<Rightarrow> reducer_overlay \<Rightarrow> (domain_change list \<times> reducer_overlay, processor_error) result" where
  "blobs_reduce c w desc db cursor delta ov =
     and_then (validate_delta_cursor c desc cursor delta) (\<lambda>_.
     and_then (map_err (\<lambda>_. DeltaPayload ''postcard'') (bw_delta_from w (ed_payload delta))) (\<lambda>d.
     if bb_block_number (bd_entity d) \<noteq> number (ed_block delta) \<or> bb_block_hash (bd_entity d) \<noteq> hash (ed_block delta)
     then Err DeltaContract
     else
       (let block_key = to_be_bytes 8 (bb_block_number (bd_entity d)) in
       and_then (map_err (\<lambda>_. StateError ''postcard'') (bw_delta w d)) (\<lambda>bundle_payload.
       and_then (map_err (\<lambda>_. StateError ''postcard'') (bw_block w (bd_entity d))) (\<lambda>block_payload.
       (let change = \<lparr>ch_kind = ''blobs.block'', ch_key = block_key, ch_operation = Upsert, ch_payload = bundle_payload\<rparr> in
       and_then (put_transactions w db block_key (bd_transactions d)
         (entity_put db BLOCK_COLLECTION block_key block_payload ov)) (\<lambda>ov'.
       Ok ([change], emit change ov'))))))))"

section \<open>What a reduced block leaves\<close>

lemma put_transactions_Ok:
  "put_transactions w db block_key es ov = Ok ov' \<Longrightarrow> overlay_ok db ov \<Longrightarrow> distinct (map bt_transaction_hash es) \<Longrightarrow>
    overlay_ok db ov' \<and> rv_changes ov' = rv_changes ov
    \<and> (\<forall>e \<in> set es. \<exists>p. bw_transaction w e = Ok p
        \<and> entity_view db ov' (TRANSACTION_COLLECTION, to_be_bytes 32 (bt_transaction_hash e)) = Some p
        \<and> index_view db ov' (TRANSACTION_BLOCK_INDEX, block_key, to_be_bytes 32 (bt_transaction_hash e)))
    \<and> (\<forall>k. k \<notin> (\<lambda>e. (TRANSACTION_COLLECTION, to_be_bytes 32 (bt_transaction_hash e))) ` set es \<longrightarrow>
        entity_view db ov' k = entity_view db ov k)
    \<and> (\<forall>k. index_view db ov k \<longrightarrow> index_view db ov' k)"
proof (induction w db block_key es ov rule: put_transactions.induct)
  case (1 w db block_key ov)
  then show ?case by simp
next
  case (2 w db block_key e es ov)
  let ?key = "to_be_bytes 32 (bt_transaction_hash e)"
  obtain p where p: "bw_transaction w e = Ok p" using "2.prems"(1) by (auto simp: Let_def)
  let ?ov = "index_put db TRANSACTION_BLOCK_INDEX block_key ?key (entity_put db TRANSACTION_COLLECTION ?key p ov)"
  have rest: "put_transactions w db block_key es ?ov = Ok ov'" using "2.prems"(1) p by (simp add: map_err_def Let_def)
  have ok: "overlay_ok db ?ov" using "2.prems"(2) by (simp add: index_put_ok entity_put_laws)
  have view: "entity_view db ?ov = (entity_view db ov)((TRANSACTION_COLLECTION, ?key) \<mapsto> p)"
    "index_view db ?ov = (index_view db ov)((TRANSACTION_BLOCK_INDEX, block_key, ?key) := True)"
    "rv_changes ?ov = rv_changes ov"
    using "2.prems"(2) by (simp_all add: entity_put_laws index_put_view)
  have fresh: "?key \<noteq> to_be_bytes 32 (bt_transaction_hash e')" if "e' \<in> set es" for e'
    using "2.prems"(3) that by (auto simp: to_be_bytes_inject)
  note IH = "2.IH" [OF refl rest ok]
  have "(TRANSACTION_COLLECTION, ?key) \<notin> (\<lambda>e. (TRANSACTION_COLLECTION, to_be_bytes 32 (bt_transaction_hash e))) ` set es"
    using fresh by auto
  then have "entity_view db ov' (TRANSACTION_COLLECTION, ?key) = Some p"
    using IH "2.prems"(2,3) by (simp add: view entity_put_laws)
  then show ?case using IH "2.prems"(2,3) p by (auto simp: view entity_put_laws)
qed

text \<open>
  The requirement asks for the outcome of receipts, so in an accepted frame they match the
  transactions one to one; receipts are distinct, so the transactions are.
\<close>

lemma derive_distinct:
  assumes run: "derive s desc f = Ok d" and req: "hd (pd_requirements desc) = blobs_requirement"
  shows "distinct (map bt_transaction_hash (bd_transactions d))"
proof -
  obtain txs receipts by_hash where v: "validate_frame (hd (pd_requirements desc)) f = Ok ()"
    and txs: "as_present (fr_transactions f) = Some txs" and rcs: "as_present (fr_receipts f) = Some receipts"
    and map: "receipt_map [] receipts = Ok by_hash"
    by (rule derive_Ok [OF run])
  have "cap_contains (with_derivable (dr_capabilities blobs_requirement)) ReceiptOutcome"
    by (simp add: blobs_requirement_def with_derivable_contains)
  then have "group_filled f ReceiptOutcome" using v by (simp add: req validate_frame_Ok)
  then have "receipts_match txs receipts" using txs rcs by (simp add: group_filled_def)
  then have "map rc_transaction_hash receipts = map tx_hash txs"
    by (auto simp: receipts_match_def list_all_length intro!: nth_equalityI)
  moreover have "distinct (map rc_transaction_hash receipts)" using receipt_map_Ok [OF map] by simp
  ultimately have "distinct (map tx_hash txs)" by simp
  then have "distinct (map tx_hash (filter (\<lambda>tx. tx_type tx = 3) txs))" by (rule distinct_map_filter)
  then show ?thesis
    using derive_accounts(5) [OF run] txs by (metis mset_eq_imp_distinct_iff option.inject)
qed

lemma mapped_block_reduced:
  assumes wire: "blobs_wire_ok w" and req: "hd (pd_requirements desc) = blobs_requirement"
    and map: "blobs_map c w s desc f = Ok delta"
    and reduce: "blobs_reduce c w desc db cursor delta ov = Ok (changes, ov')" and ok: "overlay_ok db ov"
  obtains d p b where "derive s desc f = Ok d" "bw_delta w d = Ok p" "bw_block w (bd_entity d) = Ok b"
    "changes = [\<lparr>ch_kind = ''blobs.block'', ch_key = to_be_bytes 8 (number (fr_block f)), ch_operation = Upsert, ch_payload = p\<rparr>]"
    "rv_changes ov' = rv_changes ov @ changes" "overlay_ok db ov'"
    "entity_view db ov' (BLOCK_COLLECTION, to_be_bytes 8 (number (fr_block f))) = Some b"
    "\<forall>e \<in> set (bd_transactions d). \<exists>q. bw_transaction w e = Ok q
      \<and> entity_view db ov' (TRANSACTION_COLLECTION, to_be_bytes 32 (bt_transaction_hash e)) = Some q
      \<and> index_view db ov' (TRANSACTION_BLOCK_INDEX, to_be_bytes 8 (number (fr_block f)), to_be_bytes 32 (bt_transaction_hash e))"
proof -
  obtain d p where d: "derive s desc f = Ok d" and p: "bw_delta w d = Ok p"
    and delta: "delta = delta_new c desc (fr_chain_id f) (fr_block f) p"
    using map by (auto simp: blobs_map_def)
  have payload: "ed_payload delta = p" "ed_block delta = fr_block f" by (simp_all add: delta delta_new_def Let_def)
  have decoded: "bw_delta_from w p = Ok d" using wire p by (simp add: blobs_wire_ok_def)
  have n: "bb_block_number (bd_entity d) = number (fr_block f)" by (rule derive_Ok [OF d])
  obtain b ov1 where b: "bw_block w (bd_entity d) = Ok b"
    and put: "put_transactions w db (to_be_bytes 8 (number (fr_block f))) (bd_transactions d)
        (entity_put db BLOCK_COLLECTION (to_be_bytes 8 (number (fr_block f))) b ov) = Ok ov1"
    and res: "changes = [\<lparr>ch_kind = ''blobs.block'', ch_key = to_be_bytes 8 (number (fr_block f)), ch_operation = Upsert,
        ch_payload = p\<rparr>]" "ov' = emit (hd changes) ov1"
    using reduce decoded p unfolding blobs_reduce_def by (auto simp: payload n Let_def split: if_splits)
  let ?ov = "entity_put db BLOCK_COLLECTION (to_be_bytes 8 (number (fr_block f))) b ov"
  have ok1: "overlay_ok db ?ov" using ok by (rule entity_put_laws)
  note after = put_transactions_Ok [OF put ok1 derive_distinct [OF d req]]
  have emit: "entity_view db ov' = entity_view db ov1" "index_view db ov' = index_view db ov1"
    "overlay_ok db ov' = overlay_ok db ov1" "rv_changes ov' = rv_changes ov1 @ changes"
    by (simp_all add: res emit_def views)
  have "BLOCK_COLLECTION \<noteq> TRANSACTION_COLLECTION" by (simp add: BLOCK_COLLECTION_def TRANSACTION_COLLECTION_def)
  then have "(BLOCK_COLLECTION, to_be_bytes 8 (number (fr_block f)))
      \<notin> (\<lambda>e. (TRANSACTION_COLLECTION, to_be_bytes 32 (bt_transaction_hash e))) ` set (bd_transactions d)" by blast
  then have "entity_view db ov' (BLOCK_COLLECTION, to_be_bytes 8 (number (fr_block f))) = Some b"
    using after ok by (simp add: emit entity_put_laws)
  then show thesis
    using that [OF d p b res(1)] after by (simp add: emit)
qed

end
