(* ===== verification/Erc20.thy ===== *)
theory Erc20
  imports Processor_Runs
begin

text \<open>
  The ERC-20 balance processor, \<^verbatim>\<open>crates/processor-erc20/src/lib.rs\<close>: the transfers it maps from a
  frame's logs, and the ledgers it keeps of the watched pairs of a token and an account. The
  signature hash (\<^verbatim>\<open>keccak256\<close>) and the postcard encodings are parameters.
\<close>

section \<open>Data\<close>

record erc20_config =
  ec_start_block :: block_number
  ec_addresses :: "address list"
  ec_tokens :: "address list"
  ec_complete_from_start :: bool

record token_balance =
  tb_token :: address
  tb_address :: address
  tb_balance :: quantity
  tb_as_of_block :: block_number
  tb_block_hash :: block_hash
  tb_finality :: finality
  tb_coverage_from :: block_number
  tb_complete :: bool
  tb_incomplete_from :: "block_number option"
  tb_method :: string

record transfer_event =
  te_token :: address
  te_from :: address
  te_to :: address
  te_value :: quantity
  te_log_index :: u32

record transfer_delta =
  td_events :: "transfer_event list"
  td_skipped_logs :: u32

text \<open>A pair's ledger while a block is reduced; a frozen one was marked incomplete by an earlier block.\<close>

record pair_ledger =
  pl_balance :: "256 word"
  pl_incomplete_from :: "block_number option"
  pl_frozen :: bool

definition pair_ledger_new :: "token_balance option \<Rightarrow> pair_ledger" where
  "pair_ledger_new stored =
     (let incomplete = Option.bind stored tb_incomplete_from
      in \<lparr>pl_balance = map_or 0 tb_balance stored, pl_incomplete_from = incomplete, pl_frozen = (incomplete \<noteq> None)\<rparr>)"

record 'pe erc20_wire =
  ew_config :: "erc20_config \<Rightarrow> (bytes, 'pe) result"
  ew_delta :: "transfer_delta \<Rightarrow> (bytes, 'pe) result"
  ew_delta_from :: "bytes \<Rightarrow> (transfer_delta, 'pe) result"
  ew_balance :: "token_balance \<Rightarrow> (bytes, 'pe) result"
  ew_balance_from :: "bytes \<Rightarrow> (token_balance, 'pe) result"

text \<open>Postcard decodes what it encoded.\<close>

definition erc20_wire_ok :: "'pe erc20_wire \<Rightarrow> bool" where
  "erc20_wire_ok w =
     ((\<forall>d p. ew_delta w d = Ok p \<longrightarrow> ew_delta_from w p = Ok d)
      \<and> (\<forall>e p. ew_balance w e = Ok p \<longrightarrow> ew_balance_from w p = Ok e))"

definition BALANCE_COLLECTION :: string where
  "BALANCE_COLLECTION = ''erc20.balances''"

definition ETH_TRANSFER_EMITTER :: address where
  "ETH_TRANSFER_EMITTER = 0xfffffffffffffffffffffffffffffffffffffffe"

definition transfer_topic :: "(string \<Rightarrow> topic) \<Rightarrow> topic" where
  "transfer_topic keccak256 = keccak256 ''Transfer(address,address,uint256)''"

definition watched :: "erc20_config \<Rightarrow> address \<Rightarrow> bool" where
  "watched cfg a = (a \<in> set (ec_addresses cfg))"

definition erc20_requirement :: "(string \<Rightarrow> topic) \<Rightarrow> erc20_config \<Rightarrow> data_requirement" where
  "erc20_requirement keccak256 cfg =
     \<lparr>dr_capabilities = cap_of Logs, dr_log_fields = lf_none, dr_allow_filtered = True,
      dr_filter = default_scope\<lparr>scope_addresses := ec_tokens cfg,
        scope_topics := [\<lparr>position = 0, alternatives = [transfer_topic keccak256]\<rparr>]\<rparr>,
      dr_minimum_finality = Unattested\<rparr>"

definition erc20_new ::
  "(encoded_delta, 'pe, 'he) codec \<Rightarrow> 'pe erc20_wire \<Rightarrow> (string \<Rightarrow> topic) \<Rightarrow> erc20_config
    \<Rightarrow> (erc20_config \<times> processor_descriptor, processor_error) result" where
  "erc20_new c w keccak256 given =
     (let cfg = given\<lparr>ec_addresses := remdups_adj (sort (ec_addresses given)),
            ec_tokens := remdups_adj (sort (ec_tokens given))\<rparr>
      in if ec_addresses cfg = [] then Err (InputError ''ERC-20 watchlist must contain at least one address'')
      else
        and_then (map_err (\<lambda>_. InputError ''postcard'') (ew_config w cfg)) (\<lambda>encoded.
        and_then (map_err InputError (processor_id_new ''erc20-balances'')) (\<lambda>processor_id.
        (let config_hash = from_be_bytes (blake3 c encoded) in
        and_then (map_err InputError (processor_instance_id_legacy processor_id ''1.1.0''
          (hex_encode c (to_be_bytes 32 config_hash)))) (\<lambda>instance_id.
        (let desc = \<lparr>pd_id = processor_id, pd_instance = instance_id, pd_version = ''1.1.0'',
            pd_code_hash = from_be_bytes (blake3 c (as_bytes ''leani/erc20-balances/1.1.0'')),
            pd_config_hash = config_hash, pd_start = StartBlock (ec_start_block cfg),
            pd_requirements = [erc20_requirement keccak256 cfg], pd_mode = OrderedState,
            pd_delivery_ordering = OrderCanonical, pd_publication = PublishAttested,
            pd_lifecycle = lifecycle_from_legacy LatestState,
            pd_schemas = \<lparr>ps_delta_version = 2, ps_entity_schema = ''erc20.balance.entity.v2'',
              ps_change_schema = ''erc20.balance.change.v2''\<rparr>\<rparr>
         in and_then (map_err InputError (descriptor_validate desc)) (\<lambda>_. Ok (cfg, desc))))))))"

section \<open>Mapping\<close>

fun erc20_accepted_logs :: "log list material \<Rightarrow> (log list, processor_error) result" where
  "erc20_accepted_logs (Complete logs) = Ok logs"
| "erc20_accepted_logs (Filtered logs scope Partial) = Err (InputError ''ERC-20 logs are only partially filtered'')"
| "erc20_accepted_logs (Filtered logs scope _) = Ok logs"
| "erc20_accepted_logs (Missing reason) = Err (InputError ''ERC-20 logs are missing'')"

definition topic_address :: "topic \<Rightarrow> address option" where
  "topic_address t =
     (let bs = to_be_bytes 32 t
      in if list_ex (\<lambda>b. b \<noteq> 0) (take 12 bs) then None else Some (from_be_bytes (drop 12 bs)))"

text \<open>A canonical transfer has three topics and one word of data.\<close>

definition transfer_fields :: "log \<Rightarrow> (address \<times> address \<times> quantity) option" where
  "transfer_fields g =
     (case log_topics g of
        [_, sender, recipient] \<Rightarrow>
          Option.bind (topic_address sender) (\<lambda>f.
          Option.bind (topic_address recipient) (\<lambda>t.
          if length (log_data g) = 32 then Some (f, t, from_be_bytes (log_data g)) else None))
      | _ \<Rightarrow> None)"

definition transfer_candidate :: "(string \<Rightarrow> topic) \<Rightarrow> erc20_config \<Rightarrow> log \<Rightarrow> bool" where
  "transfer_candidate keccak256 cfg g =
     (let allowlisted = log_address g \<in> set (ec_tokens cfg)
      in \<not> ((case log_topics g of [] \<Rightarrow> None | t # _ \<Rightarrow> Some t) \<noteq> Some (transfer_topic keccak256)
            \<or> ec_tokens cfg \<noteq> [] \<and> \<not> allowlisted
            \<or> log_address g = ETH_TRANSFER_EMITTER \<and> \<not> allowlisted))"

fun map_logs ::
  "(string \<Rightarrow> topic) \<Rightarrow> erc20_config \<Rightarrow> log list \<Rightarrow> transfer_event list \<Rightarrow> u32 \<Rightarrow> transfer_event list \<times> u32" where
  "map_logs keccak256 cfg [] events skipped = (events, skipped)"
| "map_logs keccak256 cfg (g # gs) events skipped =
     (if \<not> transfer_candidate keccak256 cfg g then map_logs keccak256 cfg gs events skipped
      else case transfer_fields g of
        None \<Rightarrow> map_logs keccak256 cfg gs events (saturating_add skipped 1)
      | Some (f, t, v) \<Rightarrow>
          (if \<not> watched cfg f \<and> \<not> watched cfg t then map_logs keccak256 cfg gs events skipped
           else map_logs keccak256 cfg gs (events @ [\<lparr>te_token = log_address g, te_from = f, te_to = t, te_value = v,
             te_log_index = log_index g\<rparr>]) skipped))"

definition erc20_map ::
  "(encoded_delta, 'pe, 'he) codec \<Rightarrow> 'pe erc20_wire \<Rightarrow> (string \<Rightarrow> topic) \<Rightarrow> erc20_config \<Rightarrow> processor_descriptor
    \<Rightarrow> block_frame \<Rightarrow> (encoded_delta, processor_error) result" where
  "erc20_map c w keccak256 cfg desc f =
     and_then (map_err InputError (validate_frame (hd (pd_requirements desc)) f)) (\<lambda>_.
     and_then (erc20_accepted_logs (fr_logs f)) (\<lambda>logs.
     (let (events, skipped) = map_logs keccak256 cfg logs [] 0 in
     and_then (map_err (\<lambda>_. DeltaPayload ''postcard'')
       (ew_delta w \<lparr>td_events = sort_key te_log_index events, td_skipped_logs = skipped\<rparr>)) (\<lambda>payload.
     Ok (delta_new c desc (fr_chain_id f) (fr_block f) payload)))))"

section \<open>Reduction\<close>

text \<open>The store key of a pair: the bytes of the token and of the account.\<close>

definition balance_key :: "address \<Rightarrow> address \<Rightarrow> bytes" where
  "balance_key token account = to_be_bytes 20 token @ to_be_bytes 20 account"

definition decode_balance :: "'pe erc20_wire \<Rightarrow> bytes \<Rightarrow> (token_balance, processor_error) result" where
  "decode_balance w bs = map_err (\<lambda>_. StateError ''postcard'') (ew_balance_from w bs)"

type_synonym ledgers = "(address \<times> address, pair_ledger) table"

definition load_ledger ::
  "'pe erc20_wire \<Rightarrow> erc20_config \<Rightarrow> processor_db \<Rightarrow> address \<Rightarrow> address \<Rightarrow> ledgers \<times> reducer_overlay
    \<Rightarrow> (ledgers \<times> reducer_overlay, processor_error) result" where
  "load_ledger w cfg db token account = (\<lambda>(ls, ov).
     if account = 0 \<or> \<not> watched cfg account \<or> map_of ls (token, account) \<noteq> None then Ok (ls, ov)
     else
       (let (stored, ov1) = state_get db BALANCE_COLLECTION (balance_key token account) ov in
       and_then (case stored of None \<Rightarrow> Ok None | Some bs \<Rightarrow> and_then (decode_balance w bs) (\<lambda>e. Ok (Some e))) (\<lambda>entity.
       Ok (tput (token, account) (pair_ledger_new entity) ls, ov1))))"

definition update_balance ::
  "erc20_config \<Rightarrow> pair_ledger \<Rightarrow> address \<Rightarrow> block_number \<Rightarrow> 256 word option \<Rightarrow> string
    \<Rightarrow> (pair_ledger, processor_error) result" where
  "update_balance cfg ledger token block balance failure =
     (if pl_incomplete_from ledger \<noteq> None then Ok ledger
      else case balance of
        Some b \<Rightarrow> Ok (ledger\<lparr>pl_balance := b\<rparr>)
      | None \<Rightarrow>
          (if ec_complete_from_start cfg \<and> token \<in> set (ec_tokens cfg) then Err (StateError failure)
           else Ok (ledger\<lparr>pl_incomplete_from := Some block\<rparr>)))"

definition debit_sender ::
  "erc20_config \<Rightarrow> block_number \<Rightarrow> transfer_event \<Rightarrow> ledgers \<Rightarrow> (ledgers, processor_error) result" where
  "debit_sender cfg block e ls =
     (if te_from e \<noteq> 0 \<and> watched cfg (te_from e)
      then and_then (ok_or (map_of ls (te_token e, te_from e)) (StateError ''sender balance was not loaded'')) (\<lambda>ledger.
           and_then (update_balance cfg ledger (te_token e) block (checked_sub (pl_balance ledger) (te_value e))
             ''event-derived balance underflow'') (\<lambda>ledger'.
           Ok (tput (te_token e, te_from e) ledger' ls)))
      else Ok ls)"

definition credit_recipient ::
  "erc20_config \<Rightarrow> block_number \<Rightarrow> transfer_event \<Rightarrow> ledgers \<Rightarrow> (ledgers, processor_error) result" where
  "credit_recipient cfg block e ls =
     (if te_to e \<noteq> 0 \<and> watched cfg (te_to e)
      then and_then (ok_or (map_of ls (te_token e, te_to e)) (StateError ''recipient balance was not loaded'')) (\<lambda>ledger.
           and_then (update_balance cfg ledger (te_token e) block (checked_add (pl_balance ledger) (te_value e))
             ''event-derived balance overflow'') (\<lambda>ledger'.
           Ok (tput (te_token e, te_to e) ledger' ls)))
      else Ok ls)"

fun apply_events ::
  "'pe erc20_wire \<Rightarrow> erc20_config \<Rightarrow> processor_db \<Rightarrow> block_number \<Rightarrow> transfer_event list \<Rightarrow> ledgers \<times> reducer_overlay
    \<Rightarrow> (ledgers \<times> reducer_overlay, processor_error) result" where
  "apply_events w cfg db block [] s = Ok s"
| "apply_events w cfg db block (e # es) s =
     and_then (load_ledger w cfg db (te_token e) (te_from e) s) (\<lambda>s1.
     and_then (load_ledger w cfg db (te_token e) (te_to e) s1) (\<lambda>(ls, ov).
     and_then (debit_sender cfg block e ls) (\<lambda>ls1.
     and_then (credit_recipient cfg block e ls1) (\<lambda>ls2.
     apply_events w cfg db block es (ls2, ov)))))"

definition balance_entity ::
  "erc20_config \<Rightarrow> processor_cursor \<Rightarrow> address \<times> address \<Rightarrow> pair_ledger \<Rightarrow> token_balance" where
  "balance_entity cfg cursor = (\<lambda>(token, account) ledger.
     \<lparr>tb_token = token, tb_address = account, tb_balance = pl_balance ledger, tb_as_of_block = pc_block_number cursor,
      tb_block_hash = pc_block_hash cursor, tb_finality = pc_finality cursor, tb_coverage_from = ec_start_block cfg,
      tb_complete = (ec_complete_from_start cfg \<and> pl_incomplete_from ledger = None),
      tb_incomplete_from = pl_incomplete_from ledger, tb_method = ''erc20_transfer_ledger''\<rparr>)"

fun write_balances ::
  "'pe erc20_wire \<Rightarrow> erc20_config \<Rightarrow> processor_db \<Rightarrow> processor_cursor \<Rightarrow> ledgers \<Rightarrow> domain_change list \<times> reducer_overlay
    \<Rightarrow> (domain_change list \<times> reducer_overlay, processor_error) result" where
  "write_balances w cfg db cursor [] s = Ok s"
| "write_balances w cfg db cursor ((k, ledger) # ls) (changes, ov) =
     (if pl_frozen ledger then write_balances w cfg db cursor ls (changes, ov)
      else
        (let key = balance_key (fst k) (snd k) in
        and_then (map_err (\<lambda>_. StateError ''postcard'') (ew_balance w (balance_entity cfg cursor k ledger))) (\<lambda>payload.
        (let change = \<lparr>ch_kind = ''erc20.balance'', ch_key = key, ch_operation = Upsert, ch_payload = payload\<rparr>
         in write_balances w cfg db cursor ls
              (changes @ [change],
               emit change (entity_put db BALANCE_COLLECTION key payload
                 (state_put db BALANCE_COLLECTION key payload ov)))))))"

definition erc20_reduce ::
  "(encoded_delta, 'pe, 'he) codec \<Rightarrow> 'pe erc20_wire \<Rightarrow> erc20_config \<Rightarrow> processor_descriptor \<Rightarrow> reducer" where
  "erc20_reduce c w cfg desc db cursor delta ov =
     and_then (validate_delta_cursor c desc cursor delta) (\<lambda>_.
     and_then (map_err (\<lambda>_. DeltaPayload ''postcard'') (ew_delta_from w (ed_payload delta))) (\<lambda>d.
     and_then (apply_events w cfg db (pc_block_number cursor) (td_events d) ([], ov)) (\<lambda>(ls, ov1).
     write_balances w cfg db cursor ls ([], ov1))))"

end
