(* ===== verification/Erc20_Laws.thy ===== *)
theory Erc20_Laws
  imports Erc20
begin

text \<open>
  What the ERC-20 processor keeps: a reference ledger of balances and of the pairs that were
  given up, one step per transfer, the refinement of it by the reduction of a block, the
  interpretation of \<open>ordered_processor\<close>, and the accounts of a run in integers.
\<close>

section \<open>The reference ledger\<close>

text \<open>The standing of a pair: its balance, and the block since which it is not derived any more.\<close>

type_synonym standing = "256 word \<times> block_number option"
type_synonym standings = "address \<times> address \<Rightarrow> standing"

fun ok_of :: "('a, 'e) result \<Rightarrow> 'a option" where
  "ok_of (Ok a) = Some a"
| "ok_of (Err _) = None"

definition standings :: "'pe erc20_wire \<Rightarrow> (string \<times> bytes \<Rightarrow> bytes option) \<Rightarrow> standings" where
  "standings w m = (\<lambda>(token, account).
     case Option.bind (m (BALANCE_COLLECTION, balance_key token account)) (\<lambda>bs. ok_of (ew_balance_from w bs)) of
       None \<Rightarrow> (0, None)
     | Some e \<Rightarrow> (tb_balance e, tb_incomplete_from e))"

definition moved :: "block_number \<Rightarrow> 256 word option \<Rightarrow> standing \<Rightarrow> standing" where
  "moved block new s =
     (if snd s \<noteq> None then s
      else case new of Some b \<Rightarrow> (b, None) | None \<Rightarrow> (fst s, Some block))"

definition tracked :: "erc20_config \<Rightarrow> address \<Rightarrow> bool" where
  "tracked cfg a = (a \<noteq> 0 \<and> watched cfg a)"

definition event_step :: "erc20_config \<Rightarrow> block_number \<times> transfer_event \<Rightarrow> standings \<Rightarrow> standings" where
  "event_step cfg = (\<lambda>(block, e) S.
     let f = (te_token e, te_from e); t = (te_token e, te_to e);
       S1 = (if tracked cfg (te_from e) then S(f := moved block (checked_sub (fst (S f)) (te_value e)) (S f)) else S)
     in if tracked cfg (te_to e) then S1(t := moved block (checked_add (fst (S1 t)) (te_value e)) (S1 t)) else S1)"

definition delta_events :: "'pe erc20_wire \<Rightarrow> processor_cursor \<times> encoded_delta \<Rightarrow> (block_number \<times> transfer_event) list" where
  "delta_events w = (\<lambda>(cursor, delta).
     case ok_of (ew_delta_from w (ed_payload delta)) of
       None \<Rightarrow> []
     | Some d \<Rightarrow> map (Pair (pc_block_number cursor)) (td_events d))"

definition ledger_step ::
  "'pe erc20_wire \<Rightarrow> erc20_config \<Rightarrow> processor_cursor \<times> encoded_delta \<Rightarrow> standings \<Rightarrow> standings" where
  "ledger_step w cfg b = fold (event_step cfg) (delta_events w b)"

section \<open>Refinement\<close>

lemma balance_key_inject [simp]: "balance_key t a = balance_key t' a' \<longleftrightarrow> t = t' \<and> a = a'"
  by (simp add: balance_key_def to_be_bytes_inject)

text \<open>The ledgers in memory while a block is reduced, against the standings before the block and now.\<close>

definition entry_ok :: "erc20_config \<Rightarrow> standing \<Rightarrow> standing \<Rightarrow> address \<Rightarrow> pair_ledger \<Rightarrow> bool" where
  "entry_ok cfg s0 s account l =
     (tracked cfg account \<and> s = (pl_balance l, pl_incomplete_from l) \<and> pl_frozen l = (snd s0 \<noteq> None)
      \<and> (pl_frozen l \<longrightarrow> s = s0))"

definition loaded :: "erc20_config \<Rightarrow> standings \<Rightarrow> standings \<Rightarrow> ledgers \<Rightarrow> bool" where
  "loaded cfg S0 S ls =
     (ordered ls
      \<and> (\<forall>k. case map_of ls k of None \<Rightarrow> S k = S0 k | Some l \<Rightarrow> entry_ok cfg (S0 k) (S k) (snd k) l))"

lemma loadedD:
  assumes "loaded cfg S0 S ls"
  shows "ordered ls" "map_of ls k = None \<Longrightarrow> S k = S0 k" "map_of ls k = Some l \<Longrightarrow> entry_ok cfg (S0 k) (S k) (snd k) l"
  using assms by (auto simp: loaded_def simp del: split_paired_All dest: spec [of _ k])

lemma loaded_put:
  assumes I: "loaded cfg S0 S ls" and l: "entry_ok cfg (S0 k) s (snd k) l"
  shows "loaded cfg S0 (S(k := s)) (tput k l ls)"
proof -
  have "case map_of (tput k l ls) k' of None \<Rightarrow> (S(k := s)) k' = S0 k'
      | Some l' \<Rightarrow> entry_ok cfg (S0 k') ((S(k := s)) k') (snd k') l'" for k'
    using loadedD(1) [OF I] loadedD(2,3) [OF I, of k'] l by (cases "k' = k") (auto split: option.splits)
  then show ?thesis using loadedD(1) [OF I] by (simp add: loaded_def del: split_paired_All)
qed

lemma loaded_Nil: "loaded cfg S S []"
  by (simp add: loaded_def)

lemma state_get_keeps:
  "overlay_ok db ov \<Longrightarrow> state_get db collection key ov = (stored, ov') \<Longrightarrow>
    stored = state_view db ov (collection, key) \<and> state_view db ov' = state_view db ov \<and> overlay_ok db ov'
    \<and> rv_instance ov' = rv_instance ov"
  using state_get_laws [of db ov collection key] same_instance(5) [of db collection key ov] by auto

lemma load_ledger_loaded:
  assumes run: "load_ledger w cfg db token account (ls, ov) = Ok (ls', ov')"
    and I: "loaded cfg S0 S ls" and ok: "overlay_ok db ov" and view: "standings w (state_view db ov) = S0"
  shows "loaded cfg S0 S ls'" "overlay_ok db ov'" "state_view db ov' = state_view db ov" "rv_instance ov' = rv_instance ov"
    "tracked cfg account \<Longrightarrow> \<exists>l. map_of ls' (token, account) = Some l"
proof -
  have "loaded cfg S0 S ls' \<and> overlay_ok db ov' \<and> state_view db ov' = state_view db ov \<and> rv_instance ov' = rv_instance ov
    \<and> (tracked cfg account \<longrightarrow> (\<exists>l. map_of ls' (token, account) = Some l))"
  proof (cases "account = 0 \<or> \<not> watched cfg account \<or> map_of ls (token, account) \<noteq> None")
    case True
    then show ?thesis using run I ok by (auto simp: load_ledger_def tracked_def)
  next
    case False
    obtain stored ov1 where get: "state_get db BALANCE_COLLECTION (balance_key token account) ov = (stored, ov1)"
      by fastforce
    note g = state_get_keeps [OF ok get]
    have here: "S (token, account) = S0 (token, account)" using loadedD(2) [OF I] False by simp
    obtain entity where e: "(case stored of None \<Rightarrow> Ok None | Some bs \<Rightarrow>
        and_then (decode_balance w bs) (\<lambda>e. Ok (Some e))) = Ok entity"
      and ls': "ls' = tput (token, account) (pair_ledger_new entity) ls" and ov': "ov' = ov1"
      using run False by (auto simp: load_ledger_def get)
    have new: "S0 (token, account) = (pl_balance (pair_ledger_new entity), pl_incomplete_from (pair_ledger_new entity))"
      using e by (auto simp: view [symmetric] standings_def g pair_ledger_new_def decode_balance_def Let_def
        map_or_def split: option.splits)
    have "entry_ok cfg (S0 (token, account)) (S (token, account)) account (pair_ledger_new entity)"
      using False new here by (auto simp: entry_ok_def tracked_def pair_ledger_new_def Let_def)
    then have "loaded cfg S0 S ls'"
      using loaded_put [OF I, of "(token, account)" "S (token, account)"] by (simp add: ls')
    then show ?thesis using g ov' ls' loadedD(1) [OF I] by simp
  qed
  then show "loaded cfg S0 S ls'" "overlay_ok db ov'" "state_view db ov' = state_view db ov" "rv_instance ov' = rv_instance ov"
    "tracked cfg account \<Longrightarrow> \<exists>l. map_of ls' (token, account) = Some l"
    by auto
qed

text \<open>
  One side of a transfer, on the ledger in memory. A token declared complete fails a block instead
  of giving up a pair of it.
\<close>

definition marks_kept :: "erc20_config \<Rightarrow> standings \<Rightarrow> standings \<Rightarrow> bool" where
  "marks_kept cfg S S' =
     (ec_complete_from_start cfg \<longrightarrow> (\<forall>token \<in> set (ec_tokens cfg). \<forall>a. snd (S' (token, a)) = snd (S (token, a))))"

lemma marks_kept_refl [simp]: "marks_kept cfg S S"
  by (simp add: marks_kept_def)

lemma marks_kept_trans: "marks_kept cfg S S' \<Longrightarrow> marks_kept cfg S' S'' \<Longrightarrow> marks_kept cfg S S''"
  by (simp add: marks_kept_def)

lemma update_loaded:
  assumes run: "update_balance cfg l (fst k) block new failure = Ok l'"
    and I: "loaded cfg S0 S ls" and l: "map_of ls k = Some l"
  shows "loaded cfg S0 (S(k := moved block new (S k))) (tput k l' ls)" "marks_kept cfg S (S(k := moved block new (S k)))"
proof -
  have here: "entry_ok cfg (S0 k) (S k) (snd k) l" by (rule loadedD(3) [OF I l])
  have "entry_ok cfg (S0 k) (moved block new (S k)) (snd k) l'"
    using run here by (cases "S0 k"; cases "S k"; auto simp: entry_ok_def update_balance_def moved_def split: if_splits option.splits)
  then show "loaded cfg S0 (S(k := moved block new (S k))) (tput k l' ls)" by (rule loaded_put [OF I])
  show "marks_kept cfg S (S(k := moved block new (S k)))"
    using run here by (cases k) (auto simp: marks_kept_def entry_ok_def update_balance_def moved_def
      split: if_splits option.splits)
qed

lemma event_loaded:
  assumes d: "debit_sender cfg block e ls = Ok ls1" and c: "credit_recipient cfg block e ls1 = Ok ls2"
    and I: "loaded cfg S0 S ls"
  shows "loaded cfg S0 (event_step cfg (block, e) S) ls2" "marks_kept cfg S (event_step cfg (block, e) S)"
proof -
  let ?f = "(te_token e, te_from e)" and ?t = "(te_token e, te_to e)"
  define S1 where "S1 = (if tracked cfg (te_from e)
    then S(?f := moved block (checked_sub (fst (S ?f)) (te_value e)) (S ?f)) else S)"
  have one: "loaded cfg S0 S1 ls1 \<and> marks_kept cfg S S1"
  proof (cases "tracked cfg (te_from e)")
    case True
    then obtain l l' where l: "map_of ls ?f = Some l" and ls1: "ls1 = tput ?f l' ls"
      and u: "update_balance cfg l (fst ?f) block (checked_sub (pl_balance l) (te_value e))
        ''event-derived balance underflow'' = Ok l'"
      using d by (auto simp: debit_sender_def tracked_def split: if_splits)
    have "fst (S ?f) = pl_balance l" using loadedD(3) [OF I l] by (simp add: entry_ok_def)
    then show ?thesis using update_loaded [OF u I l] True by (simp add: S1_def ls1)
  next
    case False
    then show ?thesis using d I by (auto simp: debit_sender_def tracked_def S1_def split: if_splits)
  qed
  have two: "loaded cfg S0 (event_step cfg (block, e) S) ls2 \<and> marks_kept cfg S1 (event_step cfg (block, e) S)"
  proof (cases "tracked cfg (te_to e)")
    case True
    then obtain l l' where l: "map_of ls1 ?t = Some l" and ls2: "ls2 = tput ?t l' ls1"
      and u: "update_balance cfg l (fst ?t) block (checked_add (pl_balance l) (te_value e))
        ''event-derived balance overflow'' = Ok l'"
      using c by (auto simp: credit_recipient_def tracked_def split: if_splits)
    have "fst (S1 ?t) = pl_balance l" using loadedD(3) [OF conjunct1 [OF one] l] by (simp add: entry_ok_def)
    then show ?thesis using update_loaded [OF u conjunct1 [OF one] l] True
      by (simp add: event_step_def Let_def S1_def [symmetric] ls2)
  next
    case False
    then have "ls2 = ls1" using c by (auto simp: credit_recipient_def tracked_def split: if_splits)
    then show ?thesis using one False by (simp add: event_step_def Let_def S1_def)
  qed
  show "loaded cfg S0 (event_step cfg (block, e) S) ls2" "marks_kept cfg S (event_step cfg (block, e) S)"
    using one two by (blast intro: marks_kept_trans)+
qed

lemma apply_events_loaded:
  "apply_events w cfg db block es (ls, ov) = Ok (ls', ov') \<Longrightarrow> loaded cfg S0 S ls \<Longrightarrow> overlay_ok db ov \<Longrightarrow>
    standings w (state_view db ov) = S0 \<Longrightarrow>
    loaded cfg S0 (fold (event_step cfg) (map (Pair block) es) S) ls'
    \<and> marks_kept cfg S (fold (event_step cfg) (map (Pair block) es) S) \<and> overlay_ok db ov'
    \<and> state_view db ov' = state_view db ov \<and> rv_instance ov' = rv_instance ov"
proof (induction es arbitrary: ls ov S)
  case Nil
  then show ?case by simp
next
  case (Cons e es)
  obtain la oa lb ob ls1 ls2 where a: "load_ledger w cfg db (te_token e) (te_from e) (ls, ov) = Ok (la, oa)"
    and b: "load_ledger w cfg db (te_token e) (te_to e) (la, oa) = Ok (lb, ob)"
    and d: "debit_sender cfg block e lb = Ok ls1" and c: "credit_recipient cfg block e ls1 = Ok ls2"
    and rest: "apply_events w cfg db block es (ls2, ob) = Ok (ls', ov')"
    using Cons.prems(1) by auto
  note A = load_ledger_loaded [OF a Cons.prems(2-4)]
  have va: "standings w (state_view db oa) = S0" using A(3) Cons.prems(4) by simp
  note B = load_ledger_loaded [OF b A(1,2) va]
  have vb: "standings w (state_view db ob) = S0" using B(3) va by simp
  show ?case using Cons.IH [OF rest event_loaded(1) [OF d c B(1)] B(2) vb] event_loaded(2) [OF d c B(1)] A B
    by (auto intro: marks_kept_trans)
qed

lemma standings_put:
  assumes "erc20_wire_ok w" and "ew_balance w e = Ok payload"
  shows "standings w (m((BALANCE_COLLECTION, balance_key t a) := Some payload))
    = (standings w m)((t, a) := (tb_balance e, tb_incomplete_from e))"
  using assms by (auto simp: standings_def erc20_wire_ok_def fun_eq_iff)

lemma balance_written:
  assumes ok: "overlay_ok db ov"
  shows "state_view db (emit change (entity_put db BALANCE_COLLECTION key p (state_put db BALANCE_COLLECTION key p ov)))
      = (state_view db ov)((BALANCE_COLLECTION, key) := Some p)"
    "overlay_ok db (emit change (entity_put db BALANCE_COLLECTION key p (state_put db BALANCE_COLLECTION key p ov)))"
    "entity_view db (emit change (entity_put db BALANCE_COLLECTION key p (state_put db BALANCE_COLLECTION key p ov)))
      = (entity_view db ov)((BALANCE_COLLECTION, key) := Some p)"
proof -
  note s = state_put_laws [OF ok, of BALANCE_COLLECTION key p]
  show "state_view db (emit change (entity_put db BALANCE_COLLECTION key p (state_put db BALANCE_COLLECTION key p ov)))
      = (state_view db ov)((BALANCE_COLLECTION, key) := Some p)"
    using s by simp
  show "overlay_ok db (emit change (entity_put db BALANCE_COLLECTION key p (state_put db BALANCE_COLLECTION key p ov)))"
    using entity_put_laws(2) [OF s(2)] by simp
  show "entity_view db (emit change (entity_put db BALANCE_COLLECTION key p (state_put db BALANCE_COLLECTION key p ov)))
      = (entity_view db ov)((BALANCE_COLLECTION, key) := Some p)"
    using entity_put_laws(1) [OF s(2)] by simp
qed

lemma write_balances_ok:
  "write_balances w cfg db cursor ls (changes, ov) = Ok (changes', ov') \<Longrightarrow> overlay_ok db ov \<Longrightarrow>
    overlay_ok db ov' \<and> rv_instance ov' = rv_instance ov"
proof (induction ls arbitrary: changes ov)
  case Nil
  then show ?case by simp
next
  case (Cons x ls)
  obtain k l where x: "x = (k, l)" by (cases x)
  show ?case
  proof (cases "pl_frozen l")
    case True
    then show ?thesis using Cons x by simp
  next
    case False
    then obtain p change where "write_balances w cfg db cursor ls (changes @ [change],
        emit change (entity_put db BALANCE_COLLECTION (balance_key (fst k) (snd k)) p
          (state_put db BALANCE_COLLECTION (balance_key (fst k) (snd k)) p ov))) = Ok (changes', ov')"
      using Cons.prems(1) by (auto simp: x Let_def)
    from Cons.IH [OF this balance_written(2) [OF Cons.prems(2)]] show ?thesis by simp
  qed
qed

lemma write_balances_standings:
  "write_balances w cfg db cursor ls (changes, ov) = Ok (changes', ov') \<Longrightarrow> overlay_ok db ov \<Longrightarrow> erc20_wire_ok w \<Longrightarrow>
    distinct (map fst ls) \<Longrightarrow>
    standings w (state_view db ov') k =
      (case map_of ls k of
         None \<Rightarrow> standings w (state_view db ov) k
       | Some l \<Rightarrow> if pl_frozen l then standings w (state_view db ov) k else (pl_balance l, pl_incomplete_from l))"
proof (induction ls arbitrary: changes ov)
  case Nil
  then show ?case by simp
next
  case (Cons x ls)
  obtain t a l where x: "x = ((t, a), l)" by (metis prod.exhaust)
  show ?case
  proof (cases "pl_frozen l")
    case True
    then have "write_balances w cfg db cursor ls (changes, ov) = Ok (changes', ov')" using Cons.prems(1) x by simp
    moreover have "map_of ls (t, a) = None" using Cons.prems(4) x by (simp add: map_of_eq_None_iff)
    ultimately show ?thesis using Cons.IH [of changes ov] Cons.prems(2-4) True by (simp add: x split: option.splits)
  next
    case False
    let ?key = "balance_key t a"
    obtain p change where p: "ew_balance w (balance_entity cfg cursor (t, a) l) = Ok p"
      and rest: "write_balances w cfg db cursor ls (changes @ [change],
        emit change (entity_put db BALANCE_COLLECTION ?key p (state_put db BALANCE_COLLECTION ?key p ov))) = Ok (changes', ov')"
      using Cons.prems(1) False by (auto simp: x Let_def)
    have entity: "tb_balance (balance_entity cfg cursor (t, a) l) = pl_balance l"
      "tb_incomplete_from (balance_entity cfg cursor (t, a) l) = pl_incomplete_from l"
      by (simp_all add: balance_entity_def)
    note written = balance_written [OF Cons.prems(2)]
    have notin: "map_of ls (t, a) = None" using Cons.prems(4) x by (simp add: map_of_eq_None_iff)
    have "standings w (state_view db ov') k =
      (case map_of ls k of
         None \<Rightarrow> ((standings w (state_view db ov))((t, a) := (pl_balance l, pl_incomplete_from l))) k
       | Some l' \<Rightarrow> if pl_frozen l' then ((standings w (state_view db ov))((t, a) := (pl_balance l, pl_incomplete_from l))) k
           else (pl_balance l', pl_incomplete_from l'))"
      using Cons.IH [OF rest written(2) Cons.prems(3), unfolded written(1) standings_put [OF Cons.prems(3) p] entity] Cons.prems(4)
      by (simp add: x)
    then show ?thesis using notin False by (auto simp: x split: option.splits)
  qed
qed

lemma erc20_reduce_parts:
  assumes "erc20_reduce c w cfg desc db cursor delta ov = Ok (changes, ov')"
  obtains d ls ov1 where "validate_delta_cursor c desc cursor delta = Ok ()" "ew_delta_from w (ed_payload delta) = Ok d"
    "apply_events w cfg db (pc_block_number cursor) (td_events d) ([], ov) = Ok (ls, ov1)"
    "write_balances w cfg db cursor ls ([], ov1) = Ok (changes, ov')"
  using assms by (auto simp: erc20_reduce_def)

lemma erc20_reduce_keeps:
  assumes run: "erc20_reduce c w cfg desc db cursor delta ov = Ok (changes, ov')" and ok: "overlay_ok db ov"
  shows "overlay_ok db ov' \<and> rv_instance ov' = rv_instance ov"
proof -
  obtain d ls ov1 where "validate_delta_cursor c desc cursor delta = Ok ()" "ew_delta_from w (ed_payload delta) = Ok d"
    and a: "apply_events w cfg db (pc_block_number cursor) (td_events d) ([], ov) = Ok (ls, ov1)"
    and wr: "write_balances w cfg db cursor ls ([], ov1) = Ok (changes, ov')"
    by (rule erc20_reduce_parts [OF run])
  have "overlay_ok db ov1 \<and> rv_instance ov1 = rv_instance ov"
    using apply_events_loaded [OF a loaded_Nil ok refl] by simp
  then show ?thesis using write_balances_ok [OF wr] by simp
qed

lemma erc20_reduce_standings:
  assumes run: "erc20_reduce c w cfg desc db cursor delta ov = Ok (changes, ov')" and ok: "overlay_ok db ov"
    and wire: "erc20_wire_ok w"
  shows "standings w (state_view db ov') = ledger_step w cfg (cursor, delta) (standings w (state_view db ov))"
    "marks_kept cfg (standings w (state_view db ov)) (standings w (state_view db ov'))"
proof -
  let ?before = "standings w (state_view db ov)"
  obtain d ls ov1 where "validate_delta_cursor c desc cursor delta = Ok ()" and d: "ew_delta_from w (ed_payload delta) = Ok d"
    and a: "apply_events w cfg db (pc_block_number cursor) (td_events d) ([], ov) = Ok (ls, ov1)"
    and wr: "write_balances w cfg db cursor ls ([], ov1) = Ok (changes, ov')"
    by (rule erc20_reduce_parts [OF run])
  let ?S = "fold (event_step cfg) (map (Pair (pc_block_number cursor)) (td_events d)) ?before"
  have A: "loaded cfg ?before ?S ls" "overlay_ok db ov1" "state_view db ov1 = state_view db ov"
    "marks_kept cfg ?before ?S"
    using apply_events_loaded [OF a loaded_Nil ok refl] by blast+
  have dist: "distinct (map fst ls)" using A(1) by (simp add: loaded_def ordered_distinct)
  have "standings w (state_view db ov') k = ?S k" for k
    using write_balances_standings [OF wr A(2) wire dist, of k] loadedD(2,3) [OF A(1), of k] A(3)
    by (auto simp: entry_ok_def split: option.splits)
  then have after: "standings w (state_view db ov') = ?S" by blast
  show "standings w (state_view db ov') = ledger_step w cfg (cursor, delta) ?before"
    by (simp add: after ledger_step_def delta_events_def d)
  show "marks_kept cfg ?before (standings w (state_view db ov'))" unfolding after by (rule A(4))
qed

text \<open>The processor keeps the contract of an ordered one, over postcard encodings that decode.\<close>

interpretation erc20: ordered_processor "erc20_reduce c w cfg desc"
    "\<lambda>m. if erc20_wire_ok w then standings w m else (\<lambda>_. (0, None))"
    "\<lambda>b S. if erc20_wire_ok w then ledger_step w cfg b S else S"
  for c :: "(encoded_delta, 'pe, 'he) codec" and w :: "'pe erc20_wire" and cfg desc
  by unfold_locales (auto simp: erc20_reduce_standings(1) dest: erc20_reduce_keeps)

section \<open>Accounts\<close>

definition credit :: "erc20_config \<Rightarrow> address \<times> address \<Rightarrow> transfer_event \<Rightarrow> int" where
  "credit cfg k e = (if tracked cfg (te_to e) \<and> (te_token e, te_to e) = k then int (unat (te_value e)) else 0)"

definition debit :: "erc20_config \<Rightarrow> address \<times> address \<Rightarrow> transfer_event \<Rightarrow> int" where
  "debit cfg k e = (if tracked cfg (te_from e) \<and> (te_token e, te_from e) = k then int (unat (te_value e)) else 0)"

lemma moved_marked [simp]: "snd s \<noteq> None \<Longrightarrow> moved block new s = s"
  by (simp add: moved_def)

lemma moved_exact:
  assumes "snd (moved block new s) = None"
  shows "snd s = None" "\<exists>b. new = Some b \<and> moved block new s = (b, None)"
  using assms by (auto simp: moved_def split: if_splits option.splits)

lemma moved_credit:
  assumes "snd (moved block (checked_add (fst s) v) s) = None"
  shows "snd s = None \<and> int (unat (fst (moved block (checked_add (fst s) v) s))) = int (unat (fst s)) + int (unat v)"
proof -
  obtain b where b: "checked_add (fst s) v = Some b" "moved block (checked_add (fst s) v) s = (b, None)"
    using moved_exact [OF assms] by blast
  have "int (unat b) = int (unat (fst s)) + int (unat v)"
    using b(1) unfolding checked_add_Some by (simp only: of_nat_add)
  then show ?thesis using moved_exact(1) [OF assms] unfolding b(2) by simp
qed

lemma moved_debit:
  assumes "snd (moved block (checked_sub (fst s) v) s) = None"
  shows "snd s = None \<and> int (unat (fst (moved block (checked_sub (fst s) v) s))) = int (unat (fst s)) - int (unat v)"
proof -
  obtain b where b: "checked_sub (fst s) v = Some b" "moved block (checked_sub (fst s) v) s = (b, None)"
    using moved_exact [OF assms] by blast
  have "int (unat b) = int (unat (fst s)) - int (unat v)"
    using b(1) unfolding checked_sub_Some by (simp only: of_nat_diff)
  then show ?thesis using moved_exact(1) [OF assms] unfolding b(2) by simp
qed

lemma event_marked: "snd (S k) \<noteq> None \<Longrightarrow> event_step cfg (block, e) S k = S k"
  by (auto simp: event_step_def Let_def)

lemma event_untracked: "\<not> tracked cfg (snd k) \<Longrightarrow> event_step cfg (block, e) S k = S k"
  by (auto simp: event_step_def Let_def)

lemma event_accounts:
  assumes "snd (event_step cfg (block, e) S k) = None"
  shows "snd (S k) = None \<and> int (unat (fst (event_step cfg (block, e) S k)))
    = int (unat (fst (S k))) + credit cfg k e - debit cfg k e"
proof -
  let ?f = "(te_token e, te_from e)" and ?t = "(te_token e, te_to e)"
  define S1 where "S1 = (if tracked cfg (te_from e)
    then S(?f := moved block (checked_sub (fst (S ?f)) (te_value e)) (S ?f)) else S)"
  have step: "event_step cfg (block, e) S = (if tracked cfg (te_to e)
      then S1(?t := moved block (checked_add (fst (S1 ?t)) (te_value e)) (S1 ?t)) else S1)"
    by (simp add: event_step_def Let_def S1_def)
  have one: "snd (S k) = None \<and> int (unat (fst (S1 k))) = int (unat (fst (S k))) - debit cfg k e" if "snd (S1 k) = None"
    using that moved_debit [of block "S ?f" "te_value e"] by (cases "k = ?f") (auto simp: S1_def debit_def split: if_splits)
  have two: "snd (S1 k) = None \<and> int (unat (fst (event_step cfg (block, e) S k))) = int (unat (fst (S1 k))) + credit cfg k e"
    using assms moved_credit [of block "S1 ?t" "te_value e"] unfolding step
    by (cases "k = ?t") (auto simp: credit_def split: if_splits)
  show ?thesis using one two by simp
qed

lemma run_marked: "snd (S k) \<noteq> None \<Longrightarrow> fold (event_step cfg) bes S k = S k"
proof (induction bes arbitrary: S)
  case Nil
  then show ?case by simp
next
  case (Cons x bes)
  then show ?case by (cases x) (simp add: event_marked)
qed

lemma run_untracked: "\<not> tracked cfg (snd k) \<Longrightarrow> fold (event_step cfg) bes S k = S k"
proof (induction bes arbitrary: S)
  case Nil
  then show ?case by simp
next
  case (Cons x bes)
  then show ?case by (cases x) (simp add: event_untracked)
qed

lemma run_accounts:
  "snd (fold (event_step cfg) bes S k) = None \<Longrightarrow>
    int (unat (fst (fold (event_step cfg) bes S k)))
      = int (unat (fst (S k))) + (\<Sum>(block, e)\<leftarrow>bes. credit cfg k e - debit cfg k e)"
proof (induction bes arbitrary: S)
  case Nil
  then show ?case by simp
next
  case (Cons x bes)
  obtain block e where x: "x = (block, e)" by (cases x)
  have "snd (event_step cfg (block, e) S k) = None"
    using Cons.prems run_marked [of "event_step cfg (block, e) S" k cfg bes]
    by (cases "snd (event_step cfg (block, e) S k) = None") (simp_all add: x)
  from event_accounts [OF this] Cons.IH [of "event_step cfg (block, e) S"] Cons.prems show ?case by (simp add: x)
qed

section \<open>Runs\<close>

lemma erc20_run:
  assumes run: "reduce_blocks c desc (erc20_reduce c w cfg desc) bs db = (Ok db' :: (_, 'pe store_error) result)"
    and ok: "tables_ordered db" and wire: "erc20_wire_ok w"
  shows "standings w (state_base db' (pd_instance desc))
      = fold (event_step cfg) (concat (map (delta_events w \<circ> snd) bs)) (standings w (state_base db (pd_instance desc)))"
    "marks_kept cfg (standings w (state_base db (pd_instance desc))) (standings w (state_base db' (pd_instance desc)))"
proof -
  have "fold (ledger_step w cfg \<circ> snd) bs S = fold (event_step cfg) (concat (map (delta_events w \<circ> snd) bs)) S" for S
    by (induction bs arbitrary: S) (simp_all add: ledger_step_def)
  then show "standings w (state_base db' (pd_instance desc))
      = fold (event_step cfg) (concat (map (delta_events w \<circ> snd) bs)) (standings w (state_base db (pd_instance desc)))"
    using erc20.run_steps [OF run ok] wire by (simp add: comp_def)
  show "marks_kept cfg (standings w (state_base db (pd_instance desc))) (standings w (state_base db' (pd_instance desc)))"
    using erc20.blocks_keep [where P = "marks_kept cfg (standings w (state_base db (pd_instance desc)))", OF _ run ok] wire
    by (auto intro: marks_kept_trans erc20_reduce_standings(2))
qed

section \<open>Mapped transfers\<close>

text \<open>A topic is an address exactly when it is the address padded with zeros.\<close>

lemma be_digits_zero: "be_digits n 0 = replicate n 0"
  by (induction n) (simp_all add: replicate_append_same)

lemma be_digits_add: "be_digits (m + n) x = be_digits m (x div 256 ^ n) @ be_digits n x"
  by (induction n arbitrary: x) (simp_all add: div_mult2_eq)

lemma padded_address: "to_be_bytes 32 (ucast (a :: address) :: topic) = replicate 12 0 @ to_be_bytes 20 a"
proof -
  have small: "unat a < 256 ^ 20" using unat_less_power [of a] by simp
  then have "unat (ucast a :: topic) = unat a" by (simp add: unsigned_ucast_eq take_bit_nat_eq_self)
  then have "to_be_bytes 32 (ucast a :: topic) = be_digits (12 + 20) (unat a)" by (simp add: to_be_bytes_def)
  also have "\<dots> = replicate 12 0 @ to_be_bytes 20 a"
    unfolding be_digits_add to_be_bytes_def using small by (simp add: be_digits_zero)
  finally show ?thesis .
qed

lemma topic_address_exact: "topic_address t = Some a \<longleftrightarrow> t = ucast a"
proof
  show "t = ucast a \<Longrightarrow> topic_address t = Some a"
    by (simp add: topic_address_def padded_address from_to_be_bytes Let_def list_ex_iff)
  assume a: "topic_address t = Some a"
  let ?bs = "to_be_bytes 32 t"
  have zeros: "list_all (\<lambda>b. b = 0) (take 12 ?bs)" and rest: "a = from_be_bytes (drop 12 ?bs)"
    using a by (auto simp: topic_address_def Let_def list_ex_iff list_all_iff split: if_splits)
  have "take 12 ?bs = replicate 12 0"
    using zeros by (intro replicate_eqI) (simp_all add: list_all_iff)
  moreover have "drop 12 ?bs = to_be_bytes 20 a"
    unfolding rest by (rule to_from_be_bytes [symmetric]) simp_all
  ultimately have "?bs = to_be_bytes 32 (ucast a :: topic)"
    using append_take_drop_id [of 12 ?bs] by (simp add: padded_address)
  then show "t = ucast a" by (simp add: to_be_bytes_inject)
qed

text \<open>The transfer that a log stands for, and what it moves for a pair.\<close>

definition log_transfer :: "(string \<Rightarrow> topic) \<Rightarrow> erc20_config \<Rightarrow> log \<Rightarrow> transfer_event option" where
  "log_transfer keccak256 cfg g =
     (if transfer_candidate keccak256 cfg g
      then map_option (\<lambda>(f, t, v). \<lparr>te_token = log_address g, te_from = f, te_to = t, te_value = v, te_log_index = log_index g\<rparr>)
        (transfer_fields g)
      else None)"

definition log_amount :: "(string \<Rightarrow> topic) \<Rightarrow> erc20_config \<Rightarrow> address \<times> address \<Rightarrow> log \<Rightarrow> int" where
  "log_amount keccak256 cfg k g =
     (case log_transfer keccak256 cfg g of None \<Rightarrow> 0
      | Some e \<Rightarrow> (if (te_token e, te_to e) = k then int (unat (te_value e)) else 0)
          - (if (te_token e, te_from e) = k then int (unat (te_value e)) else 0))"

definition frame_logs :: "block_frame \<Rightarrow> log list" where
  "frame_logs f = (case as_present (fr_logs f) of None \<Rightarrow> [] | Some gs \<Rightarrow> gs)"

lemma map_logs_sum:
  assumes "tracked cfg (snd k)"
  shows "(\<Sum>e\<leftarrow>fst (map_logs keccak256 cfg gs es n). credit cfg k e - debit cfg k e)
    = (\<Sum>e\<leftarrow>es. credit cfg k e - debit cfg k e) + (\<Sum>g\<leftarrow>gs. log_amount keccak256 cfg k g)"
proof (induction gs arbitrary: es n)
  case Nil
  then show ?case by simp
next
  case (Cons g gs)
  have one: "log_amount keccak256 cfg k g = (case log_transfer keccak256 cfg g of None \<Rightarrow> 0 | Some e \<Rightarrow> credit cfg k e - debit cfg k e)"
    using assms by (auto simp: log_amount_def credit_def debit_def split: option.splits)
  have none: "credit cfg k e - debit cfg k e = 0" if "\<not> watched cfg (te_from e)" "\<not> watched cfg (te_to e)" for e
    using that by (simp add: credit_def debit_def tracked_def)
  show ?case
    using none by (simp add: Cons.IH one log_transfer_def split: option.split)
qed

lemma mapped_sum:
  assumes "erc20_map c w keccak256 cfg desc f = Ok delta" and wire: "erc20_wire_ok w" and k: "tracked cfg (snd k)"
  shows "(\<Sum>(block, e)\<leftarrow>delta_events w (cursor, delta). credit cfg k e - debit cfg k e)
    = (\<Sum>g\<leftarrow>frame_logs f. log_amount keccak256 cfg k g)"
proof -
  obtain gs where gs: "erc20_accepted_logs (fr_logs f) = Ok gs"
    using assms(1) by (auto simp: erc20_map_def)
  obtain events skipped where m: "map_logs keccak256 cfg gs [] 0 = (events, skipped)" by fastforce
  obtain payload where p: "ew_delta w \<lparr>td_events = sort_key te_log_index events, td_skipped_logs = skipped\<rparr> = Ok payload"
    and delta: "delta = delta_new c desc (fr_chain_id f) (fr_block f) payload"
    using assms(1) by (auto simp: erc20_map_def gs m)
  have "ed_payload delta = payload" by (simp add: delta delta_new_def Let_def)
  then have "ew_delta_from w (ed_payload delta) = Ok \<lparr>td_events = sort_key te_log_index events, td_skipped_logs = skipped\<rparr>"
    using wire p by (simp add: erc20_wire_ok_def)
  then have "(\<Sum>(block, e)\<leftarrow>delta_events w (cursor, delta). credit cfg k e - debit cfg k e)
      = (\<Sum>e\<leftarrow>sort_key te_log_index events. credit cfg k e - debit cfg k e)"
    by (simp add: delta_events_def comp_def)
  also have "\<dots> = (\<Sum>e\<leftarrow>events. credit cfg k e - debit cfg k e)" by (rule sum_list_sort_key)
  also have "\<dots> = (\<Sum>g\<leftarrow>gs. log_amount keccak256 cfg k g)"
    using map_logs_sum [OF k, of keccak256 gs "[]" 0] by (simp add: m)
  also have "as_present (fr_logs f) = Some gs" using gs by (cases "fr_logs f" rule: erc20_accepted_logs.cases) auto
  ultimately show ?thesis by (simp add: frame_logs_def)
qed

end
