(* ===== verification/L1_Anchor.thy ===== *)
theory L1_Anchor
  imports Sources Frames
begin

text \<open>
  Rollup finality from Ethereum, \<^verbatim>\<open>crates/l1-anchor/src/lib.rs\<close>: the observations of a finalized L1
  block, the ledger of dispute games, and the lane that reads the newly finalized ranges. The hash
  \<^verbatim>\<open>keccak256\<close>, the reader of L1 blocks and the writes of the two files are parameters; the file of
  the lane's cursor holds the cursor last written.
\<close>

section \<open>Data\<close>

datatype game_claims = OutputRoots | SuperRoots

datatype l1_anchor =
  DisputeGames address address u32 game_claims
| NitroRollup address

definition DISPUTE_GAME_CREATED :: topic where
  "DISPUTE_GAME_CREATED = 0x5b565efe82411da98814f356d0e7bcb8f0219b8d970307c5afb4a6903a8b2e35"

definition ANCHOR_UPDATED :: topic where
  "ANCHOR_UPDATED = 0x474f180d74ea8751955ee261c93ff8270411b180408d1014c49f552c92a4d11e"

definition ASSERTION_CONFIRMED :: topic where
  "ASSERTION_CONFIRMED = 0xfc42829b29c259a7370ab56c8f69fce23b5f351a9ce151da453281993ec0090c"

definition CONFIG_UPDATE :: topic where
  "CONFIG_UPDATE = 0x1d2b0bda21d56b8bd12d4f94ebacffdfb35f5e226f84b461103bb8beab6353be"

definition UNSAFE_BLOCK_SIGNER :: u64 where
  "UNSAFE_BLOCK_SIGNER = 3"

definition RESPECTED_GAME_TYPE_SET :: topic where
  "RESPECTED_GAME_TYPE_SET = 0xcee0703b5e4bad4efededab85c9fd1aec17dee7c5f6c584330e0509b677745a2"

definition CREATE_SELECTORS :: "bytes list" where
  "CREATE_SELECTORS = [[0x82, 0xec, 0xf2, 0xf6], [0x10, 0x11, 0xf3, 0x77]]"

datatype claimed_block = ClaimedNumber u64 | ClaimedTime u64

datatype observation =
  GameCreated address claimed_block "256 word"
| AnchorUpdated address
| AssertionConfirmed block_hash
| SignerChanged address
| GameTypeChanged u32

fun log_addresses :: "l1_anchor \<Rightarrow> address option \<Rightarrow> address list" where
  "log_addresses (DisputeGames factory registry _ _) system_config =
     [factory, registry] @ (case system_config of None \<Rightarrow> [] | Some a \<Rightarrow> [a])"
| "log_addresses (NitroRollup rollup) system_config = [rollup]"

fun calldata_recipient :: "l1_anchor \<Rightarrow> address option" where
  "calldata_recipient (DisputeGames factory _ _ _) = Some factory"
| "calldata_recipient (NitroRollup _) = None"

section \<open>Reading a block\<close>

text \<open>\<^verbatim>\<open>slice::get\<close> of an index and of a range; a \<^verbatim>\<open>usize\<close> is 64 bits wide.\<close>

definition get_at :: "nat \<Rightarrow> 'a list \<Rightarrow> 'a option" where
  "get_at i xs = (if i < length xs then Some (xs ! i) else None)"

definition get_range :: "nat \<Rightarrow> nat \<Rightarrow> 'a list \<Rightarrow> 'a list option" where
  "get_range a b xs = (if a \<le> b \<and> b \<le> length xs then Some (take (b - a) (drop a xs)) else None)"

text \<open>\<^verbatim>\<open>try_from\<close> of a 256-bit word into a narrower one.\<close>

definition narrow :: "256 word \<Rightarrow> 'a::len word option" where
  "narrow v = (if unat v < 2 ^ LENGTH('a) then Some (ucast v) else None)"

definition get_word :: "bytes \<Rightarrow> u64 \<Rightarrow> 256 word option" where
  "get_word arguments offset =
     Option.bind (checked_add offset 32) (\<lambda>e. map_option from_be_bytes (get_range (unat offset) (unat e) arguments))"

definition extra_data :: "bytes \<Rightarrow> bytes option" where
  "extra_data input =
     (if length input < 4 then None
      else
        (let selector = take 4 input; arguments = drop 4 input
         in if selector \<notin> set CREATE_SELECTORS then None
         else
           Option.bind (get_word arguments 64) (\<lambda>w. Option.bind (narrow w) (\<lambda>start :: u64.
           Option.bind (get_word arguments start) (\<lambda>w. Option.bind (narrow w) (\<lambda>len :: u64.
           Option.bind (checked_add start 32) (\<lambda>first.
           Option.bind (checked_add first len) (\<lambda>stop.
           get_range (unat first) (unat stop) arguments))))))))"

text \<open>\<^verbatim>\<open>as_chunks\<close>: the whole chunks and the rest.\<close>

definition as_chunks :: "nat \<Rightarrow> 'a list \<Rightarrow> 'a list list \<times> 'a list" where
  "as_chunks n xs = (map (\<lambda>i. take n (drop (n * i) xs)) [0..<length xs div n], drop (n * (length xs div n)) xs)"

fun claimed ::
  "(bytes \<Rightarrow> 256 word) \<Rightarrow> bytes \<Rightarrow> game_claims \<Rightarrow> 256 word \<Rightarrow> u64 \<Rightarrow> (claimed_block \<times> 256 word) option" where
  "claimed keccak256 extra OutputRoots claim chain_id =
     Option.bind (get_range 0 32 extra) (\<lambda>bs.
     Option.bind (narrow (from_be_bytes bs)) (\<lambda>n. Some (ClaimedNumber n, claim)))"
| "claimed keccak256 extra SuperRoots claim chain_id =
     (if keccak256 extra \<noteq> claim then None
      else case extra of [] \<Rightarrow> None
      | version # rest \<Rightarrow>
          (if length rest < 8 then None
           else
             (let time = take 8 rest; (outputs, partial) = as_chunks 64 (drop 8 rest)
              in if version \<noteq> 1 \<or> partial \<noteq> [] then None
              else
                Option.bind (find (\<lambda>out. from_be_bytes (take 32 out) = (ucast chain_id :: 256 word)) outputs) (\<lambda>out.
                Some (ClaimedTime (from_be_bytes time), from_be_bytes (drop 32 out))))))"

definition output_root :: "(bytes \<Rightarrow> 256 word) \<Rightarrow> 256 word \<Rightarrow> 256 word \<Rightarrow> block_hash \<Rightarrow> 256 word" where
  "output_root keccak256 state_root withdrawals_root block_hash =
     keccak256 (replicate 32 0 @ to_be_bytes 32 state_root @ to_be_bytes 32 withdrawals_root @ to_be_bytes 32 block_hash)"

definition calldata :: "block_frame \<Rightarrow> u32 \<Rightarrow> bytes option" where
  "calldata f i =
     (case as_present (fr_transactions f) of
        None \<Rightarrow> None
      | Some txs \<Rightarrow> Option.bind (find (\<lambda>tx. tx_index tx = i) txs) tx_input)"

text \<open>The observation a log makes, if any; an address in a topic is its last 20 bytes.\<close>

fun observe_log ::
  "(bytes \<Rightarrow> 256 word) \<Rightarrow> l1_anchor \<Rightarrow> u64 \<Rightarrow> address option \<Rightarrow> block_frame \<Rightarrow> log \<Rightarrow> observation option" where
  "observe_log keccak256 (DisputeGames factory registry game_type claims) chain_id system_config f g =
     (let topic = (\<lambda>i. get_at i (log_topics g))
      in if log_address g = factory \<and> topic 0 = Some DISPUTE_GAME_CREATED
      then
        (case (topic 1, topic 2, topic 3) of
           (Some game, Some kind, Some claim) \<Rightarrow>
             (if kind \<noteq> ucast game_type then None
              else
                Option.bind (calldata f (log_transaction_index g)) (\<lambda>input.
                Option.bind (extra_data input) (\<lambda>extra.
                Option.bind (claimed keccak256 extra claims claim chain_id) (\<lambda>(l2_block, root).
                Some (GameCreated (ucast game) l2_block root)))))
         | _ \<Rightarrow> None)
      else if log_address g = registry \<and> topic 0 = Some ANCHOR_UPDATED
      then map_option (\<lambda>game. AnchorUpdated (ucast game)) (topic 1)
      else if log_address g = registry \<and> topic 0 = Some RESPECTED_GAME_TYPE_SET
      then
        Option.bind (get_range 0 32 (log_data g)) (\<lambda>bs.
        Option.bind (narrow (from_be_bytes bs)) (\<lambda>t. Some (GameTypeChanged t)))
      else if Some (log_address g) = system_config \<and> topic 0 = Some CONFIG_UPDATE
        \<and> topic 2 = Some (ucast UNSAFE_BLOCK_SIGNER)
      then
        map_option (\<lambda>signer. SignerChanged (ucast (from_be_bytes signer :: 256 word))) (get_range 64 96 (log_data g))
      else None)"
| "observe_log keccak256 (NitroRollup rollup) chain_id system_config f g =
     (if log_address g \<noteq> rollup \<or> get_at 0 (log_topics g) \<noteq> Some ASSERTION_CONFIRMED \<or> length (log_data g) < 32
      then None
      else Some (AssertionConfirmed (from_be_bytes (take 32 (log_data g)))))"

definition observe_frame ::
  "(bytes \<Rightarrow> 256 word) \<Rightarrow> l1_anchor \<Rightarrow> u64 \<Rightarrow> address option \<Rightarrow> block_frame \<Rightarrow> observation list" where
  "observe_frame keccak256 anchor chain_id system_config f =
     (case as_present (fr_logs f) of
        None \<Rightarrow> []
      | Some logs \<Rightarrow> List.map_filter (observe_log keccak256 anchor chain_id system_config f) logs)"

section \<open>The ledger of games\<close>

record game_ledger =
  gl_capacity :: nat
  gl_signed :: "(u64, block_hash \<times> 256 word \<times> u64) table"
  gl_games :: "(address, u64 \<times> block_hash) table"
  gl_path :: "string option"

type_synonym stored_games = "(address \<times> u64 \<times> block_hash) list"

text \<open>The ledger file as it was read, when there is one.\<close>

definition ledger_load :: "string option \<Rightarrow> stored_games option \<Rightarrow> nat \<Rightarrow> game_ledger" where
  "ledger_load path file capacity =
     \<lparr>gl_capacity = capacity, gl_signed = [],
      gl_games = (case (path, file) of
         (Some _, Some stored) \<Rightarrow> fold (\<lambda>(game, n, block). tput game (n, block)) stored []
       | _ \<Rightarrow> []),
      gl_path = path\<rparr>"

fun pop_first_until :: "nat \<Rightarrow> ('k, 'v) table \<Rightarrow> ('k, 'v) table" where
  "pop_first_until capacity [] = []"
| "pop_first_until capacity (e # es) =
     (if length (e # es) > capacity then pop_first_until capacity es else e # es)"

definition record_block :: "u64 \<Rightarrow> block_hash \<Rightarrow> 256 word \<Rightarrow> u64 \<Rightarrow> game_ledger \<Rightarrow> game_ledger" where
  "record_block n block_hash root time l =
     l\<lparr>gl_signed := pop_first_until (gl_capacity l) (tput n (block_hash, root, time) (gl_signed l))\<rparr>"

definition stored_of :: "game_ledger \<Rightarrow> stored_games" where
  "stored_of l = map (\<lambda>(game, n, block). (game, n, block)) (gl_games l)"

definition ledger_save :: "(stored_games \<Rightarrow> (unit, 'io) result) \<Rightarrow> game_ledger \<Rightarrow> (unit, 'io) result" where
  "ledger_save persist l = (case gl_path l of None \<Rightarrow> Ok () | Some _ \<Rightarrow> persist (stored_of l))"

definition signed_block :: "claimed_block \<Rightarrow> game_ledger \<Rightarrow> (u64 \<times> block_hash \<times> 256 word \<times> u64) option" where
  "signed_block b l =
     (case b of
        ClaimedNumber n \<Rightarrow> map_option (Pair n) (map_of (gl_signed l) n)
      | ClaimedTime t \<Rightarrow> find (\<lambda>(n, block, root, made). made = t) (gl_signed l))"

text \<open>An observation applied: what it finalizes, or the error of the file, and the ledger afterwards.\<close>

fun ledger_observe ::
  "(stored_games \<Rightarrow> (unit, 'io) result) \<Rightarrow> observation \<Rightarrow> game_ledger
    \<Rightarrow> ((u64 \<times> block_hash) option, 'io) result \<times> game_ledger" where
  "ledger_observe persist (GameCreated game l2_block root) l =
     (case signed_block l2_block l of
        Some (n, block, signed_root, _) \<Rightarrow>
          (if signed_root = root
           then
             (let l1 = l\<lparr>gl_games := tput game (n, block) (gl_games l)\<rparr>
              in (and_then (ledger_save persist l1) (\<lambda>_. Ok None), l1))
           else (Ok None, l))
      | None \<Rightarrow> (Ok None, l))"
| "ledger_observe persist (AnchorUpdated game) l =
     (case map_of (gl_games l) game of
        None \<Rightarrow> (Ok None, l)
      | Some (n, block) \<Rightarrow>
          (let l1 = l\<lparr>gl_games := filter (\<lambda>(_, m, _). m > n) (tdel game (gl_games l))\<rparr>
           in (and_then (ledger_save persist l1) (\<lambda>_. Ok (Some (n, block))), l1)))"
| "ledger_observe persist (AssertionConfirmed _) l = (Ok None, l)"
| "ledger_observe persist (SignerChanged _) l = (Ok None, l)"
| "ledger_observe persist (GameTypeChanged _) l = (Ok None, l)"

section \<open>The lane\<close>

record consensus_checkpoint =
  cp_beacon_slot :: u64
  cp_beacon_block_root :: "256 word"
  cp_execution_block_hash :: block_hash
  cp_obtained_at :: u64
  cp_source :: string

datatype finality_event =
  EventOptimistic block_hash u64
| EventSafe block_hash u64
| EventFinalized block_number block_hash u64 "256 word"
| EventReset consensus_checkpoint
| EventDisagreement block_hash block_hash u64

record finalized_tip =
  ft_number :: u64
  ft_hash :: block_hash
  ft_beacon_slot :: u64
  ft_beacon_block_root :: "256 word"

record learned =
  ln_signer :: "address option"
  ln_game_type :: "u32 option"

definition learned_default :: learned where
  "learned_default = \<lparr>ln_signer = None, ln_game_type = None\<rparr>"

record anchor_cursor =
  ac_number :: u64
  ac_hash :: block_hash
  ac_learned :: learned

record lane_config =
  lc_anchor :: l1_anchor
  lc_lookback :: u64
  lc_chain_id :: u64
  lc_system_config :: "address option"
  lc_follow_game_type :: bool

text \<open>
  What the lane holds while it runs: its configuration with the anchor as it is now, the cursor,
  and what it learned. \<open>lane_reads\<close> and \<open>lane_sent\<close> record the ranges it read and the observations
  its receiver took; the receiver closes after \<open>lane_room\<close> more.
\<close>

record lane =
  lane_config :: lane_config
  lane_cursor :: "anchor_cursor option"
  lane_learned :: learned
  lane_reads :: "block_range list"
  lane_sent :: "observation list"
  lane_room :: nat

definition respect :: "u32 \<Rightarrow> lane_config \<Rightarrow> lane_config" where
  "respect game_type c =
     (case lc_anchor c of
        DisputeGames factory registry kept claims \<Rightarrow>
          (if lc_follow_game_type c \<and> kept \<noteq> game_type
           then c\<lparr>lc_anchor := DisputeGames factory registry game_type claims\<rparr> else c)
      | NitroRollup _ \<Rightarrow> c)"

definition lane_start :: "lane_config \<Rightarrow> anchor_cursor option \<Rightarrow> nat \<Rightarrow> lane" where
  "lane_start c cursor room =
     (let learned = (case cursor of None \<Rightarrow> learned_default | Some k \<Rightarrow> ac_learned k)
      in \<lparr>lane_config = (case ln_game_type learned of None \<Rightarrow> c | Some t \<Rightarrow> respect t c),
          lane_cursor = cursor, lane_learned = learned, lane_reads = [], lane_sent = [], lane_room = room\<rparr>)"

fun learn :: "observation \<Rightarrow> lane \<Rightarrow> lane" where
  "learn (SignerChanged signer) s = s\<lparr>lane_learned := (lane_learned s)\<lparr>ln_signer := Some signer\<rparr>\<rparr>"
| "learn (GameTypeChanged t) s =
     s\<lparr>lane_learned := (lane_learned s)\<lparr>ln_game_type := Some t\<rparr>, lane_config := respect t (lane_config s)\<rparr>"
| "learn _ s = s"

text \<open>The observations of a frame, learned and sent in turn; false when the receiver is closed.\<close>

fun send_all :: "observation list \<Rightarrow> lane \<Rightarrow> bool \<times> lane" where
  "send_all [] s = (True, s)"
| "send_all (ob # obs) s =
     (let s1 = learn ob s
      in case lane_room s1 of
        0 \<Rightarrow> (False, s1)
      | Suc room \<Rightarrow> send_all obs (s1\<lparr>lane_sent := lane_sent s1 @ [ob], lane_room := room\<rparr>))"

fun send_frames :: "(bytes \<Rightarrow> 256 word) \<Rightarrow> block_frame list \<Rightarrow> lane \<Rightarrow> bool \<times> lane" where
  "send_frames keccak256 [] s = (True, s)"
| "send_frames keccak256 (f # fs) s =
     (let c = lane_config s;
        (going, s1) = send_all (observe_frame keccak256 (lc_anchor c) (lc_chain_id c) (lc_system_config c) f) s
      in if going then send_frames keccak256 fs s1 else (False, s1))"

definition links :: "anchor_cursor option \<Rightarrow> block_frame list \<Rightarrow> bool" where
  "links cursor frames =
     (case (cursor, frames) of
        (Some c, f # _) \<Rightarrow> \<not> (number (fr_block f) = saturating_add (ac_number c) 1 \<and> parent_hash (fr_block f) \<noteq> ac_hash c)
      | _ \<Rightarrow> True)"

definition lane_first :: "lane \<Rightarrow> u64 \<Rightarrow> u64" where
  "lane_first s block =
     (case lane_cursor s of
        None \<Rightarrow> saturating_sub block (lc_lookback (lane_config s))
      | Some c \<Rightarrow> saturating_add (ac_number c) 1)"

text \<open>One round of the loop: on with the next event, or the end of the run with its result.\<close>

datatype 'a round = Onward 'a | Done "(unit, source_error) result" 'a

definition read_range ::
  "(bytes \<Rightarrow> 256 word) \<Rightarrow> (block_range \<Rightarrow> finalized_tip \<Rightarrow> (block_frame list, source_error) result)
    \<Rightarrow> (anchor_cursor \<Rightarrow> (unit, source_error) result) \<Rightarrow> finalized_tip \<Rightarrow> lane \<Rightarrow> lane round" where
  "read_range keccak256 read_frames persist tip s =
     (let start = lane_first s (ft_number tip)
      in if start > ft_number tip then Onward s
      else case range_new start (ft_number tip) of
        Inl _ \<Rightarrow> Done (Err (InvalidPlan ''range'')) s
      | Inr r \<Rightarrow>
          (case read_frames r tip of
             Inl e \<Rightarrow> Done (Err e) s
           | Inr frames \<Rightarrow>
               (if \<not> links (lane_cursor s) frames
                then Done (Err (SourceUnavailable ''finalized L1 block does not link'')) s
                else
                  (let (going, s1) = send_frames keccak256 frames s
                   in if \<not> going then Done (Ok ()) s1
                   else
                     (let next = \<lparr>ac_number = ft_number tip, ac_hash = ft_hash tip, ac_learned = lane_learned s1\<rparr>
                      in case persist next of
                        Inl e \<Rightarrow> Done (Err e) s1
                      | Inr _ \<Rightarrow> Onward (s1\<lparr>lane_cursor := Some next, lane_reads := lane_reads s1 @ [r]\<rparr>))))))"

datatype lane_input = LaneCancelled | LaneEvent "(finality_event, source_error) result"

fun lane_round ::
  "(bytes \<Rightarrow> 256 word) \<Rightarrow> (block_range \<Rightarrow> finalized_tip \<Rightarrow> (block_frame list, source_error) result)
    \<Rightarrow> (anchor_cursor \<Rightarrow> (unit, source_error) result) \<Rightarrow> lane_input \<Rightarrow> lane \<Rightarrow> lane round" where
  "lane_round keccak256 read_frames persist LaneCancelled s = Done (Ok ()) s"
| "lane_round keccak256 read_frames persist (LaneEvent (Err e)) s = Done (Err e) s"
| "lane_round keccak256 read_frames persist (LaneEvent (Ok event)) s =
     (case event of
        EventFinalized n h slot root \<Rightarrow>
          read_range keccak256 read_frames persist
            \<lparr>ft_number = n, ft_hash = h, ft_beacon_slot = slot, ft_beacon_block_root = root\<rparr> s
      | _ \<Rightarrow> Onward s)"

text \<open>The inputs end when the finality stream does.\<close>

fun lane_run ::
  "(bytes \<Rightarrow> 256 word) \<Rightarrow> (block_range \<Rightarrow> finalized_tip \<Rightarrow> (block_frame list, source_error) result)
    \<Rightarrow> (anchor_cursor \<Rightarrow> (unit, source_error) result) \<Rightarrow> lane_input list \<Rightarrow> lane
    \<Rightarrow> (unit, source_error) result \<times> lane" where
  "lane_run keccak256 read_frames persist [] s = (Err (SourceDisconnected ''L1 finality ended''), s)"
| "lane_run keccak256 read_frames persist (i # is) s =
     (case lane_round keccak256 read_frames persist i s of
        Done r s1 \<Rightarrow> (r, s1)
      | Onward s1 \<Rightarrow> lane_run keccak256 read_frames persist is s1)"

definition finalized_event :: "block_number \<Rightarrow> block_hash \<Rightarrow> finality_event" where
  "finalized_event n h = EventFinalized n h n 0"

end
