(* ===== verification/L1_Anchor_Laws.thy ===== *)
theory L1_Anchor_Laws
  imports L1_Anchor
begin

text \<open>
  What the L1 anchor keeps: a game's creation call and a super root read back as they were encoded,
  a block becomes final only over a claim that matched it, the ledger keeps the newest signed
  blocks, and a lane that starts again goes on as if it had not stopped.
\<close>

section \<open>Creation calls\<close>

lemma get_range_exact: "length a = n \<Longrightarrow> m = n + length b \<Longrightarrow> get_range n m (a @ b @ c) = Some b"
  by (simp add: get_range_def)

lemma get_word_exact:
  assumes "length a = unat off" and "unat off + 32 < 2 ^ 64"
  shows "get_word (a @ to_be_bytes 32 (v :: 256 word) @ c) off = Some v"
proof -
  have "checked_add off 32 = Some (off + 32)" and sum: "unat (off + 32) = unat off + 32"
    using assms(2) by (simp_all add: checked_add_def unat_plus_no_overflow)
  then show ?thesis
    using get_range_exact [OF assms(1), of "unat off + 32" "to_be_bytes 32 v" c]
    by (simp add: get_word_def from_to_be_bytes)
qed

lemma narrow_of_nat: "n < 2 ^ 64 \<Longrightarrow> narrow (of_nat n :: 256 word) = Some (of_nat n :: u64)"
proof -
  assume n: "n < 2 ^ 64"
  have "unat (of_nat n :: 256 word) = n" using n by (simp add: unat_of_nat)
  then have "unat (ucast (of_nat n :: 256 word) :: u64) = unat (of_nat n :: u64)"
    using n by (simp add: unsigned_ucast_eq take_bit_nat_eq_self unat_of_nat)
  then have "ucast (of_nat n :: 256 word) = (of_nat n :: u64)" by (simp add: word_eq_nat)
  then show ?thesis using n by (simp add: narrow_def unat_of_nat)
qed

lemma unat_small: "n < 2 ^ 64 \<Longrightarrow> unat (of_nat n :: u64) = n"
  by (simp only: unat_of_nat) simp

text \<open>
  A creation call: the game type and claim, the offset of the extra data, whatever other heads and
  tails lie between, and the extra data with its length. The first selector has no tail in between.
\<close>

definition creation_call :: "bytes \<Rightarrow> 256 word \<Rightarrow> 256 word \<Rightarrow> bytes \<Rightarrow> bytes \<Rightarrow> bytes \<Rightarrow> bytes" where
  "creation_call selector kind claim between extra rest =
     selector @ to_be_bytes 32 kind @ to_be_bytes 32 claim @ to_be_bytes 32 (of_nat (96 + length between) :: 256 word)
       @ between @ to_be_bytes 32 (of_nat (length extra) :: 256 word) @ extra @ rest"

lemma extra_data_creation_call:
  assumes sel: "selector \<in> set CREATE_SELECTORS" and small: "length between + length extra + 128 < 2 ^ 64"
  shows "extra_data (creation_call selector kind claim between extra rest) = Some extra"
proof -
  define at len :: "256 word" where "at = of_nat (96 + length between)" and "len = of_nat (length extra)"
  define at' len' :: u64 where "at' = of_nat (96 + length between)" and "len' = of_nat (length extra)"
  have narrow: "narrow at = Some at'" "narrow len = Some len'"
    unfolding at_def at'_def len_def len'_def using small by (simp_all only: narrow_of_nat)
  have sizes: "unat at' = 96 + length between" "unat len' = length extra"
    unfolding at'_def len'_def using small by (simp_all only: unat_small)
  let ?head = "to_be_bytes 32 kind @ to_be_bytes 32 claim"
  let ?args = "?head @ to_be_bytes 32 at @ between @ to_be_bytes 32 len @ extra @ rest"
  have selector: "length selector = 4" using sel by (auto simp: CREATE_SELECTORS_def)
  have first: "get_word ?args 64 = Some at"
    using get_word_exact [of ?head 64 at "between @ to_be_bytes 32 len @ extra @ rest"] by simp
  have second: "get_word ?args at' = Some len"
    using get_word_exact [of "?head @ to_be_bytes 32 at @ between" at' len "extra @ rest"] small by (simp add: sizes)
  have start: "checked_add at' 32 = Some (at' + 32)" "unat (at' + 32) = unat at' + 32"
    using small by (simp_all add: checked_add_def unat_plus_no_overflow sizes)
  have stop: "checked_add (at' + 32) len' = Some (at' + 32 + len')" "unat (at' + 32 + len') = unat at' + 32 + unat len'"
    using small start(2) by (simp_all add: checked_add_def unat_plus_no_overflow sizes)
  have body: "get_range (unat (at' + 32)) (unat (at' + 32 + len')) ?args = Some extra"
    unfolding start(2) stop(2) sizes
    using get_range_exact [of "?head @ to_be_bytes 32 at @ between @ to_be_bytes 32 len" "96 + length between + 32"
      "96 + length between + 32 + length extra" extra rest] by simp
  show ?thesis
    unfolding creation_call_def extra_data_def Let_def at_def [symmetric] len_def [symmetric]
    using sel first second body by (simp add: selector narrow start(1) stop(1))
qed

section \<open>Super roots\<close>

lemma as_chunks_concat:
  assumes "\<forall>x \<in> set xs. length x = n" and "0 < n"
  shows "as_chunks n (concat xs) = (xs, [])"
proof -
  have len: "length (concat xs) = n * length xs"
    using assms(1) by (induction xs) auto
  have at: "take n (drop (n * i) (concat xs)) = xs ! i" if "i < length xs" for i
    using that assms(1)
  proof (induction xs arbitrary: i)
    case Nil
    then show ?case by simp
  next
    case (Cons x xs)
    then show ?case by (cases i) auto
  qed
  have "map (\<lambda>i. take n (drop (n * i) (concat xs))) [0..<length xs] = xs"
    using at by (intro nth_equalityI) simp_all
  then show ?thesis using len assms(2) by (simp add: as_chunks_def)
qed

text \<open>A super root: the version, the time and each chain's id and output root.\<close>

definition super_root :: "u64 \<Rightarrow> (256 word \<times> 256 word) list \<Rightarrow> bytes" where
  "super_root time outputs =
     1 # to_be_bytes 8 time @ concat (map (\<lambda>(chain, root). to_be_bytes 32 chain @ to_be_bytes 32 root) outputs)"

lemma find_encoded:
  "find (\<lambda>out. from_be_bytes (take 32 out) = chain) (map (\<lambda>(chain, root). to_be_bytes 32 chain @ to_be_bytes 32 root) outputs)
    = map_option (\<lambda>root. to_be_bytes 32 chain @ to_be_bytes 32 root) (map_of outputs (chain :: 256 word) :: 256 word option)"
  by (induction outputs) (auto simp: from_to_be_bytes)

lemma claimed_super_root:
  "claimed keccak256 (super_root time outputs) SuperRoots (keccak256 (super_root time outputs)) chain_id
    = map_option (Pair (ClaimedTime time)) (map_of outputs (ucast chain_id))"
proof -
  let ?parts = "map (\<lambda>(chain, root). to_be_bytes 32 chain @ to_be_bytes 32 root) outputs :: bytes list"
  have chunks: "as_chunks 64 (concat ?parts) = (?parts, [])" by (rule as_chunks_concat) auto
  show ?thesis
    by (cases "map_of outputs (ucast chain_id)")
      (simp_all add: super_root_def chunks find_encoded from_to_be_bytes Let_def)
qed

section \<open>The ledger\<close>

text \<open>What the node does with a ledger: it records the signed blocks and applies the observations.\<close>

datatype ledger_op = OpRecord u64 block_hash "256 word" u64 | OpObserve observation

fun ledger_apply ::
  "(stored_games \<Rightarrow> (unit, 'io) result) \<Rightarrow> ledger_op \<Rightarrow> game_ledger
    \<Rightarrow> ((u64 \<times> block_hash) option, 'io) result \<times> game_ledger" where
  "ledger_apply persist (OpRecord n block root time) l = (Ok None, record_block n block root time l)"
| "ledger_apply persist (OpObserve ob) l = ledger_observe persist ob l"

definition ledger_after :: "(stored_games \<Rightarrow> (unit, 'io) result) \<Rightarrow> ledger_op list \<Rightarrow> game_ledger \<Rightarrow> game_ledger" where
  "ledger_after persist ops l = fold (\<lambda>op l. snd (ledger_apply persist op l)) ops l"

lemma pop_first_drop: "pop_first_until c t = drop (length t - c) t"
proof (induction t)
  case Nil
  then show ?case by simp
next
  case (Cons e es)
  then show ?case by (cases "length (e # es) > c") (auto simp: Suc_diff_le)
qed

lemma ordered_drop [simp]: "ordered t \<Longrightarrow> ordered (drop n t)"
  by (simp add: ordered_def drop_map [symmetric] sorted_wrt_drop)

lemma ordered_mem: "ordered t \<Longrightarrow> (k, v) \<in> set t \<longleftrightarrow> map_of t k = Some v"
  by (simp add: ordered_distinct)

text \<open>The game was created over a block that had been signed with the claimed output root.\<close>

definition claimed_over :: "ledger_op list \<Rightarrow> address \<Rightarrow> u64 \<Rightarrow> block_hash \<Rightarrow> bool" where
  "claimed_over ops game n block \<longleftrightarrow>
     (\<exists>before after b root time. ops = before @ OpObserve (GameCreated game b root) # after
        \<and> OpRecord n block root time \<in> set before \<and> (b = ClaimedNumber n \<or> b = ClaimedTime time))"

lemma claimed_over_snoc: "claimed_over ops game n block \<Longrightarrow> claimed_over (ops @ [op]) game n block"
  unfolding claimed_over_def by (metis append.assoc append_Cons)

definition ledger_sound :: "game_ledger \<Rightarrow> ledger_op list \<Rightarrow> game_ledger \<Rightarrow> bool" where
  "ledger_sound l0 ops l \<longleftrightarrow>
     ordered (gl_signed l) \<and> ordered (gl_games l)
     \<and> (\<forall>n block root time. map_of (gl_signed l) n = Some (block, root, time) \<longrightarrow> OpRecord n block root time \<in> set ops)
     \<and> (\<forall>game n block. map_of (gl_games l) game = Some (n, block) \<longrightarrow>
          map_of (gl_games l0) game = Some (n, block) \<or> claimed_over ops game n block)"

lemma signed_block_Some:
  assumes "signed_block b l = Some (n, block, root, time)" and "ordered (gl_signed l)"
  shows "map_of (gl_signed l) n = Some (block, root, time)" "b = ClaimedNumber n \<or> b = ClaimedTime time"
proof -
  have "map_of (gl_signed l) n = Some (block, root, time) \<and> (b = ClaimedNumber n \<or> b = ClaimedTime time)"
  proof (cases b)
    case (ClaimedNumber m)
    then show ?thesis using assms(1) by (auto simp: signed_block_def)
  next
    case (ClaimedTime t)
    then have f: "find (\<lambda>(n, block, root, made). made = t) (gl_signed l) = Some (n, block, root, time)"
      using assms(1) by (simp add: signed_block_def)
    then have "(n, block, root, time) \<in> set (gl_signed l)" "time = t"
      by (auto simp: find_Some_iff in_set_conv_nth)
    then show ?thesis using assms(2) ClaimedTime by (simp add: ordered_mem)
  qed
  then show "map_of (gl_signed l) n = Some (block, root, time)" "b = ClaimedNumber n \<or> b = ClaimedTime time" by blast+
qed

lemma ledger_apply_sound:
  assumes I: "ledger_sound l0 ops l"
  shows "ledger_sound l0 (ops @ [op]) (snd (ledger_apply persist op l))"
proof -
  have ord: "ordered (gl_signed l)" "ordered (gl_games l)"
    and signed: "\<And>n block root time. map_of (gl_signed l) n = Some (block, root, time) \<Longrightarrow> OpRecord n block root time \<in> set ops"
    and games: "\<And>game n block. map_of (gl_games l) game = Some (n, block) \<Longrightarrow>
      map_of (gl_games l0) game = Some (n, block) \<or> claimed_over (ops @ [op]) game n block"
    using I claimed_over_snoc unfolding ledger_sound_def by blast+
  have same: ?thesis if "snd (ledger_apply persist op l) = l"
    unfolding that using ord signed games by (auto simp: ledger_sound_def)
  show ?thesis
  proof (cases op)
    case (OpRecord n block root time)
    let ?t = "tput n (block, root, time) (gl_signed l)"
    have kept: "map_of ?t m = Some v" if "map_of (drop k ?t) m = Some v" for m v k
    proof -
      have "(m, v) \<in> set ?t" using map_of_SomeD [OF that] by (rule in_set_dropD)
      then show ?thesis using ord(1) by (simp add: ordered_mem del: map_of_tput)
    qed
    have "OpRecord m b r t \<in> set (ops @ [op])" if "map_of (drop k ?t) m = Some (b, r, t)" for m b r t k
      using kept [OF that] ord(1) signed by (auto simp: OpRecord split: if_splits)
    then show ?thesis using ord games
      by (auto simp: OpRecord ledger_sound_def record_block_def pop_first_drop)
  next
    case (OpObserve ob)
    show ?thesis
    proof (cases ob)
      case (GameCreated game b root)
      show ?thesis
      proof (cases "\<exists>n block time. signed_block b l = Some (n, block, root, time)")
        case True
        then obtain n block time where found: "signed_block b l = Some (n, block, root, time)" by blast
        note f = signed_block_Some [OF found ord(1)]
        have "claimed_over (ops @ [op]) game n block"
          unfolding claimed_over_def OpObserve GameCreated using signed [OF f(1)] f(2) by blast
        then show ?thesis using ord signed games
          by (auto simp: OpObserve GameCreated found ledger_sound_def Let_def split: if_splits)
      next
        case False
        then have "snd (ledger_apply persist op l) = l"
          by (auto simp: OpObserve GameCreated split: option.splits)
        then show ?thesis by (rule same)
      qed
    next
      case (AnchorUpdated game)
      have sub: "map_of (gl_games l) g = Some v" if "map_of (filter P (tdel game (gl_games l))) g = Some v" for P g v
      proof -
        have "(g, v) \<in> set (tdel game (gl_games l))" using map_of_SomeD [OF that] by simp
        then have "map_of (tdel game (gl_games l)) g = Some v" using ord(2) by (simp add: ordered_mem)
        then show ?thesis using ord(2) by (auto simp: map_of_tdel split: if_splits)
      qed
      show ?thesis using ord signed same
        by (cases "map_of (gl_games l) game")
          (auto simp: OpObserve AnchorUpdated ledger_sound_def Let_def dest!: sub dest: games [unfolded OpObserve AnchorUpdated])
    qed (use same OpObserve in simp_all)
  qed
qed

lemma ledger_after_sound:
  assumes "ordered (gl_games l0)" and "gl_signed l0 = []"
  shows "ledger_sound l0 ops (ledger_after persist ops l0)"
proof (induction ops rule: rev_induct)
  case Nil
  then show ?case using assms by (simp add: ledger_sound_def ledger_after_def)
next
  case (snoc op ops)
  then show ?case using ledger_apply_sound by (simp add: ledger_after_def)
qed

text \<open>A block that an observation finalizes, and what becomes of the other games.\<close>

lemma anchor_finalizes:
  assumes "fst (ledger_observe persist (AnchorUpdated game) l) = Ok (Some (n, block))"
  shows "map_of (gl_games l) game = Some (n, block)"
  using assms by (auto simp: Let_def split: option.splits)

lemma only_anchors_finalize:
  assumes "fst (ledger_apply persist op l) = Ok (Some v)"
  shows "\<exists>game. op = OpObserve (AnchorUpdated game)"
proof (cases op)
  case (OpRecord n block root time)
  then show ?thesis using assms by simp
next
  case (OpObserve ob)
  then show ?thesis using assms by (cases ob) (auto simp: Let_def split: option.splits if_splits)
qed

text \<open>The signed blocks kept are the newest of those recorded.\<close>

definition recorded :: "ledger_op list \<Rightarrow> u64 set" where
  "recorded ops = {n. \<exists>block root time. OpRecord n block root time \<in> set ops}"

definition newest_kept :: "nat \<Rightarrow> u64 set \<Rightarrow> (u64, 'v) table \<Rightarrow> bool" where
  "newest_kept c N t \<longleftrightarrow>
     ordered t \<and> length t \<le> c \<and> fst ` set t \<subseteq> N
     \<and> (\<forall>n \<in> N. n \<in> fst ` set t \<or> length t = c \<and> (\<forall>k \<in> fst ` set t. n < k))"

lemma ordered_card: "ordered t \<Longrightarrow> length t = card (fst ` set t)"
  using distinct_card [of "map fst t"] by (simp add: ordered_distinct)

lemma length_tput_cases: "ordered t \<Longrightarrow> length (tput k v t) = (if k \<in> fst ` set t then length t else Suc (length t))"
  by (simp add: ordered_card insert_absorb)

lemma newest_put:
  assumes I: "newest_kept c N t"
  shows "newest_kept c (insert n N) (pop_first_until c (tput n v t))"
proof -
  let ?T = "tput n v t" and ?S = "drop (length (tput n v t) - c) (tput n v t)"
  have ord: "ordered t" and short: "length t \<le> c" and sub: "fst ` set t \<subseteq> N"
    and rest: "\<And>m. m \<in> N \<Longrightarrow> m \<notin> fst ` set t \<Longrightarrow> length t = c \<and> (\<forall>k \<in> fst ` set t. m < k)"
    using I by (auto simp: newest_kept_def)
  have ordT: "ordered ?T" using ord by simp
  have len: "length ?S = min c (length ?T)" by simp
  have keys: "fst ` set ?S \<subseteq> insert n (fst ` set t)"
    using set_drop_subset [of "length ?T - c" ?T] keys_tput [of n v t] by blast
  have below: "m < k" if "(m, a) \<in> set (take j ?T)" "(k, b) \<in> set (drop j ?T)" for m a k b j
  proof -
    have "sorted_wrt (<) (map fst (take j ?T) @ map fst (drop j ?T))"
      using ordT by (simp add: ordered_def map_append [symmetric] del: map_append)
    then show ?thesis using that by (force simp: sorted_wrt_append)
  qed
  have cut: "m \<in> fst ` set ?S \<or> length ?S = c \<and> (\<forall>k \<in> fst ` set ?S. m < k)" if m: "m \<in> insert n N" for m
  proof (cases "m \<in> fst ` set ?T")
    case True
    show ?thesis
    proof (cases "m \<in> fst ` set ?S")
      case False
      have "set ?T = set (take (length ?T - c) ?T) \<union> set ?S"
        unfolding set_append [symmetric] append_take_drop_id ..
      then have "m \<in> fst ` set (take (length ?T - c) ?T)" using True False by blast
      then obtain a where a: "(m, a) \<in> set (take (length ?T - c) ?T)" by force
      then have "length ?T > c" by (cases "length ?T - c") auto
      then show ?thesis using below [OF a] len by force
    qed simp
  next
    case False
    then have m: "m \<in> N" "m \<notin> fst ` set t" "m \<noteq> n" using m by auto
    note full = rest [OF m(1,2)]
    have "m < k" if k: "k \<in> fst ` set ?S" for k
    proof (cases "k \<in> fst ` set t")
      case True
      then show ?thesis using full by blast
    next
      case new: False
      then have kn: "k = n" "n \<notin> fst ` set t" using k keys by auto
      then have one: "length ?T - c = 1" using full ord by (simp add: length_tput_cases)
      obtain e T' where T: "?T = e # T'" by (cases ?T) (use one in auto)
      have "n \<in> fst ` set T'" using k kn one T by simp
      moreover have "fst e \<in> fst ` set ?T" by (simp add: T)
      moreover have "fst e < n" using ordT \<open>n \<in> fst ` set T'\<close> by (auto simp: T)
      ultimately have "fst e \<in> fst ` set t" by auto
      then show ?thesis using full \<open>fst e < n\<close> kn by force
    qed
    then show ?thesis using full len ord by (auto simp: length_tput_cases)
  qed
  show ?thesis
    unfolding pop_first_drop newest_kept_def using ordT len keys sub cut by auto
qed

lemma observe_signed: "gl_signed (snd (ledger_observe persist ob l)) = gl_signed l" "gl_capacity (snd (ledger_observe persist ob l)) = gl_capacity l"
  by (cases ob; auto simp: Let_def split: option.splits)+

lemma ledger_after_newest:
  assumes "gl_signed l0 = []"
  shows "newest_kept (gl_capacity l0) (recorded ops) (gl_signed (ledger_after persist ops l0))
    \<and> gl_capacity (ledger_after persist ops l0) = gl_capacity l0"
proof (induction ops rule: rev_induct)
  case Nil
  then show ?case using assms by (simp add: newest_kept_def recorded_def ledger_after_def)
next
  case (snoc op ops)
  let ?l = "ledger_after persist ops l0"
  have after: "ledger_after persist (ops @ [op]) l0 = snd (ledger_apply persist op ?l)" by (simp add: ledger_after_def)
  show ?case
  proof (cases op)
    case (OpRecord n block root time)
    have "recorded (ops @ [op]) = insert n (recorded ops)" by (auto simp: recorded_def OpRecord)
    then show ?thesis using snoc newest_put [OF conjunct1 [OF snoc]] by (simp add: after [unfolded OpRecord] OpRecord record_block_def)
  next
    case (OpObserve ob)
    have "recorded (ops @ [op]) = recorded ops" by (auto simp: recorded_def OpObserve)
    then show ?thesis using snoc by (simp add: after [unfolded OpObserve] OpObserve observe_signed)
  qed
qed

text \<open>The file holds the games: a ledger loaded from what was saved has them all.\<close>

lemma map_of_fold_tput:
  "ordered acc \<Longrightarrow> distinct (map fst t) \<Longrightarrow>
    ordered (fold (\<lambda>(k, v). tput k v) t acc) \<and> map_of (fold (\<lambda>(k, v). tput k v) t acc) = map_of acc ++ map_of t"
proof (induction t arbitrary: acc)
  case Nil
  then show ?case by simp
next
  case (Cons e t)
  obtain k v where e: "e = (k, v)" by (cases e)
  have "map_of t k = None" using Cons.prems(2) by (simp add: e map_of_eq_None_iff)
  then have "map_of (tput k v acc) ++ map_of t = map_of acc ++ map_of (e # t)"
    using Cons.prems(1) by (auto simp: e fun_eq_iff map_add_def split: option.splits)
  then show ?case using Cons.IH [of "tput k v acc"] Cons.prems by (simp add: e fun_upd_def)
qed

lemma fold_tput_ordered: "ordered t \<Longrightarrow> fold (\<lambda>(k, v). tput k v) t [] = t"
  using map_of_fold_tput [of "[]" t] by (intro ordered_map_of_eq) (simp_all add: ordered_distinct)

lemma ledger_reload:
  assumes "ordered (gl_games l)"
  shows "gl_games (ledger_load (Some path) (Some (stored_of l)) capacity) = gl_games l"
proof -
  have "fold (\<lambda>(game, n, block). tput game (n, block)) (map (\<lambda>(game, n, block). (game, n, block)) t) acc
      = fold (\<lambda>(k, v). tput k v) t acc" for t :: "(address \<times> u64 \<times> block_hash) list" and acc
    by (induction t arbitrary: acc) auto
  then show ?thesis using fold_tput_ordered [OF assms] by (simp add: ledger_load_def stored_of_def)
qed

section \<open>Starting again\<close>

text \<open>What the lane took in so far does not steer it: earlier reads and sent observations only lead the list.\<close>

definition lane_after :: "block_range list \<Rightarrow> observation list \<Rightarrow> lane \<Rightarrow> lane" where
  "lane_after rs obs s = s\<lparr>lane_reads := rs @ lane_reads s, lane_sent := obs @ lane_sent s\<rparr>"

lemma lane_after_simps [simp]:
  "lane_config (lane_after rs obs s) = lane_config s" "lane_cursor (lane_after rs obs s) = lane_cursor s"
  "lane_learned (lane_after rs obs s) = lane_learned s" "lane_room (lane_after rs obs s) = lane_room s"
  "lane_reads (lane_after rs obs s) = rs @ lane_reads s" "lane_sent (lane_after rs obs s) = obs @ lane_sent s"
  by (simp_all add: lane_after_def)

lemma learn_after: "learn ob (lane_after rs obs s) = lane_after rs obs (learn ob s)"
  by (cases ob) (simp_all add: lane_after_def)

lemma send_all_after:
  "send_all os (lane_after rs obs s) = (let (going, s1) = send_all os s in (going, lane_after rs obs s1))"
proof (induction os arbitrary: s)
  case Nil
  then show ?case by simp
next
  case (Cons ob os)
  let ?s = "learn ob s"
  have step: "(lane_after rs obs ?s)\<lparr>lane_sent := lane_sent (lane_after rs obs ?s) @ [ob], lane_room := room\<rparr>
      = lane_after rs obs (?s\<lparr>lane_sent := lane_sent ?s @ [ob], lane_room := room\<rparr>)" for room
    by (simp add: lane_after_def)
  show ?case
    by (cases "lane_room ?s") (use Cons.IH in \<open>simp_all add: learn_after step Let_def del: lane_after_simps(6)\<close>)
qed

lemma send_frames_after:
  "send_frames keccak256 fs (lane_after rs obs s) = (let (going, s1) = send_frames keccak256 fs s in (going, lane_after rs obs s1))"
  by (induction fs arbitrary: s) (simp_all add: send_all_after Let_def split: prod.splits)

fun round_after :: "block_range list \<Rightarrow> observation list \<Rightarrow> lane round \<Rightarrow> lane round" where
  "round_after rs obs (Onward s) = Onward (lane_after rs obs s)"
| "round_after rs obs (Done r s) = Done r (lane_after rs obs s)"

lemma read_range_after:
  "read_range keccak256 read_frames persist tip (lane_after rs obs s)
    = round_after rs obs (read_range keccak256 read_frames persist tip s)"
proof -
  have step: "(lane_after rs obs s1)\<lparr>lane_cursor := c, lane_reads := (rs @ lane_reads s1) @ [r]\<rparr>
      = lane_after rs obs (s1\<lparr>lane_cursor := c, lane_reads := lane_reads s1 @ [r]\<rparr>)" for s1 c r
    by (simp add: lane_after_def)
  show ?thesis
    by (auto simp: read_range_def lane_first_def send_frames_after Let_def step [simplified]
      split: sum.splits prod.splits option.splits)
qed

lemma lane_round_after:
  "lane_round keccak256 read_frames persist i (lane_after rs obs s) = round_after rs obs (lane_round keccak256 read_frames persist i s)"
  by (cases "(keccak256, read_frames, persist, i, s)" rule: lane_round.cases) (auto simp: read_range_after split: finality_event.splits)

lemma lane_run_after:
  "lane_run keccak256 read_frames persist is (lane_after rs obs s)
    = (let (r, s1) = lane_run keccak256 read_frames persist is s in (r, lane_after rs obs s1))"
proof (induction "is" arbitrary: s)
  case Nil
  then show ?case by simp
next
  case (Cons i "is")
  then show ?case
    by (cases "lane_round keccak256 read_frames persist i s") (simp_all add: lane_round_after)
qed

text \<open>The rounds of a run that all go on.\<close>

fun lane_rounds ::
  "(bytes \<Rightarrow> 256 word) \<Rightarrow> (block_range \<Rightarrow> finalized_tip \<Rightarrow> (block_frame list, source_error) result)
    \<Rightarrow> (anchor_cursor \<Rightarrow> (unit, source_error) result) \<Rightarrow> lane_input list \<Rightarrow> lane \<Rightarrow> lane option" where
  "lane_rounds keccak256 read_frames persist [] s = Some s"
| "lane_rounds keccak256 read_frames persist (i # is) s =
     (case lane_round keccak256 read_frames persist i s of
        Done _ _ \<Rightarrow> None
      | Onward s1 \<Rightarrow> lane_rounds keccak256 read_frames persist is s1)"

lemma lane_run_append:
  "lane_rounds keccak256 read_frames persist is s = Some s1 \<Longrightarrow>
    lane_run keccak256 read_frames persist (is @ js) s = lane_run keccak256 read_frames persist js s1"
  by (induction "is" arbitrary: s) (auto split: round.splits)

text \<open>Between rounds the lane is what it would be when started with its cursor.\<close>

definition resumed :: "lane_config \<Rightarrow> learned \<Rightarrow> lane_config" where
  "resumed c ln = (case ln_game_type ln of None \<Rightarrow> c | Some t \<Rightarrow> respect t c)"

lemma respect_again: "respect t (respect t' c) = respect t c"
  by (cases "lc_anchor c") (auto simp: respect_def)

lemma learn_resumed: "lane_config s = resumed c (lane_learned s) \<Longrightarrow> lane_config (learn ob s) = resumed c (lane_learned (learn ob s))"
  by (cases ob) (auto simp: resumed_def respect_again split: option.splits)

lemma learn_cursor [simp]: "lane_cursor (learn ob s) = lane_cursor s"
  by (cases ob) simp_all

lemma send_all_resumed:
  "send_all obs s = (going, s1) \<Longrightarrow> lane_config s = resumed c (lane_learned s) \<Longrightarrow>
    lane_config s1 = resumed c (lane_learned s1) \<and> lane_cursor s1 = lane_cursor s"
proof (induction obs arbitrary: s)
  case Nil
  then show ?case by simp
next
  case (Cons ob obs)
  then show ?case using learn_resumed [OF Cons.prems(2), of ob]
    by (cases "lane_room (learn ob s)") (fastforce simp: Let_def)+
qed

lemma send_frames_resumed:
  "send_frames keccak256 fs s = (going, s1) \<Longrightarrow> lane_config s = resumed c (lane_learned s) \<Longrightarrow>
    lane_config s1 = resumed c (lane_learned s1) \<and> lane_cursor s1 = lane_cursor s"
proof (induction fs arbitrary: s)
  case Nil
  then show ?case by simp
next
  case (Cons f fs)
  obtain g s2 where sent: "send_all (observe_frame keccak256 (lc_anchor (lane_config s)) (lc_chain_id (lane_config s))
      (lc_system_config (lane_config s)) f) s = (g, s2)" by fastforce
  note r = send_all_resumed [OF sent Cons.prems(2)]
  show ?case using Cons.prems(1) Cons.IH [of s2] r by (auto simp: sent Let_def split: if_splits)
qed

definition between_rounds :: "lane_config \<Rightarrow> lane \<Rightarrow> bool" where
  "between_rounds c s \<longleftrightarrow> lane_learned s = (case lane_cursor s of None \<Rightarrow> learned_default | Some k \<Rightarrow> ac_learned k)
     \<and> lane_config s = resumed c (lane_learned s)"

lemma lane_start_between: "between_rounds c (lane_start c cursor room)"
  by (simp add: between_rounds_def lane_start_def resumed_def Let_def)

lemma between_start:
  assumes "between_rounds c s"
  shows "s = lane_after (lane_reads s) (lane_sent s) (lane_start c (lane_cursor s) (lane_room s))"
  using assms by (cases s) (auto simp: between_rounds_def lane_start_def lane_after_def resumed_def Let_def)

lemma lane_round_between:
  assumes "lane_round keccak256 read_frames persist i s = Onward s1" and I: "between_rounds c s"
  shows "between_rounds c s1"
proof -
  have read: "between_rounds c s1" if run: "read_range keccak256 read_frames persist tip s = Onward s1" for tip
  proof (cases "s1 = s")
    case False
    then obtain frames s2 where sent: "send_frames keccak256 frames s = (True, s2)"
      and s1: "\<exists>r. s1 = s2\<lparr>lane_cursor := Some \<lparr>ac_number = ft_number tip, ac_hash = ft_hash tip, ac_learned = lane_learned s2\<rparr>,
        lane_reads := lane_reads s2 @ [r]\<rparr>"
      using run by (auto simp: read_range_def Let_def split: if_splits sum.splits prod.splits)
    have "lane_config s2 = resumed c (lane_learned s2)"
      using send_frames_resumed [OF sent] I by (simp add: between_rounds_def)
    then show ?thesis using s1 by (auto simp: between_rounds_def)
  qed (use I in simp)
  show ?thesis
    using assms(1) I read
    by (cases "(keccak256, read_frames, persist, i, s)" rule: lane_round.cases) (auto split: finality_event.splits)
qed

lemma lane_rounds_between:
  "lane_rounds keccak256 read_frames persist is s = Some s1 \<Longrightarrow> between_rounds c s \<Longrightarrow> between_rounds c s1"
proof (induction "is" arbitrary: s)
  case Nil
  then show ?case by simp
next
  case (Cons i "is")
  then show ?case using lane_round_between by (auto split: round.splits)
qed

lemma lane_restart:
  assumes "lane_rounds keccak256 read_frames persist is (lane_start c cursor room) = Some s1"
  shows "lane_run keccak256 read_frames persist (is @ js) (lane_start c cursor room)
    = (let (r, s2) = lane_run keccak256 read_frames persist js (lane_start c (lane_cursor s1) (lane_room s1))
       in (r, lane_after (lane_reads s1) (lane_sent s1) s2))"
proof -
  note b = lane_rounds_between [OF assms lane_start_between]
  have "lane_run keccak256 read_frames persist (is @ js) (lane_start c cursor room)
      = lane_run keccak256 read_frames persist js (lane_after (lane_reads s1) (lane_sent s1) (lane_start c (lane_cursor s1) (lane_room s1)))"
    using lane_run_append [OF assms] between_start [OF b] by simp
  then show ?thesis by (simp add: lane_run_after)
qed

section \<open>Every block once\<close>

lemma send_all_reads: "send_all obs s = (going, s1) \<Longrightarrow> lane_reads s1 = lane_reads s \<and> lane_cursor s1 = lane_cursor s"
proof (induction obs arbitrary: s)
  case Nil
  then show ?case by simp
next
  case (Cons ob obs)
  have "lane_reads (learn ob s) = lane_reads s" by (cases ob) simp_all
  then show ?case using Cons by (cases "lane_room (learn ob s)") (fastforce simp: Let_def)+
qed

lemma send_frames_reads:
  "send_frames keccak256 fs s = (going, s1) \<Longrightarrow> lane_reads s1 = lane_reads s \<and> lane_cursor s1 = lane_cursor s"
proof (induction fs arbitrary: s)
  case Nil
  then show ?case by simp
next
  case (Cons f fs)
  obtain g s2 where sent: "send_all (observe_frame keccak256 (lc_anchor (lane_config s)) (lc_chain_id (lane_config s))
      (lc_system_config (lane_config s)) f) s = (g, s2)" by fastforce
  show ?case using Cons.prems(1) Cons.IH [of s2] send_all_reads [OF sent] by (auto simp: sent Let_def split: if_splits)
qed

definition blocks_read :: "lane \<Rightarrow> nat list" where
  "blocks_read s = concat (map (\<lambda>r. [unat (range_start r)..<Suc (unat (range_end r))]) (lane_reads s))"

text \<open>The lane has read exactly the blocks above the first cursor, up to its own.\<close>

definition reads_to_cursor :: "u64 \<Rightarrow> lane \<Rightarrow> bool" where
  "reads_to_cursor first s \<longleftrightarrow>
     (\<exists>k. lane_cursor s = Some k \<and> first \<le> ac_number k \<and> ac_number k < word_max
        \<and> blocks_read s = [Suc (unat first)..<Suc (unat (ac_number k))])"

fun input_below_max :: "lane_input \<Rightarrow> bool" where
  "input_below_max (LaneEvent (Ok (EventFinalized n _ _ _))) = (n < word_max)"
| "input_below_max _ = True"

fun round_lane :: "lane round \<Rightarrow> lane" where
  "round_lane (Onward s) = s"
| "round_lane (Done _ s) = s"

lemma read_range_reads:
  assumes I: "reads_to_cursor first s" and small: "ft_number tip < word_max"
  shows "reads_to_cursor first (round_lane (read_range keccak256 read_frames persist tip s))"
proof -
  obtain k where k: "lane_cursor s = Some k" "first \<le> ac_number k" "ac_number k < word_max"
    and read: "blocks_read s = [Suc (unat first)..<Suc (unat (ac_number k))]"
    using I by (auto simp: reads_to_cursor_def)
  have bound: "unat (ac_number k) < 2 ^ 64 - 1" "unat (ft_number tip) < 2 ^ 64 - 1"
    using k(3) small by (simp_all add: word_less_nat_alt unat_word_max_u64)
  have start: "lane_first s (ft_number tip) = saturating_add (ac_number k) 1" by (simp add: lane_first_def k)
  have next_start: "unat (saturating_add (ac_number k) 1) = Suc (unat (ac_number k))"
    using bound(1) by (simp add: unat_saturating_add)
  have same: "reads_to_cursor first s1" if "lane_reads s1 = lane_reads s" "lane_cursor s1 = lane_cursor s" for s1
    using I that by (simp add: reads_to_cursor_def blocks_read_def)
  have onward: "reads_to_cursor first (s1\<lparr>lane_cursor := Some \<lparr>ac_number = ft_number tip, ac_hash = h, ac_learned = ln\<rparr>,
      lane_reads := lane_reads s @ [r]\<rparr>)"
    if r: "range_new (saturating_add (ac_number k) 1) (ft_number tip) = Ok r" for s1 h ln r
  proof -
    have bounds: "saturating_add (ac_number k) 1 \<le> ft_number tip" "range_start r = saturating_add (ac_number k) 1"
      "range_end r = ft_number tip"
      using r by (auto simp: range_new_Ok)
    have "unat first \<le> unat (ac_number k)" "Suc (unat (ac_number k)) \<le> unat (ft_number tip)"
      using k(2) bounds(1) next_start by (simp_all add: word_le_nat_alt)
    moreover from this have "[Suc (unat first)..<Suc (unat (ac_number k))] @ [Suc (unat (ac_number k))..<Suc (unat (ft_number tip))]
        = [Suc (unat first)..<Suc (unat (ft_number tip))]"
      using upt_add_eq_append [of "Suc (unat first)" "Suc (unat (ac_number k))" "unat (ft_number tip) - unat (ac_number k)"]
      by (simp del: upt_Suc)
    ultimately show ?thesis
      using read small bounds(2,3) next_start
      by (simp add: reads_to_cursor_def blocks_read_def word_le_nat_alt del: upt_Suc)
  qed
  show ?thesis
    unfolding read_range_def start Let_def
    using I by (auto split: sum.splits prod.splits simp: same onward dest!: send_frames_reads)
qed

lemma lane_round_reads:
  "reads_to_cursor first s \<Longrightarrow> input_below_max i \<Longrightarrow>
    reads_to_cursor first (round_lane (lane_round keccak256 read_frames persist i s))"
  by (cases "(keccak256, read_frames, persist, i, s)" rule: lane_round.cases)
    (auto simp: read_range_reads split: finality_event.splits)

lemma lane_run_reads:
  "lane_run keccak256 read_frames persist is s = (r, s1) \<Longrightarrow> reads_to_cursor first s \<Longrightarrow> list_all input_below_max is \<Longrightarrow>
    reads_to_cursor first s1"
proof (induction "is" arbitrary: s)
  case Nil
  then show ?case by simp
next
  case (Cons i "is")
  then show ?case
    using lane_round_reads [of first s i keccak256 read_frames persist]
    by (cases "lane_round keccak256 read_frames persist i s") auto
qed

lemma lane_start_reads:
  assumes "ac_number k < word_max"
  shows "reads_to_cursor (ac_number k) (lane_start c (Some k) room)"
  using assms by (simp add: reads_to_cursor_def lane_start_def blocks_read_def Let_def)

lemma ledger_load_start: "gl_signed (ledger_load path file capacity) = []" "ordered (gl_games (ledger_load path file capacity))"
proof -
  have "ordered acc \<Longrightarrow> ordered (fold (\<lambda>(game, n, block). tput game (n, block)) t acc)"
    for t :: "(address \<times> u64 \<times> block_hash) list" and acc
    by (induction t arbitrary: acc) auto
  then show "ordered (gl_games (ledger_load path file capacity))"
    by (auto simp: ledger_load_def split: option.splits)
qed (simp add: ledger_load_def)

end
