(* ===== verification/Spec2Isabelle.thy ===== *)
theory Spec2Isabelle
  imports Cadences Deltas Conformance Backfill Fair_Commits Canonical_Laws Reducer_Laws Delivery_Props
    Admission_Laws Blobs Erc20_Laws L1_Anchor_Laws
begin

text \<open>
  Verification of Leani, an Ethereum indexing node (the Rust workspace under \<^verbatim>\<open>crates/\<close>).

  \<^bold>\<open>The program.\<close> Sources deliver blocks as frames: records whose parts (header, transactions,
  receipts, logs, ...) are complete, filtered by a declared scope, or missing. Processors declare what
  they need of a frame; the runtime compiles those needs into requests, plans which source serves which
  blocks, checks every frame against the requirements, maps it to a checksummed delta and reduces the
  deltas in block order. The SQLite store keeps the canonical recent chain with its finality, the
  retained frames, coverage and processor state; live blocks may be reorganised until they are
  finalized. Historical jobs share the single writer through a fair scheduler.

  \<^bold>\<open>The theories\<close>, in import order, with the code they model:
  \<^item> \<open>Prelude\<close>: Rust integers with saturating and checked operations, big-endian bytes, results, ordered
    tables (\<^verbatim>\<open>BTreeMap\<close> and SQL tables under their primary key), and the interfaces: \<open>flag_set\<close>, the laws of
    the bit sets, and \<open>kept_invariant\<close>, an invariant that every step keeps.
  \<^item> \<open>Chain_Types\<close>, \<open>Capabilities\<close>, \<open>Materials\<close>, \<open>Provenances\<close>, \<open>Frames\<close>, \<open>Durables\<close>: \<^verbatim>\<open>crates/primitives\<close>
    (\<^verbatim>\<open>chain.rs\<close>, \<^verbatim>\<open>capability.rs\<close>, \<^verbatim>\<open>material.rs\<close>, \<^verbatim>\<open>provenance.rs\<close>, \<^verbatim>\<open>frame.rs\<close>, \<^verbatim>\<open>durable.rs\<close>, \<^verbatim>\<open>cursor.rs\<close>).
  \<^item> \<open>Cadences\<close>: slot arithmetic of \<^verbatim>\<open>crates/chain\<close>, with division by zero as an error value.
  \<^item> \<open>Descriptors\<close>, \<open>Deltas\<close>: \<^verbatim>\<open>crates/processor-api\<close> (\<^verbatim>\<open>descriptor.rs\<close>, \<^verbatim>\<open>contract.rs\<close>).
  \<^item> \<open>Sources\<close>, \<open>Conformance\<close>: \<^verbatim>\<open>crates/source-api\<close> (\<^verbatim>\<open>contract.rs\<close>, \<^verbatim>\<open>planner.rs\<close>, \<^verbatim>\<open>stored.rs\<close>, \<^verbatim>\<open>conformance.rs\<close>).
  \<^item> \<open>Ranges\<close>, \<open>Backfill\<close>, \<open>Fair_Commits\<close>: range sets, backfill jobs, request compilation, the adaptive
    commit size and the fair commit scheduler of \<^verbatim>\<open>crates/runtime\<close>.
  \<^item> \<open>Canonical_Store\<close>, \<open>Canonical_Laws\<close>: the canonical recent blocks of \<^verbatim>\<open>crates/store-sqlite\<close>. The
    database is a record of tables, an operation returns the new database or an error, and a failed
    transaction leaves the old one. \<open>canonical_step\<close> is the step relation of all its writing operations.
  \<^item> \<open>Reducer\<close>, \<open>Reducer_Laws\<close>: the reducer's overlay over the processor tables of \<^verbatim>\<open>crates/store-sqlite\<close>, the
    mutations it becomes, their application and undo with the metadata images, and the inverse changes.
    \<open>reducer_step\<close> is what a reducer may do during a block; the interface \<open>key_value\<close> (a read returns the
    observed map, a write changes it at its key) is interpreted for working state and for entities.
  \<^item> \<open>Delivery\<close>, \<open>Delivery_Laws\<close>, \<open>Delivery_Props\<close>: durable delivery in \<^verbatim>\<open>crates/store-sqlite\<close>: the change log and its
    streams, changes parked until finality, consumers with leased sessions, pages, acknowledgements and
    pruning. \<open>delivery_step\<close> is the step relation of its writing operations; the clock is an argument.
  \<^item> \<open>Subscriptions\<close>, \<open>Subscription_Jobs\<close>, their laws: backfill subscriptions in \<^verbatim>\<open>crates/store-sqlite\<close>, with the
    ranges they request, the blocks covered before, progress, states and completion records, and the creation of a
    subscription together with its job (\<^verbatim>\<open>create_backfill_subscription_job\<close>) and its reading. The \<open>spool\<close> adds
    their tables and the coverage tables to those of delivery.
  \<^item> \<open>Admission\<close>, \<open>Admission_Laws\<close>: the delivery part of a block's transaction
    (\<^verbatim>\<open>apply_with_origin_to_stream\<close>), its admission against the limits of the subscription, the processor and the
    node (\<^verbatim>\<open>enforce_delivery_capacity\<close>), and the completion of a subscription. \<open>spool_step\<close> is the step relation of
    these operations; the sizes of the database file and of its log are arguments.
  \<^item> \<open>Processor_Runs\<close>: the reduction inside a block's transaction (\<^verbatim>\<open>apply_with_origin_to_stream\<close>) and runs of blocks. The
    interface \<open>ordered_processor\<close> is what an ordered-state processor promises of one reduction.
  \<^item> \<open>Blob_Fees\<close>, \<open>Blobs\<close>: \<^verbatim>\<open>crates/processor-blobs\<close>: the EIP-4844 fee expansion in checked 256-bit steps, the fork
    schedule, the delta derived from a frame, its mapping, finality variants and reduction.
  \<^item> \<open>Erc20\<close>, \<open>Erc20_Laws\<close>: \<^verbatim>\<open>crates/processor-erc20\<close>: transfers mapped from logs and the ledgers of watched pairs, a
    reference ledger with one step per transfer, and the interpretation of \<open>ordered_processor\<close>.
  \<^item> \<open>L1_Anchor\<close>, \<open>L1_Anchor_Laws\<close>: \<^verbatim>\<open>crates/l1-anchor\<close>: what a finalized L1 block says about a rollup, the ledger of dispute
    games, and the lane that reads newly finalized ranges and keeps a cursor. The lane's run is a fold over
    its events; its receiver takes a given number of observations.

  This theory holds the properties, each with concrete inputs on which its hypotheses hold.

  \<^bold>\<open>Conventions.\<close> \<^verbatim>\<open>u8\<close> to \<^verbatim>\<open>u64\<close> are words, plain arithmetic wraps as in the release profile; hashes and
  addresses are words of 256 and 160 bits, strings are character lists, \<^verbatim>\<open>usize\<close> counts are naturals with
  the 64-bit bound written where the code depends on it. A \<^verbatim>\<open>Result\<close> is a sum with the error on the left. An
  error that only carries a formatted message keeps its constructor and a fixed text. The postcard,
  BLAKE3 and hex crates are the parameter \<open>codec\<close>; \<open>codec_ok\<close> states what the code relies on: a 32-byte digest,
  decoding after encoding, and hex text that decodes.

  \<^bold>\<open>What the lemmas show.\<close> The store's lemmas give the exact effect of each operation on the canonical rows, and
  from it the permanence of finalized blocks over every run, finality along parent hashes only, and
  linked branches after a reorganisation. The reducer's lemmas show that the overlay refines direct writes:
  a committed batch leaves exactly what the reducer saw, an undone one restores tables and metadata, and
  a prefix scan returns the first rows of the merged view. The delivery lemmas keep an unbroken log, protect what
  required consumers have not acknowledged, fence sessions by generation and release parked changes in order. The admission lemmas keep every
  stream and the node within their limits and show that a refused block leaves no trace in the published records; the
  subscription lemmas keep each subscription well formed, its counts and states moving forward only, and its completion
  record true to its blocks. The scheduler's lemmas give mutual exclusion, progress and the
  termination of its selection loop (a loop without a static bound, modelled by \<^theory_text>\<open>partial_function\<close> and proved
  to return for every queue). The planning lemmas state that requests, plans, gaps and merged ranges hold
  exactly the right blocks; the acceptance lemmas characterise every validator by what it accepts; the
  codec lemmas are round trips and injectivity. The processor lemmas prove the fee expansion equal to its
  mathematical one (and its loop terminating), the blobs of a frame accounted for, and ERC-20 balances equal
  in integers to the transfers of the frames over any run of committed blocks. The anchor's lemmas show that a
  block becomes final only over a claim that matched it, that calls and super roots read back, and that a
  restarted lane goes on where it stopped, reading every block once.

  \<^bold>\<open>Bounds.\<close> The exact cover of a plan excludes a request that ends at the last 64-bit block number, where the
  code's saturating step accepts a plan that misses a block (\<open>plan_misses_last_block\<close>). The slot lemmas state
  the bound under which the cadence arithmetic does not saturate (\<open>slot_fits\<close>).

  \<^bold>\<open>Not modelled\<close>: networking and readers (devp2p, consensus gossip, beacon API, S3, RPC, ERA files),
  the HTTP and JSON-RPC servers, configuration, process control and the command line, WebAssembly hosting,
  and the SQL connection itself (locking and retries): they are input and output around this logic.
  The artifacts of the store, its batched backfill writer, output windows, the other processors, the live runtime and the header
  rules are the next parts of the plan.
\<close>

section \<open>Concrete values\<close>

text \<open>
  A codec, a frame and a small store, on which the hypotheses of the properties hold. The codec
  stands for the postcard, BLAKE3 and hex crates: it encodes the one value it is made for.
\<close>

definition sample_codec :: "'a \<Rightarrow> ('a, unit, unit) codec" where
  "sample_codec v = \<lparr>blake3 = (\<lambda>_. replicate 32 0),
     to_allocvec = (\<lambda>x. if x = v then Ok [1] else Err ()),
     from_bytes = (\<lambda>bs. if bs = [1] then Ok v else Err ()),
     hex_encode = map (\<lambda>b. char_of (unat b)),
     hex_decode = (\<lambda>s. Ok (map (\<lambda>c. of_nat (of_char c)) s))\<rparr>"

definition sample_block :: "block_number \<Rightarrow> block_hash \<Rightarrow> block_hash \<Rightarrow> block_ref" where
  "sample_block n h p = \<lparr>number = n, hash = h, parent_hash = p, timestamp = 12\<rparr>"

definition sample_frame :: "block_ref \<Rightarrow> block_frame" where
  "sample_frame b = \<lparr>fr_chain_id = 1, fr_block = b, fr_finality = Attested,
     fr_header = Missing NotRequested, fr_transactions = Missing NotRequested,
     fr_receipts = Missing NotRequested, fr_logs = Complete [], fr_withdrawals = Missing NotRequested,
     fr_blob_sidecars = Missing NotRequested, fr_traces = Missing NotRequested,
     fr_state_diffs = Missing NotRequested, fr_provenance = [], fr_verification = default_report\<rparr>"

definition sample_row :: "block_hash \<Rightarrow> block_hash \<Rightarrow> finality \<Rightarrow> canonical_row" where
  "sample_row h p level = \<lparr>cn_hash = h, cn_parent_hash = p, cn_timestamp = 12, cn_finality = level\<rparr>"

text \<open>Height 5 is finalized, 6 and 7 are linked to it, and 9 is above a hole.\<close>

definition sample_db :: recent_db where
  "sample_db = \<lparr>canonical_blocks = [((1, 5), sample_row 50 40 Finalized),
       ((1, 6), sample_row 60 50 Attested), ((1, 7), sample_row 70 60 Unattested),
       ((1, 9), sample_row 90 80 Unattested)],
     recent_blocks = [((1, 5, 50), replicate 40 0), ((1, 6, 60), replicate 40 0),
       ((1, 7, 70), replicate 40 0)],
     transaction_locators = []\<rparr>"

lemma sample_codec_ok: "codec_ok (sample_codec v)"
proof -
  have "(of_nat (unat b mod 256) :: u8) = b" for b :: u8
    using unat_less_power [of b] by simp
  then show ?thesis
    by (auto simp: codec_ok_def sample_codec_def comp_def split: if_splits)
qed

lemma sample_tables_ok: "tables_ok sample_db"
  by (simp add: tables_ok_def sample_db_def)

lemmas sample_defs = sample_db_def sample_row_def sample_block_def sample_frame_def sample_codec_def

section \<open>The canonical store\<close>

text \<open>
  C1: along every run of the store's operations (storing frames and anchors, attesting,
  finalizing, reorganising, the cleanup after a restart and pruning) the tables stay ordered and a
  finalized canonical block stays at its height, with its hash, finalized.
\<close>

theorem finalized_permanent:
  assumes "(canonical_step cd)\<^sup>*\<^sup>* db db'" and "tables_ok db"
    and "canon db k = Some r" and "cn_finality r = Finalized"
  shows "tables_ok db' \<and>
    (\<exists>r'. canon db' k = Some r' \<and> cn_hash r' = cn_hash r \<and> cn_finality r' = Finalized)"
proof -
  have "holds_finals (final_hash db) db'"
    by (rule canonical.run_keeps [OF assms(1)]) (simp add: holds_finals_def assms(2))
  moreover have "final_hash db k = Some (cn_hash r)" using assms(3,4) by (simp add: final_hash_def)
  ultimately have "tables_ok db'" "final_hash db' k = Some (cn_hash r)"
    unfolding holds_finals_def map_le_def by (auto dest: bspec [of _ _ k])
  then show ?thesis by (auto simp: final_hash_def split: option.splits if_splits)
qed

definition sample_attested :: recent_db where
  "sample_attested = set_level (\<lambda>(ch, m) r. ch = 1 \<and> m \<le> 7 \<and> cn_finality r = Unattested) Attested sample_db"

theorem finalized_permanent_witness:
  "\<exists>r'. canon sample_attested (1, 5) = Some r' \<and> cn_hash r' = 50 \<and> cn_finality r' = Finalized"
proof -
  have "mark_recent_attested sample_db 1 7 70
      = (Ok (1, sample_attested) :: (nat \<times> recent_db, unit store_error) result)"
    by (simp add: mark_recent_attested_def sample_attested_def sample_db_def sample_row_def u64_i64_def
      count_rows_def)
  then have "canonical_step (sample_codec (sample_frame (sample_block 6 60 50))) sample_db sample_attested"
    by (rule step_attest)
  then have run: "(canonical_step (sample_codec (sample_frame (sample_block 6 60 50))))\<^sup>*\<^sup>* sample_db sample_attested"
    by (rule r_into_rtranclp)
  have "canon sample_db (1, 5) = Some (sample_row 50 40 Finalized)" by (simp add: sample_db_def)
  from finalized_permanent [OF run sample_tables_ok this] show ?thesis by (simp add: sample_row_def)
qed

text \<open>
  C2: when \<^verbatim>\<open>mark_recent_finalized\<close> succeeds, the rows it finalizes are exactly those that parent
  hashes link, height by height, to the row at \<^verbatim>\<open>through\<close>, which holds the expected hash; every other
  row is unchanged.
\<close>

theorem finalize_exact:
  assumes "mark_recent_finalized db c through h
      = (Ok (n, db') :: (nat \<times> recent_db, 'pe store_error) result)" and "tables_ok db"
  shows "map_option cn_hash (canon db (c, through)) = Some h \<and>
    canon db' (ch, m) = map_option (\<lambda>row.
      if ch = c \<and> m \<le> through \<and> linked db c m through then row\<lparr>cn_finality := Finalized\<rparr> else row)
      (canon db (ch, m))"
  using mark_recent_finalized_exact [OF assms] assms(1)
  by (auto simp: mark_recent_finalized_def if_Err_eq_Ok)

theorem finalize_exact_witness:
  "\<exists>n db'. mark_recent_finalized sample_db 1 7 70
      = (Ok (n, db') :: (nat \<times> recent_db, unit store_error) result)
    \<and> map_option cn_hash (canon sample_db (1, 7)) = Some 70
    \<and> canon db' (1, 7) = Some (sample_row 70 60 Finalized)"
proof -
  obtain n db' where run: "mark_recent_finalized sample_db 1 7 70
      = (Ok (n, db') :: (nat \<times> recent_db, unit store_error) result)"
    by (auto simp: mark_recent_finalized_def sample_db_def sample_row_def u64_i64_def chain_rows_def
      checked_sub_1 Let_def)
  from finalize_exact [OF run sample_tables_ok, of 1 7] have
    "map_option cn_hash (canon sample_db (1, 7)) = Some 70
    \<and> canon db' (1, 7) = Some (sample_row 70 60 Finalized)"
    by (simp add: sample_db_def sample_row_def)
  with run show ?thesis by blast
qed

text \<open>
  C3: a successful reorganisation reverts only unfinalized canonical rows with the given hashes,
  changes no canonical row but the reverted and the applied ones, and leaves the applied branch
  linked by parent hashes from the common ancestor up to the new tip.
\<close>

theorem reorg_effect:
  assumes "reorg_recent_frames cd db c reverted applied = Ok (out, db')" and "tables_ok db"
  shows "tables_ok db'
    \<and> list_all (\<lambda>b. \<exists>r. canon db (c, number b) = Some r \<and> cn_hash r = hash b
        \<and> cn_finality r \<noteq> Finalized) reverted
    \<and> canon db' = (canon db |` (- (\<lambda>b. (c, number b)) ` set reverted)) ++ map_of (map (\<lambda>f.
          ((c, number (fr_block f)), row_of (fr_block f) (fr_finality f))) applied)
    \<and> map_option cn_hash (canon db' (c, number (last reverted) - 1)) = Some (parent_hash (last reverted))
    \<and> (if applied = [] then True
       else linked db' c (number (last reverted) - 1) (number (fr_block (last applied))))"
  using reorg_rows [OF assms] reorg_linked [OF assms] reorg_ancestor(3) [OF assms]
  by (auto simp: list_all_iff)

definition sample_branch :: block_frame where
  "sample_branch = sample_frame (sample_block 7 71 60)"

theorem reorg_effect_witness:
  "\<exists>out db'. reorg_recent_frames (sample_codec sample_branch) sample_db 1 [sample_block 7 70 60] [sample_branch]
      = Ok (out, db') \<and> linked db' 1 6 7"
proof -
  obtain out db' where run: "reorg_recent_frames (sample_codec sample_branch) sample_db 1
      [sample_block 7 70 60] [sample_branch] = Ok (out, db')"
    by (auto simp: reorg_recent_frames_def sample_branch_def sample_defs u64_i64_def usize_i64_def validate_shape_def
      default_report_def has_failures_def report_checks_def check_failed_def check_not_checked_def is_some_and_def
      durable_encode_def map_err_def delete_recent_transaction_locators_def delete_canonical_def insert_recent_def
      upsert_recent_transaction_locators_def envelope_body_def MAGIC_def Let_def)
  from reorg_effect [OF run sample_tables_ok] run show ?thesis
    by (auto simp: sample_branch_def sample_frame_def sample_block_def)
qed

text \<open>
  C4: after a frame is stored, reading its height gives a frame with the same material, at the level of
  its canonical row: the stored frame's level, raised to what the row already had.
\<close>

theorem stored_frame_read_back:
  assumes "codec_ok cd" and "tables_ok db" and "store_recent_frame_within cd db f hard_bytes = Ok db'"
  shows "\<exists>g. recent_frame cd db' (fr_chain_id f) (number (fr_block f)) = Ok (Some g)
    \<and> same_recent_material g f
    \<and> fr_finality g = (case canon db (fr_chain_id f, number (fr_block f)) of None \<Rightarrow> fr_finality f
        | Some r \<Rightarrow> max (cn_finality r) (fr_finality f))"
  by (rule recent_frame_store [OF assms])

definition sample_next :: block_frame where
  "sample_next = sample_frame (sample_block 8 80 70)"

theorem stored_frame_read_back_witness:
  "\<exists>db' g. store_recent_frame_within (sample_codec sample_next) sample_db sample_next 1000 = Ok db'
    \<and> recent_frame (sample_codec sample_next) db' 1 8 = Ok (Some g)
    \<and> same_recent_material g sample_next \<and> fr_finality g = Attested"
proof -
  obtain db' where run:
    "store_recent_frame_within (sample_codec sample_next) sample_db sample_next 1000 = Ok db'"
    by (auto simp: store_recent_frame_within_def write_recent_frame_def sample_next_def sample_defs
      u64_i64_def usize_i64_def validate_shape_def default_report_def has_failures_def report_checks_def
      check_failed_def check_not_checked_def is_some_and_def durable_encode_def map_err_def
      upsert_canonical_def insert_recent_def upsert_recent_transaction_locators_def envelope_body_def
      MAGIC_def admit_recent_frame_def retained_bytes_def dynamic_bytes_def saturating_add_def word_max_def Let_def)
  from stored_frame_read_back [OF sample_codec_ok sample_tables_ok run] run show ?thesis
    by (simp add: sample_next_def sample_frame_def sample_block_def sample_db_def)
qed

text \<open>
  C5: pruning leaves the canonical rows alone; it keeps every frame of another chain, every frame above the
  finalized height and every frame inside the retention window, as they were; the byte count it
  reports is that of the frames it left; and it stops above the soft limit only when nothing more may
  go.
\<close>

theorem prune_safe:
  assumes "prune_recent_frames db c finalized_through window soft hard
      = (Ok (out, db') :: (recent_prune_outcome \<times> recent_db, 'pe store_error) result)"
    and "tables_ok db" and "row_bytes (retained_of db c) < 2 ^ 64"
  shows "canonical_blocks db' = canonical_blocks db
    \<and> set (recent_blocks db') \<subseteq> set (recent_blocks db)
    \<and> (ch \<noteq> c \<or> n > finalized_through \<or> n \<ge> retain_from db c window \<longrightarrow>
        map_of (recent_blocks db') (ch, n, h) = map_of (recent_blocks db) (ch, n, h))
    \<and> unat (po_retained_bytes out) = row_bytes (retained_of db' c)
    \<and> (po_retained_bytes out \<le> soft \<or>
        (\<forall>k \<in> fst ` set (retained_of db' c). \<not> prunable (retain_from db c window) finalized_through k))"
proof -
  obtain D ret where ret: "unat ret = cap64 (row_bytes (retained_of db c))"
    and p: "pruned_by (retain_from db c window) finalized_through soft (retained_of db c) db ret db'
        (po_retained_bytes out) D"
    using prune_recent_frames_effect [OF assms(1,2)] by blast
  have rows: "recent_blocks db' = filter (\<lambda>e. \<not> D (fst e)) (recent_blocks db)"
    using p by (simp add: pruned_by_def)
  have left: "retained_of db' c = filter (\<lambda>e. \<not> D (fst e)) (retained_of db c)"
    unfolding rows by (simp add: conj_commute)
  have D: "D k \<Longrightarrow> k \<in> fst ` set (retained_of db c) \<and> prunable (retain_from db c window) finalized_through k" for k
    using p unfolding pruned_by_def by blast
  have "unat (po_retained_bytes out) = row_bytes (retained_of db' c)"
    using p ret assms(3) row_bytes_split [of "retained_of db c" "\<lambda>e. D (fst e)"]
    unfolding left by (simp add: pruned_by_def cap64_def)
  moreover have "\<not> D (ch, n, h)"
    if "ch \<noteq> c \<or> n > finalized_through \<or> n \<ge> retain_from db c window"
    using D [of "(ch, n, h)"] that by auto
  then have "ch \<noteq> c \<or> n > finalized_through \<or> n \<ge> retain_from db c window \<longrightarrow>
      map_of (recent_blocks db') (ch, n, h) = map_of (recent_blocks db) (ch, n, h)"
    unfolding rows by (auto simp: map_of_filter_keys [of "\<lambda>k. \<not> D k"])
  moreover have "po_retained_bytes out \<le> soft \<or>
      (\<forall>k \<in> fst ` set (retained_of db' c). \<not> prunable (retain_from db c window) finalized_through k)"
    using p unfolding left pruned_by_def by fastforce
  ultimately show ?thesis using p rows by (simp add: pruned_by_def)
qed

theorem prune_safe_witness:
  "\<exists>out db'. prune_recent_frames sample_db 1 6 1 50 200
      = (Ok (out, db') :: (recent_prune_outcome \<times> recent_db, unit store_error) result)
    \<and> map_of (recent_blocks db') (1, 7, 70) = Some (replicate 40 0)
    \<and> unat (po_retained_bytes out) = row_bytes (retained_of db' 1)"
proof -
  obtain out db' where run: "prune_recent_frames sample_db 1 6 1 50 200
      = (Ok (out, db') :: (recent_prune_outcome \<times> recent_db, unit store_error) result)"
    by (auto simp: prune_recent_frames_def sample_db_def u64_i64_def saturating_sub_def saturating_add_def
      dynamic_bytes_def delete_recent_transaction_locators_def Let_def)
  have "row_bytes (retained_of sample_db 1) < 2 ^ 64" by (simp add: sample_db_def)
  from prune_safe [OF run sample_tables_ok this, of 1 7 70] run show ?thesis
    by (auto simp: sample_db_def retain_from_def saturating_sub_def)
qed

section \<open>Reducing blocks and undoing them\<close>

text \<open>
  C6: whatever reads, writes, scans and emits a processor's reducer makes on a new overlay, committing the
  batch it leaves succeeds for storable sizes, gives its instance exactly the values the reducer saw
  (only the working state when the processor keeps no output), and changes no other instance.
\<close>

theorem batch_committed:
  assumes "(reducer_step db)\<^sup>*\<^sup>* (overlay_new i) ov" and "tables_ordered db" and "block_storable b"
    and "\<forall>t v. full_view db ov t = Some v \<longrightarrow> length v < 2 ^ 63"
  shows "\<exists>db'. apply_mutations i (mb_mutations (into_batch ov)) False retain b level now db
        = (Ok db' :: (_, 'pe store_error) result)
    \<and> tables_ordered db'
    \<and> (\<forall>j t. contents db' j t =
        (if j = i \<and> kept_target retain t then full_view db ov t else contents db j t))"
proof -
  note ok = reducer_run_ok [OF assms(1)]
  obtain db' where db': "apply_mutations i (mb_mutations (into_batch ov)) False retain b level now db
      = (Ok db' :: (_, 'pe store_error) result)"
    using batch_apply_total [OF ok(1) assms(3)] assms(4) ok(2) by blast
  show ?thesis
    using batch_applied [OF ok(1) assms(2) db' [folded ok(2)]] db' ok(2) by blast
qed

definition sample_meta :: entity_meta where
  "sample_meta = \<lparr>em_block_number = 5, em_block_timestamp = 60, em_finality = Unattested,
     em_written_at_unix_ms = 1000, em_value_bytes = 1\<rparr>"

definition sample_pdb :: processor_db where
  "sample_pdb = \<lparr>entities = [((''erc20'', ''balances'', [1]), [5])], entity_indexes = [],
     processor_state = [((''erc20'', ''supply'', [9]), [7])],
     output_entity_meta = [((''erc20'', ''balances'', [1]), sample_meta)]\<rparr>"

definition sample_overlay :: reducer_overlay where
  "sample_overlay = entity_put sample_pdb ''balances'' [1] [6]
     (state_delete sample_pdb ''supply'' [9] (overlay_new ''erc20''))"

lemma sample_overlay_run: "(reducer_step sample_pdb)\<^sup>*\<^sup>* (overlay_new ''erc20'') sample_overlay"
  unfolding sample_overlay_def
  by (rule rtranclp.rtrancl_into_rtrancl, rule r_into_rtranclp, rule step_state_delete, rule step_put)

lemma sample_pdb_ordered: "tables_ordered sample_pdb"
  by (simp add: tables_ordered_def sample_pdb_def)

lemmas sample_reducer_defs = sample_overlay_def sample_pdb_def sample_meta_def entity_put_def state_delete_def
  overlay_new_def load_entity_def load_state_def load_value_def set_after_def Let_def

lemma sample_overlay_eval:
  "rv_instance sample_overlay = ''erc20''"
  "rv_entities sample_overlay = [((''balances'', [1]), \<lparr>ov_before = Some [5], ov_after = Some [6]\<rparr>)]"
  "rv_indexes sample_overlay = []"
  "rv_state sample_overlay = [((''supply'', [9]), \<lparr>ov_before = Some [7], ov_after = None\<rparr>)]"
  by (simp_all add: sample_reducer_defs)

lemma sample_views:
  "full_view sample_pdb sample_overlay t = Some v \<Longrightarrow> length v < 2 ^ 63"
  "contents sample_pdb ''erc20'' t = Some v \<Longrightarrow> length v < 2 ^ 63"
  by (cases t; auto simp: views seen_def sample_overlay_eval entity_base_def state_base_def index_base_def
      sample_pdb_def split: if_splits)+

theorem batch_committed_witness:
  "\<exists>db'. apply_mutations ''erc20'' (mb_mutations (into_batch sample_overlay)) False True
      (sample_block 8 80 70) Attested 2000 sample_pdb = (Ok db' :: (_, unit store_error) result)
    \<and> contents db' ''erc20'' (EntityAt ''balances'' [1]) = Some [6]
    \<and> contents db' ''erc20'' (StateAt ''supply'' [9]) = None"
proof -
  have "block_storable (sample_block 8 80 70)" by (simp add: block_storable_def sample_block_def)
  then obtain db' where
    db': "apply_mutations ''erc20'' (mb_mutations (into_batch sample_overlay)) False True
      (sample_block 8 80 70) Attested 2000 sample_pdb = (Ok db' :: (_, unit store_error) result)"
    and c: "\<forall>t. kept_target True t \<longrightarrow> contents db' ''erc20'' t = full_view sample_pdb sample_overlay t"
    using batch_committed [where 'pe = unit, OF sample_overlay_run sample_pdb_ordered,
      of "sample_block 8 80 70" True Attested 2000] sample_views(1) by metis
  from c [rule_format, of "EntityAt ''balances'' [1]"] c [rule_format, of "StateAt ''supply'' [9]"] db' show ?thesis
    by (auto simp: views seen_def sample_overlay_eval)
qed

text \<open>
  C7: a block that was committed is undone by its own mutations and metadata images: both steps
  succeed, the entities, indexes and working state are those of before, and so is the metadata, except
  that a row the block had changed comes back at the level its own block has reached meanwhile.
\<close>

theorem undo_restores:
  assumes "(reducer_step db)\<^sup>*\<^sup>* (overlay_new i) ov" and "tables_ordered db" and "output_ok db i"
    and "block_storable b"
    and "apply_mutations i (mb_mutations (into_batch ov)) False True b level now db
      = (Ok db1 :: (_, 'pe store_error) result)"
  shows "\<exists>db2 db3. apply_mutations i (mb_mutations (into_batch ov)) True True b level' now' db1
        = (Ok db2 :: (_, 'pe store_error) result)
    \<and> restore_entity_metadata i cov ft (entity_meta_images i (mb_mutations (into_batch ov)) db) db2
        = (Ok db3 :: (_, 'pe store_error) result)
    \<and> entities db3 = entities db \<and> entity_indexes db3 = entity_indexes db
    \<and> processor_state db3 = processor_state db
    \<and> (\<forall>j c k. map_of (output_entity_meta db3) (j, c, k) =
        (if j = i \<and> EntityAt c k \<in> target ` set (mb_mutations (into_batch ov))
         then map_option (\<lambda>m. m\<lparr>em_finality := image_finality cov ft m\<rparr>)
           (map_of (output_entity_meta db) (j, c, k))
         else map_of (output_entity_meta db) (j, c, k)))"
proof -
  note ok = reducer_run_ok [OF assms(1)]
  note rows = assms(3) [unfolded output_ok_def]
  obtain db2 where db2: "apply_mutations i (mb_mutations (into_batch ov)) True True b level' now' db1
      = (Ok db2 :: (_, 'pe store_error) result)"
    using batch_undo_total [OF ok(1) assms(4)] rows ok(2) by blast
  obtain db3 where db3: "restore_entity_metadata i cov ft
      (entity_meta_images i (mb_mutations (into_batch ov)) db) db2 = (Ok db3 :: (_, 'pe store_error) result)"
    using restore_total images_stored rows by meson
  note r = undo_restores_metadata [OF ok(1) assms(2) _ assms(5) [folded ok(2)] db2 [folded ok(2)]
      db3 [folded ok(2)]]
  have "tables_ordered db3" "contents db3 j = contents db j" for j
    using r(1,2) rows ok(2) by blast+
  note t = contents_tables [OF this(1) assms(2) this(2)]
  have "map_of (output_entity_meta db3) (j, c, k) =
      (if j = i \<and> EntityAt c k \<in> target ` set (mb_mutations (into_batch ov))
       then map_option (\<lambda>m. m\<lparr>em_finality := image_finality cov ft m\<rparr>) (map_of (output_entity_meta db) (j, c, k))
       else map_of (output_entity_meta db) (j, c, k))" for j c k
    using r(3) [of j c k] rows unfolding ok(2) by blast
  then show ?thesis using db2 db3 t by blast
qed

lemma sample_output_ok: "output_ok sample_pdb ''erc20''"
  unfolding output_ok_def using sample_views(2) by (auto simp: sample_pdb_def sample_meta_def)

theorem undo_restores_witness:
  "\<exists>db1 db2 db3. apply_mutations ''erc20'' (mb_mutations (into_batch sample_overlay)) False True
      (sample_block 8 80 70) Attested 2000 sample_pdb = (Ok db1 :: (_, unit store_error) result)
    \<and> map_of (entities db1) (''erc20'', ''balances'', [1]) = Some [6]
    \<and> apply_mutations ''erc20'' (mb_mutations (into_batch sample_overlay)) True True
      (sample_block 8 80 70) Attested 3000 db1 = (Ok db2 :: (_, unit store_error) result)
    \<and> restore_entity_metadata ''erc20'' (\<lambda>_. None) (Some 5)
      (entity_meta_images ''erc20'' (mb_mutations (into_batch sample_overlay)) sample_pdb) db2
        = (Ok db3 :: (_, unit store_error) result)
    \<and> entities db3 = entities sample_pdb
    \<and> map_of (output_entity_meta db3) (''erc20'', ''balances'', [1]) = Some (sample_meta\<lparr>em_finality := Finalized\<rparr>)"
proof -
  have b: "block_storable (sample_block 8 80 70)" by (simp add: block_storable_def sample_block_def)
  obtain db1 where db1: "apply_mutations ''erc20'' (mb_mutations (into_batch sample_overlay)) False True
      (sample_block 8 80 70) Attested 2000 sample_pdb = (Ok db1 :: (_, unit store_error) result)"
    "map_of (entities db1) (''erc20'', ''balances'', [1]) = Some [6]"
    by (simp add: apply_mutations_def into_batch_def sample_overlay_eval entity_mutations_def
        index_mutations_def state_mutations_def write_entity_def write_state_def u64_i64_def usize_i64_def
        sample_block_def sample_pdb_def)
  have changed: "EntityAt ''balances'' [1] \<in> target ` set (mb_mutations (into_batch sample_overlay))"
    by (simp add: into_batch_def sample_overlay_eval entity_mutations_def index_mutations_def state_mutations_def)
  have meta: "map_of (output_entity_meta sample_pdb) (''erc20'', ''balances'', [1]) = Some sample_meta"
    by (simp add: sample_pdb_def)
  have level: "image_finality (\<lambda>_. None) (Some 5) sample_meta = Finalized"
    by (simp add: image_finality_def sample_meta_def)
  from undo_restores [OF sample_overlay_run sample_pdb_ordered sample_output_ok b db1(1),
      of Attested 3000 "\<lambda>_. None" "Some 5"] changed meta level db1
  show ?thesis by (auto simp: sample_pdb_def)
qed

text \<open>
  C8: a prefix scan of the reducer returns the first rows, in key order, of what the reducer sees under
  the prefix: committed rows and its own uncommitted writes and deletions merged, for working state and
  for entities, however many pages of committed rows the scan has to read.
\<close>

theorem scan_returns_view:
  assumes "(reducer_step db)\<^sup>*\<^sup>* (overlay_new i) ov" and "tables_ordered db" and "0 < limit" and "limit \<le> 10000"
  shows "(\<exists>rows. rows_under p (\<lambda>k. state_view db ov (s, k)) rows
      \<and> state_scan_prefix db s p limit ov = Ok (take limit rows))
    \<and> (\<exists>rows. rows_under p (\<lambda>k. entity_view db ov (s, k)) rows
      \<and> scan_prefix db s p limit ov = Ok (take limit rows, ov\<lparr>rv_window_dependent := True\<rparr>))"
proof
  note ok = reducer_run_ok [OF assms(1)]
  have ord: "ordered (processor_state db)" "ordered (entities db)"
    using assms(2) by (simp_all add: tables_ordered_def)
  have tracks: "tracks (state_base db i) (rv_state ov)" "tracks (entity_base db i) (rv_entities ov)"
    using ok by (simp_all add: overlay_ok_def)
  show "\<exists>rows. rows_under p (\<lambda>k. state_view db ov (s, k)) rows
      \<and> state_scan_prefix db s p limit ov = Ok (take limit rows)"
    using scan_merged_view [OF ord(1) tracks(1) _ assms(3,4), of i s p] assms(3,4)
    by (simp add: state_scan_prefix_def ok(2) state_view_def state_base_def)
  obtain rows where "rows_under p (\<lambda>k. entity_view db ov (s, k)) rows"
    "scan_merged_prefix (scope_rows (entities db) i s) p limit (overlay_rows (rv_entities ov) s p) = Ok (take limit rows)"
    using scan_merged_view [OF ord(2) tracks(2) _ assms(3,4), of i s p]
    by (auto simp: ok(2) entity_view_def entity_base_def)
  then show "\<exists>rows. rows_under p (\<lambda>k. entity_view db ov (s, k)) rows
      \<and> scan_prefix db s p limit ov = Ok (take limit rows, ov\<lparr>rv_window_dependent := True\<rparr>)"
    using assms(3,4) ok(2) by (auto simp: scan_prefix_def)
qed

theorem scan_returns_view_witness:
  "\<exists>rows. rows_under [] (\<lambda>k. entity_view sample_pdb sample_overlay (''balances'', k)) rows
    \<and> scan_prefix sample_pdb ''balances'' [] 1 sample_overlay
      = Ok (take 1 rows, sample_overlay\<lparr>rv_window_dependent := True\<rparr>)"
  using scan_returns_view [OF sample_overlay_run sample_pdb_ordered, of 1 "[]" "''balances''"] by simp

text \<open>
  The changes recorded to undo a block are one for each change of the block, last first, each with the
  kind and key of its change and the value that an entity or state mutation of the block replaced under
  that key: an upsert of the value, or a deletion when there was none.
\<close>

theorem inverse_changes:
  assumes "build_inverse_changes batch = (Ok ds :: (_, 'pe store_error) result)"
  shows "list_all2 (\<lambda>c d. ch_kind d = ch_kind c \<and> ch_key d = ch_key c
      \<and> (\<exists>scope before after. (EntityMutation scope (ch_key c) before after \<in> set (mb_mutations batch)
            \<or> StateMutation scope (ch_key c) before after \<in> set (mb_mutations batch))
          \<and> restores before d))
    (rev (mb_changes batch)) ds"
  by (rule build_inverse_changes_sound [OF assms])

definition sample_batch :: mutation_batch where
  "sample_batch = \<lparr>mb_mutations = [EntityMutation ''balances'' [1] (Some [5]) (Some [6])],
     mb_changes = [\<lparr>ch_kind = ''balance'', ch_key = [1], ch_operation = Upsert, ch_payload = [6]\<rparr>]\<rparr>"

theorem inverse_changes_witness:
  "build_inverse_changes sample_batch = (Ok [\<lparr>ch_kind = ''balance'', ch_key = [1], ch_operation = Upsert,
      ch_payload = [5]\<rparr>] :: (_, unit store_error) result)
    \<and> (\<exists>before. restores before \<lparr>ch_kind = ''balance'', ch_key = [1], ch_operation = Upsert, ch_payload = [5]\<rparr>)"
proof -
  have run: "build_inverse_changes sample_batch = (Ok [\<lparr>ch_kind = ''balance'', ch_key = [1],
      ch_operation = Upsert, ch_payload = [5]\<rparr>] :: (_, unit store_error) result)"
    by (simp add: build_inverse_changes_def sample_batch_def List.map_filter_simps invert_change_def
        matches_change_def)
  from inverse_changes [OF run] run show ?thesis by (auto simp: sample_batch_def)
qed

section \<open>Delivering changes\<close>

text \<open>
  C9: in every state the delivery operations reach from an empty store, a stream retains an unbroken
  interval of sequences, from the one after its pruned mark to the one before the next to be given, its
  byte count is the size of those changes, and no consumer has acknowledged more than was published or
  more than it was handed.
\<close>

theorem log_unbroken:
  assumes "(delivery_step ch)\<^sup>*\<^sup>* delivery_new db" and "map_of (delivery_streams db) stream = Some s"
  shows "map fst (stream_rows db stream) = [sr_pruned_through s + 1..<sr_next_sequence s]
    \<and> sr_live_bytes s = int (row_change_bytes (stream_rows db stream))
    \<and> sr_next_sequence s < 2 ^ 63
    \<and> (\<forall>consumer r. map_of (durable_consumers db) (stream, consumer) = Some r \<longrightarrow>
         cr_acknowledged r \<le> cr_delivered r \<and> cr_acknowledged r < sr_next_sequence s)"
proof -
  have ok: "delivery_ok db" by (rule reachable_ok [OF assms(1)])
  have "cr_acknowledged r \<le> cr_delivered r \<and> cr_acknowledged r < sr_next_sequence s"
    if "map_of (durable_consumers db) (stream, consumer) = Some r" for consumer r
    using delivery_okD(4) [OF ok that] assms(2) by (auto simp: consumer_ok_def)
  then show ?thesis
    using stream_keys [OF ok assms(2)] delivery_okD(2) [OF ok assms(2)] by (auto simp: stream_ok_def)
qed

text \<open>A processor with one live stream, two blocks of changes and a required reader.\<close>

definition sample_reader :: processor_descriptor where
  "sample_reader = \<lparr>pd_id = ''blocks'', pd_instance = ''b'', pd_version = ''1'',
     pd_code_hash = 0, pd_config_hash = 0, pd_start = Genesis, pd_requirements = [], pd_mode = BlockLocal,
     pd_delivery_ordering = OrderBlockVersionedIdempotent, pd_publication = PublishFinalized,
     pd_lifecycle = default_lifecycle
       \<lparr>lc_delivery := default_delivery\<lparr>dp_mode := DeliveryUntilAcknowledged\<rparr>\<rparr>,
     pd_schemas = \<lparr>ps_delta_version = 1, ps_entity_schema = ''e'', ps_change_schema = ''c''\<rparr>\<rparr>"

definition sample_change :: "u8 \<Rightarrow> domain_change" where
  "sample_change k = \<lparr>ch_kind = ''t'', ch_key = [k], ch_operation = Upsert, ch_payload = [k]\<rparr>"

definition sample_at :: "u64 \<Rightarrow> block_ref" where
  "sample_at n = \<lparr>number = n, hash = ucast n, parent_hash = ucast n - 1, timestamp = n\<rparr>"

definition sample_change_row :: "nat \<Rightarrow> u64 \<Rightarrow> u8 \<Rightarrow> change_row" where
  "sample_change_row physical n k = (change_template 1000 ''b'' (origin_live ''b'') 1 (sample_at n) Finalized DirectionApply)
     \<lparr>cl_physical := physical, cl_change := sample_change k\<rparr>"

definition sample_stream :: "nat \<Rightarrow> nat \<Rightarrow> int \<Rightarrow> stream_row" where
  "sample_stream next pruned bytes = \<lparr>sr_instance = ''b'', sr_kind = StreamLive, sr_next_sequence = next,
     sr_pruned_through = pruned, sr_live_bytes = bytes\<rparr>"

definition sample_consumer :: "nat \<Rightarrow> nat \<Rightarrow> nat \<Rightarrow> consumer_row" where
  "sample_consumer acknowledged delivered generation = \<lparr>cr_instance = ''b'', cr_role = RoleRequired, cr_state = Active,
     cr_acknowledged = acknowledged, cr_delivered = delivered, cr_work_blocks = 0, cr_ttl_ms = 1000, cr_expires = 2000,
     cr_generation = generation, cr_created = 1000, cr_updated = 1000, cr_credential = None\<rparr>"

definition sample_log :: "(string \<times> nat, change_row) table" where
  "sample_log = [((''b:live'', 1), sample_change_row 1 5 1), ((''b:live'', 2), sample_change_row 2 5 2),
     ((''b:live'', 3), sample_change_row 3 6 3)]"

definition sample_deliveries :: "(string \<times> string, consumer_row) table \<Rightarrow> delivery_db" where
  "sample_deliveries consumers = delivery_new
     \<lparr>delivery_streams := [(''b:live'', sample_stream 4 0 6)], change_log := sample_log, last_rowid := 3,
      durable_consumers := consumers\<rparr>"

lemmas sample_delivery_defs = sample_reader_def sample_change_def sample_at_def sample_change_row_def
  sample_stream_def sample_consumer_def sample_log_def sample_deliveries_def delivery_new_def change_template_def
  default_lifecycle_def default_delivery_def

lemma sample_published:
  "append_changes 1000 ''b'' ''b:live'' (origin_live ''b'') 1 (sample_at 6) Finalized DirectionApply [sample_change 3] []
     (delivery_new\<lparr>delivery_streams := [(''b:live'', sample_stream 3 0 4)],
        change_log := take 2 sample_log, last_rowid := 2\<rparr>)
     = (Ok (Some (3, 3), sample_deliveries []) :: _ delivered)"
  "append_changes 1000 ''b'' ''b:live'' (origin_live ''b'') 1 (sample_at 5) Finalized DirectionApply
     [sample_change 1, sample_change 2] [] (ensure_stream ''b:live'' ''b'' StreamLive delivery_new)
     = (Ok (Some (1, 2), delivery_new\<lparr>delivery_streams := [(''b:live'', sample_stream 3 0 4)],
        change_log := take 2 sample_log, last_rowid := 2\<rparr>) :: _ delivered)"
  by (simp_all add: sample_delivery_defs append_changes_def advance_stream_def ensure_stream_def fetch_stream_def ok_or_def change_bytes_def
    u64_i64_def origin_live_def insert_change_def BACKFILL_COMPLETE_def stream_rows_def usize_i64_def)

definition sample_read :: "nat \<Rightarrow> nat \<Rightarrow> nat \<Rightarrow> delivery_db" where
  "sample_read acknowledged delivered generation =
     sample_deliveries [((''b:live'', ''reader''), sample_consumer acknowledged delivered generation)]"

lemma sample_read_steps:
  "create_consumer_inner ch 1000 sample_reader ''b:live'' ''reader'' RoleRequired EarliestRetained 1000000000 None
     (sample_deliveries []) = (Ok (sample_read 0 0 0) :: _ delivered)"
  "acquire_consumer_session_in_stream 1000 sample_reader ''b:live'' ''reader'' (sample_read 0 0 0)
     = (Ok ((1, 2000), sample_read 0 0 1) :: _ delivered)"
  "record_consumer_delivery_in_stream 1000 ''b:live'' ''reader'' (Some 1) 3 (sample_read 0 0 1)
     = (Ok (True, sample_read 0 3 1) :: _ delivered)"
  by (simp_all add: sample_delivery_defs sample_read_def create_consumer_inner_def validate_consumer_registration_def
    valid_consumer_id_def portable_byte_def is_ascii_alphanumeric_def MAXIMUM_CONSUMER_LEASE_TTL_def validate_delivery_stream_def usize_i64_def
    ensure_required_consumer_retention_def fetch_stream_def ok_or_def start_sequence_def first_sequence_def
    last_sequence_def stream_rows_def acquire_consumer_session_in_stream_def expiry_def set_consumer_def
    record_consumer_delivery_in_stream_def may_record_def)

lemma sample_read_reachable: "(delivery_step ch)\<^sup>*\<^sup>* delivery_new (sample_read 0 3 1)"
  using step_stream step_publish [OF sample_published(2)] step_publish [OF sample_published(1)]
    step_create [OF sample_read_steps(1)] step_acquire [OF sample_read_steps(2)] step_record [OF sample_read_steps(3)]
  by (meson rtranclp.rtrancl_into_rtrancl rtranclp.rtrancl_refl)

lemma sample_read_tables:
  "map_of (delivery_streams (sample_read a d g)) ''b:live'' = Some (sample_stream 4 0 6)"
  "map_of (durable_consumers (sample_read a d g)) (''b:live'', ''reader'') = Some (sample_consumer a d g)"
  "stream_rows (sample_read a d g) ''b:live'' =
     [(1, sample_change_row 1 5 1), (2, sample_change_row 2 5 2), (3, sample_change_row 3 6 3)]"
  by (simp_all add: sample_read_def sample_deliveries_def sample_log_def stream_rows_def)

theorem log_unbroken_witness:
  "map fst (stream_rows (sample_read 0 3 1) ''b:live'') = [1, 2, 3]"
  using conjunct1 [OF log_unbroken [OF sample_read_reachable sample_read_tables(1)]]
  by (simp add: sample_stream_def upt_rec)

text \<open>
  C10: whatever is published, acknowledged, reset or pruned in between, a change of the log that
  an active required consumer has not acknowledged is still in the log, unaltered.
\<close>

theorem unacknowledged_changes_kept:
  assumes "(delivery_step ch)\<^sup>*\<^sup>* delivery_new db" and "(delivery_step ch)\<^sup>*\<^sup>* db db'"
    and "map_of (durable_consumers db') (stream, consumer) = Some r" "cr_role r = RoleRequired" "cr_state r = Active"
    and "map_of (stream_rows db stream) n = Some row" "cr_acknowledged r < n"
  shows "map_of (stream_rows db' stream) n = Some row"
  using unacknowledged_retained [OF delivery_run_next [OF assms(2) reachable_ok [OF assms(1)]] reachable_ok [OF assms(1)]]
    assms(3-7) .

lemma sample_acknowledged:
  "acknowledge_consumer_session_in_stream 1000 sample_reader ''b:live'' ''reader'' 1 2 (sample_read 0 3 1)
     = (Ok (sample_read 2 3 1) :: _ delivered)"
  by (simp add: sample_delivery_defs sample_read_def acknowledge_consumer_session_in_stream_def
    acknowledge_consumer_in_stream_inner_def validate_delivery_stream_def check_boundary_def last_sequence_def
    stream_rows_def fetch_stream_def ok_or_def live_commit_continues_after_def usize_i64_def same_commit_def
    progress_payloads_def BACKFILL_PROGRESS_def expiry_def set_consumer_def)

lemma sample_pruned:
  "\<exists>out db. prune_changes_before_in_stream sample_reader ''b:live'' 10 (sample_read 2 3 1)
     = (Ok (out, db) :: _ delivered) \<and> map fst (stream_rows db ''b:live'') = [3]
     \<and> map_of (durable_consumers db) (''b:live'', ''reader'') = Some (sample_consumer 2 3 1)"
  by (simp add: prune_changes_before_in_stream_def sample_delivery_defs sample_read_def validate_delivery_stream_def
    fetch_stream_def ok_or_def effective_before_def protected_sequence_def last_sequence_def stream_rows_def
    whole_blocks_def first_sequence_def row_change_bytes_def change_bytes_def usize_i64_def Let_def)

theorem unacknowledged_changes_kept_witness:
  "\<exists>out db. prune_changes_before_in_stream sample_reader ''b:live'' 10 (sample_read 2 3 1)
     = (Ok (out, db) :: _ delivered) \<and> map_of (stream_rows db ''b:live'') 3 = Some (sample_change_row 3 6 3)"
proof -
  obtain out db where p: "prune_changes_before_in_stream sample_reader ''b:live'' 10 (sample_read 2 3 1)
      = (Ok (out, db) :: _ delivered)"
    and c: "map_of (durable_consumers db) (''b:live'', ''reader'') = Some (sample_consumer 2 3 1)"
    using sample_pruned by blast
  have "(delivery_step (\<lambda>_. []))\<^sup>*\<^sup>* (sample_read 0 3 1) db"
    using step_acknowledge_session [OF sample_acknowledged] step_prune_before [OF p]
    by (meson rtranclp.rtrancl_into_rtrancl rtranclp.rtrancl_refl)
  from unacknowledged_changes_kept [OF sample_read_reachable this c]
  have "map_of (stream_rows db ''b:live'') 3 = Some (sample_change_row 3 6 3)"
    by (simp add: sample_read_tables sample_consumer_def)
  with p show ?thesis by blast
qed




text \<open>
  C12: the current session of a consumer moves its acknowledgement to a sequence exactly when
  the sequence is not before the present one and, if it is after it, was published and handed out and is a
  place to stop: the end of a commit on a live stream, a progress record on a backfill stream. It then only
  changes that consumer.
\<close>

theorem acknowledgement_accepted:
  assumes "(delivery_step ch)\<^sup>*\<^sup>* delivery_new db"
    and "map_of (delivery_streams db) stream = Some s" "sr_instance s = pd_instance desc"
    and "map_of (durable_consumers db) (stream, consumer) = Some r" "session_current now g r"
    and "sum_progress (progress_payloads db stream (cr_acknowledged r) sequence) 0 = (Ok work :: _ delivered)"
    and "cr_work_blocks r + work < 2 ^ 63" "now + cr_ttl_ms r < 2 ^ 63"
  shows "acknowledge_consumer_session_in_stream now desc stream consumer g sequence db = (Ok db' :: _ delivered) \<longleftrightarrow>
    (sequence = cr_acknowledged r \<or> cr_acknowledged r < sequence
       \<and> sequence \<le> (if sr_pruned_through s + 1 < sr_next_sequence s then sr_next_sequence s - 1 else 0)
       \<and> sequence \<le> cr_delivered r \<and> boundary_ok db stream s sequence)
    \<and> db' = set_consumer stream consumer
       (r\<lparr>cr_acknowledged := sequence, cr_delivered := max (cr_delivered r) sequence,
          cr_work_blocks := cr_work_blocks r + work, cr_expires := now + cr_ttl_ms r, cr_updated := now\<rparr>) db"
proof -
  have ok: "delivery_ok db" by (rule reachable_ok [OF assms(1)])
  show ?thesis
    unfolding acknowledge_session_cases [OF assms(4,5,2,3,6-8) ok]
    using check_boundary_iff [OF ok assms(2), where r = r and sequence = sequence and 'pe = unit]
    by (cases "check_boundary db stream r sequence :: _ delivered") auto
qed

lemma sample_boundary:
  "boundary_ok (sample_read 0 3 1) ''b:live'' (sample_stream 4 0 6) 2"
  "\<not> boundary_ok (sample_read 0 3 1) ''b:live'' (sample_stream 4 0 6) 1"
  by (simp_all add: boundary_ok_def sample_read_tables sample_stream_def sample_change_row_def change_template_def
    sample_at_def same_commit_def)

lemma sample_session: "session_current 1000 1 (sample_consumer 0 3 1)"
  by (simp add: session_current_def sample_consumer_def)

lemma sample_progress:
  "sum_progress (progress_payloads (sample_read 0 3 1) ''b:live'' (cr_acknowledged (sample_consumer 0 3 1)) n) 0
     = (Ok 0 :: _ delivered)"
  by (simp add: progress_payloads_def sample_read_tables sample_change_row_def sample_change_def BACKFILL_PROGRESS_def)

theorem acknowledgement_accepted_witness:
  "acknowledge_consumer_session_in_stream 1000 sample_reader ''b:live'' ''reader'' 1 2 (sample_read 0 3 1)
     = (Ok (sample_read 2 3 1) :: _ delivered)
   \<and> (\<forall>db. acknowledge_consumer_session_in_stream 1000 sample_reader ''b:live'' ''reader'' 1 1 (sample_read 0 3 1)
     \<noteq> (Ok db :: _ delivered))"
  using acknowledgement_accepted [OF sample_read_reachable sample_read_tables(1) _ sample_read_tables(2) sample_session sample_progress,
      of sample_reader 2 "sample_read 2 3 1"]
    acknowledgement_accepted [OF sample_read_reachable sample_read_tables(1) _ sample_read_tables(2) sample_session sample_progress,
      of sample_reader 1]
    sample_boundary
  by (simp add: sample_consumer_def sample_stream_def sample_reader_def sample_read_def sample_deliveries_def set_consumer_def)

text \<open>
  C13: a session is opened only when no earlier one holds the lease, with a generation above all
  earlier ones, and is then the only current one. From there on, in every later state, no earlier session is
  current, can renew or acknowledge, and recording a delivery for it changes nothing.
\<close>

theorem sessions_fenced:
  assumes "(delivery_step ch)\<^sup>*\<^sup>* delivery_new db"
    and "acquire_consumer_session_in_stream now desc stream consumer db = (Ok ((g, expires), db1) :: _ delivered)"
    and "(delivery_step ch)\<^sup>*\<^sup>* db1 db2" and "old < g"
  shows "(0 < old \<longrightarrow> \<not> consumer_session_is_current_in_stream now stream consumer old db)
    \<and> (\<forall>g' t. consumer_session_is_current_in_stream t stream consumer g' db1 \<longleftrightarrow> g' = g \<and> t < expires)
    \<and> \<not> consumer_session_is_current_in_stream t stream consumer old db2
    \<and> acknowledge_consumer_session_in_stream t desc stream consumer old sequence db2 \<noteq> (Ok db3 :: _ delivered)
    \<and> renew_consumer_session_in_stream t stream consumer old db2 \<noteq> (Ok lease :: _ delivered)
    \<and> (record_consumer_delivery_in_stream t stream consumer (Some old) sequence db2 = (Ok (b, db3) :: _ delivered)
        \<longrightarrow> \<not> b \<and> db3 = db2)"
proof -
  have ok: "delivery_ok db" by (rule reachable_ok [OF assms(1)])
  have ok1: "delivery_ok db1"
    using delivery_step_next [OF step_acquire [OF assms(2)] ok] by (simp add: delivery_next_def)
  obtain r where r: "map_of (durable_consumers db) (stream, consumer) = Some r" "cr_state r = Active"
    "cr_generation r = 0 \<or> cr_expires r \<le> now" "g = cr_generation r + 1" "expires = now + cr_ttl_ms r"
    and new: "map_of (durable_consumers db1) (stream, consumer) = Some (r\<lparr>cr_generation := g, cr_expires := expires, cr_updated := now\<rparr>)"
    by (rule acquire_effect [OF assms(2) ok])
  have g: "old < cr_generation (r\<lparr>cr_generation := g, cr_expires := expires, cr_updated := now\<rparr>)"
    using assms(4) by simp
  note stale = stale_session [OF ok1 new g assms(3)]
  show ?thesis
  proof (intro conjI)
    show "0 < old \<longrightarrow> \<not> consumer_session_is_current_in_stream now stream consumer old db"
      using r by (auto simp: consumer_session_is_current_in_stream_def session_current_def)
    show "\<forall>g' t. consumer_session_is_current_in_stream t stream consumer g' db1 \<longleftrightarrow> g' = g \<and> t < expires"
      using new r(2) by (auto simp: consumer_session_is_current_in_stream_def session_current_def)
    show "record_consumer_delivery_in_stream t stream consumer (Some old) sequence db2 = (Ok (b, db3) :: _ delivered)
        \<longrightarrow> \<not> b \<and> db3 = db2"
      using stale(4) by blast
  qed (rule stale)+
qed

theorem sessions_fenced_witness:
  "(\<forall>db. acknowledge_consumer_session_in_stream 1500 sample_reader ''b:live'' ''reader'' 0 2 (sample_read 0 3 1)
     \<noteq> (Ok db :: _ delivered))
   \<and> \<not> consumer_session_is_current_in_stream 1500 ''b:live'' ''reader'' 0 (sample_read 0 3 1)"
proof -
  have before: "(delivery_step (\<lambda>_. []))\<^sup>*\<^sup>* delivery_new (sample_read 0 0 0)"
    using step_stream step_publish [OF sample_published(2)] step_publish [OF sample_published(1)]
      step_create [OF sample_read_steps(1)]
    by (meson rtranclp.rtrancl_into_rtrancl rtranclp.rtrancl_refl)
  have later: "(delivery_step (\<lambda>_. []))\<^sup>*\<^sup>* (sample_read 0 0 1) (sample_read 0 3 1)"
    by (rule r_into_rtranclp) (rule step_record [OF sample_read_steps(3)])
  note fenced = sessions_fenced [OF before sample_read_steps(2) later, where old = 0 and t = 1500 and sequence = 2]
  show ?thesis using fenced [where ?db3.0 = db for db] by simp
qed

text \<open>
  C14: releasing the parked changes of a processor through a height publishes exactly the parked
  changes of its blocks up to that height, in the order of the blocks and of parking within a block, at the
  end of their streams; these rows are gone and all others still parked. It does so whatever the number of
  rows, in batches.
\<close>

theorem parked_changes_released:
  assumes "(delivery_step ch)\<^sup>*\<^sup>* delivery_new db"
    and "release_deferred_changes now i through level db = (Ok (released, db') :: _ delivered)"
  shows "stream_changes db' stream = stream_changes db stream
      @ concat (map (\<lambda>(_, r). df_changes r) (filter (\<lambda>(_, r). df_stream r = stream) (deferred_through db i through)))
    \<and> deferred_changes db' = filter (\<lambda>(_, r). \<not> (df_instance r = i \<and> number (df_block r) \<le> through)) (deferred_changes db)
    \<and> released = (deferred_through db i through \<noteq> [])"
proof -
  have ok: "delivery_ok db" by (rule reachable_ok [OF assms(1)])
  note rows = release_loop_rows [OF assms(2) ok]
  show ?thesis
    using release_rows_published [OF rows(1) ok] rows(2) released_rows [OF rows(1)] delivery_okD(1) [OF ok]
    by (simp add: delivery_ordered_def)
qed

definition sample_parked :: "u64 \<Rightarrow> u8 \<Rightarrow> deferred_row" where
  "sample_parked n k = \<lparr>df_instance = ''b'', df_stream = ''b:live'', df_chain_id = 1, df_block = sample_at n,
     df_origin = origin_live ''b'', df_changes = [sample_change k], df_sinks = [], df_bytes = 2\<rparr>"

definition sample_parked_db :: delivery_db where
  "sample_parked_db = delivery_new
     \<lparr>delivery_streams := [(''b:live'', sample_stream 1 0 0)],
      deferred_changes := [(1, sample_parked 7 2), (2, sample_parked 6 1)]\<rparr>"

lemma sample_parked_db_reachable: "(delivery_step ch)\<^sup>*\<^sup>* delivery_new sample_parked_db"
proof -
  let ?one = "delivery_new\<lparr>delivery_streams := [(''b:live'', sample_stream 1 0 0)],
    deferred_changes := [(1, sample_parked 7 2)]\<rparr>"
  have "park_changes (sample_parked 7 2) (ensure_stream ''b:live'' ''b'' StreamLive delivery_new) = (Ok ?one :: _ delivered)"
    "park_changes (sample_parked 6 1) ?one = (Ok sample_parked_db :: _ delivered)"
    by (simp_all add: park_changes_def sample_parked_db_def ensure_stream_def sample_parked_def sample_delivery_defs u64_i64_def)
  then show ?thesis
    using step_stream step_park by (meson rtranclp.rtrancl_into_rtrancl rtranclp.rtrancl_refl)
qed

lemma sample_through: "deferred_through sample_parked_db ''b'' 7 = [(2, sample_parked 6 1), (1, sample_parked 7 2)]"
  by (simp add: deferred_through_def sample_parked_db_def sample_parked_def sample_at_def)

lemma sample_released:
  "\<exists>db. release_deferred_changes 1000 ''b'' 7 Finalized sample_parked_db = (Ok (True, db) :: _ delivered)"
proof -
  have "\<exists>db. release_rows 1000 ''b'' Finalized (deferred_through sample_parked_db ''b'' 7) sample_parked_db = (Ok db :: _ delivered)"
    unfolding sample_through
    by (simp add: sample_parked_db_def sample_parked_def sample_delivery_defs append_changes_def advance_stream_def fetch_stream_def ok_or_def
      change_bytes_def u64_i64_def origin_live_def insert_change_def BACKFILL_COMPLETE_def stream_rows_def usize_i64_def)
  moreover have "ordered (deferred_changes sample_parked_db)" by (simp add: sample_parked_db_def)
  ultimately show ?thesis
    by (auto simp: release_deferred_changes_def u64_i64_def release_loop_pass sample_through)
qed

theorem parked_changes_released_witness:
  "\<exists>db. release_deferred_changes 1000 ''b'' 7 Finalized sample_parked_db = (Ok (True, db) :: _ delivered)
     \<and> stream_changes db ''b:live'' = [sample_change 1, sample_change 2] \<and> deferred_changes db = []"
proof -
  obtain db where "release_deferred_changes 1000 ''b'' 7 Finalized sample_parked_db = (Ok (True, db) :: _ delivered)"
    using sample_released by blast
  with parked_changes_released [OF sample_parked_db_reachable this, of "''b:live''"] show ?thesis
    unfolding sample_through
    by (simp add: sample_parked_db_def sample_parked_def sample_at_def delivery_new_def stream_changes_def stream_rows_def)
qed

text \<open>
  C15: pruning deletes exactly the changes before one sequence. It is at most the requested one and the
  first an active required consumer has not acknowledged, and the newest change stays. Where block numbers
  never go back along the stream, no block is split.
\<close>

theorem prune_whole_blocks:
  assumes "(delivery_step ch)\<^sup>*\<^sup>* delivery_new db"
    and "prune_changes_before_in_stream desc stream requested db = (Ok (out, db') :: _ delivered)"
  shows "cpo_effective_before out \<le> requested
    \<and> stream_rows db' stream = filter (\<lambda>(n, _). cpo_effective_before out \<le> n) (stream_rows db stream)
    \<and> (stream_rows db stream \<noteq> [] \<longrightarrow> last_sequence (stream_rows db' stream) = last_sequence (stream_rows db stream))
    \<and> (\<forall>consumer r. map_of (durable_consumers db) (stream, consumer) = Some r
         \<and> cr_role r = RoleRequired \<and> cr_state r = Active \<longrightarrow> cpo_effective_before out \<le> cr_acknowledged r + 1)
    \<and> (blocks_ascend (stream_rows db stream) \<longrightarrow>
        (\<forall>n a m b. map_of (stream_rows db stream) n = Some a \<and> n < cpo_effective_before out
           \<and> map_of (stream_rows db stream) m = Some b \<and> cpo_effective_before out \<le> m
           \<longrightarrow> number (cl_block a) \<noteq> number (cl_block b)))"
  using prune_cut [OF assms(2) reachable_ok [OF assms(1)]] by blast

theorem prune_whole_blocks_witness:
  "\<exists>out db. prune_changes_before_in_stream sample_reader ''b:live'' 10 (sample_read 2 3 1)
     = (Ok (out, db) :: _ delivered) \<and> last_sequence (stream_rows db ''b:live'') = Some 3"
proof -
  obtain out db where p: "prune_changes_before_in_stream sample_reader ''b:live'' 10 (sample_read 2 3 1)
      = (Ok (out, db) :: _ delivered)"
    using sample_pruned by blast
  have "(delivery_step (\<lambda>_. []))\<^sup>*\<^sup>* delivery_new (sample_read 2 3 1)"
    using sample_read_reachable step_acknowledge_session [OF sample_acknowledged]
    by (rule rtranclp.rtrancl_into_rtrancl)
  from prune_whole_blocks [OF this p]
  have "last_sequence (stream_rows db ''b:live'') = last_sequence (stream_rows (sample_read 2 3 1) ''b:live'')"
    by (auto simp: sample_read_tables)
  with p show ?thesis by (auto simp: sample_read_tables last_sequence_def)
qed

section \<open>Admission and backfill subscriptions\<close>

text \<open>A backfill of blocks 5 and 6 of the processor above: its request, its job and what is stored of it.\<close>

definition sample_batch_limits :: delivery_batch_limits where
  "sample_batch_limits = \<lparr>bl_target = 100, bl_maximum = 200, bl_events = 10, bl_blocks = 10, bl_delay_ms = 50,
     bl_batches = 4, bl_buffered = 1000, bl_compression = CompressionGzip\<rparr>"

definition sample_backfill_request :: subscription_record where
  "sample_backfill_request = \<lparr>su_id = ''s'', su_job = ''j'', su_instance = ''b'', su_stream = ''b:h'', su_mode = FillMissing,
     su_revision = 0, su_state = SubQueued, su_error = None, su_consumer = ''reader'', su_ranges = [range_single 6, range_single 5],
     su_range = \<lparr>range_start = 5, range_end = 6\<rparr>, su_preexisting = [], su_captured = 6, su_key = ''k'',
     su_block_limit = 10, su_byte_limit = 1000, su_resume_ratio = 500000, su_batch_limits = sample_batch_limits,
     su_initial = 0, su_completion = None, su_processed = 0\<rparr>"

definition sample_job :: "job_state \<Rightarrow> job_row" where
  "sample_job state = \<lparr>jb_kind = ''backfill_subscription_job'', jb_state = state, jb_payload = [1]\<rparr>"

definition sample_subscription :: "range_state \<Rightarrow> u64 \<Rightarrow> subscription_row" where
  "sample_subscription state done = \<lparr>sb_job = ''j'', sb_instance = ''b'', sb_stream = ''b:h'', sb_mode = FillMissing,
     sb_revision = 0, sb_state = SubQueued, sb_from = 5, sb_to = 6,
     sb_ranges = [\<lparr>sg_from = 5, sg_to = 6, sg_state = state, sg_committed = done\<rparr>],
     sb_preexisting = [], sb_block_limit = 10, sb_byte_limit = 1000, sb_resume_ratio = 500000,
     sb_processed = done, sb_published = done, sb_completion = None, sb_error = None, sb_consumer = ''reader'',
     sb_captured = 6, sb_key = ''k'', sb_batch_limits = sample_batch_limits, sb_initial = 0, sb_live_cut = None\<rparr>"

definition sample_history_row :: "nat \<Rightarrow> u64 \<Rightarrow> domain_change \<Rightarrow> change_row" where
  "sample_history_row physical n change =
     (change_template 1000 ''b'' (subscription_origin ''s'' (sample_subscription RangeQueued 0)) 1 (sample_at n) Finalized DirectionApply)
       \<lparr>cl_physical := physical, cl_change := change\<rparr>"

definition sample_metadata :: completion_metadata where
  "sample_metadata = \<lparr>cm_mode = FillMissing, cm_disposition = PublishedAll, cm_requested = 2, cm_covered = 0,
     cm_ranges = [], cm_newly_processed = 2, cm_republished = 2, cm_domain_changes = 2\<rparr>"

definition sample_history :: "(string \<times> nat, change_row) table" where
  "sample_history =
     [((''b:h'', 1), sample_history_row 1 5 (sample_change 1)),
      ((''b:h'', 2), sample_history_row 2 5 (backfill_progress_change 5 5 1)),
      ((''b:h'', 3), sample_history_row 3 6 (sample_change 2)),
      ((''b:h'', 4), sample_history_row 4 6 (backfill_progress_change 6 6 1)),
      ((''b:h'', 5), sample_history_row 5 6 \<lparr>ch_kind = BACKFILL_COMPLETE, ch_key = map of_char ''s'', ch_operation = Upsert,
         ch_payload = encode_backfill_completion_metadata sample_metadata\<rparr>)]"

definition sample_history_tables :: "nat \<Rightarrow> int \<Rightarrow> delivery_db" where
  "sample_history_tables rows bytes = delivery_new
     \<lparr>delivery_streams := [(''b:h'', \<lparr>sr_instance = ''b'', sr_kind = StreamBackfill, sr_next_sequence = 1 + rows,
          sr_pruned_through = 0, sr_live_bytes = bytes\<rparr>),
        (''b:live'', sample_stream 1 0 0)],
      change_log := take rows sample_history, last_rowid := rows,
      durable_consumers := [((''b:h'', ''reader''), sample_consumer 0 0 0)]\<rparr>"

definition sample_spool_of :: "delivery_db \<Rightarrow> subscription_row \<Rightarrow> job_state \<Rightarrow> (string \<times> nat, block_hash) table \<Rightarrow> spool" where
  "sample_spool_of db r state coverage = \<lparr>sp_delivery = db, sp_subscriptions = [(''s'', r)],
     sp_jobs = [(''j'', sample_job state)], sp_identities = [(''j'', 7)], sp_owners = [((''b'', ''s'', 5), 6)],
     sp_coverage = coverage, sp_segments = []\<rparr>"

definition sample_spool :: "nat \<Rightarrow> spool" where
  "sample_spool blocks = sample_spool_of (sample_history_tables (2 * blocks) (34 * int blocks))
     (sample_subscription (if blocks = 0 then RangeQueued else RangeRunning) (of_nat blocks)) JobQueued [((''b'', 6), 6)]"

definition sample_limits :: store_limits where
  "sample_limits = \<lparr>sl_storage = default_storage_budget, sl_delivery = default_delivery_budget\<rparr>"

definition sample_delivered :: "u64 \<Rightarrow> u8 \<Rightarrow> block_delivery" where
  "sample_delivered n k = \<lparr>bd_chain = 1, bd_block = sample_at n, bd_level = Finalized, bd_changes = [sample_change k],
     bd_sinks = [], bd_publish = True, bd_recovery = False\<rparr>"

lemmas sample_spool_defs = sample_subscription_def sample_history_row_def sample_spool_def sample_limits_def
  sample_spool_of_def sample_history_tables_def sample_history_def sample_job_def sample_batch_limits_def
  sample_delivered_def sample_delivery_defs default_storage_budget_def default_delivery_budget_def

lemma sample_publish:
  "publish_block sample_limits 4096 0 1000 sample_reader ''b:h'' (sample_delivered 6 2) (sample_spool 1)
     = (Ok (Some (3, 4)) :: _ delivered, sample_spool 2)"
  "publish_block sample_limits 4096 0 1000 sample_reader ''b:h'' (sample_delivered 5 1) (sample_spool 0)
     = (Ok (Some (1, 2)) :: _ delivered, sample_spool 1)"
  by (simp_all add: sample_spool_defs publish_block_def delivery_enabled_def delivery_stream_is_backfill_def fetch_stream_def ok_or_def
    admitted_bytes_def admitted_changes_def change_bytes_def checked_add_def enforce_delivery_capacity_def Let_def
    stream_subscription_def required_acknowledged_work_def admit_delivery_def admission_limit_def
    stream_delivery_bytes_def i64_u64_def sql_sum_def parked_bytes_def node_bytes_def node_delivery_budget_failure_def
    word_max_def saturating_add_def saturating_sub_def blocks_within_limit_def below_resume_water_def
    backfill_delivery_origin_def deliver_block_def defers_def releases_held_def published_changes_def
    append_changes_def advance_stream_def insert_change_def BACKFILL_COMPLETE_def BACKFILL_PROGRESS_def backfill_progress_change_def
    stream_rows_def u64_i64_def usize_i64_def record_backfill_progress_def column_add_def subscription_origin_def)

text \<open>From the empty store: two streams, a required reader, the request, its coverage and its blocks.\<close>

definition sample_prepared :: delivery_db where
  "sample_prepared = sample_history_tables 0 0"

lemma sample_streams:
  "ensure_stream ''b:live'' ''b'' StreamLive (ensure_stream ''b:h'' ''b'' StreamBackfill delivery_new)
     = sample_prepared\<lparr>durable_consumers := []\<rparr>"
  "create_consumer_inner ch 1000 sample_reader ''b:h'' ''reader'' RoleRequired EarliestRetained 1000000000 None
     (sample_prepared\<lparr>durable_consumers := []\<rparr>) = (Ok sample_prepared :: _ delivered)"
  by (simp_all add: sample_prepared_def sample_history_tables_def sample_delivery_defs ensure_stream_def
    create_consumer_inner_def validate_consumer_registration_def
    valid_consumer_id_def portable_byte_def is_ascii_alphanumeric_def MAXIMUM_CONSUMER_LEASE_TTL_def validate_delivery_stream_def usize_i64_def
    ensure_required_consumer_retention_def fetch_stream_def ok_or_def start_sequence_def first_sequence_def
    last_sequence_def stream_rows_def expiry_def set_consumer_def)

lemma sample_created:
  "create_backfill_subscription_job sample_backfill_request ''j'' (sample_job JobQueued) 7 (spool_new\<lparr>sp_delivery := sample_prepared\<rparr>)
     = (Ok (sample_job JobQueued, (sample_spool 0)\<lparr>sp_coverage := []\<rparr>) :: _ delivered)"
  by (simp add: create_backfill_subscription_job_def normalized_subscription_ranges_def normalize_ranges_def sample_backfill_request_def
    range_single_def config_range_def range_new_def saturating_add_def sort_key_def subscription_valid_def batch_limits_valid_def sample_prepared_def
    sample_spool_defs job_identity_def spool_new_def store_subscription_def new_revision_def subscription_columns_def u64_i64_def
    insert_subscription_def live_stream_def new_subscription_row_def same_subscription_def insert_ordinals_def queued_range_def
    range_bounds_def own_ranges_def Let_def ok_or_def last_sequence_def stream_rows_def max_def)

lemma sample_spool_reachable: "(spool_step ch)\<^sup>*\<^sup>* spool_new (sample_spool 1)" "(spool_step ch)\<^sup>*\<^sup>* (sample_spool 0) (sample_spool 2)"
proof -
  let ?db = "\<lambda>db. spool_new\<lparr>sp_delivery := db\<rparr>"
  have new: "spool_new = ?db delivery_new" by (simp add: spool_new_def)
  have db: "spool_step ch (?db a) (?db b)" if "delivery_step ch a b" for a b
    using spool_delivery [of ch "?db a" b] that by simp
  have "spool_step ch spool_new (?db (ensure_stream ''b:h'' ''b'' StreamBackfill delivery_new))"
    using db [OF step_stream, of delivery_new] by (simp only: new [symmetric])
  moreover have "spool_step ch (?db (ensure_stream ''b:h'' ''b'' StreamBackfill delivery_new))
      (?db (sample_prepared\<lparr>durable_consumers := []\<rparr>))"
    using db [OF step_stream] sample_streams(1) by metis
  moreover have "spool_step ch (?db (sample_prepared\<lparr>durable_consumers := []\<rparr>)) (?db sample_prepared)"
    by (rule db [OF step_create [OF sample_streams(2)]])
  moreover have "spool_step ch (?db sample_prepared) ((sample_spool 0)\<lparr>sp_coverage := []\<rparr>)"
    by (rule spool_create [OF sample_created])
      (simp add: request_ok_def sample_backfill_request_def range_ok_def range_single_def)
  moreover have "spool_step ch ((sample_spool 0)\<lparr>sp_coverage := []\<rparr>) (sample_spool 0)"
    using spool_coverage [of ch "(sample_spool 0)\<lparr>sp_coverage := []\<rparr>" "[]" "[((''b'', 6), 6)]"]
    by (simp add: sample_spool_def sample_spool_of_def)
  moreover have "spool_step ch (sample_spool 0) (sample_spool 1)" "spool_step ch (sample_spool 1) (sample_spool 2)"
    by (rule spool_publish [OF sample_publish(2)], rule spool_publish [OF sample_publish(1)])
  ultimately show "(spool_step ch)\<^sup>*\<^sup>* spool_new (sample_spool 1)" "(spool_step ch)\<^sup>*\<^sup>* (sample_spool 0) (sample_spool 2)"
    by (meson rtranclp.rtrancl_into_rtrancl rtranclp.rtrancl_refl)+
qed

text \<open>
  C16: when the publication of a block is admitted and its transaction commits, the block's
  stream retains exactly the block's admitted bytes more (the changes, and 32 bytes for the progress
  record of a backfill stream), every other stream retains what it did, the stream's total stays within
  the limit of its subscription and of the processor, the node's total within the node's budget, and the
  tables stay well formed. A block of a backfill stream is final.
\<close>

theorem block_admission_bounded:
  assumes "publish_block lims database_bytes wal_bytes now desc stream b sp = (Ok sequences :: (_, 'pe store_error) result, sp')"
    and "spool_ok sp" and "delivery_enabled desc"
    and "map_of (delivery_streams (sp_delivery sp)) stream = Some s"
    and "sr_kind s = StreamBackfill \<Longrightarrow> bd_level b = Finalized"
  shows "stream_retained (sp_delivery sp') st = stream_retained (sp_delivery sp) st
      + (if st = stream then int (changes_bytes (admitted_changes desc b)) + (if sr_kind s = StreamBackfill then 32 else 0) else 0)
    \<and> stream_retained (sp_delivery sp') stream \<le> int (unat (admission_limit desc
      (if sr_kind s = StreamBackfill then map_option snd (stream_subscription sp stream) else None)))
    \<and> total_retained (sp_delivery sp') \<le> int (unat (ds_maximum_retained (sl_delivery lims)))
    \<and> spool_ok sp'"
  using publish_block_admitted(1) [OF assms, of "\<lambda>other. other = st"] publish_block_admitted(2-4) [OF assms]
  by (auto simp: stream_retained_def)

lemma sample_spool_ok: "k \<le> 2 \<Longrightarrow> spool_ok (sample_spool k)"
proof -
  assume "k \<le> 2"
  then have "k = 0 \<or> k = 1 \<or> k = 2" by linarith
  then show ?thesis
    by (auto simp: spool_ok_def sample_spool_defs delivery_ok_def delivery_ordered_def stream_ok_def stream_rows_def
      parked_exact_def row_change_bytes_def change_bytes_def backfill_progress_change_def consumer_ok_def split: if_splits)
qed

theorem block_admission_bounded_witness:
  "stream_retained (sp_delivery (sample_spool 2)) ''b:h'' = stream_retained (sp_delivery (sample_spool 1)) ''b:h'' + 34
    \<and> stream_retained (sp_delivery (sample_spool 2)) ''b:h'' \<le> 1000"
  using block_admission_bounded [OF sample_publish(1) sample_spool_ok, of
      "\<lparr>sr_instance = ''b'', sr_kind = StreamBackfill, sr_next_sequence = 3, sr_pruned_through = 0, sr_live_bytes = 34\<rparr>" "''b:h''"]
  by (simp add: sample_spool_defs delivery_enabled_def admission_limit_def stream_subscription_def
    admitted_changes_def changes_bytes_def change_bytes_def)

text \<open>
  C17: a publication that answers with an error, whether its bytes were refused or a later
  part of the transaction failed, leaves every published and parked record, every stream's position and
  byte count and every subscription as they were; only run states and the states of readers may change.
\<close>

theorem refused_block_publishes_nothing:
  assumes "publish_block lims database_bytes wal_bytes now desc stream b sp = (Err e :: (_, 'pe store_error) result, sp')"
  shows "change_log (sp_delivery sp') = change_log (sp_delivery sp)
    \<and> delivery_streams (sp_delivery sp') = delivery_streams (sp_delivery sp)
    \<and> deferred_changes (sp_delivery sp') = deferred_changes (sp_delivery sp)
    \<and> sink_outbox (sp_delivery sp') = sink_outbox (sp_delivery sp)
    \<and> sp_subscriptions sp' = sp_subscriptions sp \<and> sp_jobs sp' = sp_jobs sp"
proof -
  have "sp' = sp\<lparr>sp_delivery := sp_delivery sp'\<rparr>" by (rule publish_block_refused(2) [OF assms])
  then have "sp_subscriptions sp' = sp_subscriptions (sp\<lparr>sp_delivery := sp_delivery sp'\<rparr>)"
    "sp_jobs sp' = sp_jobs (sp\<lparr>sp_delivery := sp_delivery sp'\<rparr>)" by (fact arg_cong)+
  then show ?thesis using publish_block_refused(1) [OF assms] by (simp add: same_records_def)
qed

text \<open>A refusal of a live block: the processor is paused and its reader must start again.\<close>

definition sample_live_spool :: "processor_run_state \<Rightarrow> string option \<Rightarrow> consumer_state \<Rightarrow> spool" where
  "sample_live_spool run reason reader =
     \<lparr>sp_delivery = (sample_deliveries [((''b:live'', ''reader''), (sample_consumer 0 3 1)\<lparr>cr_state := reader\<rparr>)])
        \<lparr>runtime_state := [(''b'', (run, reason))]\<rparr>,
      sp_subscriptions = [], sp_jobs = [], sp_identities = [], sp_owners = [], sp_coverage = [], sp_segments = []\<rparr>"

definition sample_expiring :: processor_descriptor where
  "sample_expiring = sample_reader\<lparr>pd_lifecycle := (pd_lifecycle sample_reader)
     \<lparr>lc_delivery := (lc_delivery (pd_lifecycle sample_reader))\<lparr>dp_on_limit := LimitExpireAndReset\<rparr>\<rparr>\<rparr>"

definition sample_tight :: store_limits where
  "sample_tight = sample_limits\<lparr>sl_delivery := default_delivery_budget\<lparr>ds_maximum_retained := 7\<rparr>\<rparr>"

lemma sample_refused:
  "publish_block sample_tight 4096 0 1000 sample_expiring ''b:live'' (sample_delivered 7 2) (sample_live_spool RunRunning None Active)
     = (Err (DeliveryLimit ''b'' LimitExpireAndReset ''node_total_retained'' 7 8 2) :: _ delivered,
        sample_live_spool RunPaused (Some ''delivery_spool_hard_limit'') ResetRequired)"
  by (simp add: sample_tight_def sample_expiring_def sample_live_spool_def sample_spool_defs publish_block_def
    delivery_enabled_def delivery_stream_is_backfill_def
    fetch_stream_def ok_or_def admitted_bytes_def admitted_changes_def change_bytes_def checked_add_def
    enforce_delivery_capacity_def Let_def stream_subscription_def required_acknowledged_work_def admit_delivery_def
    admission_limit_def stream_delivery_bytes_def i64_u64_def sql_sum_def parked_bytes_def node_bytes_def
    node_delivery_budget_failure_def word_max_def saturating_add_def refuse_delivery_def
    blocks_within_limit_def below_resume_water_def expire_required_consumers_def set_processor_run_state_def)

theorem refused_block_publishes_nothing_witness:
  "change_log (sp_delivery (sample_live_spool RunPaused (Some ''delivery_spool_hard_limit'') ResetRequired))
     = change_log (sp_delivery (sample_live_spool RunRunning None Active))
   \<and> map_of (durable_consumers (sp_delivery (sample_live_spool RunPaused (Some ''delivery_spool_hard_limit'') ResetRequired)))
       (''b:live'', ''reader'') = Some ((sample_consumer 0 3 1)\<lparr>cr_state := ResetRequired\<rparr>)"
  using refused_block_publishes_nothing [OF sample_refused] by (simp add: sample_live_spool_def sample_deliveries_def)

text \<open>
  C18: a request that is not known yet and is accepted is stored with exactly the requested blocks, as
  ranges in normal form, and with exactly the blocks it says are covered, which lie among them; its job and the
  identity of its request are stored with it. A new subscription starts in the requested state, and a new
  recomputation has a higher revision than every subscription of its processor.
\<close>

theorem subscription_created:
  assumes "create_backfill_subscription_job q job row identity sp = (Ok (j, sp') :: (_, 'pe store_error) result)"
    and "request_ok q" and "ordered (sp_subscriptions sp)" and "job_identity sp job = None"
  shows "\<exists>r. map_of (sp_subscriptions sp') (su_id q) = Some r
    \<and> ranges_normal (row_requested r) \<and> blocks_of (row_requested r) = asked_blocks q
    \<and> ranges_normal (row_covered r) \<and> blocks_of (row_covered r) = blocks_of (su_preexisting q)
    \<and> blocks_of (row_covered r) \<subseteq> blocks_of (row_requested r)
    \<and> map_of (sp_jobs sp') job = Some j \<and> job_identity sp' job = Some (jb_kind row, identity)
    \<and> (map_of (sp_subscriptions sp) (su_id q) = None \<longrightarrow> sb_state r = su_state q
         \<and> (sb_mode r = Recompute \<longrightarrow> (\<forall>k r0. map_of (sp_subscriptions sp) k = Some r0 \<longrightarrow>
              sb_instance r0 = su_instance q \<longrightarrow> sb_revision r0 < sb_revision r)))"
proof (rule create_stores [OF assms])
  fix r
  assume r: "map_of (sp_subscriptions sp') (su_id q) = Some r" "ranges_normal (row_requested r)"
    "blocks_of (row_requested r) = asked_blocks q" "ranges_normal (row_covered r)" "blocks_of (row_covered r) = blocks_of (su_preexisting q)"
    "blocks_of (row_covered r) \<subseteq> blocks_of (row_requested r)" "map_of (sp_jobs sp') job = Some j"
    "job_identity sp' job = Some (jb_kind row, identity)"
    and new: "map_of (sp_subscriptions sp) (su_id q) = None \<Longrightarrow>
      sb_state r = su_state q \<and> (sb_mode r = Recompute \<longrightarrow> (\<forall>k r0. map_of (sp_subscriptions sp) k = Some r0 \<longrightarrow>
        sb_instance r0 = su_instance q \<longrightarrow> sb_revision r0 < sb_revision r))"
  show ?thesis
    by (intro exI [of _ r] conjI r impI new) (use new in blast)+
qed

lemma sample_backfill_request_facts:
  "request_ok sample_backfill_request" "ordered (sp_subscriptions (spool_new\<lparr>sp_delivery := sample_prepared\<rparr>))"
  "job_identity (spool_new\<lparr>sp_delivery := sample_prepared\<rparr>) ''j'' = None"
  by (simp_all add: request_ok_def sample_backfill_request_def range_ok_def range_single_def spool_new_def job_identity_def)

theorem subscription_created_witness:
  "map_of (sp_jobs (sample_spool 0)) ''j'' = Some (sample_job JobQueued)
    \<and> (\<exists>r. map_of (sp_subscriptions (sample_spool 0)) ''s'' = Some r \<and> ranges_normal (row_requested r)
        \<and> blocks_of (row_requested r) = {5, 6})"
proof -
  have "asked_blocks sample_backfill_request = {5, 6}"
    by (auto simp: asked_blocks_def sample_backfill_request_def blocks_of_def range_blocks_def range_single_def)
  then show ?thesis
    using subscription_created [OF sample_created sample_backfill_request_facts]
    by (auto simp: sample_backfill_request_def sample_spool_def sample_spool_of_def)
qed

text \<open>
  Sending the same request again, as a client that lost the answer does, returns the same job and
  changes nothing.
\<close>

theorem creation_repeatable:
  assumes "create_backfill_subscription_job q job row identity sp = (Ok (j, sp') :: (_, 'pe store_error) result)"
    and "request_ok q" and "ordered (sp_subscriptions sp)"
  shows "create_backfill_subscription_job q job row identity sp' = (Ok (j, sp') :: (_, 'pe store_error) result)"
  by (rule create_repeated [OF assms])

theorem creation_repeatable_witness:
  "create_backfill_subscription_job sample_backfill_request ''j'' (sample_job JobQueued) 7 ((sample_spool 0)\<lparr>sp_coverage := []\<rparr>)
     = (Ok (sample_job JobQueued, (sample_spool 0)\<lparr>sp_coverage := []\<rparr>) :: _ delivered)"
  by (rule creation_repeatable [OF sample_created sample_backfill_request_facts(1,2)])

text \<open>
  A new subscription reads back as it was requested, with its ranges and its covered blocks in normal
  form and the revision that it was given, and no block of it is committed yet.
\<close>

theorem subscription_read_back:
  assumes "create_backfill_subscription_job q job row identity sp = (Ok (j, sp') :: (_, 'pe store_error) result)"
    and "request_ok q" and "ordered (sp_subscriptions sp)" and "job_identity sp job = None"
    and "\<And>k r. map_of (sp_subscriptions sp) k = Some r \<Longrightarrow> k \<noteq> su_id q \<and> sb_job r \<noteq> job"
  shows "\<exists>ns ps revision. normalized_subscription_ranges q = (Ok ns :: (_, 'pe store_error) result)
    \<and> normalize_ranges (su_preexisting q) = Ok ps
    \<and> backfill_subscription_for_job job sp'
      = (Ok (Some (q\<lparr>su_ranges := ns, su_preexisting := ps, su_revision := revision\<rparr>)) :: (_, 'pe store_error) result)
    \<and> backfill_subscription_range_progress job sp' = (Ok (Some (map (\<lambda>g. (g, 0)) ns)) :: (_, 'pe store_error) result)"
proof (rule create_reads_back [OF assms])
  fix ns ps revision
  assume "normalized_subscription_ranges q = (Ok ns :: (_, 'pe store_error) result)" "normalize_ranges (su_preexisting q) = Ok ps"
    "backfill_subscription_for_job job sp'
      = (Ok (Some (q\<lparr>su_ranges := ns, su_preexisting := ps, su_revision := revision\<rparr>)) :: (_, 'pe store_error) result)"
    "backfill_subscription_range_progress job sp' = (Ok (Some (map (\<lambda>g. (g, 0)) ns)) :: (_, 'pe store_error) result)"
  then show ?thesis by blast
qed

theorem subscription_read_back_witness:
  "\<exists>q. backfill_subscription_for_job ''j'' ((sample_spool 0)\<lparr>sp_coverage := []\<rparr>) = (Ok (Some q) :: _ delivered)
     \<and> su_key q = ''k'' \<and> su_batch_limits q = sample_batch_limits"
proof -
  have "k \<noteq> su_id sample_backfill_request \<and> sb_job r \<noteq> ''j''"
    if "map_of (sp_subscriptions (spool_new\<lparr>sp_delivery := sample_prepared\<rparr>)) k = Some r" for k r
    using that by (simp add: spool_new_def)
  from subscription_read_back [OF sample_created sample_backfill_request_facts this] show ?thesis
    by (auto simp: sample_backfill_request_def)
qed

text \<open>
  C19: in every state the operations reach from an empty store, each subscription is well formed: its
  ranges are in normal form and span its bounds, the blocks covered before lie among them, and no more
  blocks are committed over its ranges than it has processed.
\<close>

theorem subscriptions_sound:
  assumes "(spool_step ch)\<^sup>*\<^sup>* spool_new sp" and "map_of (sp_subscriptions sp) k = Some r"
  shows "ranges_normal (row_requested r) \<and> row_requested r \<noteq> [] \<and> range_start (hd (row_requested r)) = sb_from r
    \<and> range_end (last (row_requested r)) = sb_to r
    \<and> ranges_normal (row_covered r) \<and> blocks_of (row_covered r) \<subseteq> blocks_of (row_requested r)
    \<and> sum_list (map (\<lambda>g. unat (sg_committed g)) (sb_ranges r)) \<le> unat (sb_processed r)"
  using spool_reachable_sound [OF assms] by (simp add: subscription_sound_def committed_def)

theorem subscriptions_sound_witness:
  "row_requested (sample_subscription RangeRunning 1) \<noteq> []
    \<and> sum_list (map (\<lambda>g. unat (sg_committed g)) (sb_ranges (sample_subscription RangeRunning 1))) \<le> 1"
  using subscriptions_sound [OF sample_spool_reachable(1), of "''s''" "sample_subscription RangeRunning 1"]
  by (simp add: sample_spool_def sample_spool_of_def sample_subscription_def)



text \<open>
  C21: when a subscription of a reachable store completes, its stream holds one record for it at the
  returned sequence, and its payload decodes to accounts that count blocks: the requested ones, those covered before
  (all of them for a recomputation), and for a fill the missing ones, all of which were processed; unless the
  subscription had already ended it is draining, and its row names the record.
\<close>

theorem completion_accounts:
  assumes "(spool_step ch)\<^sup>*\<^sup>* spool_new sp"
    and "append_backfill_completion lims database_bytes wal_bytes now desc stream c subscription through sp = (Ok l :: _ delivered, sp')"
    and "completion_record (sp_delivery sp) stream = None"
  shows "\<exists>r r' row m. map_of (sp_subscriptions sp) subscription = Some r \<and> sb_stream r = stream
    \<and> map_of (stream_rows (sp_delivery sp') stream) l = Some row \<and> ch_kind (cl_change row) = BACKFILL_COMPLETE
    \<and> (length (sb_preexisting r) < 2 ^ 32 \<longrightarrow>
         decode_backfill_completion_metadata (ch_payload (cl_change row)) = (Ok m :: _ delivered))
    \<and> unat (cm_requested m) = card (blocks_of (row_requested r))
    \<and> unat (cm_covered m) = (if sb_mode r = Recompute then card (blocks_of (row_requested r)) else card (blocks_of (row_covered r)))
    \<and> (sb_mode r = FillMissing \<longrightarrow> unat (cm_newly_processed m) = card (blocks_of (row_requested r) - blocks_of (row_covered r)))
    \<and> card (blocks_of (row_requested r) - (if sb_mode r = Recompute then {} else blocks_of (row_covered r))) \<le> unat (sb_processed r)
    \<and> map_of (sp_subscriptions sp') subscription = Some r'
    \<and> (\<not> terminal_state (sb_state r) \<longrightarrow> sb_state r' = Draining \<and> sb_completion r' = Some l)"
proof -
  note ok = spool_reachable_ok [OF assms(1)]
  obtain r m row where r: "map_of (sp_subscriptions sp) subscription = Some r" "sb_stream r = stream"
    and m: "backfill_completion_metadata sp stream subscription = (Ok m :: _ delivered)"
    and row: "map_of (stream_rows (sp_delivery sp') stream) l = Some row"
      "cl_change row = \<lparr>ch_kind = BACKFILL_COMPLETE, ch_key = map of_char subscription, ch_operation = Upsert,
       ch_payload = encode_backfill_completion_metadata m\<rparr>"
    and r': "map_of (sp_subscriptions sp') subscription = Some (completed_row l r)"
    using completion_recorded [OF assms(2) conjunct1 [OF ok] conjunct2 [OF ok] assms(3)] by metis
  note counts = completion_counts_blocks [OF spool_reachable_sound [OF assms(1) r(1)] r(1) m]
  obtain r0 where "map_of (sp_subscriptions sp) subscription = Some r0" "metadata_ok m"
    "map (\<lambda>g. (range_start g, range_end g)) (cm_ranges m) = sb_preexisting r0"
    by (rule completion_metadata_Ok [OF m])
  then have "metadata_ok m \<and> length (cm_ranges m) = length (sb_preexisting r)"
    using r(1) length_map [of "\<lambda>g. (range_start g, range_end g)" "cm_ranges m"] by simp
  then have decode: "length (sb_preexisting r) < 2 ^ 32 \<longrightarrow>
      decode_backfill_completion_metadata (ch_payload (cl_change row)) = (Ok m :: _ delivered)"
    unfolding row(2) by (simp add: decode_encode_metadata)
  have kind: "ch_kind (cl_change row) = BACKFILL_COMPLETE" by (simp add: row(2))
  have drain: "\<not> terminal_state (sb_state r) \<longrightarrow>
      sb_state (completed_row l r) = Draining \<and> sb_completion (completed_row l r) = Some l"
    by (simp add: completed_row_def)
  have new: "sb_mode r = FillMissing \<longrightarrow>
      unat (cm_newly_processed m) = card (blocks_of (row_requested r) - blocks_of (row_covered r))"
    using counts(3) by blast
  show ?thesis by (intro exI conjI) (fact r row(1) kind decode counts(1,2) new counts(5) r' drain)+
qed

definition sample_completed :: spool where
  "sample_completed = sample_spool_of (sample_history_tables 5 117)
     ((sample_subscription RangeCommitted 2)\<lparr>sb_state := Draining, sb_completion := Some 5\<rparr>) JobCompleted [((''b'', 6), 6)]"

lemma sample_completion_parts:
  "completion_record (sp_delivery (sample_spool 2)) ''b:h'' = None"
  "enforce_delivery_capacity sample_limits 4096 0 1000 sample_reader ''b:h'' 49 0 (sample_spool 2)
     = (Ok () :: _ delivered, sp_delivery (sample_spool 2))"
  "backfill_completion_metadata (sample_spool 2) ''b:h'' ''s'' = (Ok sample_metadata :: _ delivered)"
proof -
  show "completion_record (sp_delivery (sample_spool 2)) ''b:h'' = None"
    by (simp add: sample_spool_defs completion_record_def stream_rows_def last_sequence_def BACKFILL_COMPLETE_def
      BACKFILL_PROGRESS_def backfill_progress_change_def)
  show "enforce_delivery_capacity sample_limits 4096 0 1000 sample_reader ''b:h'' 49 0 (sample_spool 2)
     = (Ok () :: _ delivered, sp_delivery (sample_spool 2))"
    by (simp add: sample_spool_defs enforce_delivery_capacity_def Let_def fetch_stream_def ok_or_def
      stream_subscription_def required_acknowledged_work_def admit_delivery_def admission_limit_def checked_add_def
      stream_delivery_bytes_def i64_u64_def sql_sum_def parked_bytes_def node_bytes_def node_delivery_budget_failure_def
      word_max_def saturating_add_def saturating_sub_def blocks_within_limit_def below_resume_water_def)
  show "backfill_completion_metadata (sample_spool 2) ''b:h'' ''s'' = (Ok sample_metadata :: _ delivered)"
    by (simp add: sample_spool_defs backfill_completion_metadata_def requested_blocks_def sql_sum_def i64_u64_def
      complete_counts_are_valid_def checked_add_def completion_of_def sample_metadata_def min_def)
qed

lemma sample_completion_published:
  "publish_completion 1000 ''b'' ''b:h'' 1 ''s'' 6 (subscription_origin ''s'' (sample_subscription RangeRunning 2)) (sample_spool 2)
     = (Ok (5, sample_history_tables 5 117) :: _ delivered)"
proof -
  have "length (encode_backfill_completion_metadata sample_metadata) = 48"
    by (simp add: completion_encoding sample_metadata_def)
  moreover have "cm_disposition sample_metadata = PublishedAll" by (simp add: sample_metadata_def)
  ultimately show ?thesis
    unfolding publish_completion_def Let_def sample_completion_parts(3)
    by (simp add: sample_spool_defs u64_i64_def covered_hash_def stored_block_def ok_or_def sort_key_def
      append_changes_def advance_stream_def insert_change_def change_bytes_def usize_i64_def
      fetch_stream_def stream_rows_def BACKFILL_COMPLETE_def BACKFILL_PROGRESS_def backfill_progress_change_def
      subscription_origin_def)
qed

lemma sample_completion:
  "append_backfill_completion sample_limits 4096 0 1000 sample_reader ''b:h'' 1 ''s'' 6 (sample_spool 2)
     = (Ok 5 :: _ delivered, sample_completed)"
proof -
  have tables: "map_of (delivery_streams (sp_delivery (sample_spool 2))) ''b:h''
      = Some \<lparr>sr_instance = ''b'', sr_kind = StreamBackfill, sr_next_sequence = 5, sr_pruned_through = 0, sr_live_bytes = 68\<rparr>"
    and instance_id: "pd_instance sample_reader = ''b''"
    and rows: "sp_subscriptions (sample_spool 2) = [(''s'', sample_subscription RangeRunning 2)]"
      "sp_jobs (sample_spool 2) = [(''j'', sample_job JobQueued)]"
    by (simp_all add: sample_spool_def sample_spool_of_def sample_history_tables_def sample_reader_def)
  have bytes: "completion_bytes ''s'' (sample_subscription RangeRunning 2) = (Ok 49 :: _ delivered)"
    by (simp add: completion_bytes_def checked_add_def saturating_mul_def ok_or_def sample_subscription_def)
  have t: "append_backfill_completion_transaction 1000 ''b'' ''b:h'' 1 ''s'' 6 (sample_spool 2) = (Ok (5, sample_completed) :: _ delivered)"
    using sample_completion_published
    by (simp add: append_backfill_completion_transaction_def sample_completion_parts rows)
      (simp add: sample_subscription_def terminal_state_def sample_job_def sample_completed_def sample_spool_def sample_spool_of_def)
  show ?thesis
    unfolding append_backfill_completion_def Let_def
    by (simp add: validate_delivery_stream_def fetch_stream_def tables instance_id rows ok_or_def bytes sample_completion_parts t)
qed

lemma sample_complete_reachable: "(spool_step ch)\<^sup>*\<^sup>* spool_new (sample_spool 2)"
  using rtranclp.rtrancl_into_rtrancl [OF sample_spool_reachable(1) spool_publish [OF sample_publish(1)]] .

theorem completion_accounts_witness:
  "\<exists>row m. map_of (stream_rows (sp_delivery sample_completed) ''b:h'') 5 = Some row
     \<and> decode_backfill_completion_metadata (ch_payload (cl_change row)) = (Ok m :: _ delivered)
     \<and> unat (cm_requested m) = 2"
proof -
  have "{5..6} = {5, 6 :: u64}" by (rule set_eqI) (auto simp: word_nat)
  then have "blocks_of (row_requested (sample_subscription RangeRunning 2)) = {5, 6}"
    by (simp add: sample_subscription_def row_requested_def blocks_of_def range_blocks_def)
  moreover have "sp_subscriptions (sample_spool 2) = [(''s'', sample_subscription RangeRunning 2)]"
    by (simp add: sample_spool_def sample_spool_of_def)
  ultimately show ?thesis
    using completion_accounts [OF sample_complete_reachable sample_completion sample_completion_parts(1)]
    by (auto simp: sample_subscription_def)
qed

text \<open>
  Completing again after a completion, as a worker that lost the answer does, returns the same
  sequence and writes nothing to the delivery tables, whatever the limits are then.
\<close>

theorem completion_repeatable:
  assumes "(spool_step ch)\<^sup>*\<^sup>* spool_new sp"
    and "append_backfill_completion lims database_bytes wal_bytes now desc stream c subscription through sp = (Ok l :: _ delivered, sp')"
    and "completion_record (sp_delivery sp) stream = None"
  shows "\<exists>sp''. append_backfill_completion lims' database_bytes' wal_bytes' now' desc stream c subscription through' sp'
      = (Ok l :: _ delivered, sp'') \<and> sp_delivery sp'' = sp_delivery sp'"
proof -
  note ok = spool_reachable_ok [OF assms(1)]
  obtain r where r: "map_of (sp_subscriptions sp') subscription = Some (completed_row l r)" "sb_stream r = stream"
    and l: "completion_record (sp_delivery sp') stream = Some l"
    using completion_recorded [OF assms(2) conjunct1 [OF ok] conjunct2 [OF ok] assms(3)] by metis
  have stream: "sb_stream (completed_row l r) = stream" using r(2) by (simp add: completed_row_def)
  obtain s where s: "map_of (delivery_streams (sp_delivery sp)) stream = Some s" "sr_kind s = StreamBackfill"
    "sr_instance s = pd_instance desc"
    by (rule append_completion_stream [OF assms(2)])
  have "delivery_kept (sp_delivery sp) (sp_delivery sp')"
    using spool_step_next [OF spool_complete [OF assms(2)]] ok by (simp add: spool_next_def delivery_next_def)
  then obtain s' where s': "map_of (delivery_streams (sp_delivery sp')) stream = Some s'" "sr_kind s' = StreamBackfill"
    "sr_instance s' = pd_instance desc"
    using s unfolding delivery_kept_def stream_moves_def by metis
  show ?thesis by (rule completion_repeated [OF r(1) stream s' l]) blast
qed

theorem completion_repeatable_witness:
  "\<exists>sp''. append_backfill_completion sample_tight 0 0 2000 sample_reader ''b:h'' 1 ''s'' 6 sample_completed = (Ok 5 :: _ delivered, sp'')
     \<and> sp_delivery sp'' = sp_delivery sample_completed"
  by (rule completion_repeatable [OF sample_complete_reachable sample_completion sample_completion_parts(1)])



section \<open>The fair commit scheduler\<close>

text \<open>
  C23: in every state the scheduler reaches, at most one commit permit is out and the active flag says
  whether one is; a job waits exactly when it is queued or selected, it is queued at most once, and
  the selected job is not queued.
\<close>

theorem commit_turns_exclusive:
  assumes "quantum_step\<^sup>*\<^sup>* (fair_new, []) (s, permits)"
  shows "length permits = (if fc_active s then 1 else 0)
    \<and> distinct (fc_order s)
    \<and> (\<forall>j. waits s j \<longleftrightarrow> j \<in> set (fc_order s) \<or> fc_selected s = Some j)
    \<and> (\<forall>j. fc_selected s = Some j \<longrightarrow> j \<notin> set (fc_order s))"
  using fair.run_keeps [OF assms fair_new_inv] by (simp add: system_inv_def fair_inv_def)

definition sample_registered :: fair_state where
  "sample_registered = fair_new\<lparr>fc_jobs := [(''job'', default_job\<lparr>fj_registered := True\<rparr>)]\<rparr>"

definition sample_waiting :: fair_state where
  "sample_waiting = fair_new\<lparr>fc_order := [''job''],
     fc_jobs := [(''job'', default_job\<lparr>fj_registered := True, fj_waiting := True\<rparr>)]\<rparr>"

theorem commit_turns_exclusive_witness:
  "length ([] :: string list) = 0 \<and> distinct (fc_order sample_waiting) \<and> waits sample_waiting ''job''"
proof -
  have "register_job fair_new ''job'' = Ok sample_registered"
    by (simp add: register_job_def fair_new_def default_job_def sample_registered_def)
  then have "quantum_step (fair_new, []) (sample_registered, [])"
    unfolding quantum_step_def by (rule fair_step.register)
  moreover have "acquire_enqueue sample_registered ''job'' = Ok sample_waiting"
    by (simp add: acquire_enqueue_def fair_new_def default_job_def sample_registered_def sample_waiting_def)
  then have "quantum_step (sample_registered, []) (sample_waiting, [])"
    unfolding quantum_step_def by (rule fair_step.enqueue)
  ultimately have "quantum_step\<^sup>*\<^sup>* (fair_new, []) (sample_waiting, [])"
    by (meson rtranclp.simps)
  from commit_turns_exclusive [OF this] show ?thesis
    by (simp add: sample_waiting_def fair_new_def)
qed

text \<open>
  C24: the selection of the next job ends for every queue and every positive quantum, whatever debts the
  jobs have: it returns a queued job and takes it out of the queue, or reports that the queue is empty.
\<close>

theorem select_terminates:
  assumes "queue_ok s" and "0 < q"
  shows "\<exists>sel s'. select_fair_commit_job q s = Some (sel, s') \<and> queue_ok s'
    \<and> (case sel of
         None \<Rightarrow> fc_order s = [] \<and> fc_order s' = []
       | Some j \<Rightarrow> j \<in> set (fc_order s) \<and> set (fc_order s') = set (fc_order s) - {j})"
  using select_fair_commit_job_spec [OF assms] by blast

theorem select_terminates_witness:
  "\<exists>sel s'. select_fair_commit_job 1 sample_waiting = Some (sel, s') \<and> sel = Some ''job''"
proof -
  have "queue_ok sample_waiting"
    by (simp add: queue_ok_def sample_waiting_def waits_def)
  from select_terminates [OF this, of 1] show ?thesis
    by (auto simp: sample_waiting_def split: option.splits)
qed

text \<open>
  C25: polling for a turn always returns and keeps the scheduler's invariant; a turn is granted only when none
  is out; the job that was selected gets it; and when nobody holds or is selected for the turn but jobs
  wait, the poll grants the turn or selects a job for it.
\<close>

theorem poll_progress:
  assumes "fair_inv s" and "0 < q"
  shows "\<exists>granted s'. acquire_poll q s j = Some (granted, s') \<and> fair_inv s'
    \<and> (granted \<longrightarrow> \<not> fc_active s \<and> fc_active s')
    \<and> (\<not> fc_active s \<and> fc_selected s = Some j \<longrightarrow> granted)
    \<and> (\<not> fc_active s \<and> fc_selected s = None \<and> fc_order s \<noteq> [] \<and> \<not> granted \<longrightarrow>
        (\<exists>k. fc_selected s' = Some k))"
  using acquire_poll_spec [OF assms, of j] by blast

theorem poll_progress_witness:
  "\<exists>granted s'. acquire_poll 1 sample_waiting ''job'' = Some (granted, s') \<and> fair_inv s'"
proof -
  have "fair_inv sample_waiting"
    by (simp add: fair_inv_def sample_waiting_def waits_def fair_new_def)
  from poll_progress [OF this, of 1 "''job''"] show ?thesis by auto
qed

section \<open>Requests, plans and coverage\<close>

text \<open>
  C26: the request compiled for a set of data requirements asks for at least what each of them needs: its
  capabilities, its log fields and its finality; it allows filtered material only if every requirement
  does, and then its filter covers each requirement's filter.
\<close>

theorem compiled_request_serves:
  assumes "q \<in> set reqs"
  shows "cap_contains_all (rq_required (compile_request reqs chain r policy)) (dr_capabilities q)
    \<and> lf_contains_all (rq_log_fields (compile_request reqs chain r policy)) (dr_log_fields q)
    \<and> dr_minimum_finality q \<le> rq_minimum_finality (compile_request reqs chain r policy)
    \<and> (rq_allow_filtered (compile_request reqs chain r policy) \<longrightarrow> dr_allow_filtered q
        \<and> covers (effective_scope (rq_filters (compile_request reqs chain r policy))) (dr_filter q))
    \<and> (\<forall>scope. request_filter_scope (compile_request reqs chain r policy) = Some scope \<longrightarrow>
        covers scope (dr_filter q))"
  using compile_request_covers [OF assms] by blast

definition sample_requirement :: "address list \<Rightarrow> data_requirement" where
  "sample_requirement addresses = \<lparr>dr_capabilities = cap_of Logs, dr_log_fields = lf_none,
     dr_allow_filtered = True, dr_filter = default_scope\<lparr>scope_addresses := addresses\<rparr>,
     dr_minimum_finality = Attested\<rparr>"

theorem compiled_request_serves_witness:
  "sample_requirement [1] \<in> set [sample_requirement [1], sample_requirement [2]]
    \<and> covers (effective_scope (rq_filters (compile_request [sample_requirement [1], sample_requirement [2]]
        1 (range_single 5) BestEffort))) (dr_filter (sample_requirement [1]))"
  using compiled_request_serves [of "sample_requirement [1]"
    "[sample_requirement [1], sample_requirement [2]]" 1 "range_single 5" BestEffort]
  by (simp add: compile_request_def sample_requirement_def)

text \<open>
  A job for a set of well-formed ranges exists, passes its own check when it is loaded, holds exactly
  the requested blocks as ranges in order with holes between them, and its request spans them.
\<close>

theorem job_ranges_cover:
  assumes "rs \<noteq> []" and "list_all range_ok rs" and "pd_requirements desc \<noteq> []"
  shows "\<exists>job. for_processor_ranges job_id desc chain rs policy = Ok job
    \<and> requested_ranges job = Ok (bj_ranges job)
    \<and> blocks_of (bj_ranges job) = blocks_of rs \<and> ranges_normal (bj_ranges job)
    \<and> blocks_of rs \<subseteq> range_blocks (rq_range (bj_request job))"
  using for_processor_ranges_requested [of rs desc job_id chain policy] assms
  by (auto simp: list_all_iff)

definition sample_descriptor :: processor_descriptor where
  "sample_descriptor = \<lparr>pd_id = ''blocks'', pd_instance = ''blocks'', pd_version = ''1'',
     pd_code_hash = 0, pd_config_hash = 0, pd_start = Genesis,
     pd_requirements = [sample_requirement []], pd_mode = BlockLocal,
     pd_delivery_ordering = OrderCanonical, pd_publication = PublishFinalized,
     pd_lifecycle = default_lifecycle,
     pd_schemas = \<lparr>ps_delta_version = 1, ps_entity_schema = ''e'', ps_change_schema = ''c''\<rparr>\<rparr>"

theorem job_ranges_cover_witness:
  "\<exists>job. for_processor_ranges ''j'' sample_descriptor 1 [range_single 9, range_single 3] BestEffort = Ok job
    \<and> blocks_of (bj_ranges job) = blocks_of [range_single 9, range_single 3]"
  using job_ranges_cover [of "[range_single 9, range_single 3]" sample_descriptor "''j''" 1 BestEffort]
  by (auto simp: range_ok_def range_single_def sample_descriptor_def)

text \<open>
  C27: a source plan that passes validation reads exactly the requested blocks, each once and in order, and
  every chunk has the plan's source and schema. The last block number of the type is excluded: there the
  saturating step past the end no longer tells the end from the block before it.
\<close>

theorem plan_exact_cover:
  assumes "plan_validate p = Ok ()" and "list_all (\<lambda>ck. range_ok (ck_range ck)) (pl_chunks p)"
    and "range_end (rq_range (pl_request p)) < word_max"
  shows "concat (map (\<lambda>ck. range_iter (ck_range ck)) (pl_chunks p)) = range_iter (rq_range (pl_request p))
    \<and> list_all (\<lambda>ck. ck_source_id ck = pl_source_id p \<and> ck_schema_version ck = pl_schema_version p)
        (pl_chunks p)"
  using plan_validate_blocks [of p] assms by (simp add: list_all_iff)

definition sample_chunk :: "block_range \<Rightarrow> source_chunk" where
  "sample_chunk r = \<lparr>ck_source_id = ''aws'', ck_range = r, ck_partition = [], ck_schema_version = ''1'',
     ck_expected_parent = None, ck_estimated_bytes = None\<rparr>"

definition sample_request :: "block_range \<Rightarrow> data_request" where
  "sample_request r = compile_request [sample_requirement []] 1 r BestEffort"

definition sample_plan :: "block_range \<Rightarrow> block_range list \<Rightarrow> source_plan" where
  "sample_plan r chunks = \<lparr>pl_source_id = ''aws'', pl_request = sample_request r,
     pl_chunks = map sample_chunk chunks, pl_estimated_bytes = None, pl_estimated_lag = 0,
     pl_supplied = cap_none, pl_complete = cap_none, pl_trust = TrustedDataset,
     pl_schema_version = ''1''\<rparr>"

lemmas plan_defs = sample_plan_def sample_chunk_def sample_request_def compile_request_def

theorem plan_exact_cover_witness:
  "range_iter \<lparr>range_start = 3, range_end = 4\<rparr> @ range_iter \<lparr>range_start = 5, range_end = 9\<rparr>
    = range_iter \<lparr>range_start = 3, range_end = 9\<rparr>"
proof -
  let ?p = "sample_plan \<lparr>range_start = 3, range_end = 9\<rparr>
    [\<lparr>range_start = 3, range_end = 4\<rparr>, \<lparr>range_start = 5, range_end = 9\<rparr>]"
  have "plan_validate ?p = Ok ()"
    by (simp add: plan_validate_def plan_defs saturating_add_def)
  from plan_exact_cover [OF this] show ?thesis
    by (simp add: plan_defs range_ok_def word_max_def)
qed

text \<open>The excluded case: a plan that misses the last block of the type passes validation.\<close>

lemma plan_misses_last_block:
  "plan_validate (sample_plan \<lparr>range_start = 18446744073709551614, range_end = 18446744073709551615\<rparr>
      [range_single 18446744073709551614]) = Ok ()"
  by (simp add: plan_validate_def plan_defs saturating_add_def word_max_def range_single_def)

text \<open>
  C28: the gaps of a request are exactly its blocks that no covered range holds, as well-formed ranges in
  ascending order with covered blocks between them, whatever the order and overlaps of the covered
  ranges.
\<close>

theorem gaps_exact:
  assumes "range_ok requested" and "list_all range_ok covered"
  shows "blocks_of (coverage_gaps requested covered) = range_blocks requested - blocks_of covered
    \<and> list_all range_ok (coverage_gaps requested covered)
    \<and> sorted_wrt gaps_apart (coverage_gaps requested covered)"
  using coverage_gaps_blocks [OF assms(1)] coverage_gaps_apart [OF assms(1)] assms(2)
  by (simp add: list_all_iff)

theorem gaps_exact_witness:
  "blocks_of (coverage_gaps \<lparr>range_start = 1, range_end = 9\<rparr> [range_single 4, range_single 9])
    = {1..9} - {9, 4}"
  using gaps_exact [of "\<lparr>range_start = 1, range_end = 9\<rparr>" "[range_single 4, range_single 9]"]
  by (simp add: range_ok_def range_single_def range_blocks_def blocks_of_def)

text \<open>
  The planner returns a source that can serve the request, with the least key (completeness first when
  preferred, then priority, lag and name) among all sources that can; it fails only when every source
  is rejected, and then reports each with its reason.
\<close>

theorem source_choice:
  "case select_source sources r p of
     Inr s \<Rightarrow> s \<in> set sources \<and> rejection_reason s r p = None
       \<and> list_all (\<lambda>t. source_key r p s \<le> source_key r p t)
           (filter (\<lambda>t. rejection_reason t r p = None) sources)
   | Inl e \<Rightarrow> list_all (\<lambda>s. rejection_reason s r p \<noteq> None) sources
       \<and> e = NoViableSource (map (\<lambda>s. (so_id s, the (rejection_reason s r p))) sources)"
  using select_source_Ok [of sources r p] select_source_Err [of sources r p]
  by (auto simp: list_all_iff split: sum.splits)

text \<open>
  A source is viable exactly when it serves the request's chain, its range holds the request's, it
  supplies the required capabilities (complete ones unless filtering is allowed), it supports the
  finality and it meets both trust floors.
\<close>

theorem viable_source:
  "rejection_reason s r p = None \<longleftrightarrow>
    so_chain_id s = rq_chain_id r
    \<and> (case so_range s of None \<Rightarrow> True | Some held \<Rightarrow> range_start held \<le> range_start (rq_range r)
        \<and> range_end (rq_range r) \<le> range_end held)
    \<and> cap_contains_all (with_derivable
        (if rq_allow_filtered r then so_capabilities s else so_complete_capabilities s)) (rq_required r)
    \<and> supports (so_finality s) (rq_minimum_finality r)
    \<and> max (required_trust (rq_verification_policy r)) (minimum_trust p) \<le> so_trust s"
  by (auto simp: rejection_reason_None split: option.splits)

text \<open>
  Merging ranges keeps their blocks and gives ranges in order that neither overlap nor touch; such a
  list is left as it is.
\<close>

theorem ranges_merged:
  assumes "list_all range_ok rs"
  shows "\<exists>ns. normalize_ranges rs = Ok ns \<and> ranges_normal ns \<and> blocks_of ns = blocks_of rs
    \<and> normalize_ranges ns = Ok ns"
  using normalize_ranges_Ok [of rs] normalize_ranges_normal assms by (auto simp: list_all_iff)

theorem ranges_merged_witness:
  "\<exists>ns. normalize_ranges [range_single 9, range_single 8] = Ok ns \<and> blocks_of ns = {8, 9}"
  using ranges_merged [of "[range_single 9, range_single 8]"]
  by (auto simp: range_ok_def range_single_def blocks_of_def range_blocks_def)

text \<open>
  Merging a sorted list of block numbers into ranges, as the store reports coverage, keeps exactly those
  numbers, in ranges that neither overlap nor touch.
\<close>

theorem numbers_merged:
  assumes "sorted ns"
  shows "\<exists>rs. merge_block_numbers ns = Ok rs \<and> ranges_normal rs \<and> blocks_of rs = set ns"
  by (rule merge_block_numbers_Ok [OF assms])

theorem numbers_merged_witness:
  "\<exists>rs. merge_block_numbers [1, 2, 2, 5] = Ok rs \<and> ranges_normal rs \<and> blocks_of rs = {1, 2, 5}"
  using numbers_merged [of "[1, 2, 2, 5]"] by (simp add: insert_commute)

text \<open>
  The attested head that stays published is one of the heads offered, and none of them has a later
  beacon slot; nothing is published only when nothing was offered.
\<close>

theorem attested_head_latest:
  "case publish_all None heads of
     None \<Rightarrow> heads = []
   | Some l \<Rightarrow> l \<in> set heads \<and> list_all (\<lambda>h. ah_beacon_slot h \<le> ah_beacon_slot l) heads"
  using publish_all_latest [of None heads] by (auto simp: list_all_iff split: option.splits)

text \<open>
  Whatever writer hold times it observes, the adaptive commit size stays between one block and the
  configured maximum, and its sample window never exceeds its size.
\<close>

theorem commit_size_bounded:
  assumes "(adaptive_step configured)\<^sup>*\<^sup>* (adaptive_new configured) s" and "0 < configured"
  shows "1 \<le> maximum_blocks s \<and> maximum_blocks s \<le> configured
    \<and> length (ac_writer_hold_micros s) \<le> ADAPTIVE_COMMIT_SAMPLE_WINDOW"
  using adaptive.run_keeps [OF assms(1)] assms(2)
  by (auto simp: adaptive_ok_def adaptive_new_def maximum_blocks_def)

theorem commit_size_bounded_witness:
  "1 \<le> maximum_blocks (observe (adaptive_new 8) 100 8 10)
    \<and> maximum_blocks (observe (adaptive_new 8) 100 8 10) \<le> 8"
proof -
  have "(adaptive_step 8)\<^sup>*\<^sup>* (adaptive_new 8) (observe (adaptive_new 8) 100 8 10)"
    by (rule r_into_rtranclp) (auto simp: adaptive_step_def)
  from commit_size_bounded [OF this] show ?thesis by simp
qed

section \<open>Frames and what processors accept\<close>

text \<open>
  A frame is accepted for a requirement exactly when its finality suffices, it has the required
  capabilities, its filtered material covers the requirement's filter where filtering is allowed, no
  verification failed, its logs carry the required hashes and every field group of the required
  capabilities is filled.
\<close>

theorem frame_accepted:
  "validate_frame r f = Ok () \<longleftrightarrow>
    dr_minimum_finality r \<le> fr_finality f
    \<and> report_satisfies (capabilities f) (dr_capabilities r) (dr_allow_filtered r)
    \<and> (if dr_allow_filtered r then validate_filtered_material r f = Ok () else True)
    \<and> list_all (\<lambda>c. status c \<noteq> Failed) (report_checks (fr_verification f))
    \<and> (if lf_contains (dr_log_fields r) TransactionHash then \<not> log_hash_missing f else True)
    \<and> list_all (group_filled f) (cap_iter (with_derivable (dr_capabilities r)))"
proof -
  have "has_failures (fr_verification f) \<longleftrightarrow> \<not> list_all (\<lambda>c. status c \<noteq> Failed) (report_checks (fr_verification f))"
    by (auto simp: has_failures_def check_failed_def list_all_iff list_ex_iff)
  then show ?thesis
    by (auto simp: validate_frame_Ok list_all_iff cap_iter_def set_cap_values)
qed





text \<open>
  The check of the field groups finds no violation exactly when every group asked for is filled in the
  components the frame has.
\<close>

theorem groups_filled:
  "group_violation f groups = None \<longleftrightarrow> list_all (group_filled f) (cap_iter groups)"
  by (auto simp: group_violation_None list_all_iff cap_iter_def set_cap_values)

text \<open>
  A frame's shape is accepted exactly when its chain is set, complete transactions and receipts are
  equal in number, no verification check failed and a consensus anchor names the frame's block.
\<close>

theorem shape_accepted:
  "validate_shape f = Ok () \<longleftrightarrow>
    fr_chain_id f \<noteq> 0
    \<and> (case (as_complete (fr_transactions f), as_complete (fr_receipts f)) of
         (Some txs, Some rcs) \<Rightarrow> length txs = length rcs | _ \<Rightarrow> True)
    \<and> list_all (\<lambda>c. status c \<noteq> Failed) (report_checks (fr_verification f))
    \<and> (case vr_consensus_anchor (fr_verification f) of
         None \<Rightarrow> True | Some a \<Rightarrow> ca_execution_block_hash a = hash (fr_block f))"
proof -
  have "has_failures (fr_verification f) \<longleftrightarrow> \<not> list_all (\<lambda>c. status c \<noteq> Failed) (report_checks (fr_verification f))"
    by (auto simp: has_failures_def check_failed_def list_all_iff list_ex_iff)
  then show ?thesis by (auto simp: validate_shape_Ok split: option.splits)
qed

text \<open>
  The estimate of a frame's heap size, computed in saturating 64-bit steps, is the exact number of
  bytes of its parts, capped at the largest 64-bit value.
\<close>

theorem heap_estimate_exact:
  "unat (estimated_heap_bytes l f) = min (frame_bytes l f) (2 ^ 64 - 1)"
  using estimated_heap_bytes_exact [of l f] by (simp add: cap64_def)

text \<open>
  Covering is reflexive and transitive, and a scope that covers another accepts every block, transaction,
  sender and log the other accepts.
\<close>

theorem scope_cover_sound:
  assumes "covers a b" and "covers b c"
  shows "covers a a \<and> covers a c
    \<and> (matches_block c n \<longrightarrow> matches_block a n)
    \<and> (matches_transaction c ty recipient h \<longrightarrow> matches_transaction a ty recipient h)
    \<and> (matches_sender c sender \<longrightarrow> matches_sender a sender)
    \<and> (matches_log c address topics \<longrightarrow> matches_log a address topics)"
proof -
  have ac: "covers a c" using assms by (rule covers_trans)
  then have "covers_values a c" by (simp add: covers_def)
  then show ?thesis
    using ac covers_refl [of a] covers_values_matches
      covers_at_matches_block [OF covers_imp_covers_at [OF ac]] by blast
qed

theorem scope_cover_sound_witness:
  "covers default_scope (default_scope\<lparr>scope_addresses := [1]\<rparr>)
    \<and> matches_log default_scope 1 []"
proof -
  have "covers default_scope (default_scope\<lparr>scope_addresses := [1, 2]\<rparr>)"
    "covers (default_scope\<lparr>scope_addresses := [1, 2]\<rparr>) (default_scope\<lparr>scope_addresses := [1]\<rparr>)"
    by code_simp+
  from scope_cover_sound [OF this, of _ _ _ _ _ 1 "[]"] show ?thesis
    by (simp add: matches_log_iff list_matches_def default_scope_def)
qed

text \<open>
  Two sources are reported equivalent exactly when their frame sequences have the same length and, pair by
  pair, the same block and the same fingerprint of the selected material.
\<close>

theorem sequences_equivalent:
  "is_equivalent (compare_frame_sequences c ls left rs right caps) \<longleftrightarrow>
    list_all2 (same_fingerprint c caps) left right"
  by (rule compare_frame_sequences_equivalent)

text \<open>
  A stream of frames is passed on unchanged up to the first frame that lacks a required field group;
  there it ends with an error that names the missing range from that block on.
\<close>

theorem unfilled_stream_stops:
  "\<exists>k. take k items = takeWhile (\<lambda>i. case i of Inl _ \<Rightarrow> True
        | Inr f \<Rightarrow> group_violation f (with_derivable required) = None) items
    \<and> (if k = length items then stop_at_unfilled_groups items required r available = items
       else \<exists>f. items ! k = Ok f \<and> stop_at_unfilled_groups items required r available =
         take k items @ [Err (MissingMaterial
           [case range_new (number (fr_block f)) (range_end r) of Inr g \<Rightarrow> g | Inl _ \<Rightarrow> r]
           required available)])"
  unfolding stop_at_unfilled_groups_def by (rule stop_scan_prefix)

section \<open>Durable encodings\<close>

text \<open>
  C30: decoding what was encoded returns the value; decoding it as any other kind fails with the two kind
  tags.
\<close>

theorem durable_round_trip:
  assumes "codec_ok cd" and "durable_encode cd kind version v = Ok bs"
  shows "durable_decode cd kind version bs = Ok v
    \<and> (other = kind \<or> durable_decode cd other version' bs = Err (KindMismatch (kind_tag other) (kind_tag kind)))"
  using durable_decode_encode [OF assms] durable_decode_other_kind [OF assms] by blast

theorem durable_round_trip_witness:
  "\<exists>bs. durable_encode (sample_codec True) DurableBlockRef 1 True = Ok bs
    \<and> durable_decode (sample_codec True) DurableBlockRef 1 bs = Ok True"
proof -
  obtain bs where "durable_encode (sample_codec True) DurableBlockRef 1 True = Ok bs"
    by (simp add: durable_encode_def sample_codec_def map_err_def Let_def)
  with durable_round_trip [OF sample_codec_ok this] show ?thesis by blast
qed

text \<open>
  What decodes is an envelope of that kind and version around a payload that decodes, with its length
  and its checksum: no other bytes are accepted.
\<close>

theorem durable_accepts_envelopes:
  assumes "durable_decode cd kind version bs = Ok v"
  shows "\<exists>payload. length payload < 2 ^ 32 \<and> from_bytes cd payload = Ok v
    \<and> bs = envelope_body kind version (of_nat (length payload)) payload
        @ blake3 cd (envelope_body kind version (of_nat (length payload)) payload)"
  using durable_decode_Ok [OF assms] by metis

theorem durable_accepts_envelopes_witness:
  "\<exists>payload. from_bytes (sample_codec True) payload = Ok True
    \<and> length (envelope_body DurableBlockRef 1 1 [1] @ replicate 32 0) = length (envelope_body DurableBlockRef 1
        (of_nat (length payload)) payload) + 32"
proof -
  have "durable_encode (sample_codec True) DurableBlockRef 1 True
      = Ok (envelope_body DurableBlockRef 1 1 [1] @ replicate 32 0)"
    by (simp add: durable_encode_def sample_codec_def map_err_def Let_def)
  then have "durable_decode (sample_codec True) DurableBlockRef 1
      (envelope_body DurableBlockRef 1 1 [1] @ replicate 32 0) = Ok True"
    by (rule durable_decode_encode [OF sample_codec_ok])
  from durable_accepts_envelopes [OF this] show ?thesis
    by (auto simp: sample_codec_def)
qed

text \<open>
  An opaque cursor survives its text form and decodes to the value it was made from, and is refused as
  a cursor of another kind.
\<close>

theorem cursor_round_trip:
  assumes "codec_ok cd" and "cursor_encode cd kind v = Ok cur"
  shows "cursor_parse cd (expose cur) = Ok cur \<and> cursor_decode cd cur kind = Ok v
    \<and> (other = kind \<or> cursor_decode cd cur other = Err (CursorDurable (KindMismatch
        (kind_tag (cursor_durable other)) (kind_tag (cursor_durable kind)))))"
  using cursor_decode_encode [OF assms] by blast

theorem cursor_round_trip_witness:
  "\<exists>cur. cursor_encode (sample_codec True) ChangeCursor True = Ok cur
    \<and> cursor_decode (sample_codec True) cur ChangeCursor = Ok True"
proof -
  obtain cur where "cursor_encode (sample_codec True) ChangeCursor True = Ok cur"
    by (simp add: cursor_encode_def durable_encode_def sample_codec_def map_err_def Let_def)
  with cursor_round_trip [OF sample_codec_ok this] show ?thesis by blast
qed

text \<open>
  A delta made for a processor passes that processor's check, and a checked delta that was encoded decodes
  to itself.
\<close>

theorem delta_round_trip:
  assumes "codec_ok cd"
    and "delta_encode_durable cd show_error (delta_new cd desc chain block payload) = Ok bs"
  shows "delta_validate cd (delta_new cd desc chain block payload) desc = Ok ()
    \<and> delta_decode_durable cd show_error desc bs = Ok (delta_new cd desc chain block payload)"
  using delta_decode_encode [OF assms(1) delta_new_valid assms(2)] delta_new_valid by blast

definition sample_delta :: encoded_delta where
  "sample_delta = \<lparr>ed_processor_id = ''blocks'', ed_processor_version = ''1'', ed_config_hash = 0,
     ed_schema_version = 1, ed_chain_id = 1, ed_block = sample_block 8 80 70, ed_payload = [9],
     ed_checksum = 0\<rparr>"

theorem delta_round_trip_witness:
  "\<exists>bs. delta_encode_durable (sample_codec sample_delta) (\<lambda>_. []) sample_delta = Ok bs
    \<and> delta_decode_durable (sample_codec sample_delta) (\<lambda>_. []) sample_descriptor bs = Ok sample_delta"
proof -
  have new: "delta_new (sample_codec sample_delta) sample_descriptor 1 (sample_block 8 80 70) [9] = sample_delta"
    by (simp add: delta_new_def calculate_checksum_def sample_codec_def sample_delta_def sample_descriptor_def
      from_be_bytes_def be_value_def numeral_eq_Suc)
  obtain bs where bs: "delta_encode_durable (sample_codec sample_delta) (\<lambda>_. []) sample_delta = Ok bs"
    by (simp add: delta_encode_durable_def durable_encode_def sample_codec_def map_err_def Let_def)
  from delta_round_trip [of "sample_codec sample_delta" "\<lambda>_. []" sample_descriptor 1 "sample_block 8 80 70" "[9]"]
  show ?thesis using bs by (simp add: new sample_codec_ok)
qed

text \<open>
  The bytes a delta's checksum covers determine the whole delta but the checksum: two deltas with the
  same input agree in processor, version, configuration, schema, chain, block and payload.
\<close>

theorem checksum_binds_delta:
  assumes "delta_sized a" and "delta_sized b" and "checksum_input a = checksum_input b"
  shows "b = a\<lparr>ed_checksum := ed_checksum b\<rparr>"
  by (rule checksum_input_inject [OF assms])

theorem checksum_binds_delta_witness:
  "sample_delta\<lparr>ed_checksum := 3\<rparr> = sample_delta\<lparr>ed_checksum := ed_checksum (sample_delta\<lparr>ed_checksum := 3\<rparr>)\<rparr>"
  by (rule checksum_binds_delta) (simp_all add: delta_sized_def sample_delta_def checksum_input_def)

text \<open>
  A canonical key has exactly one 48-byte form, every 48 bytes are the form of one key, and the byte order
  of the forms is the order by chain, number and hash.
\<close>

theorem ordered_key_codec:
  "(decode_ordered bs = Ok k \<longleftrightarrow> bs = encode_ordered k)
    \<and> (length bs = encoded_len \<longleftrightarrow> (\<exists>k. bs = encode_ordered k))
    \<and> (encode_ordered a < encode_ordered b \<longleftrightarrow>
        (key_chain_id a, key_number a, key_hash a) < (key_chain_id b, key_number b, key_hash b))"
proof -
  have iff: "decode_ordered bs = Ok k \<longleftrightarrow> bs = encode_ordered k" for k
    using decode_encode_ordered encode_decode_ordered by blast
  have "length bs = encoded_len \<longleftrightarrow> (\<exists>k. decode_ordered bs = Ok k)" by (simp add: decode_ordered_def)
  then show ?thesis using iff encode_ordered_less by blast
qed

section \<open>Slots, ranges and policies\<close>

text \<open>
  Within the range where the arithmetic does not saturate, the slot of a timestamp exists, starts at or
  before it, and the next slot starts after it.
\<close>

theorem slot_brackets_time:
  assumes "slot_fits c ts"
  shows "\<exists>s. slot_at c ts = Ok s \<and> slot_start_ms c s \<le> ts * 1000 \<and> ts * 1000 < slot_start_ms c (s + 1)"
  by (rule slot_at_brackets [OF assms])

definition sample_cadence :: cadence where
  "sample_cadence = \<lparr>genesis_time = 1606824023, seconds = 12, first_block = None, fast_from = None\<rparr>"

theorem slot_brackets_time_witness:
  "\<exists>s. slot_at sample_cadence 1700000000 = Ok s \<and> slot_start_ms sample_cadence s \<le> 1700000000 * 1000"
proof -
  have "slot_fits sample_cadence 1700000000"
    by (simp add: slot_fits_def sample_cadence_def unwrap_or_def)
  from slot_brackets_time [OF this] show ?thesis by blast
qed

text \<open>
  The start of a slot is the exact millisecond count of the cadence, legacy slots before the fast ones, capped
  at the largest 64-bit value; so starts never decrease. A slot found to start at a timestamp does
  start there and is the slot of that timestamp.
\<close>

theorem slot_start_exact:
  "unat (slot_start_ms c s) = min (start_ms c (unat s)) (2 ^ 64 - 1)
    \<and> (s \<le> t \<longrightarrow> slot_start_ms c s \<le> slot_start_ms c t)
    \<and> (slot_fits c ts \<and> slot_starting_at c ts = Ok (Some v) \<longrightarrow> slot_at c ts = Ok v \<and> slot_start c v = ts)"
  using slot_start_ms_exact [of c s] slot_start_ms_mono [of s t c] slot_starting_at_start [of c ts v]
  by (auto simp: cap64_def)

theorem slot_start_exact_witness:
  "unat (slot_start_ms sample_cadence 5) = min (start_ms sample_cadence 5) (2 ^ 64 - 1)
    \<and> slot_at sample_cadence 1606824083 = Ok 5 \<and> slot_start sample_cadence 5 = 1606824083"
proof -
  have "slot_fits sample_cadence 1606824083" "slot_starting_at sample_cadence 1606824083 = Ok (Some 5)"
    by (simp_all add: slot_fits_def slot_starting_at_def sample_cadence_def unwrap_or_def checked_sub_def
      word_rem_def word_div_def)
  with slot_start_exact [of sample_cadence 5 5 1606824083 5] show ?thesis by simp
qed

text \<open>
  The length of a block range is its number of blocks, saturating at the whole 64-bit range, where the
  checked length is absent.
\<close>

theorem range_length:
  assumes "range_new first_number last_number = Ok r"
  shows "unat (range_len r) = min (card (range_blocks r)) (2 ^ 64 - 1)
    \<and> range_checked_len r =
        (if card (range_blocks r) < 2 ^ 64 then Some (of_nat (card (range_blocks r))) else None)
    \<and> set (range_iter r) = {first_number..last_number}"
  using range_new_ok [OF assms] range_len_card range_checked_len_card set_range_iter by auto

theorem range_length_witness:
  "unat (range_len \<lparr>range_start = 3, range_end = 5\<rparr>) = min (card (range_blocks \<lparr>range_start = 3, range_end = 5\<rparr>))
      (2 ^ 64 - 1) \<and> set (range_iter \<lparr>range_start = 3, range_end = 5\<rparr>) = {3..5}"
  using range_length [of 3 5 "\<lparr>range_start = 3, range_end = 5\<rparr>"] by (simp add: range_new_def)

text \<open>
  Lifecycle policies are accepted exactly when windows go with windowed modes and set one positive limit,
  delivery limits are positive, consumers are unique, portable, leased and allowed by the mode, blocks
  published before finality can be undone, and checkpoints and state fit together; the defaults a
  legacy retention setting gives are accepted.
\<close>

theorem lifecycle_accepted:
  "(lifecycle_validate l publication = Ok () \<longleftrightarrow> lifecycle_ok l publication)
    \<and> lifecycle_validate (lifecycle_from_legacy retention) publication = Ok ()"
  using lifecycle_validate_Ok default_lifecycle_ok by blast

text \<open>
  A processor descriptor is accepted exactly when it has requirements, a delta version and schemas, asks
  for log fields only together with logs or receipts, keeps block-versioned delivery to block-local
  processors and has acceptable lifecycle policies.
\<close>

theorem descriptor_accepted:
  "descriptor_validate d = Ok () \<longleftrightarrow>
    pd_requirements d \<noteq> [] \<and> ps_delta_version (pd_schemas d) \<noteq> 0
    \<and> ps_entity_schema (pd_schemas d) \<noteq> [] \<and> ps_change_schema (pd_schemas d) \<noteq> []
    \<and> list_all (\<lambda>r. dr_log_fields r = lf_none \<or> cap_contains (dr_capabilities r) Logs
        \<or> cap_contains (dr_capabilities r) Receipts) (pd_requirements d)
    \<and> (case pd_delivery_ordering d of
         OrderCanonical \<Rightarrow> True | OrderBlockVersionedIdempotent \<Rightarrow> pd_mode d = BlockLocal)
    \<and> lifecycle_ok (pd_lifecycle d) (pd_publication d)"
  by (auto simp: descriptor_validate_Ok list_all_iff split: delivery_ordering.splits)

section \<open>Processors\<close>

text \<open>
  C31: the fee expansion ends on every input and gives the EIP-4844 value over the natural numbers: it
  returns a fee exactly when the denominator is not zero and the expansion, up to its first zero
  term, has no intermediate value beyond 256 bits, and the fee is then the sum of the terms over the
  denominator. A zero denominator and an overflow are the only errors, each with its own message.
\<close>

theorem blob_fee_exact:
  "case fake_exponential f n d of
     Ok v \<Rightarrow> d \<noteq> 0 \<and> (\<exists>k. fee_fits (unat f) (unat n) (unat d) k
       \<and> unat v = fee_sum (unat f) (unat n) (unat d) k div unat d)
   | Err e \<Rightarrow> (if d = 0 then e = InvariantError ''blob fee denominator is zero''
       else (\<nexists>k. fee_fits (unat f) (unat n) (unat d) k) \<and> e = fee_overflow)"
proof (cases "fake_exponential f n d")
  case (Inr v)
  then show ?thesis using fake_exponential_exact [of f n d v] by simp
next
  case (Inl e)
  show ?thesis
  proof (cases "d = 0")
    case True
    then show ?thesis using Inl by (simp add: fake_exponential_def)
  next
    case False
    have "\<not> fee_fits (unat f) (unat n) (unat d) k" for k
    proof
      assume fits: "fee_fits (unat f) (unat n) (unat d) k"
      let ?v = "fee_sum (unat f) (unat n) (unat d) k div unat d"
      have "fee_sum (unat f) (unat n) (unat d) k < 2 ^ 256" using fits by (simp add: fee_fits_def)
      then have "?v < 2 ^ 256" using div_le_dividend [of "fee_sum (unat f) (unat n) (unat d) k" "unat d"] by linarith
      then have "unat (of_nat ?v :: 256 word) = ?v" by (simp add: unat_of_nat)
      then have "fake_exponential f n d = Ok (of_nat ?v)"
        using fake_exponential_exact [of f n d "of_nat ?v"] False fits by blast
      then show False using Inl by simp
    qed
    then show ?thesis using Inl False fake_exponential_error [OF Inl] by simp
  qed
qed

text \<open>
  C32: a blob base fee is at least the minimum of one wei, at most the exponential of the excess blob gas over
  the update fraction, and it does not fall when the excess grows.
\<close>

theorem blob_fee_bounds:
  assumes "get_blob_base_fee excess fraction = Ok fee" and "get_blob_base_fee excess' fraction = Ok fee'" and "excess \<le> excess'"
  shows "1 \<le> unat fee \<and> real (unat fee) \<le> exp (real (unat excess) / real (unat fraction)) \<and> fee \<le> fee'"
  using fee_bounds [OF assms(1)] fee_monotone [OF assms] by blast

lemma sample_fees:
  "get_blob_base_fee 0 1 = Ok 1" "get_blob_base_fee 3 1 = Ok 16"
  by (simp_all add: get_blob_base_fee_def fake_exponential_def MIN_BLOB_BASE_FEE_def fee_loop.simps checked_times_def checked_add_def)

theorem blob_fee_bounds_witness:
  "get_blob_base_fee 0 1 = Ok 1 \<and> get_blob_base_fee 3 1 = Ok 16 \<and> (16 :: real) \<le> exp 3"
  using blob_fee_bounds [OF sample_fees(2) sample_fees(2)] sample_fees by simp

text \<open>
  C33: the delta of an accepted frame accounts for its blobs: the blob gas of the header is 131072 times the
  blob count, the count is that of the versioned hashes of all type-3 transactions of the frame, each of
  which has one entity, the blob burn of the block is the sum of theirs, and each total is the sum of its parts.
\<close>

theorem blobs_accounted:
  assumes "derive s desc f = Ok d"
  shows "unat (bb_blob_gas_used (bd_entity d)) = 131072 * unat (bb_blob_count (bd_entity d))
    \<and> unat (bb_blob_count (bd_entity d)) = (\<Sum>e\<leftarrow>bd_transactions d. length (bt_versioned_hashes e))
    \<and> (case bb_blob_burn (bd_entity d) of None \<Rightarrow> 0 | Some b \<Rightarrow> unat b) = (\<Sum>e\<leftarrow>bd_transactions d. unat (bt_blob_burn e))
    \<and> list_all (\<lambda>e. unat (bt_total_burn e) = unat (bt_execution_burn e) + unat (bt_blob_burn e)) (bd_transactions d)
    \<and> (\<exists>txs. as_present (fr_transactions f) = Some txs
        \<and> mset (map bt_transaction_hash (bd_transactions d)) = mset (map tx_hash (filter (\<lambda>tx. tx_type tx = 3) txs)))"
  using derive_accounts [OF assms] by (simp add: list_all_iff)

definition sample_blob_header :: header_envelope where
  "sample_blob_header = \<lparr>hd_rlp = None, hd_transactions_root = None, hd_receipts_root = None, hd_withdrawals_root = None,
     hd_gas_limit = Some 30000000, hd_gas_used = Some 21000, hd_base_fee_per_gas = Some 7, hd_blob_gas_used = Some 262144,
     hd_excess_blob_gas = Some 0, hd_size_bytes = Some 900, hd_transaction_count = Some 1, hd_consensus_size_bytes = None\<rparr>"

definition sample_blob_tx :: transaction_envelope where
  "sample_blob_tx = \<lparr>tx_hash = 21, tx_type = 3, tx_index = 0, tx_encoded = None, tx_from = Some 1, tx_to = Some 2,
     tx_nonce = Some 0, tx_gas_limit = Some 21000, tx_value = Some 0, tx_input = None, tx_max_fee_per_gas = None,
     tx_max_priority_fee_per_gas = None, tx_max_fee_per_blob_gas = Some 5, tx_blob_versioned_hashes = [91, 92],
     tx_size_bytes = None\<rparr>"

definition sample_blob_receipt :: receipt_envelope where
  "sample_blob_receipt = \<lparr>rc_transaction_hash = 21, rc_transaction_type = 3, rc_transaction_index = 0, rc_encoded = None,
     rc_success = Some True, rc_gas_used = Some 21000, rc_effective_gas_price = Some 7, rc_blob_gas_used = Some 262144,
     rc_blob_gas_price = None, rc_logs = []\<rparr>"

definition sample_blob_frame :: block_frame where
  "sample_blob_frame = (sample_frame (sample_block 19426600 80 70\<lparr>timestamp := 1710338200\<rparr>))\<lparr>
     fr_header := Complete sample_blob_header, fr_transactions := Complete [sample_blob_tx],
     fr_receipts := Complete [sample_blob_receipt]\<rparr>"

definition sample_blobs_descriptor :: processor_descriptor where
  "sample_blobs_descriptor = \<lparr>pd_id = ''blobs-money'', pd_instance = ''blobs'', pd_version = ''1.6.0'',
     pd_code_hash = 1, pd_config_hash = 2, pd_start = StartBlock 19426589, pd_requirements = [blobs_requirement],
     pd_mode = BlockLocal, pd_delivery_ordering = OrderBlockVersionedIdempotent, pd_publication = PublishAttested,
     pd_lifecycle = lifecycle_from_legacy FullOutputHistory,
     pd_schemas = \<lparr>ps_delta_version = 3, ps_entity_schema = ''blobs.entity.v4'', ps_change_schema = ''blobs.block-bundle.v1''\<rparr>\<rparr>"

definition sample_blob_entity :: blob_transaction where
  "sample_blob_entity = \<lparr>bt_network = ''mainnet'', bt_block_number = 19426600, bt_block_hash = 80,
     bt_transaction_hash = 21, bt_transaction_index = 0, bt_sender = 1, bt_to = 2, bt_versioned_hashes = [91, 92],
     bt_blob_count = 2, bt_total_burn = 409144, bt_execution_burn = 147000, bt_blob_burn = 262144\<rparr>"

lemma sample_validated: "validate_frame blobs_requirement sample_blob_frame = Ok ()"
  by code_simp

lemma sample_mapped_transaction:
  "map_transaction sample_blob_frame sample_blob_tx sample_blob_receipt 1 7 ''mainnet'' = Ok sample_blob_entity"
  by (simp add: map_transaction_def sample_blob_tx_def sample_blob_receipt_def sample_blob_entity_def sample_blob_frame_def
    sample_frame_def sample_block_def required_value_def checked_mul_def checked_times_def checked_add_def ok_or_def
    saturating_mul_def BLOB_GAS_PER_BLOB_def is_some_and_def Let_def)

definition sample_blob_block :: blobs_block where
  "sample_blob_block = \<lparr>bb_network = ''mainnet'', bb_block_number = 19426600, bb_block_hash = 80, bb_parent_hash = 70,
     bb_timestamp = 1710338200, bb_finality = Attested, bb_size_bytes = 900, bb_blob_count = 2, bb_blob_gas_used = 262144,
     bb_excess_blob_gas = 0, bb_blob_base_fee = 1, bb_execution_base_fee = 7, bb_gas_used = 21000, bb_gas_limit = 30000000,
     bb_execution_burn = 147000, bb_blob_burn = Some 262144, bb_reserve_fee = None, bb_transaction_count = 1,
     bb_target_blobs = 3, bb_max_blobs = 6, bb_transform_version = 4\<rparr>"

definition sample_blobs_delta :: blobs_delta where
  "sample_blobs_delta = \<lparr>bd_entity = sample_blob_block, bd_transactions = [sample_blob_entity]\<rparr>"

lemma sample_blob_parameters: "parameters_at_timestamp mainnet_schedule 1710338200
    = Some \<lparr>bp_target_blobs = 3, bp_max_blobs = 6, bp_target_blob_gas = 393216, bp_max_blob_gas = 786432,
        bp_update_fraction = 3338477, bp_eip7918 = False\<rparr>"
  by (simp add: parameters_at_timestamp_def fork_at_timestamp_def mainnet_schedule_def saturating_mul_def BLOB_GAS_PER_BLOB_def)

lemma sample_zero_excess: "get_blob_base_fee 0 3338477 = Ok 1"
  by (simp add: get_blob_base_fee_def fake_exponential_def MIN_BLOB_BASE_FEE_def fee_loop.simps checked_times_def checked_add_def)

lemma sample_derived: "derive mainnet_schedule sample_blobs_descriptor sample_blob_frame = Ok sample_blobs_delta"
proof -
  have req: "hd (pd_requirements sample_blobs_descriptor) = blobs_requirement" by (simp add: sample_blobs_descriptor_def)
  have parts: "fr_chain_id sample_blob_frame = 1" "bs_chain_id mainnet_schedule = 1" "bs_network mainnet_schedule = ''mainnet''"
    "fr_block sample_blob_frame = \<lparr>number = 19426600, hash = 80, parent_hash = 70, timestamp = 1710338200\<rparr>"
    "fr_header sample_blob_frame = Complete sample_blob_header" "fr_transactions sample_blob_frame = Complete [sample_blob_tx]"
    "fr_receipts sample_blob_frame = Complete [sample_blob_receipt]" "fr_finality sample_blob_frame = Attested"
    by (simp_all add: sample_blob_frame_def sample_frame_def sample_block_def mainnet_schedule_def)
  have tx: "tx_type sample_blob_tx = 3" "tx_hash sample_blob_tx = 21" "rc_transaction_hash sample_blob_receipt = 21"
    "bt_blob_count sample_blob_entity = 2"
    by (simp_all add: sample_blob_tx_def sample_blob_receipt_def sample_blob_entity_def)
  show ?thesis
    unfolding derive_def req
    by (simp add: sample_validated parts sample_blob_parameters sample_blob_header_def required_value_def ok_or_def
      sample_zero_excess optional_def checked_mul_def checked_times_def tx sample_mapped_transaction checked_add_def
      sample_blobs_delta_def sample_blob_block_def TRANSFORM_VERSION_def BLOB_GAS_PER_BLOB_def map_err_def Let_def)
qed

theorem blobs_accounted_witness:
  "derive mainnet_schedule sample_blobs_descriptor sample_blob_frame = Ok sample_blobs_delta
    \<and> unat (bb_blob_gas_used sample_blob_block) = 131072 * 2 \<and> bb_blob_burn sample_blob_block = Some 262144"
  using blobs_accounted [OF sample_derived] sample_derived
  by (simp add: sample_blobs_delta_def sample_blob_block_def)

text \<open>
  C34: when the mapped delta of a frame is reduced, the reducer publishes one change for the block, with the
  encoded delta, and leaves the block under its number and every type-3 transaction under its hash,
  with the index row of its block.
\<close>

theorem blob_block_stored:
  assumes "blobs_wire_ok w" and "hd (pd_requirements desc) = blobs_requirement"
    and "blobs_map c w s desc f = Ok delta"
    and "blobs_reduce c w desc db cursor delta ov = Ok (changes, ov')" and "overlay_ok db ov"
  shows "\<exists>d p b. derive s desc f = Ok d \<and> bw_delta w d = Ok p \<and> bw_block w (bd_entity d) = Ok b
    \<and> changes = [\<lparr>ch_kind = ''blobs.block'', ch_key = to_be_bytes 8 (number (fr_block f)), ch_operation = Upsert, ch_payload = p\<rparr>]
    \<and> rv_changes ov' = rv_changes ov @ changes \<and> overlay_ok db ov'
    \<and> entity_view db ov' (BLOCK_COLLECTION, to_be_bytes 8 (number (fr_block f))) = Some b
    \<and> list_all (\<lambda>e. \<exists>q. bw_transaction w e = Ok q
        \<and> entity_view db ov' (TRANSACTION_COLLECTION, to_be_bytes 32 (bt_transaction_hash e)) = Some q
        \<and> index_view db ov' (TRANSACTION_BLOCK_INDEX, to_be_bytes 8 (number (fr_block f)), to_be_bytes 32 (bt_transaction_hash e)))
        (bd_transactions d)"
  by (rule mapped_block_reduced [OF assms]) (auto simp: list_all_iff)

definition sample_blobs_wire :: "unit blobs_wire" where
  "sample_blobs_wire = \<lparr>bw_schedule = (\<lambda>_. Ok [3]),
     bw_delta = (\<lambda>d. if d = sample_blobs_delta then Ok [4] else Err ()),
     bw_delta_from = (\<lambda>bs. if bs = [4] then Ok sample_blobs_delta else Err ()),
     bw_block = (\<lambda>_. Ok [5]), bw_transaction = (\<lambda>_. Ok [6])\<rparr>"

definition empty_pdb :: processor_db where
  "empty_pdb = \<lparr>entities = [], entity_indexes = [], processor_state = [], output_entity_meta = []\<rparr>"

definition sample_blobs_cursor :: processor_cursor where
  "sample_blobs_cursor = \<lparr>pc_processor_id = ''blobs-money'', pc_processor_version = ''1.6.0'', pc_chain_id = 1,
     pc_block_number = 19426600, pc_block_hash = 80, pc_finality = Attested, pc_sequence = 1\<rparr>"

theorem blob_block_stored_witness:
  "\<exists>delta changes ov'. blobs_map (sample_codec sample_delta) sample_blobs_wire mainnet_schedule sample_blobs_descriptor
      sample_blob_frame = Ok delta
    \<and> blobs_reduce (sample_codec sample_delta) sample_blobs_wire sample_blobs_descriptor empty_pdb sample_blobs_cursor delta
        (overlay_new ''blobs'') = Ok (changes, ov')
    \<and> entity_view empty_pdb ov' (TRANSACTION_COLLECTION, to_be_bytes 32 (21 :: 256 word)) = Some [6]"
proof -
  let ?c = "sample_codec sample_delta" and ?b = "\<lparr>number = 19426600, hash = 80, parent_hash = 70, timestamp = 1710338200\<rparr>"
  let ?delta = "delta_new ?c sample_blobs_descriptor 1 ?b [4]"
  have fr: "fr_chain_id sample_blob_frame = 1" "fr_block sample_blob_frame = ?b"
    by (simp_all add: sample_blob_frame_def sample_frame_def sample_block_def)
  have map: "blobs_map ?c sample_blobs_wire mainnet_schedule sample_blobs_descriptor sample_blob_frame = Ok ?delta"
    by (simp add: blobs_map_def sample_derived sample_blobs_wire_def map_err_def fr)
  have cursor: "validate_delta_cursor ?c sample_blobs_descriptor sample_blobs_cursor ?delta = Ok ()"
    by (simp add: validate_delta_cursor_def delta_new_valid) (simp add: delta_new_def sample_blobs_descriptor_def sample_blobs_cursor_def Let_def)
  have d: "ed_payload ?delta = [4]" "ed_block ?delta = ?b" by (simp_all add: delta_new_def Let_def)
  obtain changes ov' where run: "blobs_reduce ?c sample_blobs_wire sample_blobs_descriptor empty_pdb sample_blobs_cursor ?delta
      (overlay_new ''blobs'') = Ok (changes, ov')"
    by (simp add: blobs_reduce_def cursor d sample_blobs_wire_def sample_blobs_delta_def sample_blob_block_def map_err_def Let_def)
  have wire: "blobs_wire_ok sample_blobs_wire" by (simp add: blobs_wire_ok_def sample_blobs_wire_def)
  have req: "hd (pd_requirements sample_blobs_descriptor) = blobs_requirement" by (simp add: sample_blobs_descriptor_def)
  have "entity_view empty_pdb ov' (TRANSACTION_COLLECTION, to_be_bytes 32 (21 :: 256 word)) = Some [6]"
    using blob_block_stored [OF wire req map run overlay_new_ok]
    by (auto simp: sample_derived sample_blobs_delta_def sample_blob_entity_def sample_blobs_wire_def)
  then show ?thesis using map run by blast
qed

text \<open>
  C35: over a run of committed blocks, a watched pair that is not given up holds exactly, in integers,
  what it held before plus the transfers to it minus the transfers from it in the logs of the blocks'
  frames; and a pair of an allowlisted token that is declared complete is never given up.
\<close>

theorem erc20_balances_exact:
  assumes "erc20_wire_ok w" and "tables_ordered db" and "tracked cfg account"
    and "list_all (\<lambda>(now, cursor, f, delta). erc20_map c w keccak256 cfg desc f = Ok delta) blocks"
    and "reduce_blocks c desc (erc20_reduce c w cfg desc) (map (\<lambda>(now, cursor, f, delta). (now, cursor, delta)) blocks) db
      = (Ok db' :: (_, 'pe store_error) result)"
    and "standings w (state_base db (pd_instance desc)) (token, account) = (before, None)"
    and "ec_complete_from_start cfg \<and> token \<in> set (ec_tokens cfg)
      \<or> snd (standings w (state_base db' (pd_instance desc)) (token, account)) = None"
  shows "\<exists>after. standings w (state_base db' (pd_instance desc)) (token, account) = (after, None)
    \<and> int (unat after) = int (unat before)
      + (\<Sum>(now, cursor, f, delta)\<leftarrow>blocks. \<Sum>g\<leftarrow>frame_logs f. log_amount keccak256 cfg (token, account) g)"
proof -
  let ?k = "(token, account)"
  let ?bs = "map (\<lambda>(now, cursor, f, delta). (now, cursor, delta)) blocks"
  note r = erc20_run [OF assms(5,2,1)]
  have unmarked: "snd (standings w (state_base db' (pd_instance desc)) ?k) = None"
    using assms(6,7) r(2) by (auto simp: marks_kept_def)
  have "(\<Sum>(block, e)\<leftarrow>concat (map (delta_events w \<circ> snd) ?bs). credit cfg ?k e - debit cfg ?k e)
      = (\<Sum>(now, cursor, f, delta)\<leftarrow>blocks. \<Sum>g\<leftarrow>frame_logs f. log_amount keccak256 cfg ?k g)"
    using assms(4)
  proof (induction blocks)
    case Nil
    then show ?case by simp
  next
    case (Cons b blocks)
    then show ?case using assms(3) by (cases b) (auto simp: mapped_sum [OF _ assms(1)])
  qed
  moreover note run_accounts [of cfg "concat (map (delta_events w \<circ> snd) ?bs)" "standings w (state_base db (pd_instance desc))" ?k, folded r(1), OF unmarked]
  ultimately show ?thesis
    using unmarked assms(6) by (cases "standings w (state_base db' (pd_instance desc)) ?k") simp
qed

definition sample_erc20_config :: erc20_config where
  "sample_erc20_config = \<lparr>ec_start_block = 1, ec_addresses = [1, 2], ec_tokens = [3], ec_complete_from_start = True\<rparr>"

definition sample_erc20_descriptor :: processor_descriptor where
  "sample_erc20_descriptor = \<lparr>pd_id = ''erc20-balances'', pd_instance = ''erc20'', pd_version = ''1.1.0'',
     pd_code_hash = 1, pd_config_hash = 2, pd_start = StartBlock 1,
     pd_requirements = [erc20_requirement (\<lambda>_. 77) sample_erc20_config],
     pd_mode = OrderedState, pd_delivery_ordering = OrderCanonical, pd_publication = PublishAttested,
     pd_lifecycle = lifecycle_from_legacy LatestState,
     pd_schemas = \<lparr>ps_delta_version = 2, ps_entity_schema = ''erc20.balance.entity.v2'', ps_change_schema = ''erc20.balance.change.v2''\<rparr>\<rparr>"

definition sample_transfer :: "topic \<Rightarrow> topic \<Rightarrow> 256 word \<Rightarrow> u32 \<Rightarrow> log" where
  "sample_transfer sender recipient v i = \<lparr>log_address = 3, log_topics = [77, sender, recipient], log_data = to_be_bytes 32 v,
     log_transaction_hash = Some 7, log_transaction_index = 0, log_index = i\<rparr>"

text \<open>A mint of 100 to account 1, which then sends 40 to account 2.\<close>

definition sample_erc20_frame :: block_frame where
  "sample_erc20_frame = (sample_frame (sample_block 8 80 70))\<lparr>fr_logs :=
     Complete [sample_transfer 0 1 100 0, sample_transfer 1 2 40 1]\<rparr>"

definition sample_events :: transfer_delta where
  "sample_events = \<lparr>td_events =
     [\<lparr>te_token = 3, te_from = 0, te_to = 1, te_value = 100, te_log_index = 0\<rparr>,
      \<lparr>te_token = 3, te_from = 1, te_to = 2, te_value = 40, te_log_index = 1\<rparr>], td_skipped_logs = 0\<rparr>"

definition sample_erc20_cursor :: processor_cursor where
  "sample_erc20_cursor = \<lparr>pc_processor_id = ''erc20-balances'', pc_processor_version = ''1.1.0'', pc_chain_id = 1,
     pc_block_number = 8, pc_block_hash = 80, pc_finality = Attested, pc_sequence = 1\<rparr>"

definition sample_balance :: "address \<Rightarrow> 256 word \<Rightarrow> token_balance" where
  "sample_balance account b = balance_entity sample_erc20_config sample_erc20_cursor (3, account)
     \<lparr>pl_balance = b, pl_incomplete_from = None, pl_frozen = False\<rparr>"

definition sample_erc20_wire :: "unit erc20_wire" where
  "sample_erc20_wire = \<lparr>ew_config = (\<lambda>_. Ok [3]),
     ew_delta = (\<lambda>d. if d = sample_events then Ok [4] else Err ()),
     ew_delta_from = (\<lambda>bs. if bs = [4] then Ok sample_events else Err ()),
     ew_balance = (\<lambda>e. if e = sample_balance 1 60 then Ok [5] else if e = sample_balance 2 40 then Ok [6] else Err ()),
     ew_balance_from = (\<lambda>bs. if bs = [5] then Ok (sample_balance 1 60) else if bs = [6] then Ok (sample_balance 2 40) else Err ())\<rparr>"

lemma sample_erc20_wire_ok: "erc20_wire_ok sample_erc20_wire"
  by (simp add: erc20_wire_ok_def sample_erc20_wire_def split: if_splits)

lemma sample_topics: "topic_address 0 = Some 0" "topic_address 1 = Some 1" "topic_address 2 = Some 2"
  by (simp_all add: topic_address_exact)

lemma sample_fields:
  "transfer_fields (sample_transfer 0 1 v i) = Some (0, 1, v)" "transfer_fields (sample_transfer 1 2 v i) = Some (1, 2, v)"
  by (simp_all add: transfer_fields_def sample_transfer_def sample_topics from_to_be_bytes)

lemma sample_map_logs:
  "map_logs (\<lambda>_. 77) sample_erc20_config [sample_transfer 0 1 100 0, sample_transfer 1 2 40 1] [] 0 = (td_events sample_events, 0)"
  by (simp add: sample_fields) (simp add: transfer_candidate_def sample_transfer_def transfer_topic_def sample_erc20_config_def
    watched_def sample_events_def)

lemma sample_transfers_valid: "validate_frame (erc20_requirement (\<lambda>_. 77) sample_erc20_config) sample_erc20_frame = Ok ()"
  by code_simp
lemma sample_keys: "balance_key 3 1 < balance_key 3 2" "balance_key 3 2 \<noteq> balance_key 3 1"
  by (simp_all add: balance_key_def append_less_append to_be_bytes_less to_be_bytes_inject)

lemmas sample_erc20_defs = sample_erc20_config_def sample_erc20_descriptor_def sample_erc20_cursor_def sample_erc20_wire_def

definition sample_erc20_delta :: encoded_delta where
  "sample_erc20_delta = delta_new (sample_codec sample_delta) sample_erc20_descriptor 1 (sample_block 8 80 70) [4]"

lemma sample_erc20_mapped:
  "erc20_map (sample_codec sample_delta) sample_erc20_wire (\<lambda>_. 77) sample_erc20_config sample_erc20_descriptor sample_erc20_frame
    = Ok sample_erc20_delta"
proof -
  have parts: "fr_logs sample_erc20_frame = Complete [sample_transfer 0 1 100 0, sample_transfer 1 2 40 1]"
    "fr_chain_id sample_erc20_frame = 1" "fr_block sample_erc20_frame = sample_block 8 80 70"
    by (simp_all add: sample_erc20_frame_def sample_frame_def)
  have req: "hd (pd_requirements sample_erc20_descriptor) = erc20_requirement (\<lambda>_. 77) sample_erc20_config"
    by (simp add: sample_erc20_descriptor_def)
  have sorted: "\<lparr>td_events = sort_key te_log_index (td_events sample_events), td_skipped_logs = 0\<rparr> = sample_events"
    by (simp add: sample_events_def)
  have encoded: "ew_delta sample_erc20_wire sample_events = Ok [4]" by (simp add: sample_erc20_wire_def)
  show ?thesis
    unfolding erc20_map_def req sample_transfers_valid parts
    by (simp add: sample_map_logs sorted encoded sample_erc20_delta_def map_err_def del: map_logs.simps)
qed

lemma sample_erc20_reduced:
  "\<exists>db'. reduce_blocks (sample_codec sample_delta) sample_erc20_descriptor
      (erc20_reduce (sample_codec sample_delta) sample_erc20_wire sample_erc20_config sample_erc20_descriptor)
      [(1000, sample_erc20_cursor, sample_erc20_delta)] empty_pdb = (Ok db' :: (_, unit store_error) result)"
proof -
  let ?c = "sample_codec sample_delta"
  have valid: "delta_validate ?c sample_erc20_delta sample_erc20_descriptor = Ok ()"
    unfolding sample_erc20_delta_def by (rule delta_new_valid)
  have d: "ed_payload sample_erc20_delta = [4]" "ed_block sample_erc20_delta = sample_block 8 80 70"
    "ed_chain_id sample_erc20_delta = 1"
    by (simp_all add: sample_erc20_delta_def delta_new_def Let_def)
  have cursor: "validate_delta_cursor ?c sample_erc20_descriptor sample_erc20_cursor sample_erc20_delta = Ok ()"
    "validate_cursor sample_erc20_cursor sample_erc20_descriptor sample_erc20_delta = Ok ()"
    by (simp_all add: validate_delta_cursor_def validate_cursor_def valid d)
      (simp_all add: sample_erc20_descriptor_def sample_erc20_cursor_def sample_block_def)
  let ?l = "\<lambda>b. \<lparr>pl_balance = b, pl_incomplete_from = None, pl_frozen = False\<rparr>"
  let ?events = "apply_events sample_erc20_wire sample_erc20_config empty_pdb 8 (td_events sample_events) ([], overlay_new ''erc20'')"
  let ?ov = "\<lparr>rv_instance = ''erc20'', rv_state =
      [((BALANCE_COLLECTION, balance_key 3 1), \<lparr>ov_before = None, ov_after = None\<rparr>),
       ((BALANCE_COLLECTION, balance_key 3 2), \<lparr>ov_before = None, ov_after = None\<rparr>)],
      rv_entities = [], rv_indexes = [], rv_changes = [], rv_window_dependent = False\<rparr>"
  have events: "?events = Ok ([((3, 1), ?l 60), ((3, 2), ?l 40)], ?ov)"
    using sample_keys by (simp add: sample_events_def load_ledger_def sample_erc20_config_def watched_def debit_sender_def
      credit_recipient_def update_balance_def pair_ledger_new_def state_get_def load_state_def load_value_def
      overlay_new_def empty_pdb_def checked_add_def checked_sub_def ok_or_def Let_def)
  have payloads: "ew_balance sample_erc20_wire (balance_entity sample_erc20_config sample_erc20_cursor (3, 1) (?l 60)) = Ok [5]"
    "ew_balance sample_erc20_wire (balance_entity sample_erc20_config sample_erc20_cursor (3, 2) (?l 40)) = Ok [6]"
    by (simp_all add: sample_erc20_wire_def sample_balance_def) (simp add: balance_entity_def)
  let ?put = "\<lambda>account p ov. emit \<lparr>ch_kind = ''erc20.balance'', ch_key = balance_key 3 account, ch_operation = Upsert,
      ch_payload = p\<rparr> (entity_put empty_pdb BALANCE_COLLECTION (balance_key 3 account) p
      (state_put empty_pdb BALANCE_COLLECTION (balance_key 3 account) p ov))"
  let ?out = "?put 2 [6] (?put 1 [5] ?ov)"
  have written: "write_balances sample_erc20_wire sample_erc20_config empty_pdb sample_erc20_cursor
      [((3, 1), ?l 60), ((3, 2), ?l 40)] ([], ?ov) = Ok (rv_changes ?out, ?out)"
    by (simp add: payloads map_err_def Let_def)
  have reduced: "erc20_reduce ?c sample_erc20_wire sample_erc20_config sample_erc20_descriptor empty_pdb sample_erc20_cursor
      sample_erc20_delta (overlay_new ''erc20'') = Ok (rv_changes ?out, ?out)"
  proof -
    have "ew_delta_from sample_erc20_wire [4] = Ok sample_events" "pc_block_number sample_erc20_cursor = 8"
      by (simp_all add: sample_erc20_wire_def sample_erc20_cursor_def)
    then show ?thesis unfolding erc20_reduce_def cursor d using events written
      by (simp add: map_err_def del: write_balances.simps apply_events.simps)
  qed
  have ok: "overlay_ok empty_pdb ?ov"
    using apply_events_loaded [OF events loaded_Nil overlay_new_ok refl] by blast
  note w1 = balance_written [OF ok, of _ "balance_key 3 1" "[5]"]
  note w2 = balance_written [OF w1(2), of _ "balance_key 3 2" "[6]"]
  have views: "state_view empty_pdb ?ov = (\<lambda>_. None)" "entity_view empty_pdb ?ov = (\<lambda>_. None)" "index_view empty_pdb ?ov = (\<lambda>_. False)"
    by (auto simp: views seen_def state_base_def entity_base_def index_base_def empty_pdb_def fun_eq_iff split: option.splits)
  have out: "state_view empty_pdb ?out = (\<lambda>_. None)((BALANCE_COLLECTION, balance_key 3 1) \<mapsto> [5], (BALANCE_COLLECTION, balance_key 3 2) \<mapsto> [6])"
    "entity_view empty_pdb ?out = (\<lambda>_. None)((BALANCE_COLLECTION, balance_key 3 1) \<mapsto> [5], (BALANCE_COLLECTION, balance_key 3 2) \<mapsto> [6])"
    unfolding w2(1,3) w1(1,3) views by (rule refl)+
  have small: "length v < 2 ^ 63" if v: "full_view empty_pdb ?out t = Some v" for t v
  proof (cases t)
    case (EntityAt c k)
    show ?thesis using v unfolding EntityAt full_view.simps out by (auto split: if_splits)
  next
    case (IndexAt n ik ek)
    show ?thesis using v unfolding IndexAt by (auto split: if_splits)
  next
    case (StateAt n k)
    show ?thesis using v unfolding StateAt full_view.simps out by (auto split: if_splits)
  qed
  have storable: "block_storable (sample_block 8 80 70)" by (simp add: block_storable_def sample_block_def)
  have "\<exists>db'. apply_mutations (rv_instance ?out) (mb_mutations (into_batch ?out)) False
      (retains_processor_output sample_erc20_descriptor) (sample_block 8 80 70) Attested 1000 empty_pdb
      = (Ok db' :: (_, unit store_error) result)"
    by (rule batch_apply_total [OF w2(2) storable]) (rule small)
  then obtain db' where applied: "apply_mutations ''erc20'' (mb_mutations (into_batch ?out)) False
      (retains_processor_output sample_erc20_descriptor) (sample_block 8 80 70) Attested 1000 empty_pdb
      = (Ok db' :: (_, unit store_error) result)"
    by auto
  have "pd_instance sample_erc20_descriptor = ''erc20''" "pc_finality sample_erc20_cursor = Attested"
    by (simp_all add: sample_erc20_descriptor_def sample_erc20_cursor_def)
  then have "reduce_block ?c sample_erc20_descriptor (erc20_reduce ?c sample_erc20_wire sample_erc20_config sample_erc20_descriptor)
      (1000, sample_erc20_cursor, sample_erc20_delta) empty_pdb
      = (Ok (mb_changes (into_batch ?out), db') :: (_, unit store_error) result)"
    unfolding reduce_block_def split Let_def using reduced applied by (simp add: valid cursor d del: other_changes)
  then show ?thesis by (simp del: other_changes)
qed

theorem erc20_balances_exact_witness:
  "\<exists>db' sent received. reduce_blocks (sample_codec sample_delta) sample_erc20_descriptor
      (erc20_reduce (sample_codec sample_delta) sample_erc20_wire sample_erc20_config sample_erc20_descriptor)
      [(1000, sample_erc20_cursor, sample_erc20_delta)] empty_pdb = (Ok db' :: (_, unit store_error) result)
    \<and> standings sample_erc20_wire (state_base db' ''erc20'') (3, 1) = (sent, None) \<and> unat sent = 60
    \<and> standings sample_erc20_wire (state_base db' ''erc20'') (3, 2) = (received, None) \<and> unat received = 40"
proof -
  obtain db' where run: "reduce_blocks (sample_codec sample_delta) sample_erc20_descriptor
      (erc20_reduce (sample_codec sample_delta) sample_erc20_wire sample_erc20_config sample_erc20_descriptor)
      [(1000, sample_erc20_cursor, sample_erc20_delta)] empty_pdb = (Ok db' :: (_, unit store_error) result)"
    using sample_erc20_reduced by blast
  let ?blocks = "[(1000, sample_erc20_cursor, sample_erc20_frame, sample_erc20_delta)]"
  have mapped: "list_all (\<lambda>(now, cursor, f, delta). erc20_map (sample_codec sample_delta) sample_erc20_wire (\<lambda>_. 77)
      sample_erc20_config sample_erc20_descriptor f = Ok delta) ?blocks"
    by (simp add: sample_erc20_mapped)
  have run': "reduce_blocks (sample_codec sample_delta) sample_erc20_descriptor
      (erc20_reduce (sample_codec sample_delta) sample_erc20_wire sample_erc20_config sample_erc20_descriptor)
      (map (\<lambda>(now, cursor, f, delta). (now, cursor, delta)) ?blocks) empty_pdb = (Ok db' :: (_, unit store_error) result)"
    using run by simp
  have tr: "tracked sample_erc20_config 1" "tracked sample_erc20_config 2"
    by (simp_all add: tracked_def watched_def sample_erc20_config_def)
  have start: "standings sample_erc20_wire (state_base empty_pdb (pd_instance sample_erc20_descriptor)) k = (0, None)" for k
    by (cases k) (simp add: standings_def state_base_def empty_pdb_def)
  have complete: "ec_complete_from_start sample_erc20_config \<and> 3 \<in> set (ec_tokens sample_erc20_config)
      \<or> snd (standings sample_erc20_wire (state_base db' (pd_instance sample_erc20_descriptor)) (3, a)) = None" for a
    by (simp add: sample_erc20_config_def)
  have ordered: "tables_ordered empty_pdb" by (simp add: tables_ordered_def empty_pdb_def)
  have logs: "frame_logs sample_erc20_frame = [sample_transfer 0 1 100 0, sample_transfer 1 2 40 1]"
    by (simp add: frame_logs_def sample_erc20_frame_def)
  have amounts: "log_amount (\<lambda>_. 77) sample_erc20_config (3, 1) (sample_transfer 0 1 100 0) = 100"
    "log_amount (\<lambda>_. 77) sample_erc20_config (3, 1) (sample_transfer 1 2 40 1) = - 40"
    "log_amount (\<lambda>_. 77) sample_erc20_config (3, 2) (sample_transfer 0 1 100 0) = 0"
    "log_amount (\<lambda>_. 77) sample_erc20_config (3, 2) (sample_transfer 1 2 40 1) = 40"
    by (simp_all add: log_amount_def log_transfer_def sample_fields)
      (simp_all add: transfer_candidate_def sample_transfer_def transfer_topic_def sample_erc20_config_def)
  have i: "pd_instance sample_erc20_descriptor = ''erc20''" by (simp add: sample_erc20_descriptor_def)
  note exact = erc20_balances_exact [OF sample_erc20_wire_ok ordered _ mapped run' start complete]
  obtain sent where sent: "standings sample_erc20_wire (state_base db' ''erc20'') (3, 1) = (sent, None)" "int (unat sent) = int 60"
    using exact [OF tr(1)] by (auto simp: i logs amounts)
  obtain received where received: "standings sample_erc20_wire (state_base db' ''erc20'') (3, 2) = (received, None)"
      "int (unat received) = int 40"
    using exact [OF tr(2)] by (auto simp: i logs amounts)
  have "unat sent = 60" "unat received = 40"
    using sent(2) received(2) by (simp_all only: of_nat_eq_iff)
  then show ?thesis using run sent(1) received(1) by blast
qed

text \<open>
  A run of committed blocks changes no pair that was given up before and no pair of an account that is
  not watched, and it leaves the rows of every other processor instance as they were.
\<close>

theorem erc20_untouched:
  assumes "erc20_wire_ok w" and "tables_ordered db"
    and "reduce_blocks c desc (erc20_reduce c w cfg desc) bs db = (Ok db' :: (_, 'pe store_error) result)"
    and "snd (standings w (state_base db (pd_instance desc)) k) \<noteq> None \<or> \<not> tracked cfg (snd k)" and "i \<noteq> pd_instance desc"
  shows "standings w (state_base db' (pd_instance desc)) k = standings w (state_base db (pd_instance desc)) k
    \<and> contents db' i = contents db i"
proof
  let ?S = "standings w (state_base db (pd_instance desc))"
  have "fold (event_step cfg) bes ?S k = ?S k" for bes
    using assms(4) run_marked [of ?S k cfg bes] run_untracked [of cfg k bes ?S] by blast
  then show "standings w (state_base db' (pd_instance desc)) k = ?S k" unfolding erc20_run(1) [OF assms(3,2,1)] .
  show "contents db' i = contents db i" using erc20.run_steps [OF assms(3,2)] assms(5) by blast
qed

theorem erc20_untouched_witness:
  "\<exists>db'. reduce_blocks (sample_codec sample_delta) sample_erc20_descriptor
      (erc20_reduce (sample_codec sample_delta) sample_erc20_wire sample_erc20_config sample_erc20_descriptor)
      [(1000, sample_erc20_cursor, sample_erc20_delta)] empty_pdb = (Ok db' :: (_, unit store_error) result)
    \<and> standings sample_erc20_wire (state_base db' ''erc20'') (3, 9) = (0, None) \<and> contents db' ''other'' = contents empty_pdb ''other''"
proof -
  obtain db' where run: "reduce_blocks (sample_codec sample_delta) sample_erc20_descriptor
      (erc20_reduce (sample_codec sample_delta) sample_erc20_wire sample_erc20_config sample_erc20_descriptor)
      [(1000, sample_erc20_cursor, sample_erc20_delta)] empty_pdb = (Ok db' :: (_, unit store_error) result)"
    using sample_erc20_reduced by blast
  have ordered: "tables_ordered empty_pdb" by (simp add: tables_ordered_def empty_pdb_def)
  have i: "pd_instance sample_erc20_descriptor = ''erc20''" by (simp add: sample_erc20_descriptor_def)
  have unwatched: "snd (standings sample_erc20_wire (state_base empty_pdb (pd_instance sample_erc20_descriptor)) (3, 9)) \<noteq> None
      \<or> \<not> tracked sample_erc20_config (snd (3 :: address, 9))"
    by (simp add: tracked_def watched_def sample_erc20_config_def)
  have "''other'' \<noteq> pd_instance sample_erc20_descriptor" by (simp add: i)
  from erc20_untouched [OF sample_erc20_wire_ok ordered run unwatched this]
  have "standings sample_erc20_wire (state_base db' ''erc20'') (3, 9) = (0, None)" "contents db' ''other'' = contents empty_pdb ''other''"
    by (simp_all add: i standings_def state_base_def empty_pdb_def)
  then show ?thesis using run by blast
qed

section \<open>The L1 anchor\<close>

text \<open>
  C36: the ledger makes a block final only when the registry's anchor moves to a game, and only the
  block that this game stood for: the game came with the ledger's file, or it was created while the
  ledger held a block the sequencer had signed, at the claimed height or time, whose output root is the
  claimed one; the final block is that block.
\<close>

theorem anchored_blocks_were_claimed:
  assumes "fst (ledger_apply persist op (ledger_after persist ops (ledger_load path stored capacity))) = Ok (Some (n, block))"
  shows "\<exists>game. op = OpObserve (AnchorUpdated game)
    \<and> (map_of (gl_games (ledger_load path stored capacity)) game = Some (n, block) \<or> claimed_over ops game n block)"
proof -
  let ?l0 = "ledger_load path stored capacity"
  obtain game where op: "op = OpObserve (AnchorUpdated game)" using only_anchors_finalize [OF assms] by blast
  have "map_of (gl_games (ledger_after persist ops ?l0)) game = Some (n, block)"
    by (rule anchor_finalizes) (use assms op in simp)
  then show ?thesis
    using ledger_after_sound [OF ledger_load_start(2,1), of path stored capacity ops persist] op
    unfolding ledger_sound_def by blast
qed

definition sample_ledger_ops :: "ledger_op list" where
  "sample_ledger_ops = [OpRecord 5 50 7 100, OpRecord 6 60 8 112, OpObserve (GameCreated 9 (ClaimedTime 100) 7),
     OpObserve (GameCreated 10 (ClaimedNumber 6) 99)]"

theorem anchored_blocks_were_claimed_witness:
  "fst (ledger_apply (\<lambda>_. Ok () :: (unit, unit) result) (OpObserve (AnchorUpdated 9))
      (ledger_after (\<lambda>_. Ok ()) sample_ledger_ops (ledger_load None None 4))) = Ok (Some (5, 50))
    \<and> claimed_over sample_ledger_ops 9 5 50"
proof -
  have run: "fst (ledger_apply (\<lambda>_. Ok () :: (unit, unit) result) (OpObserve (AnchorUpdated 9))
      (ledger_after (\<lambda>_. Ok ()) sample_ledger_ops (ledger_load None None 4))) = Ok (Some (5, 50))"
    by (simp add: ledger_after_def sample_ledger_ops_def ledger_load_def record_block_def signed_block_def ledger_save_def Let_def)
  from anchored_blocks_were_claimed [OF run] run show ?thesis by (simp add: ledger_load_def)
qed

text \<open>
  C37: whatever is recorded and observed, the ledger holds at most as many signed blocks as its capacity,
  all of them recorded, and a recorded height it does not hold is below every one it holds, with the
  ledger full.
\<close>

theorem newest_signed_blocks:
  "let l = ledger_after persist ops (ledger_load path stored capacity); held = fst ` set (gl_signed l)
   in length (gl_signed l) \<le> capacity \<and> held \<subseteq> recorded ops
     \<and> recorded ops - held \<subseteq> {n. length (gl_signed l) = capacity \<and> held \<subseteq> {k. n < k}}"
  using ledger_after_newest [OF ledger_load_start(1), of path stored capacity ops persist]
  unfolding newest_kept_def Let_def by (auto simp: ledger_load_def)

text \<open>
  C38: a game's creation call reads back: the extra data is found behind any heads and tails that both creation
  functions put before it, and a super root in it yields the time and the rollup's own output root, or
  nothing when the rollup is not in it.
\<close>

theorem game_claims_read:
  assumes "selector \<in> set CREATE_SELECTORS" and "length between + length (super_root time outputs) + 128 < 2 ^ 64"
  shows "Option.bind (extra_data (creation_call selector kind claim between (super_root time outputs) rest))
      (\<lambda>extra. claimed keccak256 extra SuperRoots (keccak256 (super_root time outputs)) chain_id)
    = map_option (Pair (ClaimedTime time)) (map_of outputs (ucast chain_id))"
  by (simp add: extra_data_creation_call [OF assms] claimed_super_root del: claimed.simps)

theorem game_claims_read_witness:
  "Option.bind (extra_data (creation_call [0x10, 0x11, 0xf3, 0x77] 4 1 (replicate 32 0) (super_root 12 [(10, 77), (20, 88)]) []))
      (\<lambda>extra. claimed (\<lambda>_. 5) extra SuperRoots 5 20) = Some (ClaimedTime 12, 88)"
  using game_claims_read [of "[0x10, 0x11, 0xf3, 0x77]" "replicate 32 0" 12 "[(10, 77), (20, 88)]" 4 1 "[]" "\<lambda>_. 5" 20]
  by (simp add: CREATE_SELECTORS_def super_root_def)

text \<open>
  C39: a lane that is stopped between two events and started again with the cursor it left behaves as if it had
  gone on: the same ranges are read, the same observations are sent after those sent before, with the
  game type respected by then, and the run ends with the same result.
\<close>

theorem lane_resumes:
  assumes "lane_rounds keccak256 read_frames persist is (lane_start c cursor room) = Some s1"
  shows "lane_run keccak256 read_frames persist (is @ js) (lane_start c cursor room)
    = (let (r, s2) = lane_run keccak256 read_frames persist js (lane_start c (lane_cursor s1) (lane_room s1))
       in (r, lane_after (lane_reads s1) (lane_sent s1) s2))"
  by (rule lane_restart [OF assms])

definition sample_lane_config :: lane_config where
  "sample_lane_config = \<lparr>lc_anchor = DisputeGames 1 2 0 OutputRoots, lc_lookback = 2, lc_chain_id = 10,
     lc_system_config = None, lc_follow_game_type = True\<rparr>"

text \<open>A block in which the registry comes to respect game type 8.\<close>

definition sample_type_frame :: "block_number \<Rightarrow> block_frame" where
  "sample_type_frame n = (sample_frame (sample_block n 80 70))\<lparr>fr_logs := Complete [\<lparr>log_address = 2,
     log_topics = [RESPECTED_GAME_TYPE_SET], log_data = to_be_bytes 32 (8 :: 256 word), log_transaction_hash = None,
     log_transaction_index = 0, log_index = 0\<rparr>]\<rparr>"

lemma sample_type_observed:
  "observe_frame keccak256 (DisputeGames 1 2 t OutputRoots) 10 None (sample_type_frame n) = [GameTypeChanged 8]"
  by (simp add: observe_frame_def sample_type_frame_def List.map_filter_def get_at_def get_range_def narrow_def
    from_to_be_bytes ANCHOR_UPDATED_def RESPECTED_GAME_TYPE_SET_def Let_def)

lemma sample_lane_rounds:
  "\<exists>s1. lane_rounds (\<lambda>_. 0) (\<lambda>r tip. Ok [sample_type_frame (ft_number tip)]) (\<lambda>_. Ok ()) [LaneEvent (Ok (EventFinalized 5 80 1 0))]
      (lane_start sample_lane_config None (Suc 2)) = Some s1
    \<and> lc_anchor (lane_config s1) = DisputeGames 1 2 8 OutputRoots \<and> lane_sent s1 = [GameTypeChanged 8]
    \<and> lane_room s1 = 2 \<and> lane_reads s1 = [\<lparr>range_start = 3, range_end = 5\<rparr>]
    \<and> lane_cursor s1 = Some \<lparr>ac_number = 5, ac_hash = 80, ac_learned = \<lparr>ln_signer = None, ln_game_type = Some 8\<rparr>\<rparr>"
  by (simp add: read_range_def lane_first_def lane_start_def sample_lane_config_def learned_default_def saturating_sub_def
    range_new_def links_def sample_type_observed respect_def Let_def)

theorem lane_resumes_witness:
  "\<exists>s1 s2. lane_rounds (\<lambda>_. 0) (\<lambda>r tip. Ok [sample_type_frame (ft_number tip)]) (\<lambda>_. Ok ())
      [LaneEvent (Ok (EventFinalized 5 80 1 0))] (lane_start sample_lane_config None (Suc 2)) = Some s1
    \<and> lane_run (\<lambda>_. 0) (\<lambda>r tip. Ok [sample_type_frame (ft_number tip)]) (\<lambda>_. Ok ())
        ([LaneEvent (Ok (EventFinalized 5 80 1 0))] @ [LaneCancelled]) (lane_start sample_lane_config None (Suc 2))
      = (Ok (), lane_after (lane_reads s1) (lane_sent s1) s2)"
proof -
  obtain s1 where s1: "lane_rounds (\<lambda>_. 0) (\<lambda>r tip. Ok [sample_type_frame (ft_number tip)]) (\<lambda>_. Ok ())
      [LaneEvent (Ok (EventFinalized 5 80 1 0))] (lane_start sample_lane_config None (Suc 2)) = Some s1"
    using sample_lane_rounds by blast
  from lane_resumes [OF s1, of "[LaneCancelled]"] s1 show ?thesis by (auto simp: Let_def)
qed



end
